(* ===== verification/Prelude.thy ===== *)
theory Prelude
  imports Main "HOL-Library.Word" "HOL-Library.Sublist"
begin

text \<open>
  Shared vocabulary of the development: machine integers, the error-result type and its
  sequencing operator, the parts of the C++ standard library the sources call on strings
  (\<^verbatim>\<open>std::to_string\<close>, \<^verbatim>\<open>std::stoi\<close>, \<^verbatim>\<open>std::isdigit\<close>, \<^verbatim>\<open>ends_with\<close>), and the generic
  lemmas on lists, words and results that the component theories use.
\<close>

section \<open>Machine integers and results\<close>

type_synonym u8 = "8 word"
type_synonym u16 = "16 word"
type_synonym u32 = "32 word"
type_synonym u64 = "64 word"

text \<open>
  A fallible operation returns \<open>Inl\<close> of the reported error or \<open>Inr\<close> of its result. The
  operator \<open>bindE\<close> runs the continuation on success and returns the error unchanged, the
  way every \<^verbatim>\<open>if (!res.success) return res;\<close> of the sources does.
\<close>

type_synonym 'a result = "string + 'a"

fun bindE :: "'e + 'a \<Rightarrow> ('a \<Rightarrow> 'e + 'b) \<Rightarrow> 'e + 'b" where
  "bindE (Inl e) f = Inl e"
| "bindE (Inr x) f = f x"

text \<open>A check that must hold for the code to go on.\<close>

definition guardE :: "bool \<Rightarrow> 'e \<Rightarrow> 'e + unit" where
  "guardE b e = (if b then Inr () else Inl e)"

text \<open>A loop over the elements of a list whose body may return early with an error.\<close>

primrec foldE :: "('a \<Rightarrow> 's \<Rightarrow> 'e + 's) \<Rightarrow> 'a list \<Rightarrow> 's \<Rightarrow> 'e + 's" where
  "foldE f [] s = Inr s"
| "foldE f (x # xs) s = bindE (f x s) (foldE f xs)"

named_theorems result_simps \<open>inversion of successful results\<close>

section \<open>Characters and strings of the C++ library\<close>

abbreviation NUL :: char where "NUL \<equiv> CHR 0x00"
abbreviation TAB :: char where "TAB \<equiv> CHR 0x09"
abbreviation NEWLINE :: char where "NEWLINE \<equiv> CHR 0x0A"
abbreviation CR :: char where "CR \<equiv> CHR 0x0D"
abbreviation ESC :: char where "ESC \<equiv> CHR 0x1B"
abbreviation QUOTE :: char where "QUOTE \<equiv> CHR 0x22"
abbreviation SQUOTE :: char where "SQUOTE \<equiv> CHR 0x27"
abbreviation BACKSLASH :: char where "BACKSLASH \<equiv> CHR 0x5C"

text \<open>The character classes of the "C" locale.\<close>

definition char_code :: "char \<Rightarrow> nat" where
  "char_code c = of_char c"

definition isdigit :: "char \<Rightarrow> bool" where
  "isdigit c \<longleftrightarrow> 48 \<le> char_code c \<and> char_code c \<le> 57"

definition isalpha :: "char \<Rightarrow> bool" where
  "isalpha c \<longleftrightarrow> (65 \<le> char_code c \<and> char_code c \<le> 90) \<or> (97 \<le> char_code c \<and> char_code c \<le> 122)"

definition isalnum :: "char \<Rightarrow> bool" where
  "isalnum c \<longleftrightarrow> isalpha c \<or> isdigit c"

definition isspace :: "char \<Rightarrow> bool" where
  "isspace c \<longleftrightarrow> char_code c = 32 \<or> (9 \<le> char_code c \<and> char_code c \<le> 13)"

text \<open>\<^verbatim>\<open>std::to_string\<close> on unsigned values: decimal digits without leading zeros.\<close>

definition digit_char :: "nat \<Rightarrow> char" where
  "digit_char d = char_of (48 + d)"

fun to_string :: "nat \<Rightarrow> string" where
  "to_string n = (if n < 10 then [digit_char n] else to_string (n div 10) @ [digit_char (n mod 10)])"

declare to_string.simps [simp del]

text \<open>
  \<^verbatim>\<open>std::stoi\<close>: skip white space, read an optional sign and the longest run of decimal
  digits, ignore the rest of the string. It throws when there is no digit or the value is
  not an \<^verbatim>\<open>int\<close>; both are \<open>None\<close> here, since every caller catches them alike.
\<close>

definition digits_value :: "string \<Rightarrow> nat" where
  "digits_value ds = foldl (\<lambda>v c. 10 * v + (char_code c - 48)) 0 ds"

definition stoi :: "string \<Rightarrow> int option" where
  "stoi s =
     (let s1 = dropWhile isspace s;
          neg = (s1 \<noteq> [] \<and> hd s1 = CHR ''-'');
          s2 = (if s1 \<noteq> [] \<and> (hd s1 = CHR ''-'' \<or> hd s1 = CHR ''+'') then tl s1 else s1);
          ds = takeWhile isdigit s2;
          v = (if neg then - int (digits_value ds) else int (digits_value ds))
      in if ds = [] then None
         else if v < - (2 ^ 31) \<or> 2 ^ 31 \<le> v then None
         else Some v)"

definition ends_with :: "string \<Rightarrow> string \<Rightarrow> bool" where
  "ends_with s suf \<longleftrightarrow> length suf \<le> length s \<and> drop (length s - length suf) s = suf"

section \<open>Lemmas on results\<close>

lemma bindE_cong [fundef_cong]:
  "\<lbrakk> m = m'; \<And>x. m' = Inr x \<Longrightarrow> f x = g x \<rbrakk> \<Longrightarrow> bindE m f = bindE m' g"
  by (cases m') auto

lemma bindE_Inr_iff [result_simps]:
  "bindE m f = Inr y \<longleftrightarrow> (\<exists>x. m = Inr x \<and> f x = Inr y)"
  by (cases m) auto

lemma bindE_Inl_iff:
  "bindE m f = Inl e \<longleftrightarrow> m = Inl e \<or> (\<exists>x. m = Inr x \<and> f x = Inl e)"
  by (cases m) auto

lemma guardE_Inr_iff [result_simps]: "guardE b e = Inr u \<longleftrightarrow> b"
  by (auto simp: guardE_def)

lemma guardE_True [simp]: "guardE True e = Inr ()"
  by (simp add: guardE_def)

lemma guardE_False [simp]: "guardE False e = Inl e"
  by (simp add: guardE_def)

lemma foldE_append: "foldE f (xs @ ys) s = bindE (foldE f xs s) (foldE f ys)"
proof (induction xs arbitrary: s)
  case (Cons x xs)
  then show ?case by (cases "f x s") auto
qed simp

text \<open>A loop that succeeds keeps what each round keeps.\<close>

lemma foldE_invariant:
  assumes "foldE f xs s = Inr s'" "P s" "\<And>x t t'. x \<in> set xs \<Longrightarrow> P t \<Longrightarrow> f x t = Inr t' \<Longrightarrow> P t'"
  shows "P s'"
  using assms
proof (induction xs arbitrary: s)
  case (Cons x xs)
  from Cons.prems(1) obtain t where t: "f x s = Inr t" "foldE f xs t = Inr s'"
    by (auto simp: bindE_Inr_iff)
  with Cons.prems(2,3) have "P t" by auto
  with t(2) show ?case using Cons.prems(3) by (auto intro: Cons.IH)
qed simp

section \<open>Lemmas on characters and decimal strings\<close>

lemma char_code_char_of [simp]: "n < 256 \<Longrightarrow> char_code (char_of n) = n"
  by (simp add: char_code_def)

lemma char_code_digit_char [simp]: "d < 10 \<Longrightarrow> char_code (digit_char d) = 48 + d"
  by (simp add: digit_char_def)

lemma isdigit_digit_char [simp]: "d < 10 \<Longrightarrow> isdigit (digit_char d)"
  by (simp add: isdigit_def)

lemma isdigit_not_isspace: "isdigit c \<Longrightarrow> \<not> isspace c"
  by (auto simp: isdigit_def isspace_def)

lemma isdigit_not_sign: "isdigit c \<Longrightarrow> c \<noteq> CHR ''-'' \<and> c \<noteq> CHR ''+''"
  by (auto simp: isdigit_def char_code_def)

lemma isdigit_isalnum: "isdigit c \<Longrightarrow> isalnum c"
  by (simp add: isalnum_def)

lemma isalpha_not_isdigit: "isalpha c \<Longrightarrow> \<not> isdigit c"
  by (auto simp: isdigit_def isalpha_def)

lemma to_string_not_Nil [simp]: "to_string n \<noteq> []"
  by (subst to_string.simps) simp

lemma to_string_isdigit: "c \<in> set (to_string n) \<Longrightarrow> isdigit c"
proof (induction n rule: to_string.induct)
  case (1 n)
  then show ?case
    by (subst (asm) to_string.simps) (auto split: if_splits)
qed

lemma digits_value_snoc: "digits_value (ds @ [c]) = 10 * digits_value ds + (char_code c - 48)"
  by (simp add: digits_value_def)

lemma digits_value_to_string [simp]: "digits_value (to_string n) = n"
proof (induction n rule: to_string.induct)
  case (1 n)
  show ?case
  proof (cases "n < 10")
    case True
    then show ?thesis by (subst to_string.simps) (simp add: digits_value_def)
  next
    case False
    then have "digits_value (to_string n) = 10 * (n div 10) + n mod 10"
      using 1 by (subst to_string.simps) (simp add: digits_value_snoc)
    then show ?thesis by simp
  qed
qed

lemma takeWhile_to_string:
  "\<not> isdigit c \<Longrightarrow> takeWhile isdigit (to_string n @ c # s) = to_string n"
  by (simp add: takeWhile_append2 to_string_isdigit)

lemma to_string_Cons: "\<exists>c cs. to_string n = c # cs \<and> isdigit c"
  using to_string_isdigit [of _ n] by (cases "to_string n") auto

text \<open>Reading back a printed number, with any text after it that does not start with a digit.\<close>

lemma stoi_to_string_append:
  assumes "n < 2 ^ 31" and "s = [] \<or> \<not> isdigit (hd s)"
  shows "stoi (to_string n @ s) = Some (int n)"
proof -
  obtain c cs where c: "to_string n = c # cs" "isdigit c" using to_string_Cons by blast
  have sp: "dropWhile isspace (to_string n @ s) = to_string n @ s"
    using c isdigit_not_isspace by simp
  have tw: "takeWhile isdigit (to_string n @ s) = to_string n"
    using assms(2) by (cases s) (auto simp: takeWhile_to_string to_string_isdigit)
  have "hd (to_string n) \<noteq> CHR ''-''" "hd (to_string n) \<noteq> CHR ''+''"
    using c isdigit_not_sign by auto
  then show ?thesis
    using assms(1) sp tw by (simp add: stoi_def Let_def)
qed

lemma stoi_to_string: "n < 2 ^ 31 \<Longrightarrow> stoi (to_string n) = Some (int n)"
  using stoi_to_string_append [of n "[]"] by simp

lemma stoi_bounds: "stoi s = Some v \<Longrightarrow> - (2 ^ 31) \<le> v \<and> v < 2 ^ 31"
  by (simp only: stoi_def Let_def split: if_splits) (simp_all add: not_less)

section \<open>Lemmas on lists\<close>

lemma in_set_listE:
  assumes "x \<in> set xs" obtains i where "i < length xs" "xs ! i = x"
  using assms by (auto simp: in_set_conv_nth)

lemma list_update_length_simp [simp]: "length (xs[i := v]) = length xs"
  by simp

section \<open>Lemmas on words\<close>

lemma unat_of_int_nonneg:
  assumes "0 \<le> i" "i < 2 ^ 32" shows "unat (word_of_int i :: u32) = nat i"
  using assms by (simp add: unsigned_of_int take_bit_int_eq_self flip: nat_take_bit_eq)

lemma unat_u32_of_nat: "n < 2 ^ 32 \<Longrightarrow> unat (of_nat n :: u32) = n"
  by (simp add: unat_of_nat)

lemma unat_u32_less [simp]: "unat (w :: u32) < 4294967296"
  using unsigned_less [of w] by simp

lemma unat_u32_less_u64 [simp]: "unat (w :: u32) < 18446744073709551616"
  using unat_u32_less [of w] by (rule order_less_trans) simp

lemma ucast_u32_of_nat: "n < 2 ^ 64 \<Longrightarrow> (ucast (of_nat n :: u64) :: u32) = of_nat n"
  by (simp add: unsigned_of_nat take_bit_nat_eq_self)

end
