(* ===== verification/Diagnostics.thy ===== *)
theory Diagnostics
  imports Prelude
begin

text \<open>
  \<^verbatim>\<open>interpreter/diagnostic-colors.{h,cpp}\<close>: the ANSI styles put around the parts of an error
  message. Every message of the lexer, the parser and the validator is built from these.
\<close>

datatype print_style =
    Style_Error
  | Style_Expected
  | Style_Keyword
  | Style_Context
  | Style_BadField
  | Style_BadValue
  | Style_Reference
  | Style_Limits

definition ANSI_RESET :: string where
  "ANSI_RESET = ESC # ''[0m''"

fun palette :: "print_style \<Rightarrow> string" where
  "palette Style_Error = ESC # ''[31m''"
| "palette Style_Expected = ESC # ''[32m''"
| "palette Style_Keyword = ESC # ''[1m''"
| "palette Style_Context = ESC # ''[95m''"
| "palette Style_BadField = ESC # ''[4;31m''"
| "palette Style_BadValue = ESC # ''[91m''"
| "palette Style_Reference = ESC # ''[36m''"
| "palette Style_Limits = ESC # ''[33m''"

definition apply_palette :: "string \<Rightarrow> string \<Rightarrow> string" where
  "apply_palette input pal = pal @ input @ ANSI_RESET"

definition styled_string :: "string \<Rightarrow> print_style \<Rightarrow> string" where
  "styled_string input style = apply_palette input (palette style)"

text \<open>The position text \<^verbatim>\<open>[line L column C]\<close> every lexer and parser message carries.\<close>

definition position_string :: "nat \<Rightarrow> nat \<Rightarrow> string" where
  "position_string l c =
     styled_string (''[line '' @ to_string l @ '' column '' @ to_string c @ '']'') Style_Context"

end
