(* ===== verification/Lexer.thy ===== *)
theory Lexer
  imports Diagnostics
begin

text \<open>
  \<^verbatim>\<open>interpreter/token.h\<close> and \<^verbatim>\<open>interpreter/lexer.{h,cpp}\<close>: tokens and the lexer. The lexer's
  read position \<^verbatim>\<open>pos_\<close> is represented by the part of \<^verbatim>\<open>script_source_\<close> that is still unread,
  so \<^verbatim>\<open>pos_ >= size()\<close> is an empty rest and \<^verbatim>\<open>peek()\<close> at the end reads the terminating NUL, as
  \<^verbatim>\<open>std::string::operator[]\<close> does.
\<close>

section \<open>Tokens\<close>

definition VALID_TOKEN_OPERATORS :: string where
  "VALID_TOKEN_OPERATORS = ''=,:''"

definition VALID_KEYWORDS :: "string list" where
  "VALID_KEYWORDS =
     [''SETTINGS'', ''SESSION'', ''PORT'', ''HEADERSIZE'', ''BODYMAX'', ''READ'', ''REPEAT'',
      ''SAMPLERATE'', ''ENDPOINTS'', ''SHARDS'', ''PACKETS'', ''HANDLER'', ''ORCHESTRATOR'',
      ''CREATE'', ''CONNECT'', ''SEND'', ''FLOOD'', ''DRAIN'', ''DISCONNECT'', ''OFFSET'',
      ''COPIES'', ''TIMESTAMP'', ''COUNTER'']"

datatype token_type = Keyword | Identity | Operator | Value | BraceOpen | BraceClosed

fun ttype_to_string :: "token_type \<Rightarrow> string" where
  "ttype_to_string Keyword = ''Keyword''"
| "ttype_to_string Identity = ''Identity''"
| "ttype_to_string Operator = ''Operator''"
| "ttype_to_string Value = ''Value''"
| "ttype_to_string BraceOpen = ''BraceOpen''"
| "ttype_to_string BraceClosed = ''BraceClosed''"

record token =
  tok_type :: token_type
  tok_text :: string
  tok_line :: nat
  tok_col :: nat

definition make_token :: "token_type \<Rightarrow> string \<Rightarrow> nat \<Rightarrow> nat \<Rightarrow> token" where
  "make_token ty tx l c = \<lparr>tok_type = ty, tok_text = tx, tok_line = l, tok_col = c\<rparr>"

section \<open>The lexer's state and its character operations\<close>

record lexer =
  lx_rest :: string
  lx_line :: nat
  lx_col :: nat

definition new_lexer :: "string \<Rightarrow> lexer" where
  "new_lexer source = \<lparr>lx_rest = source, lx_line = 1, lx_col = 1\<rparr>"

definition jump_next_line :: "lexer \<Rightarrow> lexer" where
  "jump_next_line lx = lx\<lparr>lx_line := lx_line lx + 1, lx_col := 1\<rparr>"

definition eof :: "lexer \<Rightarrow> bool" where
  "eof lx \<longleftrightarrow> lx_rest lx = []"

definition peek :: "lexer \<Rightarrow> char" where
  "peek lx = (case lx_rest lx of [] \<Rightarrow> NUL | c # _ \<Rightarrow> c)"

definition peek_next :: "lexer \<Rightarrow> char" where
  "peek_next lx = (case lx_rest lx of _ # c # _ \<Rightarrow> c | _ \<Rightarrow> NUL)"

definition advance :: "lexer \<Rightarrow> lexer" where
  "advance lx =
     (case lx_rest lx of
        [] \<Rightarrow> lx
      | c # cs \<Rightarrow>
          if c = NEWLINE then jump_next_line (lx\<lparr>lx_rest := cs\<rparr>)
          else lx\<lparr>lx_rest := cs, lx_col := lx_col lx + 1\<rparr>)"

text \<open>
  In the source \<^verbatim>\<open>advance()\<close> also returns the character it went over; that character is
  \<open>peek\<close> of the state before, which the definitions below name where they use it.
\<close>

lemma advance_shorter: "\<not> eof lx \<Longrightarrow> length (lx_rest (advance lx)) < length (lx_rest lx)"
  by (cases "lx_rest lx") (auto simp: advance_def eof_def jump_next_line_def)

lemma advance_le: "length (lx_rest (advance lx)) \<le> length (lx_rest lx)"
  by (cases "lx_rest lx") (auto simp: advance_def jump_next_line_def)

section \<open>Skipping white space and comments\<close>

function skip_comment :: "lexer \<Rightarrow> lexer" where
  "skip_comment lx = (if \<not> eof lx \<and> peek lx \<noteq> NEWLINE then skip_comment (advance lx) else lx)"
  by pat_completeness auto
termination
  by (relation "measure (\<lambda>lx. length (lx_rest lx))") (auto simp: advance_shorter)

declare skip_comment.simps [simp del]

lemma skip_comment_le: "length (lx_rest (skip_comment lx)) \<le> length (lx_rest lx)"
proof (induction lx rule: skip_comment.induct)
  case (1 lx)
  then show ?case
    by (subst skip_comment.simps) (auto dest: order_trans [OF _ advance_le])
qed

function skip_ignorable :: "lexer \<Rightarrow> lexer" where
  "skip_ignorable lx =
     (if eof lx then lx
      else
        let c = peek lx in
        if c = CHR '' '' \<or> c = TAB \<or> c = CR then skip_ignorable (advance lx)
        else if c = NEWLINE then skip_ignorable (advance lx)
        else if c = CHR ''/'' \<and> peek_next lx = CHR ''/''
             then skip_ignorable (skip_comment (advance (advance lx)))
        else lx)"
  by pat_completeness auto
termination
proof (relation "measure (\<lambda>lx. length (lx_rest lx))", goal_cases)
  case (4 lx c)
  have "length (lx_rest (skip_comment (advance (advance lx)))) \<le> length (lx_rest (advance lx))"
    by (rule order_trans [OF skip_comment_le advance_le])
  with 4 show ?case using advance_shorter [of lx] by simp
qed (auto simp: advance_shorter)

declare skip_ignorable.simps [simp del]

section \<open>Reading one token\<close>

text \<open>The body of a quoted value: \<^verbatim>\<open>\"\<close> and \<^verbatim>\<open>\$\<close> are the two escapes.\<close>

function lex_quoted :: "lexer \<Rightarrow> string \<Rightarrow> string \<times> lexer" where
  "lex_quoted lx val =
     (if \<not> eof lx \<and> peek lx \<noteq> QUOTE then
        let next_c = peek lx; lx' = advance lx in
        if next_c = BACKSLASH \<and> peek lx' = QUOTE
        then lex_quoted (advance lx') (val @ [QUOTE])
        else if next_c = BACKSLASH \<and> peek lx' = CHR ''$''
        then lex_quoted (advance lx') (val @ [CHR ''$''])
        else lex_quoted lx' (val @ [next_c])
      else (val, lx))"
  by pat_completeness auto
termination
  by (relation "measure (\<lambda>(lx, v). length (lx_rest lx))")
     (auto simp: advance_shorter intro: le_less_trans [OF advance_le advance_shorter])

declare lex_quoted.simps [simp del]

text \<open>The loops that read identifiers and unquoted values differ in the characters they take.\<close>

function lex_while :: "(char \<Rightarrow> bool) \<Rightarrow> lexer \<Rightarrow> string \<Rightarrow> string \<times> lexer" where
  "lex_while p lx acc =
     (if \<not> eof lx \<and> p (peek lx) then lex_while p (advance lx) (acc @ [peek lx]) else (acc, lx))"
  by pat_completeness auto
termination
  by (relation "measure (\<lambda>(p, lx, v). length (lx_rest lx))") (auto simp: advance_shorter)

declare lex_while.simps [simp del]

definition is_ident_char :: "char \<Rightarrow> bool" where
  "is_ident_char c \<longleftrightarrow> isalnum c \<or> c = CHR ''_''"

definition is_value_char :: "char \<Rightarrow> bool" where
  "is_value_char c \<longleftrightarrow> isalnum c \<or> c = CHR ''.''"

definition eof_in_quote_error :: "lexer \<Rightarrow> string" where
  "eof_in_quote_error lx =
     ''Reached EOF at '' @ position_string (lx_line lx) (lx_col lx)
     @ '' (expected '' @ [SQUOTE] @ styled_string [QUOTE] Style_Expected @ [SQUOTE] @ '')''"

definition invalid_character_error :: "char \<Rightarrow> lexer \<Rightarrow> string" where
  "invalid_character_error bad_c lx =
     ''Invalid character '' @ styled_string [SQUOTE, bad_c, SQUOTE] Style_BadValue
     @ '' at '' @ position_string (lx_line lx) (lx_col lx)"

text \<open>One round of the main loop, after the ignorable characters have been skipped.\<close>

definition lex_token :: "lexer \<Rightarrow> (token \<times> lexer) result" where
  "lex_token lx =
     (let c = peek lx; mk = (\<lambda>ty tx. make_token ty tx (lx_line lx) (lx_col lx)) in
      if c = CHR ''{'' then Inr (mk BraceOpen ''{'', advance lx)
      else if c = CHR ''}'' then Inr (mk BraceClosed ''}'', advance lx)
      else if c \<in> set VALID_TOKEN_OPERATORS then Inr (mk Operator [c], advance lx)
      else if c = QUOTE then
        (let (val, lx') = lex_quoted (advance lx) [] in
         if eof lx' then Inl (eof_in_quote_error (advance lx'))
         else Inr (mk Value val, advance lx'))
      else if isalpha c then
        (let (ident, lx') = lex_while is_ident_char lx [] in
         Inr (mk (if ident \<in> set VALID_KEYWORDS then Keyword else Identity) ident, lx'))
      else if isdigit c then
        (let (val, lx') = lex_while is_value_char lx [] in Inr (mk Value val, lx'))
      else Inl (invalid_character_error c (advance lx)))"

section \<open>Progress of the lexer\<close>

lemma lx_rest_advance [simp]: "lx_rest (advance lx) = tl (lx_rest lx)"
  by (cases "lx_rest lx") (auto simp: advance_def jump_next_line_def)

lemma peek_Cons [simp]: "lx_rest lx = c # cs \<Longrightarrow> peek lx = c"
  by (simp add: peek_def)

lemma eof_Nil [simp]: "lx_rest lx = [] \<Longrightarrow> eof lx"
  by (simp add: eof_def)

lemma not_eofE:
  assumes "\<not> eof lx" obtains c cs where "lx_rest lx = c # cs" "peek lx = c"
  using assms by (cases "lx_rest lx") (auto simp: eof_def)

text \<open>What the two inner loops read, in terms of the unread text.\<close>

lemma lex_while_eq:
  "fst (lex_while p lx acc) = acc @ takeWhile p (lx_rest lx)
   \<and> lx_rest (snd (lex_while p lx acc)) = dropWhile p (lx_rest lx)"
proof (induction p lx acc rule: lex_while.induct)
  case (1 p lx acc)
  then show ?case
    by (cases "lx_rest lx") (auto simp: lex_while.simps [of p lx acc] eof_def)
qed

fun unescape :: "string \<Rightarrow> string" where
  "unescape (c # d # s) =
     (if c = BACKSLASH \<and> (d = QUOTE \<or> d = CHR ''$'') then d # unescape s
      else c # unescape (d # s))"
| "unescape s = s"

lemma lex_quoted_split:
  "\<exists>body. lx_rest lx = body @ lx_rest (snd (lex_quoted lx val))
      \<and> fst (lex_quoted lx val) = val @ unescape body
      \<and> (eof (snd (lex_quoted lx val)) \<or> peek (snd (lex_quoted lx val)) = QUOTE)"
proof (induction lx val rule: lex_quoted.induct)
  case (1 lx val)
  show ?case
  proof (cases "\<not> eof lx \<and> peek lx \<noteq> QUOTE")
    case False
    then show ?thesis by (auto simp: lex_quoted.simps [of lx val])
  next
    case True
    then obtain c cs where cs: "lx_rest lx = c # cs" "peek lx = c" "c \<noteq> QUOTE"
      by (metis not_eofE)
    let ?esc = "c = BACKSLASH \<and> cs \<noteq> [] \<and> (hd cs = QUOTE \<or> hd cs = CHR ''$'')"
    show ?thesis
    proof (cases ?esc)
      case esc: True
      then obtain d ds where ds: "cs = d # ds" "d = QUOTE \<or> d = CHR ''$''" by (cases cs) auto
      have "peek (advance lx) = d" using cs ds by simp
      then have step: "lex_quoted lx val = lex_quoted (advance (advance lx)) (val @ [d])"
        using True cs esc ds by (auto simp: lex_quoted.simps [of lx val] Let_def)
      from "1.IH" True cs ds esc \<open>peek (advance lx) = d\<close> obtain body where
        "ds = body @ lx_rest (snd (lex_quoted lx val))"
        "fst (lex_quoted lx val) = (val @ [d]) @ unescape body"
        "eof (snd (lex_quoted lx val)) \<or> peek (snd (lex_quoted lx val)) = QUOTE"
        by (auto simp: step)
      then show ?thesis using cs ds esc
        by (intro exI [of _ "c # d # body"]) auto
    next
      case noesc: False
      have "\<not> (c = BACKSLASH \<and> peek (advance lx) = QUOTE)"
        "\<not> (c = BACKSLASH \<and> peek (advance lx) = CHR ''$'')"
        using noesc cs by (auto simp: peek_def split: list.splits)
      then have step: "lex_quoted lx val = lex_quoted (advance lx) (val @ [c])"
        and IH: "\<exists>body. lx_rest (advance lx) = body @ lx_rest (snd (lex_quoted lx val))
          \<and> fst (lex_quoted lx val) = (val @ [c]) @ unescape body
          \<and> (eof (snd (lex_quoted lx val)) \<or> peek (snd (lex_quoted lx val)) = QUOTE)"
        using True cs "1.IH"(3) by (auto simp: lex_quoted.simps [of lx val] Let_def)
      then obtain body where body: "cs = body @ lx_rest (snd (lex_quoted lx val))"
        "fst (lex_quoted lx val) = (val @ [c]) @ unescape body"
        "eof (snd (lex_quoted lx val)) \<or> peek (snd (lex_quoted lx val)) = QUOTE"
        using cs by auto
      have "unescape (c # body) = c # unescape body"
        using noesc body(1) by (cases body) auto
      with body cs show ?thesis by (intro exI [of _ "c # body"]) auto
    qed
  qed
qed

lemma length_dropWhile_less: "p c \<Longrightarrow> length (dropWhile p (c # cs)) < length (c # cs)"
  by (simp add: length_dropWhile_le less_Suc_eq_le)

lemma lex_token_shorter:
  assumes "lex_token lx = Inr (t, lx')" and "\<not> eof lx"
  shows "length (lx_rest lx') < length (lx_rest lx)"
proof -
  obtain c cs where cs: "lx_rest lx = c # cs" "peek lx = c" using assms(2) by (rule not_eofE)
  obtain body where body: "cs = body @ lx_rest (snd (lex_quoted (advance lx) []))"
    using lex_quoted_split [of "advance lx" "[]"] cs by auto
  have q: "length (lx_rest (snd (lex_quoted (advance lx) []))) \<le> length cs"
    by (subst body) simp
  have w: "p c \<Longrightarrow> length (lx_rest (snd (lex_while p lx []))) < length (lx_rest lx)" for p
    using lex_while_eq [of p lx "[]"] length_dropWhile_less [of p c cs] cs by simp
  have "isalpha c \<Longrightarrow> is_ident_char c" "isdigit c \<Longrightarrow> is_value_char c"
    by (auto simp: is_ident_char_def is_value_char_def isalnum_def)
  with assms(1) cs q w [of is_ident_char] w [of is_value_char] show ?thesis
    by (auto simp: lex_token_def Let_def split: if_splits prod.splits)
qed

lemma skip_ignorable_le: "length (lx_rest (skip_ignorable lx)) \<le> length (lx_rest lx)"
proof (induction lx rule: skip_ignorable.induct)
  case (1 lx)
  have "length (lx_rest (skip_comment (advance (advance lx)))) \<le> length (lx_rest lx)"
    using order_trans [OF skip_comment_le [of "advance (advance lx)"], of "length (lx_rest lx)"]
    by simp
  with 1 show ?case
    by (subst skip_ignorable.simps) (auto simp: Let_def)
qed

section \<open>The main loop\<close>

function tokenize_loop :: "lexer \<Rightarrow> token list \<Rightarrow> token list result" where
  "tokenize_loop lx tokens =
     (let lx1 = skip_ignorable lx in
      if eof lx1 then Inr tokens
      else bindE (lex_token lx1) (\<lambda>(t, lx2). tokenize_loop lx2 (tokens @ [t])))"
  by pat_completeness auto
termination
proof (relation "measure (\<lambda>(lx, ts). length (lx_rest lx))", goal_cases)
  case (2 lx tokens lx1 r t lx2)
  then have "length (lx_rest lx2) < length (lx_rest (skip_ignorable lx))"
    using lex_token_shorter by fastforce
  with skip_ignorable_le [of lx] show ?case by simp
qed simp

declare tokenize_loop.simps [simp del]

definition tokenize :: "string \<Rightarrow> token list result" where
  "tokenize source = tokenize_loop (new_lexer source) []"

section \<open>Where tokens come from\<close>

text \<open>
  The line and column of the position after a prefix of the source, computed from the
  prefix alone, and what it means for a piece of source text to be a token's lexeme.
\<close>

definition line_of :: "string \<Rightarrow> nat" where
  "line_of pre = 1 + length (filter (\<lambda>c. c = NEWLINE) pre)"

definition col_of :: "string \<Rightarrow> nat" where
  "col_of pre = 1 + length (takeWhile (\<lambda>c. c \<noteq> NEWLINE) (rev pre))"

fun lexeme_of :: "token_type \<Rightarrow> string \<Rightarrow> string \<Rightarrow> bool" where
  "lexeme_of Keyword tx lexeme \<longleftrightarrow> lexeme = tx \<and> tx \<in> set VALID_KEYWORDS"
| "lexeme_of Identity tx lexeme \<longleftrightarrow> lexeme = tx \<and> tx \<noteq> [] \<and> isalpha (hd tx)
     \<and> list_all is_ident_char tx \<and> tx \<notin> set VALID_KEYWORDS"
| "lexeme_of Operator tx lexeme \<longleftrightarrow> lexeme = tx \<and> tx \<in> {''='', '','', '':''}"
| "lexeme_of Value tx lexeme \<longleftrightarrow>
     (lexeme = tx \<and> tx \<noteq> [] \<and> isdigit (hd tx) \<and> list_all is_value_char tx)
     \<or> (\<exists>body. lexeme = QUOTE # body @ [QUOTE] \<and> tx = unescape body)"
| "lexeme_of BraceOpen tx lexeme \<longleftrightarrow> lexeme = tx \<and> tx = ''{''"
| "lexeme_of BraceClosed tx lexeme \<longleftrightarrow> lexeme = tx \<and> tx = ''}''"

definition token_in_source :: "string \<Rightarrow> token \<Rightarrow> bool" where
  "token_in_source source t \<longleftrightarrow>
     (\<exists>pre lexeme post. source = pre @ lexeme @ post
        \<and> tok_line t = line_of pre \<and> tok_col t = col_of pre
        \<and> lexeme_of (tok_type t) (tok_text t) lexeme)"

definition lexer_at :: "string \<Rightarrow> lexer \<Rightarrow> bool" where
  "lexer_at source lx \<longleftrightarrow>
     (\<exists>pre. source = pre @ lx_rest lx \<and> lx_line lx = line_of pre \<and> lx_col lx = col_of pre)"

lemma lexer_at_new: "lexer_at source (new_lexer source)"
  by (simp add: lexer_at_def new_lexer_def line_of_def col_of_def)

lemma lexer_at_advance: "lexer_at source lx \<Longrightarrow> lexer_at source (advance lx)"
proof -
  assume "lexer_at source lx"
  then obtain pre where pre: "source = pre @ lx_rest lx"
    "lx_line lx = line_of pre" "lx_col lx = col_of pre"
    by (auto simp: lexer_at_def)
  show ?thesis
  proof (cases "lx_rest lx")
    case Nil
    with \<open>lexer_at source lx\<close> show ?thesis by (simp add: advance_def)
  next
    case (Cons c cs)
    with pre show ?thesis
      unfolding lexer_at_def
      by (intro exI [of _ "pre @ [c]"])
         (auto simp: advance_def jump_next_line_def line_of_def col_of_def)
  qed
qed

lemma lexer_at_skip_comment: "lexer_at source lx \<Longrightarrow> lexer_at source (skip_comment lx)"
  by (induction lx rule: skip_comment.induct) (subst skip_comment.simps, auto intro: lexer_at_advance)

lemma lexer_at_skip_ignorable: "lexer_at source lx \<Longrightarrow> lexer_at source (skip_ignorable lx)"
  by (induction lx rule: skip_ignorable.induct)
     (subst skip_ignorable.simps, simp add: Let_def lexer_at_advance lexer_at_skip_comment)

lemma lexer_at_lex_while: "lexer_at source lx \<Longrightarrow> lexer_at source (snd (lex_while p lx acc))"
  by (induction p lx acc rule: lex_while.induct) (subst lex_while.simps, auto intro: lexer_at_advance)

lemma lexer_at_lex_quoted: "lexer_at source lx \<Longrightarrow> lexer_at source (snd (lex_quoted lx val))"
  by (induction lx val rule: lex_quoted.induct)
     (subst lex_quoted.simps, simp add: Let_def lexer_at_advance)

lemmas lexer_at_intros =
  lexer_at_new lexer_at_advance lexer_at_skip_comment lexer_at_skip_ignorable
  lexer_at_lex_while lexer_at_lex_quoted

lemma lex_token_at:
  assumes "lex_token lx = Inr (t, lx')" "lexer_at source lx"
  shows "lexer_at source lx'"
  using assms lexer_at_lex_while [OF assms(2)] lexer_at_lex_quoted [OF lexer_at_advance [OF assms(2)]]
  by (auto simp: lex_token_def Let_def split: if_splits prod.splits
      intro: lexer_at_advance) (metis snd_conv lexer_at_advance)+

lemma takeWhile_all: "list_all p (takeWhile p xs)"
  by (auto simp: list_all_iff dest: set_takeWhileD)

text \<open>The token read at a position is spelled by the text from that position on.\<close>

lemma lex_token_lexeme:
  assumes "lex_token lx = Inr (t, lx')" "\<not> eof lx"
  shows "tok_line t = lx_line lx \<and> tok_col t = lx_col lx
     \<and> (\<exists>lexeme post. lx_rest lx = lexeme @ post \<and> lexeme_of (tok_type t) (tok_text t) lexeme)"
proof -
  obtain c cs where cs: "lx_rest lx = c # cs" "peek lx = c" using assms(2) by (rule not_eofE)
  have pos: "tok_line t = lx_line lx" "tok_col t = lx_col lx"
    using assms(1) by (auto simp: lex_token_def make_token_def Let_def split: if_splits prod.splits)
  have split: "lx_rest lx = takeWhile p (lx_rest lx) @ dropWhile p (lx_rest lx)" for p
    by simp
  consider (punct) "c \<in> {CHR ''{'', CHR ''}''} \<or> c \<in> set VALID_TOKEN_OPERATORS"
    | (quoted) "c = QUOTE"
    | (ident) "isalpha c" "\<not> (c \<in> {CHR ''{'', CHR ''}''} \<or> c \<in> set VALID_TOKEN_OPERATORS)" "c \<noteq> QUOTE"
    | (number) "isdigit c" "\<not> isalpha c"
        "\<not> (c \<in> {CHR ''{'', CHR ''}''} \<or> c \<in> set VALID_TOKEN_OPERATORS)" "c \<noteq> QUOTE"
    using assms(1) cs by (auto simp: lex_token_def Let_def split: if_splits)
  then have "\<exists>lexeme post. lx_rest lx = lexeme @ post \<and> lexeme_of (tok_type t) (tok_text t) lexeme"
  proof cases
    case punct
    with assms(1) cs show ?thesis
      by (intro exI [of _ "[c]"] exI [of _ cs])
         (auto simp: lex_token_def make_token_def Let_def VALID_TOKEN_OPERATORS_def split: if_splits)
  next
    case quoted
    obtain body where body: "cs = body @ lx_rest (snd (lex_quoted (advance lx) []))"
      "fst (lex_quoted (advance lx) []) = unescape body"
      "eof (snd (lex_quoted (advance lx) [])) \<or> peek (snd (lex_quoted (advance lx) [])) = QUOTE"
      using lex_quoted_split [of "advance lx" "[]"] cs by auto
    with assms(1) cs quoted have "\<not> eof (snd (lex_quoted (advance lx) []))"
      "tok_type t = Value" "tok_text t = unescape body"
      by (auto simp: lex_token_def make_token_def Let_def VALID_TOKEN_OPERATORS_def split: if_splits prod.splits)
    moreover from this body(3) obtain r where "lx_rest (snd (lex_quoted (advance lx) [])) = QUOTE # r"
      by (metis not_eofE)
    ultimately show ?thesis using body(1) cs quoted
      by (intro exI [of _ "QUOTE # body @ [QUOTE]"] exI [of _ r]) auto
  next
    case ident
    then have "tok_text t = takeWhile is_ident_char (lx_rest lx)"
      "tok_type t = (if tok_text t \<in> set VALID_KEYWORDS then Keyword else Identity)"
      using assms(1) cs lex_while_eq [of is_ident_char lx "[]"]
      by (auto simp: lex_token_def make_token_def Let_def split: if_splits prod.splits)
    moreover have "is_ident_char c" using ident by (simp add: is_ident_char_def isalnum_def)
    ultimately show ?thesis using cs ident takeWhile_all [of is_ident_char "lx_rest lx"]
      by (intro exI [of _ "tok_text t"] exI [of _ "dropWhile is_ident_char (lx_rest lx)"])
         (auto split: if_splits)
  next
    case number
    then have "tok_text t = takeWhile is_value_char (lx_rest lx)" "tok_type t = Value"
      using assms(1) cs lex_while_eq [of is_value_char lx "[]"]
      by (auto simp: lex_token_def make_token_def Let_def split: if_splits prod.splits)
    moreover have "is_value_char c" using number by (simp add: is_value_char_def isalnum_def)
    ultimately show ?thesis using cs number takeWhile_all [of is_value_char "lx_rest lx"]
      by (intro exI [of _ "tok_text t"] exI [of _ "dropWhile is_value_char (lx_rest lx)"]) auto
  qed
  with pos show ?thesis by blast
qed

lemma lex_token_in_source:
  assumes "lex_token lx = Inr (t, lx')" "\<not> eof lx" "lexer_at source lx"
  shows "token_in_source source t"
  using lex_token_lexeme [OF assms(1,2)] assms(3)
  unfolding token_in_source_def lexer_at_def by fastforce

lemma tokenize_loop_in_source:
  assumes "tokenize_loop lx acc = Inr ts" "lexer_at source lx"
    and "\<forall>t \<in> set acc. token_in_source source t"
  shows "\<forall>t \<in> set ts. token_in_source source t"
  using assms
proof (induction lx acc rule: tokenize_loop.induct)
  case (1 lx acc)
  let ?lx1 = "skip_ignorable lx"
  have at: "lexer_at source ?lx1" using "1.prems"(2) by (rule lexer_at_skip_ignorable)
  show ?case
  proof (cases "eof ?lx1")
    case True
    with "1.prems" show ?thesis by (simp add: tokenize_loop.simps [of lx acc])
  next
    case False
    with "1.prems"(1) obtain t lx2 where t: "lex_token ?lx1 = Inr (t, lx2)"
      "tokenize_loop lx2 (acc @ [t]) = Inr ts"
      by (auto simp: tokenize_loop.simps [of lx acc] Let_def result_simps)
    from lex_token_in_source [OF t(1) False at] "1.prems"(3)
    have "\<forall>u \<in> set (acc @ [t]). token_in_source source u" by auto
    from "1.IH" [OF refl False t(1) refl t(2) lex_token_at [OF t(1) at] this] show ?thesis .
  qed
qed

section \<open>Printing tokens and reading them back\<close>

fun escape :: "string \<Rightarrow> string" where
  "escape [] = []"
| "escape (c # s) = (if c = QUOTE \<or> c = CHR ''$'' then [BACKSLASH, c] else [c]) @ escape s"

text \<open>
  A value is printed between quotes; every other token is printed as it is. A value that
  holds a backslash is left out: the lexer has no escape for it.
\<close>

definition render_token :: "token_type \<times> string \<Rightarrow> string" where
  "render_token = (\<lambda>(ty, tx). if ty = Value then QUOTE # escape tx @ [QUOTE] else tx)"

definition render_tokens :: "(token_type \<times> string) list \<Rightarrow> string" where
  "render_tokens ts = concat (map (\<lambda>t. render_token t @ '' '') ts)"

definition printable_token :: "token_type \<times> string \<Rightarrow> bool" where
  "printable_token = (\<lambda>(ty, tx). if ty = Value then BACKSLASH \<notin> set tx else lexeme_of ty tx tx)"

definition token_core :: "token \<Rightarrow> token_type \<times> string" where
  "token_core t = (tok_type t, tok_text t)"

lemma lex_quoted_escape:
  assumes "BACKSLASH \<notin> set s" "lx_rest lx = escape s @ QUOTE # r"
  shows "\<exists>lx'. lex_quoted lx acc = (acc @ s, lx') \<and> lx_rest lx' = QUOTE # r"
  using assms
proof (induction s arbitrary: lx acc)
  case Nil
  then show ?case by (simp add: lex_quoted.simps [of lx acc])
next
  case (Cons c s)
  show ?case
  proof (cases "c = QUOTE \<or> c = CHR ''$''")
    case True
    with Cons.prems have rest: "lx_rest lx = BACKSLASH # c # escape s @ QUOTE # r" by simp
    then have "lex_quoted lx acc = lex_quoted (advance (advance lx)) (acc @ [c])"
      using True by (auto simp: lex_quoted.simps [of lx acc] Let_def eof_def)
    with Cons.IH [of "advance (advance lx)" "acc @ [c]"] Cons.prems rest show ?thesis by auto
  next
    case False
    with Cons.prems have rest: "lx_rest lx = c # escape s @ QUOTE # r" "c \<noteq> BACKSLASH" by auto
    then have "lex_quoted lx acc = lex_quoted (advance lx) (acc @ [c])"
      using False by (auto simp: lex_quoted.simps [of lx acc] Let_def eof_def)
    with Cons.IH [of "advance lx" "acc @ [c]"] Cons.prems rest show ?thesis by auto
  qed
qed

lemma keyword_text: "tx \<in> set VALID_KEYWORDS \<Longrightarrow> tx \<noteq> [] \<and> isalpha (hd tx) \<and> list_all is_ident_char tx"
  by (auto simp: VALID_KEYWORDS_def isalpha_def char_code_def is_ident_char_def isalnum_def)

lemma isalpha_not_punct:
  "isalpha c \<Longrightarrow> c \<noteq> CHR ''{'' \<and> c \<noteq> CHR ''}'' \<and> c \<noteq> QUOTE \<and> c \<notin> set VALID_TOKEN_OPERATORS"
  by (auto simp: isalpha_def char_code_def VALID_TOKEN_OPERATORS_def)

lemma blank_not_ident_char [simp]: "\<not> is_ident_char CHR '' ''"
  by (simp add: is_ident_char_def isalnum_def isalpha_def isdigit_def char_code_def)

lemma lex_token_word:
  assumes "lx_rest lx = tx @ CHR '' '' # r" "tx \<noteq> []" "isalpha (hd tx)" "list_all is_ident_char tx"
  shows "\<exists>lx'. lex_token lx = Inr (make_token (if tx \<in> set VALID_KEYWORDS then Keyword else Identity)
             tx (lx_line lx) (lx_col lx), lx') \<and> lx_rest lx' = CHR '' '' # r"
proof -
  have "peek lx = hd tx" using assms by (cases tx) auto
  moreover have "takeWhile is_ident_char (lx_rest lx) = tx"
    "dropWhile is_ident_char (lx_rest lx) = CHR '' '' # r"
    using assms by (auto simp: list_all_iff takeWhile_append2 dropWhile_append2)
  ultimately show ?thesis
    using assms(3) isalpha_not_punct [OF assms(3)] lex_while_eq [of is_ident_char lx "[]"]
    by (auto simp: lex_token_def Let_def split: prod.splits)
qed

lemma lex_token_render:
  assumes "printable_token t" "lx_rest lx = render_token t @ CHR '' '' # r"
  shows "\<exists>u lx'. lex_token lx = Inr (u, lx') \<and> token_core u = t \<and> lx_rest lx' = CHR '' '' # r"
proof -
  obtain ty tx where t: "t = (ty, tx)" by (cases t)
  show ?thesis
  proof (cases ty)
    case Value
    then have "BACKSLASH \<notin> set tx" "lx_rest (advance lx) = escape tx @ QUOTE # CHR '' '' # r"
      "peek lx = QUOTE"
      using assms t by (auto simp: printable_token_def render_token_def)
    from lex_quoted_escape [OF this(1,2), of "[]"] this(3) Value t show ?thesis
      by (auto simp: lex_token_def Let_def VALID_TOKEN_OPERATORS_def eof_def token_core_def make_token_def)
  next
    case Keyword
    with assms t keyword_text [of tx] lex_token_word [of lx tx r] show ?thesis
      by (auto simp: printable_token_def render_token_def token_core_def make_token_def)
  next
    case Identity
    with assms t lex_token_word [of lx tx r] show ?thesis
      by (auto simp: printable_token_def render_token_def token_core_def make_token_def)
  qed (use assms t in \<open>auto simp: printable_token_def render_token_def token_core_def make_token_def
        lex_token_def Let_def VALID_TOKEN_OPERATORS_def\<close>)
qed

lemma render_token_start:
  assumes "printable_token t"
  shows "\<exists>c s. render_token t = c # s \<and> c \<notin> {CHR '' '', TAB, CR, NEWLINE, CHR ''/''}"
proof -
  obtain ty tx where t: "t = (ty, tx)" by (cases t)
  have "isalpha c \<Longrightarrow> c \<notin> {CHR '' '', TAB, CR, NEWLINE, CHR ''/''}" for c
    by (auto simp: isalpha_def char_code_def)
  with assms t keyword_text [of tx] show ?thesis
    by (cases ty; cases tx) (auto simp: printable_token_def render_token_def)
qed

lemma skip_ignorable_blank:
  "lx_rest lx = CHR '' '' # r \<Longrightarrow> skip_ignorable lx = skip_ignorable (advance lx)"
  by (subst skip_ignorable.simps) (simp add: eof_def)

lemma skip_ignorable_stop:
  "lx_rest lx = c # r \<Longrightarrow> c \<notin> {CHR '' '', TAB, CR, NEWLINE, CHR ''/''} \<Longrightarrow> skip_ignorable lx = lx"
  by (subst skip_ignorable.simps) (simp add: eof_def)

text \<open>
  A loop invariant with an optional blank in front: after a token has been read, the blank
  that separates it from the next one is still unread.
\<close>

lemma tokenize_loop_render:
  assumes "\<forall>t \<in> set ts. printable_token t"
    and "lx_rest lx = render_tokens ts \<or> lx_rest lx = CHR '' '' # render_tokens ts"
  shows "\<exists>us. tokenize_loop lx acc = Inr (acc @ us) \<and> map token_core us = ts"
  using assms
proof (induction ts arbitrary: lx acc)
  case Nil
  then have "eof (skip_ignorable lx)"
    by (auto simp: render_tokens_def skip_ignorable.simps [of lx] skip_ignorable.simps [of "advance lx"] eof_def)
  then show ?case by (simp add: tokenize_loop.simps [of lx acc])
next
  case (Cons t ts)
  obtain c s where c: "render_token t = c # s" "c \<notin> {CHR '' '', TAB, CR, NEWLINE, CHR ''/''}"
    using render_token_start [of t] Cons.prems(1) by auto
  define lx1 where "lx1 = skip_ignorable lx"
  have rest: "lx_rest lx1 = render_token t @ CHR '' '' # render_tokens ts"
    using Cons.prems(2) c skip_ignorable_stop [of lx c] skip_ignorable_stop [of "advance lx" c]
    by (auto simp: lx1_def render_tokens_def skip_ignorable_blank)
  then obtain u lx2 where u: "lex_token lx1 = Inr (u, lx2)" "token_core u = t"
    "lx_rest lx2 = CHR '' '' # render_tokens ts"
    using lex_token_render Cons.prems(1) by (metis list.set_intros(1))
  from Cons.IH [of lx2 "acc @ [u]"] Cons.prems(1) u(3) obtain us where
    "tokenize_loop lx2 (acc @ [u]) = Inr (acc @ u # us)" "map token_core us = ts" by auto
  moreover have "\<not> eof lx1" using rest c by (simp add: eof_def)
  ultimately show ?case using u
    by (auto simp: tokenize_loop.simps [of lx acc] lx1_def [symmetric])
qed

end
