(* ===== verification/Script_Structs.thy ===== *)
theory Script_Structs
  imports Prelude "HOL-Library.AList"
begin

text \<open>
  \<^verbatim>\<open>interpreter/script-structs.h\<close> and the enum of \<^verbatim>\<open>orchestrator/action-descriptor.h\<close>: the data
  a script is parsed into. Fields keep their widths. An \<^verbatim>\<open>unordered_map\<close> is an association
  list with distinct keys; its order stands for the unspecified iteration order, and every
  theorem holds for any such list.
\<close>

definition VALID_PROTOCOLS :: "string list" where
  "VALID_PROTOCOLS = [''TCP'', ''UDP'']"

definition VALID_MESSAGE_HANDLERS :: "string list" where
  "VALID_MESSAGE_HANDLERS = [''NOP'']"

definition VALID_TIME_FORMATS :: "string list" where
  "VALID_TIME_FORMATS = [''seconds'', ''milliseconds'', ''microseconds'', ''nanoseconds'']"

text \<open>For an action the second field is the end of the range, for a modification its length.\<close>

record range =
  rng_start :: u32
  rng_second :: u32

definition end_from_length :: "range \<Rightarrow> u32" where
  "end_from_length r = rng_start r + rng_second r"

definition size_from_end :: "range \<Rightarrow> u32" where
  "size_from_end r = rng_second r - rng_start r"

datatype modification_type = Mod_Counter | Mod_Timestamp

record counter_modification =
  cm_bytes :: range
  cm_step :: u32
  cm_little_endian :: bool

record timestamp_modification =
  tm_bytes :: range
  tm_little_endian :: bool
  tm_format_name :: string

datatype action_type = CREATE | CONNECT | SEND | FLOOD | DRAIN | DISCONNECT

record action =
  act_type :: action_type
  act_count :: u32
  act_range :: range
  act_offset_ms :: u32
  act_packet_identifier :: string
  act_timestamp_mods :: "timestamp_modification list"
  act_counter_mods :: "counter_modification list"
  act_mod_order :: "modification_type list"

text \<open>The two instances of \<^verbatim>\<open>Action::push_modifier\<close>.\<close>

definition push_timestamp :: "timestamp_modification \<Rightarrow> action \<Rightarrow> action" where
  "push_timestamp m a =
     a\<lparr>act_timestamp_mods := act_timestamp_mods a @ [m], act_mod_order := act_mod_order a @ [Mod_Timestamp]\<rparr>"

definition push_counter :: "counter_modification \<Rightarrow> action \<Rightarrow> action" where
  "push_counter m a =
     a\<lparr>act_counter_mods := act_counter_mods a @ [m], act_mod_order := act_mod_order a @ [Mod_Counter]\<rparr>"

record settings_block =
  st_identifier :: string
  st_session_protocol :: string
  st_header_size :: u32
  st_body_max :: u32
  st_read :: bool
  st_repeat :: bool
  st_packet_sample_rate :: u32
  st_shards :: u32
  st_port :: u16
  st_handler_value :: string
  st_endpoints :: "string list"
  st_packet_identifiers :: "(string \<times> string) list"

record orchestrator_block =
  or_settings_identifier :: string
  or_actions :: "action list"

record dsl_data =
  ds_settings :: settings_block
  ds_orchestrator :: orchestrator_block

text \<open>
  A default-initialised \<^verbatim>\<open>DSLData\<close>. The members without an initialiser, \<^verbatim>\<open>header_size\<close> and
  \<^verbatim>\<open>body_max\<close>, hold indeterminate values: they are arguments, as is the indeterminate
  \<^verbatim>\<open>count\<close> of a default-initialised \<^verbatim>\<open>Action\<close>.
\<close>

definition default_settings :: "u32 \<Rightarrow> u32 \<Rightarrow> settings_block" where
  "default_settings header_size body_max =
     \<lparr>st_identifier = [], st_session_protocol = [], st_header_size = header_size,
      st_body_max = body_max, st_read = False, st_repeat = False, st_packet_sample_rate = 0,
      st_shards = 0, st_port = 0, st_handler_value = [], st_endpoints = [],
      st_packet_identifiers = []\<rparr>"

definition default_dsl_data :: "u32 \<Rightarrow> u32 \<Rightarrow> dsl_data" where
  "default_dsl_data header_size body_max =
     \<lparr>ds_settings = default_settings header_size body_max,
      ds_orchestrator = \<lparr>or_settings_identifier = [], or_actions = []\<rparr>\<rparr>"

definition new_action :: "action_type \<Rightarrow> u32 \<Rightarrow> action" where
  "new_action ty count =
     \<lparr>act_type = ty, act_count = count, act_range = \<lparr>rng_start = 0, rng_second = 0\<rparr>,
      act_offset_ms = 0, act_packet_identifier = [], act_timestamp_mods = [],
      act_counter_mods = [], act_mod_order = []\<rparr>"

text \<open>The modifications of an action are accounted for when the order lists each of them once.\<close>

definition mods_accounted :: "action \<Rightarrow> bool" where
  "mods_accounted a \<longleftrightarrow>
     length (act_timestamp_mods a) = count_list (act_mod_order a) Mod_Timestamp
     \<and> length (act_counter_mods a) = count_list (act_mod_order a) Mod_Counter"

lemma mods_accounted_new [simp]: "mods_accounted (new_action ty n)"
  by (simp add: mods_accounted_def new_action_def)

lemma mods_accounted_push_timestamp [simp]: "mods_accounted (push_timestamp m a) = mods_accounted a"
  by (simp add: mods_accounted_def push_timestamp_def)

lemma mods_accounted_push_counter [simp]: "mods_accounted (push_counter m a) = mods_accounted a"
  by (simp add: mods_accounted_def push_counter_def)

text \<open>The fields of an action that was parsed start below \<open>2 ^ 31\<close>, since numbers are read as \<^verbatim>\<open>int\<close>.\<close>

definition mods_parsed :: "action \<Rightarrow> bool" where
  "mods_parsed a \<longleftrightarrow> mods_accounted a
     \<and> list_all (\<lambda>m. rng_start (tm_bytes m) < 2 ^ 31) (act_timestamp_mods a)
     \<and> list_all (\<lambda>m. rng_start (cm_bytes m) < 2 ^ 31) (act_counter_mods a)"

lemma mods_parsed_new [simp]: "mods_parsed (new_action ty n)"
  by (simp add: mods_parsed_def) (simp add: new_action_def)

lemma mods_parsed_push_timestamp [simp]:
  "mods_parsed (push_timestamp m a) \<longleftrightarrow> rng_start (tm_bytes m) < 2 ^ 31 \<and> mods_parsed a"
  by (auto simp: mods_parsed_def) (auto simp: push_timestamp_def)

lemma mods_parsed_push_counter [simp]:
  "mods_parsed (push_counter m a) \<longleftrightarrow> rng_start (cm_bytes m) < 2 ^ 31 \<and> mods_parsed a"
  by (auto simp: mods_parsed_def) (auto simp: push_counter_def)

lemma mod_order_length:
  "length ms = count_list ms Mod_Timestamp + count_list ms Mod_Counter"
proof (induction ms)
  case (Cons m ms)
  then show ?case by (cases m) auto
qed simp

lemma mod_order_Nil: "count_list ms Mod_Timestamp = 0 \<Longrightarrow> count_list ms Mod_Counter = 0 \<Longrightarrow> ms = []"
  using mod_order_length [of ms] by simp

end
