(* ===== verification/Parser.thy ===== *)
theory Parser
  imports Lexer Script_Structs
begin

text \<open>
  \<^verbatim>\<open>interpreter/parser.{h,cpp}\<close>: the recursive-descent parser from tokens to \<^verbatim>\<open>DSLData\<close>. The
  position \<^verbatim>\<open>token_pos_\<close> is represented by the tokens not yet consumed. \<^verbatim>\<open>consume()\<close> leaves the
  position where it is at the end of the tokens, which is \<open>tl []\<close>; every call that uses the
  token it returns is guarded by \<^verbatim>\<open>is_expected\<close>, so that token is \<open>peek_token\<close>.
\<close>

section \<open>Error messages\<close>

definition unexpected_token :: "token \<Rightarrow> string" where
  "unexpected_token t =
     ''Unexpected token '' @ styled_string (tok_text t) Style_BadValue
     @ '' of type '' @ styled_string (ttype_to_string (tok_type t)) Style_Keyword
     @ '' at '' @ position_string (tok_line t) (tok_col t)"

definition bad_toplevel_error :: "token \<Rightarrow> string" where
  "bad_toplevel_error t =
     unexpected_token t @ '' (expected '' @ styled_string ''SETTINGS'' Style_Expected
     @ '' or '' @ styled_string ''ORCHESTRATOR'' Style_Expected @ '')''"

definition bad_type_error :: "token \<Rightarrow> token_type \<Rightarrow> string" where
  "bad_type_error t expected =
     unexpected_token t @ '' (expected type ''
     @ styled_string (ttype_to_string expected) Style_Expected @ '')''"

definition bad_action_error :: "token \<Rightarrow> string" where
  "bad_action_error t =
     ''Unexpected keyword '' @ styled_string (tok_text t) Style_BadValue
     @ '' at '' @ position_string (tok_line t) (tok_col t)
     @ '' (expected a valid action keyword such as '' @ styled_string ''CREATE'' Style_Context
     @ '', '' @ styled_string ''CONNECT'' Style_Context
     @ '', '' @ styled_string ''...'' Style_Context @ '' )''"

definition bad_operator_error :: "token \<Rightarrow> string \<Rightarrow> string" where
  "bad_operator_error t op =
     unexpected_token t @ '' (expected operator '' @ styled_string op Style_Expected @ '')''"

definition bad_integer_error :: "token \<Rightarrow> string \<Rightarrow> string" where
  "bad_integer_error t keyword =
     unexpected_token t @ '' (expected an integer value for ''
     @ styled_string keyword Style_Expected @ '')''"

definition negative_integer_error :: "token \<Rightarrow> string" where
  "negative_integer_error t = unexpected_token t @ '' (expected a positive integer)''"

definition oob_port_error :: "token \<Rightarrow> string" where
  "oob_port_error t =
     ''Token '' @ styled_string (tok_text t) Style_BadValue
     @ '' at '' @ position_string (tok_line t) (tok_col t)
     @ '' has '' @ styled_string ''PORT'' Style_BadField
     @ '' value out of range (must be between '' @ styled_string ''1'' Style_Limits
     @ '' and '' @ styled_string ''65535'' Style_Limits @ '')''"

definition bad_time_error :: "token \<Rightarrow> string" where
  "bad_time_error t =
     unexpected_token t @ '' (expected a valid time value, i.e ''
     @ styled_string ''1ms'' Style_Expected @ '', '' @ styled_string ''1s'' Style_Expected @ '')''"

definition bad_time_format :: "token \<Rightarrow> string" where
  "bad_time_format t =
     unexpected_token t @ '' (expected a valid time format, i.e ''
     @ styled_string ''seconds'' Style_Expected @ '', ''
     @ styled_string ''milliseconds'' Style_Expected @ '', ''
     @ styled_string ''microseconds'' Style_Expected @ '', ''
     @ styled_string ''nanoseconds'' Style_Expected @ '')''"

definition bad_bool_error :: "token \<Rightarrow> string" where
  "bad_bool_error t =
     unexpected_token t @ '' (expected '' @ styled_string ''true'' Style_Expected
     @ '' or '' @ styled_string ''false'' Style_Expected @ '')''"

definition bad_endian_error :: "token \<Rightarrow> string" where
  "bad_endian_error t =
     unexpected_token t @ '' (expected ''
     @ styled_string (QUOTE # ''little'' @ [QUOTE]) Style_Expected
     @ '' or '' @ styled_string (QUOTE # ''big'' @ [QUOTE]) Style_Expected
     @ '' for endian field)''"

definition bad_nesting_error :: "token \<Rightarrow> string" where
  "bad_nesting_error t = unexpected_token t @ '' (unexpected nesting)''"

definition missing_copies_error :: "token \<Rightarrow> string" where
  "missing_copies_error t =
     unexpected_token t @ '' (expected '' @ styled_string ''COPIES'' Style_Expected @ '' instead)''"

definition unterminated_error :: "token \<Rightarrow> string" where
  "unterminated_error t =
     unexpected_token t @ '' (expected nesting terminator ''
     @ styled_string ''}'' Style_Expected @ '' instead)''"

section \<open>Token operations\<close>

definition end_of_tokens :: "token list \<Rightarrow> bool" where
  "end_of_tokens ts \<longleftrightarrow> ts = []"

definition consume :: "token list \<Rightarrow> token list" where
  "consume ts = tl ts"

definition peek_token :: "token list \<Rightarrow> token" where
  "peek_token ts = (case ts of [] \<Rightarrow> make_token Value ''EOF'' 0 0 | t # _ \<Rightarrow> t)"

definition is_expected :: "token_type \<Rightarrow> token list \<Rightarrow> bool" where
  "is_expected expected ts \<longleftrightarrow> (if end_of_tokens ts then False else tok_type (peek_token ts) = expected)"

text \<open>
  The two checks the parser repeats: \<^verbatim>\<open>if (!is_expected(T)) return bad_type_error(peek(), T);\<close>
  followed by \<^verbatim>\<open>consume()\<close>, and the same for an operator with a given text.
\<close>

definition expect :: "token_type \<Rightarrow> token list \<Rightarrow> (token \<times> token list) result" where
  "expect ty ts =
     (if is_expected ty ts then Inr (peek_token ts, consume ts)
      else Inl (bad_type_error (peek_token ts) ty))"

definition expect_operator :: "string \<Rightarrow> token list \<Rightarrow> token list result" where
  "expect_operator op ts =
     (if \<not> is_expected Operator ts \<or> tok_text (peek_token ts) \<noteq> op
      then Inl (bad_operator_error (peek_token ts) op)
      else Inr (consume ts))"

definition try_convert_int :: "token \<Rightarrow> string \<Rightarrow> u32 result" where
  "try_convert_int t keyword =
     (case stoi (tok_text t) of
        None \<Rightarrow> Inl (bad_integer_error t keyword)
      | Some pos \<Rightarrow> if pos < 0 then Inl (negative_integer_error t) else Inr (word_of_int pos))"

definition try_parse_range :: "token \<Rightarrow> string \<Rightarrow> token list \<Rightarrow> (range \<times> token list) result" where
  "try_parse_range first_value keyword ts =
     bindE (expect_operator '':'' ts) (\<lambda>ts.
     bindE (expect Value ts) (\<lambda>(second_val, ts).
     bindE (try_convert_int first_value keyword) (\<lambda>start.
     bindE (try_convert_int second_val keyword) (\<lambda>second.
     Inr (\<lparr>rng_start = start, rng_second = second\<rparr>, ts)))))"

definition try_parse_time :: "token \<Rightarrow> u32 result" where
  "try_parse_time time_token =
     (let time_string = tok_text time_token;
          convert = (\<lambda>mul. case stoi (butlast time_string) of
             None \<Rightarrow> Inl (bad_time_error time_token)
           | Some pos \<Rightarrow>
               if pos < 0 then Inl (negative_integer_error time_token)
               else Inr (word_of_int pos * mul))
      in if ends_with time_string ''ms'' then convert 1
         else if ends_with time_string ''s'' then convert 1000
         else Inl (bad_time_error time_token))"

text \<open>
  \<^verbatim>\<open>try_parse_send_option\<close>: both instances read a range and a pair \<^verbatim>\<open>value : value\<close>, then
  check the endianness before the second argument.
\<close>

definition parse_option_tokens :: "token list \<Rightarrow> (range \<times> token \<times> token \<times> token list) result" where
  "parse_option_tokens ts =
     bindE (expect Value ts) (\<lambda>(first_value, ts).
     bindE (try_parse_range first_value ''TIMESTAMP'' ts) (\<lambda>(bytes, ts).
     bindE (expect Value ts) (\<lambda>(first_arg_val, ts).
     bindE (expect_operator '':'' ts) (\<lambda>ts.
     bindE (expect Value ts) (\<lambda>(second_arg_val, ts).
     Inr (bytes, first_arg_val, second_arg_val, ts))))))"

definition parse_endian :: "token \<Rightarrow> bool result" where
  "parse_endian t =
     (if tok_text t = ''little'' then Inr True
      else if tok_text t = ''big'' then Inr False
      else Inl (bad_endian_error t))"

definition try_parse_timestamp_option :: "action \<Rightarrow> token list \<Rightarrow> (action \<times> token list) result" where
  "try_parse_timestamp_option action ts =
     bindE (parse_option_tokens ts) (\<lambda>(bytes, first_arg_val, second_arg_val, ts).
     bindE (parse_endian first_arg_val) (\<lambda>little_endian.
     if tok_text second_arg_val = ''seconds'' \<or> tok_text second_arg_val = ''milliseconds''
        \<or> tok_text second_arg_val = ''microseconds'' \<or> tok_text second_arg_val = ''nanoseconds''
     then Inr (push_timestamp
                 \<lparr>tm_bytes = bytes, tm_little_endian = little_endian,
                  tm_format_name = tok_text second_arg_val\<rparr> action, ts)
     else Inl (bad_time_format second_arg_val)))"

definition try_parse_counter_option :: "action \<Rightarrow> token list \<Rightarrow> (action \<times> token list) result" where
  "try_parse_counter_option action ts =
     bindE (parse_option_tokens ts) (\<lambda>(bytes, first_arg_val, second_arg_val, ts).
     bindE (parse_endian first_arg_val) (\<lambda>little_endian.
     bindE (try_convert_int second_arg_val ''COUNTER'') (\<lambda>step.
     Inr (push_counter
            \<lparr>cm_bytes = bytes, cm_step = step, cm_little_endian = little_endian\<rparr> action, ts))))"

section \<open>Every successful read consumes tokens\<close>

named_theorems parser_progress \<open>successful parser calls leave fewer tokens\<close>

lemma is_expected_Cons:
  "is_expected ty ts \<longleftrightarrow> (\<exists>t ts'. ts = t # ts' \<and> tok_type t = ty)"
  by (cases ts) (auto simp: is_expected_def end_of_tokens_def peek_token_def)

lemma expect_Inr [result_simps]:
  "expect ty ts = Inr (t, ts') \<longleftrightarrow> ts = t # ts' \<and> tok_type t = ty"
  by (cases ts) (auto simp: expect_def is_expected_def end_of_tokens_def peek_token_def consume_def)

lemma expect_operator_Inr [result_simps]:
  "expect_operator op ts = Inr ts' \<longleftrightarrow> (\<exists>t. ts = t # ts' \<and> tok_type t = Operator \<and> tok_text t = op)"
  by (cases ts) (auto simp: expect_operator_def is_expected_def end_of_tokens_def peek_token_def consume_def)

lemma try_parse_range_shorter [parser_progress]:
  "try_parse_range t kw ts = Inr (r, ts') \<Longrightarrow> length ts' < length ts"
  by (auto simp: try_parse_range_def result_simps)

lemma parse_option_tokens_shorter [parser_progress]:
  "parse_option_tokens ts = Inr (b, t, u, ts') \<Longrightarrow> length ts' < length ts"
  by (fastforce simp: parse_option_tokens_def result_simps dest: try_parse_range_shorter)

lemma timestamp_option_shorter [parser_progress]:
  "try_parse_timestamp_option a ts = Inr (a', ts') \<Longrightarrow> length ts' < length ts"
  by (auto simp: try_parse_timestamp_option_def result_simps split: if_splits
      dest: parse_option_tokens_shorter)

lemma counter_option_shorter [parser_progress]:
  "try_parse_counter_option a ts = Inr (a', ts') \<Longrightarrow> length ts' < length ts"
  by (auto simp: try_parse_counter_option_def result_simps dest: parse_option_tokens_shorter)

section \<open>The SETTINGS block\<close>

text \<open>
  The two nested lists. A round reads one entry; a comma continues the loop, a closing
  brace ends it (and is consumed by the caller).
\<close>

function parse_packets :: "settings_block \<Rightarrow> token list \<Rightarrow> (settings_block \<times> token list) result" where
  "parse_packets settings ts =
     (if is_expected BraceClosed ts then Inr (settings, ts)
      else
        bindE (expect Identity ts) (\<lambda>(packet_identity, ts1).
        bindE (expect_operator '':'' ts1) (\<lambda>ts2.
        bindE (expect Value ts2) (\<lambda>(packet_value, ts3).
        let settings = settings\<lparr>st_packet_identifiers :=
              AList.update (tok_text packet_identity) (tok_text packet_value)
                (st_packet_identifiers settings)\<rparr>
        in if \<not> is_expected Operator ts3 \<or> tok_text (peek_token ts3) \<noteq> '',''
           then if is_expected BraceClosed ts3 then Inr (settings, ts3)
                else Inl (bad_operator_error (peek_token ts3) '','')
           else parse_packets settings (consume ts3)))))"
  by pat_completeness auto
termination
  by (relation "measure (\<lambda>(s, ts). length ts)") (auto simp: result_simps consume_def)

declare parse_packets.simps [simp del]

function parse_endpoints :: "settings_block \<Rightarrow> token list \<Rightarrow> (settings_block \<times> token list) result" where
  "parse_endpoints settings ts =
     (if is_expected BraceClosed ts then Inr (settings, ts)
      else
        bindE (expect Value ts) (\<lambda>(endpoint_value, ts1).
        let settings = settings\<lparr>st_endpoints := st_endpoints settings @ [tok_text endpoint_value]\<rparr>
        in if \<not> is_expected Operator ts1 \<or> tok_text (peek_token ts1) \<noteq> '',''
           then if is_expected BraceClosed ts1 then Inr (settings, ts1)
                else Inl (bad_operator_error (peek_token ts1) '','')
           else parse_endpoints settings (consume ts1)))"
  by pat_completeness auto
termination
  by (relation "measure (\<lambda>(s, ts). length ts)") (auto simp: result_simps consume_def)

declare parse_endpoints.simps [simp del]

lemma parse_packets_le: "parse_packets s ts = Inr (s', ts') \<Longrightarrow> length ts' \<le> length ts"
proof (induction s ts rule: parse_packets.induct)
  case (1 s ts)
  from "1.prems" "1.IH" show ?case
    by (subst (asm) parse_packets.simps)
       (fastforce simp: result_simps consume_def Let_def split: if_splits)
qed

lemma parse_endpoints_le: "parse_endpoints s ts = Inr (s', ts') \<Longrightarrow> length ts' \<le> length ts"
proof (induction s ts rule: parse_endpoints.induct)
  case (1 s ts)
  from "1.prems" "1.IH" show ?case
    by (subst (asm) parse_endpoints.simps)
       (fastforce simp: result_simps consume_def Let_def split: if_splits)
qed

text \<open>A keyword followed by a brace: \<^verbatim>\<open>PACKETS\<close> or \<^verbatim>\<open>ENDPOINTS\<close>, closed by a brace.\<close>

definition parse_nested :: "token \<Rightarrow> settings_block \<Rightarrow> token list \<Rightarrow> (settings_block \<times> token list) result" where
  "parse_nested keyword settings ts =
     bindE (if tok_text keyword = ''PACKETS'' then parse_packets settings ts
            else if tok_text keyword = ''ENDPOINTS'' then parse_endpoints settings ts
            else Inl (bad_nesting_error (peek_token ts))) (\<lambda>(settings, ts).
     if \<not> is_expected BraceClosed ts then Inl (unterminated_error (peek_token ts))
     else Inr (settings, consume ts))"

definition parse_bool :: "token \<Rightarrow> bool result" where
  "parse_bool t =
     (if tok_text t = ''true'' then Inr True
      else if tok_text t = ''false'' then Inr False
      else Inl (bad_bool_error t))"

definition assign_setting :: "token \<Rightarrow> token \<Rightarrow> settings_block \<Rightarrow> settings_block result" where
  "assign_setting keyword value_token settings =
     (let kw = tok_text keyword in
      if kw = ''SESSION'' then Inr (settings\<lparr>st_session_protocol := tok_text value_token\<rparr>)
      else if kw = ''PORT'' then
        bindE (try_convert_int value_token ''PORT'') (\<lambda>temp.
        if temp > 65535 then Inl (oob_port_error value_token)
        else Inr (settings\<lparr>st_port := ucast temp\<rparr>))
      else if kw = ''HEADERSIZE'' then
        bindE (try_convert_int value_token ''HEADERSIZE'') (\<lambda>v. Inr (settings\<lparr>st_header_size := v\<rparr>))
      else if kw = ''BODYMAX'' then
        bindE (try_convert_int value_token ''BODYMAX'') (\<lambda>v. Inr (settings\<lparr>st_body_max := v\<rparr>))
      else if kw = ''READ'' then
        bindE (parse_bool value_token) (\<lambda>b. Inr (settings\<lparr>st_read := b\<rparr>))
      else if kw = ''REPEAT'' then
        bindE (parse_bool value_token) (\<lambda>b. Inr (settings\<lparr>st_repeat := b\<rparr>))
      else if kw = ''SAMPLERATE'' then
        bindE (try_convert_int value_token ''SAMPLERATE'') (\<lambda>v. Inr (settings\<lparr>st_packet_sample_rate := v\<rparr>))
      else if kw = ''SHARDS'' then
        bindE (try_convert_int value_token ''SHARDS'') (\<lambda>v. Inr (settings\<lparr>st_shards := v\<rparr>))
      else if kw = ''HANDLER'' then Inr (settings\<lparr>st_handler_value := tok_text value_token\<rparr>)
      else Inl ''Bad keyword detected? This is a software bug.'')"

text \<open>One round of the loop over the block: a nested list or \<^verbatim>\<open>KEYWORD = value\<close>.\<close>

definition parse_setting :: "settings_block \<Rightarrow> token list \<Rightarrow> (settings_block \<times> token list) result" where
  "parse_setting settings ts =
     bindE (expect Keyword ts) (\<lambda>(keyword, ts).
     if is_expected BraceOpen ts then parse_nested keyword settings (consume ts)
     else
       bindE (expect_operator ''='' ts) (\<lambda>ts.
       bindE (expect Value ts) (\<lambda>(value_token, ts).
       bindE (assign_setting keyword value_token settings) (\<lambda>settings.
       Inr (settings, ts)))))"

lemma parse_setting_shorter [parser_progress]:
  "parse_setting s ts = Inr (s', ts') \<Longrightarrow> length ts' < length ts"
  by (fastforce simp: parse_setting_def parse_nested_def consume_def is_expected_Cons result_simps
      split: if_splits dest: parse_packets_le parse_endpoints_le)

function parse_settings_body :: "settings_block \<Rightarrow> token list \<Rightarrow> (settings_block \<times> token list) result" where
  "parse_settings_body settings ts =
     (if is_expected BraceClosed ts then Inr (settings, ts)
      else bindE (parse_setting settings ts) (\<lambda>(settings', ts'). parse_settings_body settings' ts'))"
  by pat_completeness auto
termination
  by (relation "measure (\<lambda>(s, ts). length ts)") (auto dest: parse_setting_shorter)

declare parse_settings_body.simps [simp del]

definition parse_settings :: "settings_block \<Rightarrow> token list \<Rightarrow> (settings_block \<times> token list) result" where
  "parse_settings settings ts =
     bindE (expect Identity (consume ts)) (\<lambda>(name, ts).
     bindE (expect BraceOpen ts) (\<lambda>(_, ts).
     bindE (parse_settings_body (settings\<lparr>st_identifier := tok_text name\<rparr>) ts) (\<lambda>(settings, ts).
     bindE (expect BraceClosed ts) (\<lambda>(_, ts).
     Inr (settings, ts)))))"

section \<open>The ORCHESTRATOR block\<close>

definition DEFAULT_OFFSET_MS :: u32 where
  "DEFAULT_OFFSET_MS = 250"

text \<open>The optional modifications of a SEND.\<close>

function parse_send_options :: "action \<Rightarrow> token list \<Rightarrow> (action \<times> token list) result" where
  "parse_send_options action ts =
     (if tok_text (peek_token ts) \<noteq> ''OFFSET'' \<and> is_expected Keyword ts then
        if tok_text (peek_token ts) = ''COUNTER'' then
          bindE (try_parse_counter_option action (consume ts)) (\<lambda>(action', ts'). parse_send_options action' ts')
        else if tok_text (peek_token ts) = ''TIMESTAMP'' then
          bindE (try_parse_timestamp_option action (consume ts)) (\<lambda>(action', ts'). parse_send_options action' ts')
        else Inr (action, ts)
      else Inr (action, ts))"
  by pat_completeness auto
termination
  by (relation "measure (\<lambda>(a, ts). length ts)")
     (auto simp: consume_def is_expected_Cons dest!: counter_option_shorter timestamp_option_shorter)

declare parse_send_options.simps [simp del]

definition parse_send :: "action \<Rightarrow> token \<Rightarrow> token \<Rightarrow> token list \<Rightarrow> (action \<times> token list) result" where
  "parse_send action t_action first_val ts =
     bindE (try_parse_range first_val (tok_text t_action) ts) (\<lambda>(r, ts).
     bindE (expect Identity ts) (\<lambda>(packet_id, ts).
     if \<not> is_expected Keyword ts then Inl (bad_type_error (peek_token ts) Keyword)
     else if tok_text (peek_token ts) \<noteq> ''COPIES'' then Inl (missing_copies_error (peek_token ts))
     else
       bindE (expect Value (consume ts)) (\<lambda>(copies_value, ts).
       bindE (try_convert_int copies_value ''COPIES'') (\<lambda>n.
       parse_send_options
         (action\<lparr>act_range := r, act_packet_identifier := tok_text packet_id, act_count := n\<rparr>) ts))))"

definition parse_offset :: "action \<Rightarrow> token list \<Rightarrow> (action \<times> token list) result" where
  "parse_offset action ts =
     (if tok_text (peek_token ts) = ''OFFSET'' then
        bindE (expect Value (consume ts)) (\<lambda>(timeout_token, ts).
        bindE (try_parse_time timeout_token) (\<lambda>ms.
        Inr (action\<lparr>act_offset_ms := ms\<rparr>, ts)))
      else Inr (action\<lparr>act_offset_ms := DEFAULT_OFFSET_MS\<rparr>, ts))"

definition parse_ranged :: "action \<Rightarrow> token \<Rightarrow> token \<Rightarrow> token list \<Rightarrow> (action \<times> token list) result" where
  "parse_ranged action t_action first_val ts =
     bindE (try_parse_range first_val (tok_text t_action) ts) (\<lambda>(r, ts).
     Inr (action\<lparr>act_range := r\<rparr>, ts))"

text \<open>One action line; \<open>uninit\<close> is the indeterminate \<^verbatim>\<open>count\<close> of \<^verbatim>\<open>Action action;\<close>.\<close>

definition parse_action :: "u32 \<Rightarrow> token list \<Rightarrow> (action \<times> token list) result" where
  "parse_action uninit ts =
     bindE (expect Keyword ts) (\<lambda>(t_action, ts).
     bindE (expect Value ts) (\<lambda>(first_val, ts).
     bindE
      (if tok_text t_action = ''SEND'' then parse_send (new_action SEND uninit) t_action first_val ts
       else if tok_text t_action = ''CONNECT'' then parse_ranged (new_action CONNECT uninit) t_action first_val ts
       else if tok_text t_action = ''FLOOD'' then parse_ranged (new_action FLOOD uninit) t_action first_val ts
       else if tok_text t_action = ''DRAIN'' then parse_ranged (new_action DRAIN uninit) t_action first_val ts
       else if tok_text t_action = ''DISCONNECT'' then parse_ranged (new_action DISCONNECT uninit) t_action first_val ts
       else if tok_text t_action = ''CREATE'' then
         bindE (try_convert_int first_val ''CREATE'') (\<lambda>n.
         Inr ((new_action CREATE n)\<lparr>act_range := \<lparr>rng_start = 0, rng_second = n\<rparr>\<rparr>, ts))
       else Inl (bad_action_error (peek_token ts))) (\<lambda>(action, ts).
     parse_offset action ts)))"

lemma parse_send_options_le: "parse_send_options a ts = Inr (a', ts') \<Longrightarrow> length ts' \<le> length ts"
proof (induction a ts rule: parse_send_options.induct)
  case (1 a ts)
  from "1.prems" "1.IH" show ?case
    by (subst (asm) parse_send_options.simps)
       (fastforce simp: result_simps consume_def is_expected_Cons split: if_splits
         dest: counter_option_shorter timestamp_option_shorter)
qed

lemma parse_send_le: "parse_send a t u ts = Inr (a', ts') \<Longrightarrow> length ts' \<le> length ts"
  by (fastforce simp: parse_send_def result_simps consume_def is_expected_Cons split: if_splits
      dest: parse_send_options_le try_parse_range_shorter)

lemma parse_offset_le: "parse_offset a ts = Inr (a', ts') \<Longrightarrow> length ts' \<le> length ts"
  by (cases ts) (auto simp: parse_offset_def result_simps consume_def split: if_splits)

lemma parse_ranged_le: "parse_ranged a t u ts = Inr (a', ts') \<Longrightarrow> length ts' \<le> length ts"
  by (auto simp: parse_ranged_def result_simps dest: try_parse_range_shorter)

lemma parse_action_shorter [parser_progress]:
  assumes "parse_action uninit ts = Inr (a, ts')"
  shows "length ts' < length ts"
proof -
  from assms obtain t u ts1 a1 ts2 where ts: "ts = t # u # ts1" "parse_offset a1 ts2 = Inr (a, ts')"
    and body: "length ts2 \<le> length ts1"
    by (auto simp: parse_action_def result_simps split: if_splits dest!: parse_send_le parse_ranged_le)
  with parse_offset_le [OF ts(2)] show ?thesis by simp
qed

function parse_actions :: "u32 \<Rightarrow> orchestrator_block \<Rightarrow> token list \<Rightarrow> (orchestrator_block \<times> token list) result" where
  "parse_actions uninit orch ts =
     (if is_expected BraceClosed ts then Inr (orch, ts)
      else bindE (parse_action uninit ts) (\<lambda>(action, ts').
        parse_actions uninit (orch\<lparr>or_actions := or_actions orch @ [action]\<rparr>) ts'))"
  by pat_completeness auto
termination
  by (relation "measure (\<lambda>(u, o', ts). length ts)") (auto dest: parse_action_shorter)

declare parse_actions.simps [simp del]

definition parse_orchestrator ::
  "u32 \<Rightarrow> orchestrator_block \<Rightarrow> token list \<Rightarrow> (orchestrator_block \<times> token list) result" where
  "parse_orchestrator uninit orch ts =
     bindE (expect Identity (consume ts)) (\<lambda>(name, ts).
     bindE (expect BraceOpen ts) (\<lambda>(_, ts).
     bindE (parse_actions uninit (orch\<lparr>or_settings_identifier := tok_text name\<rparr>) ts) (\<lambda>(orch, ts).
     bindE (expect BraceClosed ts) (\<lambda>(_, ts).
     Inr (orch, ts)))))"

section \<open>The whole script\<close>

lemma parse_settings_body_le: "parse_settings_body s ts = Inr (s', ts') \<Longrightarrow> length ts' \<le> length ts"
proof (induction s ts rule: parse_settings_body.induct)
  case (1 s ts)
  from "1.prems" "1.IH" show ?case
    by (subst (asm) parse_settings_body.simps)
       (fastforce simp: result_simps split: if_splits dest: parse_setting_shorter)
qed

lemma parse_actions_le: "parse_actions u orch ts = Inr (o', ts') \<Longrightarrow> length ts' \<le> length ts"
proof (induction u orch ts rule: parse_actions.induct)
  case (1 u orch ts)
  from "1.prems" "1.IH" show ?case
    by (subst (asm) parse_actions.simps)
       (fastforce simp: result_simps split: if_splits dest: parse_action_shorter)
qed

lemma parse_settings_shorter [parser_progress]:
  "parse_settings s ts = Inr (s', ts') \<Longrightarrow> length ts' < length ts"
  by (cases ts) (auto simp: parse_settings_def consume_def result_simps dest!: parse_settings_body_le)

lemma parse_orchestrator_shorter [parser_progress]:
  "parse_orchestrator u orch ts = Inr (o', ts') \<Longrightarrow> length ts' < length ts"
  by (cases ts) (auto simp: parse_orchestrator_def consume_def result_simps dest!: parse_actions_le)

function parse :: "u32 \<Rightarrow> dsl_data \<Rightarrow> token list \<Rightarrow> dsl_data result" where
  "parse uninit script_data ts =
     (if end_of_tokens ts then Inr script_data
      else if tok_text (peek_token ts) = ''SETTINGS'' then
        bindE (parse_settings (ds_settings script_data) ts) (\<lambda>(settings, ts').
        parse uninit (script_data\<lparr>ds_settings := settings\<rparr>) ts')
      else if tok_text (peek_token ts) = ''ORCHESTRATOR'' then
        bindE (parse_orchestrator uninit (ds_orchestrator script_data) ts) (\<lambda>(orch, ts').
        parse uninit (script_data\<lparr>ds_orchestrator := orch\<rparr>) ts')
      else Inl (bad_toplevel_error (peek_token ts)))"
  by pat_completeness auto
termination
  by (relation "measure (\<lambda>(u, d, ts). length ts)") (auto dest: parse_settings_shorter parse_orchestrator_shorter)

declare parse.simps [simp del]

end
