(* ===== verification/Resolver.thy ===== *)
theory Resolver
  imports Prelude
begin

text \<open>
  \<^verbatim>\<open>resolver/resolver.{h,cpp}\<close>: turning the paths of a script into files. The operating system
  is a parameter: the environment variables, path canonicalisation, file sizes and file
  contents, and the number of hardware threads the interpreter asks for.
\<close>

record os =
  os_getenv :: "string \<Rightarrow> string option"
  os_canonical :: "string \<Rightarrow> string result"
  os_file_size :: "string \<Rightarrow> u64 option"
  os_contents :: "string \<Rightarrow> u8 list option"
  os_hardware_concurrency :: int

record resolver_options =
  expand_envs :: bool

text \<open>
  The loop of \<^verbatim>\<open>expand_env_variables\<close>: the output so far, whether a variable name is being
  read, and the name read so far.
\<close>

fun expand_env_loop ::
  "(string \<Rightarrow> string option) \<Rightarrow> string \<Rightarrow> bool \<Rightarrow> string \<Rightarrow> string \<Rightarrow> string" where
  "expand_env_loop getenv out_path finding_env current_env [] = out_path"
| "expand_env_loop getenv out_path finding_env current_env (c # cs) =
     (if c = CHR ''$'' then expand_env_loop getenv out_path True [] cs
      else
        let ends = (c = CHR ''/'' \<and> finding_env);
            out' = (if ends then out_path @ (case getenv current_env of Some v \<Rightarrow> v | None \<Rightarrow> []) else out_path);
            finding' = (if ends then False else finding_env)
        in if \<not> finding' then expand_env_loop getenv (out' @ [c]) finding' current_env cs
           else expand_env_loop getenv out' finding' (current_env @ [c]) cs)"

definition expand_env_variables :: "(string \<Rightarrow> string option) \<Rightarrow> string \<Rightarrow> string" where
  "expand_env_variables getenv in_path = expand_env_loop getenv [] False [] in_path"

definition expand_tilde :: "(string \<Rightarrow> string option) \<Rightarrow> string \<Rightarrow> string" where
  "expand_tilde getenv in_path =
     (if in_path = [] then in_path
      else if take 2 in_path = ''~/'' then
        (case getenv ''HOME'' of Some home \<Rightarrow> home @ drop 1 in_path | None \<Rightarrow> in_path)
      else in_path)"

definition resolve_file :: "os \<Rightarrow> resolver_options \<Rightarrow> string \<Rightarrow> string result" where
  "resolve_file env opts raw_file =
     (let expanded = (if expand_envs opts then expand_env_variables (os_getenv env) raw_file else raw_file)
      in os_canonical env (expand_tilde (os_getenv env) expanded))"

definition get_file_size :: "os \<Rightarrow> string \<Rightarrow> u64" where
  "get_file_size env path = (case os_file_size env path of None \<Rightarrow> 0 | Some n \<Rightarrow> n)"

text \<open>Reading \<open>n\<close> bytes from a file: it fails when the file cannot be opened or is shorter.\<close>

definition read_bytes :: "os \<Rightarrow> string \<Rightarrow> nat \<Rightarrow> u8 list option" where
  "read_bytes env path n =
     (case os_contents env path of
        None \<Rightarrow> None
      | Some bs \<Rightarrow> if length bs < n then None else Some (take n bs))"

definition read_binary_file :: "os \<Rightarrow> string \<Rightarrow> u8 list result" where
  "read_binary_file env path =
     (let file_size = get_file_size env path in
      if file_size = 0 then Inl (''File '' @ path @ '' had zero bytes to read!'')
      else if file_size \<ge> - 1 then Inl (''File '' @ path @ '' has more than SIZE_T bytes!'')
      else case read_bytes env path (unat file_size) of
             None \<Rightarrow> Inl (''Failed to read file '' @ path)
           | Some bytes \<Rightarrow> Inr bytes)"

definition read_bytes_to_contiguous :: "os \<Rightarrow> string \<Rightarrow> nat \<Rightarrow> u8 list result" where
  "read_bytes_to_contiguous env path buffer_size =
     (case read_bytes env path buffer_size of
        None \<Rightarrow> Inl (''Failed to read file '' @ path)
      | Some bytes \<Rightarrow> Inr bytes)"

section \<open>What the expansions do\<close>

text \<open>
  The reference: split the path at its variables. A variable is a dollar sign, a name
  without slash or dollar, and it is replaced where the slash that ends it stands.
\<close>

lemma expand_env_loop_plain:
  assumes "CHR ''$'' \<notin> set s"
  shows "expand_env_loop g out False cur (s @ r) = expand_env_loop g (out @ s) False cur r"
  using assms by (induction s arbitrary: out) auto

lemma expand_env_loop_name:
  assumes "CHR ''$'' \<notin> set s" "CHR ''/'' \<notin> set s"
  shows "expand_env_loop g out True cur (s @ r) = expand_env_loop g out True (cur @ s) r"
  using assms by (induction s arbitrary: cur) auto

lemma expand_env_variables_no_dollar:
  "CHR ''$'' \<notin> set s \<Longrightarrow> expand_env_variables g s = s"
  using expand_env_loop_plain [of s g "[]" "[]" "[]"] by (simp add: expand_env_variables_def)

lemma read_binary_file_length:
  "read_binary_file env path = Inr bs \<Longrightarrow> length bs = unat (get_file_size env path) \<and> bs \<noteq> []"
  by (auto simp: read_binary_file_def read_bytes_def Let_def split: if_splits option.splits)
     (metis unat_eq_zero)+

end
