(* ===== verification/Interpreter.thy ===== *)
theory Interpreter
  imports Parser Resolver
begin

text \<open>
  \<^verbatim>\<open>interpreter/interpreter.{h,cpp}\<close>: reading a script file, the defaults, and the validator
  \<^verbatim>\<open>verify_script\<close>. The validator's checks are in the source's order; each early return is an
  \<open>Inl\<close> with the message the source builds.
\<close>

section \<open>Messages\<close>

definition bad_field :: "string \<Rightarrow> string" where
  "bad_field s = styled_string s Style_BadField"

definition bad_value :: "string \<Rightarrow> string" where
  "bad_value s = styled_string s Style_BadValue"

definition keyword_ref :: "string \<Rightarrow> string" where
  "keyword_ref s = styled_string s Style_Keyword"

definition limit_ref :: "string \<Rightarrow> string" where
  "limit_ref s = styled_string s Style_Limits"

definition show_u32 :: "u32 \<Rightarrow> string" where
  "show_u32 w = to_string (unat w)"

text \<open>The prefix \<^verbatim>\<open>ACTION [action i]\<close> of every message about an action.\<close>

definition action_ref :: "string \<Rightarrow> nat \<Rightarrow> string" where
  "action_ref kw i =
     bad_field kw @ '' '' @ styled_string (''[action '' @ to_string i @ '']'') Style_Reference"

definition send_mod_ref :: "nat \<Rightarrow> string" where
  "send_mod_ref i =
     keyword_ref ''SEND'' @ '' '' @ styled_string (''[action '' @ to_string i @ '']'') Style_Reference"

definition out_of_pool_error :: "string \<Rightarrow> nat \<Rightarrow> u32 \<Rightarrow> u32 \<Rightarrow> string \<Rightarrow> string \<Rightarrow> string" where
  "out_of_pool_error kw i second pool_size lead tail =
     action_ref kw i @ '' was scheduled for session '' @ bad_value (show_u32 second)
     @ lead @ ''(pool only holds '' @ limit_ref (show_u32 pool_size) @ tail"

definition not_connected_error :: "string \<Rightarrow> nat \<Rightarrow> nat \<Rightarrow> string" where
  "not_connected_error kw i j =
     action_ref kw i @ '' was scheduled for session '' @ bad_value (to_string j)
     @ '' despite not being connected.''"

definition bad_range_error :: "u32 \<times> u32 \<Rightarrow> range \<Rightarrow> nat \<Rightarrow> string" where
  "bad_range_error overlapped violating action_id =
     action_ref ''SEND'' action_id @ '' has modification of range {''
     @ bad_value (show_u32 (rng_start violating) @ '' '' @ show_u32 (rng_second violating))
     @ ''} overlapping previous modification of range {''
     @ limit_ref (show_u32 (fst overlapped) @ '' '' @ show_u32 (snd overlapped)) @ ''}''"

section \<open>Defaults\<close>

definition DEFAULT_PACKET_SAMPLE_RATE :: u32 where
  "DEFAULT_PACKET_SAMPLE_RATE = 100"

definition set_script_defaults :: "os \<Rightarrow> settings_block \<Rightarrow> settings_block" where
  "set_script_defaults env settings =
     (let s1 = (if st_shards settings = 0 then
                  let hw_conc = os_hardware_concurrency env;
                      hw_conc = (if hw_conc \<le> 0 then 1 else hw_conc)
                  in settings\<lparr>st_shards := word_of_int hw_conc\<rparr>
                else settings);
          s2 = (if st_handler_value s1 = [] then s1\<lparr>st_handler_value := ''NOP''\<rparr> else s1)
      in if st_packet_sample_rate s2 = 0
         then s2\<lparr>st_packet_sample_rate := DEFAULT_PACKET_SAMPLE_RATE\<rparr> else s2)"

section \<open>Checks on the settings\<close>

definition verify_settings_fields :: "settings_block \<Rightarrow> unit result" where
  "verify_settings_fields settings =
     bindE (guardE (st_identifier settings \<noteq> []) (bad_field ''SETTINGS'' @ '' block had empty identifier'')) (\<lambda>_.
     bindE (guardE (st_session_protocol settings \<in> set VALID_PROTOCOLS)
       (keyword_ref ''SETTINGS'' @ '' block had invalid '' @ bad_field ''SESSION'' @ '' ''
        @ bad_value (st_session_protocol settings) @ '' (expected one of ''
        @ styled_string ''TCP'' Style_Expected @ '')'')) (\<lambda>_.
     bindE (guardE (\<not> ((st_session_protocol settings = ''TCP'' \<or> st_session_protocol settings = ''UDP'')
                       \<and> st_port settings = 0))
       (keyword_ref ''SETTINGS'' @ '' block had invalid '' @ bad_field ''PORT'' @ '' ''
        @ bad_value (to_string (unat (st_port settings))) @ '' (value must be between ''
        @ limit_ref ''1'' @ '' and '' @ limit_ref ''65535'' @ '')'')) (\<lambda>_.
     bindE (guardE (\<not> (st_header_size settings = 0 \<and> st_read settings))
       (keyword_ref ''SETTINGS'' @ '' block had '' @ bad_field ''HEADERSIZE'' @ '' '' @ bad_value ''0''
        @ '' with reading enabled'')) (\<lambda>_.
     bindE (guardE (\<not> (st_body_max settings = 0 \<and> st_read settings))
       (keyword_ref ''SETTINGS'' @ '' block had '' @ bad_field ''BODYMAX'' @ '' set to '' @ bad_value ''0''
        @ '' with reading enabled'')) (\<lambda>_.
     bindE (guardE (st_shards settings \<noteq> 0)
       (keyword_ref ''SETTINGS'' @ '' block has '' @ bad_field ''SHARD'' @ '' set to '' @ bad_value ''0'')) (\<lambda>_.
     guardE (st_endpoints settings \<noteq> []) (bad_field ''SETTINGS'' @ '' block has no endpoints'')))))))"

definition verify_packets :: "os \<Rightarrow> resolver_options \<Rightarrow> settings_block \<Rightarrow> action list \<Rightarrow> unit result" where
  "verify_packets env opts settings actions =
     bindE (guardE (\<not> (st_packet_identifiers settings = [] \<and> list_ex (\<lambda>a. act_type a = SEND) actions))
       (bad_field ''SETTINGS'' @ '' block has no packets defined'')) (\<lambda>_.
     foldE (\<lambda>(name, file) _.
        case resolve_file env opts file of
          Inr path \<Rightarrow> Inr ()
        | Inl error_string \<Rightarrow>
            Inl (''The '' @ keyword_ref ''SETTINGS'' @ '' '' @ bad_field ''PACKETS''
                 @ '' block has unresolvable packet '' @ bad_value name @ '' with identifier ''
                 @ styled_string file Style_Reference @ '' (got error: ''
                 @ styled_string error_string Style_Error @ '')''))
      (st_packet_identifiers settings) ())"

definition verify_handler :: "os \<Rightarrow> resolver_options \<Rightarrow> settings_block \<Rightarrow> unit result" where
  "verify_handler env opts settings =
     (if st_read settings \<and> st_handler_value settings \<notin> set VALID_MESSAGE_HANDLERS then
        if ends_with (st_handler_value settings) ''.wasm'' then
          (case resolve_file env opts (st_handler_value settings) of
             Inr path \<Rightarrow> Inr ()
           | Inl error_string \<Rightarrow>
               Inl (keyword_ref ''SETTINGS'' @ '' block has message '' @ bad_field ''HANDLER''
                    @ '' ('' @ bad_value (st_handler_value settings)
                    @ '') that cannot be resolved (got error: ''
                    @ styled_string error_string Style_Error @ '')''))
        else
          Inl (keyword_ref ''SETTINGS'' @ '' block has no valid message '' @ bad_field ''HANDLER''
               @ '' for '' @ keyword_ref ''READ'' @ '' to use for reading (expected ''
               @ styled_string (QUOTE # ''NOP'' @ [QUOTE]) Style_Expected
               @ '' or a file path ending in '' @ styled_string ''.wasm'' Style_Expected @ '')'')
      else Inr ())"

definition verify_orchestrator_header :: "settings_block \<Rightarrow> orchestrator_block \<Rightarrow> unit result" where
  "verify_orchestrator_header settings orch =
     bindE (guardE (or_settings_identifier orch \<noteq> [])
       (bad_field ''ORCHESTRATOR'' @ '' is undefined or has no '' @ keyword_ref ''SETTINGS''
        @ '' identifier. Expected: ''
        @ styled_string ''ORCHESRTATOR <settings_id> { ... }'' Style_Expected)) (\<lambda>_.
     bindE (guardE (or_settings_identifier orch = st_identifier settings)
       (''No matching '' @ keyword_ref ''SETTINGS'' @ '' block for '' @ bad_field ''ORCHESTRATOR''
        @ '' requesting identifier '' @ styled_string (or_settings_identifier orch) Style_Reference)) (\<lambda>_.
     guardE (or_actions orch \<noteq> []) (bad_field ''ORCHESTRATOR'' @ '' has no actions defined'')))"

section \<open>Modification ranges\<close>

text \<open>
  The \<^verbatim>\<open>std::map<uint32_t, uint32_t>\<close> of ranges is an association list in ascending key
  order. \<^verbatim>\<open>lower_bound(k)\<close> is the first entry whose key is not below \<open>k\<close>, and the entry before
  it is the last one whose key is.
\<close>

type_synonym mod_map = "(u32 \<times> u32) list"

definition map_put :: "u32 \<Rightarrow> u32 \<Rightarrow> mod_map \<Rightarrow> mod_map" where
  "map_put k v m = takeWhile (\<lambda>p. fst p < k) m @ (k, v) # dropWhile (\<lambda>p. fst p \<le> k) m"

definition insert_mod_range :: "range \<Rightarrow> nat \<Rightarrow> mod_map \<Rightarrow> mod_map result" where
  "insert_mod_range to_insert action_id m =
     (let before = takeWhile (\<lambda>p. fst p < rng_start to_insert) m;
          from_it = dropWhile (\<lambda>p. fst p < rng_start to_insert) m
      in if from_it \<noteq> [] \<and> fst (hd from_it) \<le> rng_second to_insert
         then Inl (bad_range_error (hd from_it) to_insert action_id)
         else if before \<noteq> [] \<and> snd (last before) \<ge> rng_start to_insert
         then Inl (bad_range_error (last before) to_insert action_id)
         else Inr (map_put (rng_start to_insert) (rng_second to_insert) m))"

text \<open>The checks shared by the two kinds of modification: at most 8 bytes, inside the packet.\<close>

definition verify_mod_bounds :: "string \<Rightarrow> range \<Rightarrow> u64 \<Rightarrow> string \<Rightarrow> nat \<Rightarrow> unit result" where
  "verify_mod_bounds kind bytes packet_size packet_id i =
     bindE (guardE (\<not> rng_second bytes > 8)
       (send_mod_ref i @ '' has '' @ bad_field kind @ '' of size '' @ bad_value (show_u32 (rng_second bytes))
        @ '' (should be at most '' @ limit_ref ''8'' @ '')'')) (\<lambda>_.
     guardE (\<not> ucast (end_from_length bytes) \<ge> packet_size)
       (send_mod_ref i @ '' has '' @ bad_field kind @ '' ending at index ''
        @ bad_value (show_u32 (end_from_length bytes)) @ '' exceeding end of packet ''
        @ styled_string packet_id Style_Reference @ '' which has maximum index ''
        @ limit_ref (to_string (unat (packet_size - 1)))))"

definition verify_timestamp_mod ::
  "string \<Rightarrow> u64 \<Rightarrow> nat \<Rightarrow> timestamp_modification \<Rightarrow> mod_map \<Rightarrow> mod_map result" where
  "verify_timestamp_mod packet_id packet_size i time_mod mod_ranges =
     bindE (insert_mod_range (tm_bytes time_mod) i mod_ranges) (\<lambda>mod_ranges.
     bindE (guardE (tm_format_name time_mod \<in> set VALID_TIME_FORMATS)
       (send_mod_ref i @ '' has invalid '' @ bad_field ''TIMESTAMP'' @ '' format ''
        @ bad_value (tm_format_name time_mod) @ '' (expected one of: ''
        @ styled_string ''seconds'' Style_Expected @ '', ''
        @ styled_string ''milliseconds'' Style_Expected @ '', ''
        @ styled_string ''microseconds'' Style_Expected @ '', ''
        @ styled_string ''nanoseconds'' Style_Expected @ '')'')) (\<lambda>_.
     bindE (verify_mod_bounds ''TIMESTAMP'' (tm_bytes time_mod) packet_size packet_id i) (\<lambda>_.
     Inr mod_ranges)))"

definition verify_counter_mod ::
  "string \<Rightarrow> u64 \<Rightarrow> nat \<Rightarrow> counter_modification \<Rightarrow> mod_map \<Rightarrow> mod_map result" where
  "verify_counter_mod packet_id packet_size i counter_mod mod_ranges =
     bindE (insert_mod_range (cm_bytes counter_mod) i mod_ranges) (\<lambda>mod_ranges.
     bindE (guardE (cm_step counter_mod \<noteq> 0)
       (send_mod_ref i @ '' has '' @ bad_field ''COUNTER'' @ '' step set to '' @ bad_value ''0'')) (\<lambda>_.
     bindE (verify_mod_bounds ''COUNTER'' (cm_bytes counter_mod) packet_size packet_id i) (\<lambda>_.
     Inr mod_ranges)))"

section \<open>Checks on the actions\<close>

record verifier =
  pool_size :: u32
  session_active :: "bool list"
  session_disconnect_called :: "bool list"

definition initial_verifier :: verifier where
  "initial_verifier = \<lparr>pool_size = 0, session_active = [], session_disconnect_called = []\<rparr>"

definition session_indices :: "action \<Rightarrow> nat list" where
  "session_indices a = [unat (rng_start (act_range a)) ..< unat (rng_second (act_range a))]"

text \<open>\<^verbatim>\<open>std::vector::resize\<close> on the flag vectors.\<close>

definition resize :: "nat \<Rightarrow> bool list \<Rightarrow> bool list" where
  "resize n xs = take n xs @ replicate (n - length xs) False"

definition verify_in_pool :: "string \<Rightarrow> string \<Rightarrow> string \<Rightarrow> nat \<Rightarrow> action \<Rightarrow> verifier \<Rightarrow> unit result" where
  "verify_in_pool kw lead tail i a v =
     guardE (\<not> rng_second (act_range a) > pool_size v)
       (out_of_pool_error kw i (rng_second (act_range a)) (pool_size v) lead tail)"

definition verify_all_active :: "string \<Rightarrow> nat \<Rightarrow> action \<Rightarrow> verifier \<Rightarrow> unit result" where
  "verify_all_active kw i a v =
     foldE (\<lambda>j _. guardE (session_active v ! j) (not_connected_error kw i j)) (session_indices a) ()"

definition verify_create :: "settings_block \<Rightarrow> nat \<Rightarrow> action \<Rightarrow> verifier \<Rightarrow> verifier result" where
  "verify_create settings i a v =
     bindE (guardE (pool_size v = 0)
       (action_ref ''CREATE'' i @ '' was called twice in '' @ keyword_ref ''ORCHESTRATOR'' @ '' block'')) (\<lambda>_.
     bindE (guardE (\<not> act_count a < st_shards settings)
       (action_ref ''CREATE'' i @ '' has count '' @ bad_value (show_u32 (act_count a)) @ '' less than ''
        @ keyword_ref ''SHARD'' @ '' value '' @ limit_ref (show_u32 (st_shards settings)))) (\<lambda>_.
     Inr \<lparr>pool_size = act_count a,
          session_active = resize (unat (act_count a)) (session_active v),
          session_disconnect_called = resize (unat (act_count a)) (session_disconnect_called v)\<rparr>))"

definition verify_connect :: "nat \<Rightarrow> action \<Rightarrow> verifier \<Rightarrow> verifier result" where
  "verify_connect i a v =
     bindE (guardE (pool_size v \<noteq> 0)
       (action_ref ''CONNECT'' i @ '' called before '' @ keyword_ref ''CREATE'')) (\<lambda>_.
     bindE (verify_in_pool ''CONNECT'' '' '' '' sessions)'' i a v) (\<lambda>_.
     foldE (\<lambda>j v.
        if session_active v ! j
        then Inl (action_ref ''CONNECT'' i @ '' was scheduled for session '' @ bad_value (to_string j)
                  @ '' while already scheduled'')
        else Inr (v\<lparr>session_active := (session_active v)[j := True]\<rparr>)) (session_indices a) v))"

definition verify_send_payload ::
  "os \<Rightarrow> resolver_options \<Rightarrow> settings_block \<Rightarrow> nat \<Rightarrow> action \<Rightarrow> unit result" where
  "verify_send_payload env opts settings i a =
     (case map_of (st_packet_identifiers settings) (act_packet_identifier a) of
        None \<Rightarrow>
          Inl (action_ref ''SEND'' i @ '' has undefined packet identifier (''
               @ bad_value (act_packet_identifier a) @ '')'')
      | Some file \<Rightarrow>
          bindE (guardE (length (act_mod_order a) = length (act_timestamp_mods a) + length (act_counter_mods a))
            (action_ref ''SEND'' i @ '' has ''
             @ bad_value (to_string (length (act_timestamp_mods a) + length (act_counter_mods a)))
             @ '' modifications but only '' @ limit_ref (to_string (length (act_mod_order a)))
             @ '' were accounted for'')) (\<lambda>_.
          case resolve_file env opts file of
            Inl error_string \<Rightarrow>
              Inl (action_ref ''SEND'' i @ '' has unresolvable packet file '' @ bad_value file
                   @ '' corresponding to identity '' @ styled_string (act_packet_identifier a) Style_Context
                   @ '' (got error: '' @ styled_string error_string Style_Error @ '')'')
          | Inr packet_path \<Rightarrow>
              let packet_size = get_file_size env packet_path in
              bindE (guardE (packet_size \<noteq> 0)
                (action_ref ''SEND'' i @ '' has packet resolving to path ''
                 @ styled_string packet_path Style_Context @ '' with '' @ bad_value ''0'' @ '' bytes of data'')) (\<lambda>_.
              bindE (foldE (verify_timestamp_mod (act_packet_identifier a) packet_size i)
                       (act_timestamp_mods a) []) (\<lambda>mod_ranges.
              bindE (foldE (verify_counter_mod (act_packet_identifier a) packet_size i)
                       (act_counter_mods a) mod_ranges) (\<lambda>_. Inr ())))))"

definition verify_send ::
  "os \<Rightarrow> resolver_options \<Rightarrow> settings_block \<Rightarrow> nat \<Rightarrow> action \<Rightarrow> verifier \<Rightarrow> verifier result" where
  "verify_send env opts settings i a v =
     bindE (guardE (act_count a \<noteq> 0)
       (action_ref ''SEND'' i @ '' is trying to send '' @ bad_value (show_u32 (act_count a)) @ '' copies'')) (\<lambda>_.
     bindE (verify_in_pool ''SEND'' '' '' '')'' i a v) (\<lambda>_.
     bindE (verify_send_payload env opts settings i a) (\<lambda>_.
     bindE (verify_all_active ''SEND'' i a v) (\<lambda>_. Inr v))))"

definition verify_flood :: "nat \<Rightarrow> action \<Rightarrow> verifier \<Rightarrow> verifier result" where
  "verify_flood i a v =
     bindE (verify_in_pool ''FLOOD'' '' '' '')'' i a v) (\<lambda>_.
     bindE (verify_all_active ''FLOOD'' i a v) (\<lambda>_. Inr v))"

definition verify_drain :: "nat \<Rightarrow> action \<Rightarrow> verifier \<Rightarrow> verifier result" where
  "verify_drain i a v =
     bindE (verify_in_pool ''DRAIN'' '' '' '')'' i a v) (\<lambda>_.
     foldE (\<lambda>j v.
        if \<not> session_active v ! j then Inl (not_connected_error ''DRAIN'' i j)
        else Inr (v\<lparr>session_active := (session_active v)[j := False]\<rparr>)) (session_indices a) v)"

definition verify_disconnect :: "nat \<Rightarrow> action \<Rightarrow> verifier \<Rightarrow> verifier result" where
  "verify_disconnect i a v =
     bindE (verify_in_pool ''DISCONNECT'' '' sessions '' '')'' i a v) (\<lambda>_.
     foldE (\<lambda>j v.
        if session_disconnect_called v ! j
        then Inl (action_ref ''DISCONNECT'' i @ '' was scheduled for session '' @ bad_value (to_string j)
                  @ '' despite already being called.'')
        else Inr (v\<lparr>session_disconnect_called := (session_disconnect_called v)[j := True]\<rparr>)) (session_indices a) v)"

definition verify_action ::
  "os \<Rightarrow> resolver_options \<Rightarrow> settings_block \<Rightarrow> nat \<times> action \<Rightarrow> verifier \<Rightarrow> verifier result" where
  "verify_action env opts settings ia v =
     (case ia of (i, a) \<Rightarrow>
      case act_type a of
        CREATE \<Rightarrow> verify_create settings i a v
      | CONNECT \<Rightarrow> verify_connect i a v
      | SEND \<Rightarrow> verify_send env opts settings i a v
      | FLOOD \<Rightarrow> verify_flood i a v
      | DRAIN \<Rightarrow> verify_drain i a v
      | DISCONNECT \<Rightarrow> verify_disconnect i a v)"

definition verify_actions ::
  "os \<Rightarrow> resolver_options \<Rightarrow> settings_block \<Rightarrow> action list \<Rightarrow> verifier result" where
  "verify_actions env opts settings actions =
     foldE (verify_action env opts settings) (enumerate 0 actions) initial_verifier"

definition verify_script :: "os \<Rightarrow> resolver_options \<Rightarrow> dsl_data \<Rightarrow> unit result" where
  "verify_script env opts script =
     (let settings = ds_settings script; orch = ds_orchestrator script in
      bindE (verify_settings_fields settings) (\<lambda>_.
      bindE (verify_packets env opts settings (or_actions orch)) (\<lambda>_.
      bindE (verify_handler env opts settings) (\<lambda>_.
      bindE (verify_orchestrator_header settings orch) (\<lambda>_.
      bindE (verify_actions env opts settings (or_actions orch)) (\<lambda>_. Inr ()))))))"

section \<open>Reading a script\<close>

definition error_prefix :: "string \<Rightarrow> string" where
  "error_prefix s = styled_string s Style_Error"

definition prefixE :: "string \<Rightarrow> 'a result \<Rightarrow> 'a result" where
  "prefixE p r = (case r of Inl e \<Rightarrow> Inl (error_prefix p @ e) | Inr x \<Rightarrow> Inr x)"

definition read_script :: "os \<Rightarrow> resolver_options \<Rightarrow> string \<Rightarrow> string result" where
  "read_script env opts script_name =
     (case resolve_file env opts script_name of
        Inl error_string \<Rightarrow>
          Inl (error_prefix ''[Error]: '' @ ''Failed to resolve file '' @ bad_value script_name
               @ '' (got error: '' @ styled_string error_string Style_Error @ '')'')
      | Inr script_path \<Rightarrow>
          if os_contents env script_path = None then
            Inl (error_prefix ''[Error]: '' @ ''Failed to open file '' @ bad_value script_name
                 @ '' which resolved to path '' @ styled_string script_path Style_Reference)
          else
            let filesize = get_file_size env script_path in
            if filesize = 0 then
              Inl (error_prefix ''[Error]: '' @ ''File size for '' @ styled_string script_path Style_Reference
                   @ '' was '' @ bad_value ''0'')
            else
              (case read_bytes env script_path (unat filesize) of
                 None \<Rightarrow>
                   Inl (error_prefix ''[Error]: '' @ ''Failed to read all ''
                        @ styled_string (to_string (unat filesize)) Style_Context @ '' bytes from ''
                        @ styled_string script_path Style_Reference)
               | Some bytes \<Rightarrow> Inr (map (\<lambda>b. char_of (unat b)) bytes)))"

text \<open>
  \<open>hs\<close>, \<open>bm\<close> and \<open>uninit\<close> are the indeterminate initial values of \<^verbatim>\<open>header_size\<close>,
  \<^verbatim>\<open>body_max\<close> and an action's \<^verbatim>\<open>count\<close>.
\<close>

definition parse_script ::
  "os \<Rightarrow> resolver_options \<Rightarrow> u32 \<Rightarrow> u32 \<Rightarrow> u32 \<Rightarrow> string \<Rightarrow> dsl_data result" where
  "parse_script env opts hs bm uninit script_name =
     bindE (read_script env opts script_name) (\<lambda>script_raw.
     bindE (prefixE ''[Lexer Error]: '' (tokenize script_raw)) (\<lambda>tokens.
     bindE (guardE (tokens \<noteq> [])
       (error_prefix ''[Lexer Error]: '' @ ''Lexer returned zero tokens! Your script might be empty?'')) (\<lambda>_.
     bindE (prefixE ''[Parser Error]: '' (parse uninit (default_dsl_data hs bm) tokens)) (\<lambda>unvalidated_script.
     let script = unvalidated_script\<lparr>ds_settings := set_script_defaults env (ds_settings unvalidated_script)\<rparr> in
     bindE (prefixE ''[Validator Error]: '' (verify_script env opts script)) (\<lambda>_.
     Inr script)))))"

end
