(* ===== verification/Numeric_Bytes.thy ===== *)
theory Numeric_Bytes
  imports Prelude
begin

text \<open>
  \<^verbatim>\<open>PayloadManager::write_numeric\<close> of \<^verbatim>\<open>packets/payload-manager.cpp\<close>: a 64-bit value written
  as a field of a given length and byte order. The host is little endian, as the source
  assumes. The byte shifts of a field longer than eight bytes reach 64, which C++ leaves
  undefined: the model returns \<open>None\<close> there.
\<close>

unbundle bit_operations_syntax

definition byte_of :: "'a::len word \<Rightarrow> nat \<Rightarrow> u8" where
  "byte_of w k = ucast (drop_bit (8 * k) w AND 0xFF)"

text \<open>The object representation of an integer on a little-endian host, and its inverse.\<close>

definition bytes_le :: "nat \<Rightarrow> 'a::len word \<Rightarrow> u8 list" where
  "bytes_le n w = map (byte_of w) [0..<n]"

primrec of_bytes_le :: "u8 list \<Rightarrow> 'a::len word" where
  "of_bytes_le [] = 0"
| "of_bytes_le (b # bs) = ucast b OR push_bit 8 (of_bytes_le bs)"

definition bswap64 :: "u64 \<Rightarrow> u64" where
  "bswap64 w = of_bytes_le (rev (bytes_le 8 w))"

definition bswap32 :: "u32 \<Rightarrow> u32" where
  "bswap32 w = of_bytes_le (rev (bytes_le 4 w))"

definition write_numeric :: "u64 \<Rightarrow> u32 \<Rightarrow> bool \<Rightarrow> u8 list option" where
  "write_numeric raw_numeric len little_endian =
     (if len = 8 then
        Some (bytes_le 8 (if \<not> little_endian then bswap64 raw_numeric else raw_numeric))
      else if len = 4 then
        let val_32_bit = (ucast raw_numeric :: u32)
        in Some (bytes_le 4 (if \<not> little_endian then bswap32 val_32_bit else val_32_bit))
      else if len > 8 then None
      else Some (map (\<lambda>i. byte_of raw_numeric (if little_endian then i else unat len - 1 - i))
                   [0..<unat len]))"

section \<open>Bytes of a word\<close>

lemma bit_byte_of: "bit (byte_of w k) n \<longleftrightarrow> n < 8 \<and> bit w (8 * k + n)" for w :: "'a::len word"
proof -
  have "byte_of w k = ucast (drop_bit (8 * k) w AND mask 8)"
    unfolding byte_of_def by (simp add: mask_eq_exp_minus_1)
  then show ?thesis
    by (simp only: bit_simps) (auto dest: bit_imp_le_length)
qed

lemma length_bytes_le [simp]: "length (bytes_le n w) = n"
  by (simp add: bytes_le_def)

lemma nth_bytes_le [simp]: "k < n \<Longrightarrow> bytes_le n w ! k = byte_of w k"
  by (simp add: bytes_le_def)

lemma bit_of_bytes_le:
  "bit (of_bytes_le bs :: 'a::len word) n \<longleftrightarrow>
     n < LENGTH('a) \<and> n div 8 < length bs \<and> bit (bs ! (n div 8)) (n mod 8)"
proof (induction bs arbitrary: n)
  case Nil
  then show ?case by simp
next
  case (Cons b bs)
  show ?case
  proof (cases "n < 8")
    case True
    then show ?thesis by (auto simp: bit_simps)
  next
    case False
    then have "n div 8 = Suc ((n - 8) div 8)" "n mod 8 = (n - 8) mod 8"
      by (simp_all add: le_div_geq le_mod_geq)
    moreover have "\<not> bit b n" using False by (auto dest: bit_imp_le_length)
    ultimately show ?thesis using False Cons.IH [of "n - 8"]
      by (auto simp: bit_simps)
  qed
qed

lemma bytes_le_of_bytes_le:
  assumes "8 * length bs \<le> LENGTH('a)"
  shows "bytes_le (length bs) (of_bytes_le bs :: 'a::len word) = bs"
proof (rule nth_equalityI)
  show "bytes_le (length bs) (of_bytes_le bs :: 'a word) ! k = bs ! k"
    if "k < length (bytes_le (length bs) (of_bytes_le bs :: 'a word))" for k
  proof (rule bit_word_eqI)
    fix n assume "n < LENGTH(8)"
    then have "(8 * k + n) div 8 = k" "(8 * k + n) mod 8 = n" "8 * k + n < LENGTH('a)"
      using that assms by auto
    then show "bit (bytes_le (length bs) (of_bytes_le bs :: 'a word) ! k) n = bit (bs ! k) n"
      using that \<open>n < LENGTH(8)\<close> by (simp add: bit_byte_of bit_of_bytes_le)
  qed
qed simp

text \<open>Reading back what was written keeps the low bits.\<close>

lemma of_bytes_le_bytes_le:
  "(of_bytes_le (bytes_le n w) :: 'a::len word) = take_bit (8 * n) w"
proof (rule bit_word_eqI)
  fix m assume "m < LENGTH('a)"
  have "8 * (m div 8) + m mod 8 = m" by simp
  then show "bit (of_bytes_le (bytes_le n w) :: 'a word) m = bit (take_bit (8 * n) w) m"
    using \<open>m < LENGTH('a)\<close>
    by (auto simp: bit_of_bytes_le bit_byte_of bit_simps less_mult_imp_div_less div_less_iff_less_mult mult.commute)
qed

lemma bytes_le_bswap64: "bytes_le 8 (bswap64 w) = rev (bytes_le 8 w)"
  using bytes_le_of_bytes_le [where 'a = 64, of "rev (bytes_le 8 w)"] by (simp add: bswap64_def)

lemma bytes_le_bswap32: "bytes_le 4 (bswap32 w) = rev (bytes_le 4 w)"
  using bytes_le_of_bytes_le [where 'a = 32, of "rev (bytes_le 4 w)"] by (simp add: bswap32_def)

lemma bytes_le_ucast: "8 * n \<le> 32 \<Longrightarrow> bytes_le n (ucast w :: u32) = bytes_le n (w :: u64)"
  by (rule nth_equalityI) (auto intro!: bit_word_eqI simp: bit_byte_of bit_simps)

section \<open>The reference encoding\<close>

text \<open>One definition for every length and byte order: the low bytes of the value, reversed for big endian.\<close>

definition field_bytes :: "nat \<Rightarrow> bool \<Rightarrow> u64 \<Rightarrow> u8 list" where
  "field_bytes n little v = (if little then bytes_le n v else rev (bytes_le n v))"

definition field_value :: "bool \<Rightarrow> u8 list \<Rightarrow> u64" where
  "field_value little bs = of_bytes_le (if little then bs else rev bs)"

lemma length_field_bytes [simp]: "length (field_bytes n little v) = n"
  by (simp add: field_bytes_def)

lemma field_value_field_bytes: "field_value little (field_bytes n little v) = take_bit (8 * n) v"
  by (simp add: field_value_def field_bytes_def of_bytes_le_bytes_le)

lemma rev_bytes_le: "rev (bytes_le n w) = map (\<lambda>i. byte_of w (n - 1 - i)) [0..<n]"
  by (rule nth_equalityI) (auto simp: rev_nth)

lemma write_numeric_field_bytes:
  assumes "len \<le> 8"
  shows "write_numeric v len little = Some (field_bytes (unat len) little v)"
proof (cases "len = 8 \<or> len = 4")
  case True
  then show ?thesis
    by (auto simp: write_numeric_def field_bytes_def bytes_le_bswap64 bytes_le_bswap32 bytes_le_ucast Let_def)
next
  case False
  then show ?thesis using assms
    using rev_bytes_le [of "unat len" v]
    by (auto simp: write_numeric_def field_bytes_def bytes_le_def)
qed

lemma write_numeric_None: "write_numeric v len little = None \<longleftrightarrow> len > 8"
  using write_numeric_field_bytes [of len v little]
  by (auto simp: write_numeric_def not_less Let_def)

end
