(* ===== verification/Payloads.thy ===== *)
theory Payloads
  imports Numeric_Bytes "HOL-Library.Signed_Division"
begin

text \<open>
  \<^verbatim>\<open>packets/payload-structs.h\<close> and \<^verbatim>\<open>packets/payload-manager.{h,cpp}\<close>: the operations of a
  payload, its counters, and \<^verbatim>\<open>fill_payload\<close>, which turns a descriptor into a list of buffers
  for scatter-gather output.

  A buffer is a pointer and a length. Pointers into the packet are offsets; pointers into
  \<^verbatim>\<open>temps\<close> are offsets together with the number of the allocation they point into, so that a
  reallocation of \<^verbatim>\<open>temps\<close> makes the buffers taken before it invalid, as in the source.
  Undefined behaviour (a counter index out of range, an over-long field) is \<open>None\<close>.
\<close>

section \<open>Structures\<close>

record payload_counter =
  pc_counter :: u64
  pc_step :: u16

definition new_payload_counter :: payload_counter where
  "new_payload_counter = \<lparr>pc_counter = 0, pc_step = 0\<rparr>"

text \<open>\<^verbatim>\<open>counter.fetch_add(step)\<close>: the old value, and the counter moved on.\<close>

definition fetch_add :: "payload_counter \<Rightarrow> u64 \<times> payload_counter" where
  "fetch_add c = (pc_counter c, c\<lparr>pc_counter := pc_counter c + ucast (pc_step c)\<rparr>)"

datatype packet_operation_type = Op_IDENTITY | Op_COUNTER | Op_TIMESTAMP

datatype timestamp_format = Seconds | Milliseconds | Microseconds | Nanoseconds

record packet_operation =
  op_type :: packet_operation_type
  op_length :: u32
  op_little_endian :: bool
  op_time_format :: timestamp_format

definition make_identity :: "u32 \<Rightarrow> packet_operation" where
  "make_identity len =
     \<lparr>op_type = Op_IDENTITY, op_length = len, op_little_endian = False, op_time_format = Seconds\<rparr>"

definition make_counter :: "u32 \<Rightarrow> bool \<Rightarrow> packet_operation" where
  "make_counter len little_end =
     \<lparr>op_type = Op_COUNTER, op_length = len, op_little_endian = little_end, op_time_format = Seconds\<rparr>"

definition make_timestamp :: "u32 \<Rightarrow> bool \<Rightarrow> timestamp_format \<Rightarrow> packet_operation" where
  "make_timestamp len little_end format =
     \<lparr>op_type = Op_TIMESTAMP, op_length = len, op_little_endian = little_end, op_time_format = format\<rparr>"

record payload_descriptor =
  pd_packet_data :: "u8 list"
  pd_ops :: "packet_operation list"

datatype const_buffer =
  Packet_Slice nat nat
| Temp_Slice nat nat nat

text \<open>\<open>pp_allocation\<close> counts the allocations \<^verbatim>\<open>temps\<close> has had, \<open>pp_capacity\<close> is its capacity.\<close>

record prepared_payload =
  pp_temps :: "u8 list"
  pp_capacity :: nat
  pp_allocation :: nat
  pp_slices :: "const_buffer list"

definition empty_payload :: prepared_payload where
  "empty_payload = \<lparr>pp_temps = [], pp_capacity = 0, pp_allocation = 0, pp_slices = []\<rparr>"

definition payload_clear :: "prepared_payload \<Rightarrow> prepared_payload" where
  "payload_clear p = p\<lparr>pp_temps := [], pp_slices := []\<rparr>"

definition temps_reserve :: "nat \<Rightarrow> prepared_payload \<Rightarrow> prepared_payload" where
  "temps_reserve n p =
     (if n > pp_capacity p
      then p\<lparr>pp_capacity := n, pp_allocation := Suc (pp_allocation p)\<rparr> else p)"

text \<open>\<^verbatim>\<open>temps.resize(size + len)\<close> followed by a write of the new bytes.\<close>

definition temps_append :: "u8 list \<Rightarrow> prepared_payload \<Rightarrow> prepared_payload" where
  "temps_append bs p =
     (let n = length (pp_temps p) + length bs;
          p = (if n > pp_capacity p
               then p\<lparr>pp_capacity := max n (2 * pp_capacity p), pp_allocation := Suc (pp_allocation p)\<rparr>
               else p)
      in p\<lparr>pp_temps := pp_temps p @ bs\<rparr>)"

definition push_slice :: "const_buffer \<Rightarrow> prepared_payload \<Rightarrow> prepared_payload" where
  "push_slice b p = p\<lparr>pp_slices := pp_slices p @ [b]\<rparr>"

text \<open>What the buffers hold when the transport reads them: \<open>None\<close> for a read out of bounds or through a stale pointer.\<close>

definition slice_bytes :: "u8 list \<Rightarrow> prepared_payload \<Rightarrow> const_buffer \<Rightarrow> u8 list option" where
  "slice_bytes packet p b =
     (case b of
        Packet_Slice off len \<Rightarrow>
          if off + len \<le> length packet then Some (take len (drop off packet)) else None
      | Temp_Slice alloc off len \<Rightarrow>
          if alloc = pp_allocation p \<and> off + len \<le> length (pp_temps p)
          then Some (take len (drop off (pp_temps p))) else None)"

primrec gather_slices :: "u8 list \<Rightarrow> prepared_payload \<Rightarrow> const_buffer list \<Rightarrow> u8 list option" where
  "gather_slices packet p [] = Some []"
| "gather_slices packet p (b # bs) =
     (case slice_bytes packet p b of
        None \<Rightarrow> None
      | Some xs \<Rightarrow> map_option (\<lambda>ys. xs @ ys) (gather_slices packet p bs))"

definition gather :: "u8 list \<Rightarrow> prepared_payload \<Rightarrow> u8 list option" where
  "gather packet p = gather_slices packet p (pp_slices p)"

section \<open>The payload manager\<close>

record payload_manager =
  pm_payloads :: "payload_descriptor list"
  pm_counters :: "payload_counter list list"

definition new_payload_manager :: "payload_descriptor list \<Rightarrow> u16 list list \<Rightarrow> payload_manager" where
  "new_payload_manager payloads steps =
     (let steps = (if length payloads > length steps
                   then steps @ replicate (length payloads - length steps) [] else steps)
      in \<lparr>pm_payloads = payloads,
          pm_counters = map (\<lambda>p_id. map (\<lambda>s. new_payload_counter\<lparr>pc_step := s\<rparr>) (steps ! p_id))
                          [0..<length payloads]\<rparr>)"

text \<open>
  A reading of the system clock is a number of nanoseconds since the epoch. A
  \<^verbatim>\<open>duration_cast\<close> to a coarser unit divides, truncating towards zero.
\<close>

type_synonym clock = "nat \<Rightarrow> int"

definition timestamp_value :: "timestamp_format \<Rightarrow> int \<Rightarrow> u64" where
  "timestamp_value fmt now =
     word_of_int (case fmt of
        Seconds \<Rightarrow> now sdiv 1000000000
      | Milliseconds \<Rightarrow> now sdiv 1000000
      | Microseconds \<Rightarrow> now sdiv 1000
      | Nanoseconds \<Rightarrow> now)"

record fill_state =
  fs_payload :: prepared_payload
  fs_offset :: nat
  fs_counter_idx :: nat
  fs_counters :: "payload_counter list"
  fs_clock_reads :: nat

text \<open>The part the COUNTER and TIMESTAMP cases share: grow \<^verbatim>\<open>temps\<close>, write the number, add the slice.\<close>

definition insert_numeric :: "packet_operation \<Rightarrow> u64 \<Rightarrow> fill_state \<Rightarrow> fill_state option" where
  "insert_numeric op val fs =
     (case write_numeric val (op_length op) (op_little_endian op) of
        None \<Rightarrow> None
      | Some bytes \<Rightarrow>
          let p = fs_payload fs; write_index = length (pp_temps p);
              p = temps_append bytes p;
              p = push_slice (Temp_Slice (pp_allocation p) write_index (unat (op_length op))) p
          in Some (fs\<lparr>fs_payload := p, fs_offset := fs_offset fs + unat (op_length op)\<rparr>))"

definition fill_op :: "clock \<Rightarrow> packet_operation \<Rightarrow> fill_state \<Rightarrow> fill_state option" where
  "fill_op clk op fs =
     (case op_type op of
        Op_IDENTITY \<Rightarrow>
          Some (fs\<lparr>fs_payload := push_slice (Packet_Slice (fs_offset fs) (unat (op_length op))) (fs_payload fs),
                  fs_offset := fs_offset fs + unat (op_length op)\<rparr>)
      | Op_COUNTER \<Rightarrow>
          if fs_counter_idx fs < length (fs_counters fs) then
            let (val, c) = fetch_add (fs_counters fs ! fs_counter_idx fs)
            in insert_numeric op val
                 (fs\<lparr>fs_counters := (fs_counters fs)[fs_counter_idx fs := c],
                     fs_counter_idx := Suc (fs_counter_idx fs)\<rparr>)
          else None
      | Op_TIMESTAMP \<Rightarrow>
          insert_numeric op (timestamp_value (op_time_format op) (clk (fs_clock_reads fs)))
            (fs\<lparr>fs_clock_reads := Suc (fs_clock_reads fs)\<rparr>))"

primrec fill_ops :: "clock \<Rightarrow> packet_operation list \<Rightarrow> fill_state \<Rightarrow> fill_state option" where
  "fill_ops clk [] fs = Some fs"
| "fill_ops clk (op # ops) fs = Option.bind (fill_op clk op fs) (fill_ops clk ops)"

definition total_temp_bytes :: "packet_operation list \<Rightarrow> nat" where
  "total_temp_bytes ops = sum_list (map (\<lambda>op. unat (op_length op)) (filter (\<lambda>op. op_type op \<noteq> Op_IDENTITY) ops))"

definition fill_payload ::
  "clock \<Rightarrow> nat \<Rightarrow> payload_manager \<Rightarrow> prepared_payload \<Rightarrow> (bool \<times> payload_manager \<times> prepared_payload) option" where
  "fill_payload clk index m payload =
     (if index \<ge> length (pm_payloads m) then Some (False, m, payload)
      else
        let descriptor = pm_payloads m ! index; ops = pd_ops descriptor;
            payload = temps_reserve (total_temp_bytes ops) (payload_clear payload)
        in map_option
             (\<lambda>fs. (True, m\<lparr>pm_counters := (pm_counters m)[index := fs_counters fs]\<rparr>, fs_payload fs))
             (fill_ops clk ops
                \<lparr>fs_payload = payload, fs_offset = 0, fs_counter_idx = 0,
                 fs_counters = pm_counters m ! index, fs_clock_reads = 0\<rparr>))"

section \<open>What a filled payload reads as\<close>

text \<open>
  The reference: the packet's bytes with each counter and timestamp field replaced by its
  encoding. \<open>cs\<close> are the counters not used yet, \<open>n\<close> is the number of clock readings so far.
\<close>

fun render_ops :: "u8 list \<Rightarrow> clock \<Rightarrow> nat \<Rightarrow> nat \<Rightarrow> payload_counter list \<Rightarrow> packet_operation list \<Rightarrow> u8 list" where
  "render_ops packet clk off n cs [] = []"
| "render_ops packet clk off n cs (op # ops) =
     (let len = unat (op_length op) in
      case op_type op of
        Op_IDENTITY \<Rightarrow> take len (drop off packet) @ render_ops packet clk (off + len) n cs ops
      | Op_COUNTER \<Rightarrow>
          field_bytes len (op_little_endian op) (pc_counter (hd cs))
          @ render_ops packet clk (off + len) n (tl cs) ops
      | Op_TIMESTAMP \<Rightarrow>
          field_bytes len (op_little_endian op) (timestamp_value (op_time_format op) (clk n))
          @ render_ops packet clk (off + len) (Suc n) cs ops)"

definition ops_length :: "packet_operation list \<Rightarrow> nat" where
  "ops_length ops = sum_list (map (\<lambda>op. unat (op_length op)) ops)"

definition counter_ops :: "packet_operation list \<Rightarrow> nat" where
  "counter_ops ops = length (filter (\<lambda>op. op_type op = Op_COUNTER) ops)"

text \<open>A descriptor the manager can fill: fields of at most eight bytes, a counter for each COUNTER, all inside the packet.\<close>

definition fillable :: "nat \<Rightarrow> payload_descriptor \<Rightarrow> bool" where
  "fillable counters d \<longleftrightarrow>
     ops_length (pd_ops d) \<le> length (pd_packet_data d)
     \<and> counter_ops (pd_ops d) \<le> counters
     \<and> list_all (\<lambda>op. op_type op = Op_IDENTITY \<or> op_length op \<le> 8) (pd_ops d)"

lemma ops_length_simps [simp]:
  "ops_length [] = 0"
  "ops_length (op # ops) = unat (op_length op) + ops_length ops"
  "ops_length (ops @ ops') = ops_length ops + ops_length ops'"
  by (simp_all add: ops_length_def)

lemma counter_ops_simps [simp]:
  "counter_ops [] = 0"
  "counter_ops (op # ops) = (if op_type op = Op_COUNTER then 1 else 0) + counter_ops ops"
  "counter_ops (ops @ ops') = counter_ops ops + counter_ops ops'"
  by (simp_all add: counter_ops_def)

lemma total_temp_bytes_simps [simp]:
  "total_temp_bytes [] = 0"
  "total_temp_bytes (op # ops) =
     (if op_type op = Op_IDENTITY then 0 else unat (op_length op)) + total_temp_bytes ops"
  by (simp_all add: total_temp_bytes_def)

lemma length_render_ops:
  assumes "off + ops_length ops \<le> length packet"
  shows "length (render_ops packet clk off n cs ops) = ops_length ops"
  using assms
  by (induction ops arbitrary: off n cs) (auto simp: Let_def split: packet_operation_type.split)

subsection \<open>Buffers stay valid while the temporary bytes grow\<close>

lemma gather_slices_snoc:
  assumes "gather_slices packet p bs = Some xs" "slice_bytes packet p b = Some ys"
  shows "gather_slices packet p (bs @ [b]) = Some (xs @ ys)"
  using assms by (induction bs arbitrary: xs) (auto split: option.splits)

lemma gather_slices_mono:
  assumes "gather_slices packet p bs = Some xs"
    and "pp_allocation q = pp_allocation p" "pp_temps q = pp_temps p @ ys"
  shows "gather_slices packet q bs = Some xs"
  using assms
proof (induction bs arbitrary: xs)
  case (Cons b bs)
  then obtain x rest where b: "slice_bytes packet p b = Some x" "gather_slices packet p bs = Some rest" "xs = x @ rest"
    by (auto split: option.splits)
  moreover have "slice_bytes packet q b = Some x"
    using b(1) Cons.prems(2,3) by (auto simp: slice_bytes_def split: const_buffer.splits if_splits)
  ultimately show ?case using Cons by simp
qed simp

lemma temps_append_room:
  assumes "length (pp_temps p) + length bs \<le> pp_capacity p"
  shows "temps_append bs p = p\<lparr>pp_temps := pp_temps p @ bs\<rparr>"
  using assms by (simp add: temps_append_def Let_def)

lemma gather_push_temp:
  assumes "gather packet p = Some xs" "length (pp_temps p) + length bs \<le> pp_capacity p"
  shows "gather packet (push_slice (Temp_Slice (pp_allocation p) (length (pp_temps p)) (length bs)) (temps_append bs p))
    = Some (xs @ bs)"
proof -
  let ?b = "Temp_Slice (pp_allocation p) (length (pp_temps p)) (length bs)"
  let ?q = "push_slice ?b (temps_append bs p)"
  have q: "pp_allocation ?q = pp_allocation p" "pp_temps ?q = pp_temps p @ bs" "pp_slices ?q = pp_slices p @ [?b]"
    using assms(2) by (simp_all add: push_slice_def temps_append_room)
  have "gather_slices packet ?q (pp_slices p) = Some xs"
    using gather_slices_mono [OF _ q(1,2)] assms(1) by (simp add: gather_def)
  moreover have "slice_bytes packet ?q ?b = Some bs"
    by (simp add: slice_bytes_def q)
  ultimately show ?thesis
    unfolding gather_def q by (rule gather_slices_snoc)
qed

lemma gather_push_packet:
  assumes "gather packet p = Some xs" "off + len \<le> length packet"
  shows "gather packet (push_slice (Packet_Slice off len) p) = Some (xs @ take len (drop off packet))"
proof -
  let ?b = "Packet_Slice off len"
  let ?q = "push_slice ?b p"
  have q: "pp_allocation ?q = pp_allocation p" "pp_temps ?q = pp_temps p @ []" "pp_slices ?q = pp_slices p @ [?b]"
    by (simp_all add: push_slice_def)
  have "gather_slices packet ?q (pp_slices p) = Some xs"
    using gather_slices_mono [OF _ q(1,2)] assms(1) by (simp add: gather_def)
  moreover have "slice_bytes packet ?q ?b = Some (take len (drop off packet))"
    using assms(2) by (simp add: slice_bytes_def)
  ultimately show ?thesis
    unfolding gather_def q(3) by (rule gather_slices_snoc)
qed

subsection \<open>Filling a payload\<close>

definition advance_counter :: "payload_counter \<Rightarrow> payload_counter" where
  "advance_counter c = snd (fetch_add c)"

definition advance_first :: "nat \<Rightarrow> payload_counter list \<Rightarrow> payload_counter list" where
  "advance_first m cs = map advance_counter (take m cs) @ drop m cs"

lemma advance_first_0 [simp]: "advance_first 0 cs = cs"
  by (simp add: advance_first_def)

lemma advance_first_Suc [simp]: "advance_first (Suc m) (c # cs) = advance_counter c # advance_first m cs"
  by (simp add: advance_first_def)

lemma length_advance_first [simp]: "length (advance_first m cs) = length cs"
  by (simp add: advance_first_def)

lemma insert_numeric_room:
  assumes "gather packet (fs_payload fs) = Some xs"
    and "length (pp_temps (fs_payload fs)) + unat (op_length op) \<le> pp_capacity (fs_payload fs)"
    and "op_length op \<le> 8"
  obtains p where "insert_numeric op val fs =
      Some (fs\<lparr>fs_payload := p, fs_offset := fs_offset fs + unat (op_length op)\<rparr>)"
    and "gather packet p = Some (xs @ field_bytes (unat (op_length op)) (op_little_endian op) val)"
    and "pp_capacity p = pp_capacity (fs_payload fs)"
    and "length (pp_temps p) = length (pp_temps (fs_payload fs)) + unat (op_length op)"
proof -
  let ?bs = "field_bytes (unat (op_length op)) (op_little_endian op) val" and ?p = "fs_payload fs"
  let ?q = "push_slice (Temp_Slice (pp_allocation ?p) (length (pp_temps ?p)) (unat (op_length op))) (temps_append ?bs ?p)"
  have room: "temps_append ?bs ?p = ?p\<lparr>pp_temps := pp_temps ?p @ ?bs\<rparr>"
    using assms(2) by (simp add: temps_append_room)
  have "insert_numeric op val fs = Some (fs\<lparr>fs_payload := ?q, fs_offset := fs_offset fs + unat (op_length op)\<rparr>)"
    using assms(3) by (simp add: insert_numeric_def write_numeric_field_bytes Let_def room)
  moreover have "gather packet ?q = Some (xs @ ?bs)"
    using gather_push_temp [OF assms(1), of ?bs] assms(2) by simp
  ultimately show thesis
    by (rule that) (simp_all add: push_slice_def room)
qed

lemma fill_ops_render:
  assumes "gather packet (fs_payload fs) = Some xs"
    and "length (pp_temps (fs_payload fs)) + total_temp_bytes ops \<le> pp_capacity (fs_payload fs)"
    and "fs_offset fs + ops_length ops \<le> length packet"
    and "fs_counters fs = used @ cs" "fs_counter_idx fs = length used" "counter_ops ops \<le> length cs"
    and "list_all (\<lambda>op. op_type op = Op_IDENTITY \<or> op_length op \<le> 8) ops"
  shows "\<exists>fs'. fill_ops clk ops fs = Some fs'
     \<and> gather packet (fs_payload fs') = Some (xs @ render_ops packet clk (fs_offset fs) (fs_clock_reads fs) cs ops)
     \<and> fs_counters fs' = used @ advance_first (counter_ops ops) cs"
  using assms
proof (induction ops arbitrary: fs xs used cs)
  case Nil
  then show ?case by simp
next
  case (Cons op ops)
  let ?n = "unat (op_length op)"
  show ?case
  proof (cases "op_type op")
    case Op_IDENTITY
    have g: "gather packet (push_slice (Packet_Slice (fs_offset fs) ?n) (fs_payload fs)) =
        Some (xs @ take ?n (drop (fs_offset fs) packet))"
      using Cons.prems(1,3) by (intro gather_push_packet) simp_all
    show ?thesis
      using Cons.prems Op_IDENTITY
        Cons.IH [of "fs\<lparr>fs_payload := push_slice (Packet_Slice (fs_offset fs) ?n) (fs_payload fs),
                       fs_offset := fs_offset fs + ?n\<rparr>" _ used cs] g
      by (simp add: fill_op_def push_slice_def Let_def)
  next
    case Op_COUNTER
    then obtain c cs' where cs: "cs = c # cs'" using Cons.prems(6) by (cases cs) simp_all
    let ?fs = "fs\<lparr>fs_counters := (used @ [advance_counter c]) @ cs', fs_counter_idx := Suc (length used)\<rparr>"
    have step: "fill_op clk op fs = insert_numeric op (pc_counter c) ?fs"
      using Op_COUNTER Cons.prems(4,5) cs
      by (simp add: fill_op_def fetch_add_def advance_counter_def list_update_append)
    have pre: "gather packet (fs_payload ?fs) = Some xs"
      "length (pp_temps (fs_payload ?fs)) + ?n \<le> pp_capacity (fs_payload ?fs)" "op_length op \<le> 8"
      using Cons.prems(1,2,7) Op_COUNTER by simp_all
    obtain p where "insert_numeric op (pc_counter c) ?fs =
        Some (?fs\<lparr>fs_payload := p, fs_offset := fs_offset ?fs + ?n\<rparr>)"
      and "gather packet p = Some (xs @ field_bytes ?n (op_little_endian op) (pc_counter c))"
      and "pp_capacity p = pp_capacity (fs_payload ?fs)"
      and "length (pp_temps p) = length (pp_temps (fs_payload ?fs)) + ?n"
      by (rule insert_numeric_room [OF pre])
    then show ?thesis
      using Cons.prems Op_COUNTER cs step
        Cons.IH [of "?fs\<lparr>fs_payload := p, fs_offset := fs_offset ?fs + ?n\<rparr>" _ "used @ [advance_counter c]" cs']
      by (simp add: Let_def)
  next
    case Op_TIMESTAMP
    let ?fs = "fs\<lparr>fs_clock_reads := Suc (fs_clock_reads fs)\<rparr>"
    let ?v = "timestamp_value (op_time_format op) (clk (fs_clock_reads fs))"
    have step: "fill_op clk op fs = insert_numeric op ?v ?fs"
      using Op_TIMESTAMP by (simp add: fill_op_def)
    have pre: "gather packet (fs_payload ?fs) = Some xs"
      "length (pp_temps (fs_payload ?fs)) + ?n \<le> pp_capacity (fs_payload ?fs)" "op_length op \<le> 8"
      using Cons.prems(1,2,7) Op_TIMESTAMP by simp_all
    obtain p where "insert_numeric op ?v ?fs =
        Some (?fs\<lparr>fs_payload := p, fs_offset := fs_offset ?fs + ?n\<rparr>)"
      and "gather packet p = Some (xs @ field_bytes ?n (op_little_endian op) ?v)"
      and "pp_capacity p = pp_capacity (fs_payload ?fs)"
      and "length (pp_temps p) = length (pp_temps (fs_payload ?fs)) + ?n"
      by (rule insert_numeric_room [OF pre])
    then show ?thesis
      using Cons.prems Op_TIMESTAMP step
        Cons.IH [of "?fs\<lparr>fs_payload := p, fs_offset := fs_offset ?fs + ?n\<rparr>" _ used cs]
      by (simp add: Let_def)
  qed
qed

lemma fill_payload_render:
  assumes "index < length (pm_payloads m)" and "d = pm_payloads m ! index" and "cs = pm_counters m ! index"
    and "fillable (length cs) d"
  shows "\<exists>p. fill_payload clk index m payload =
       Some (True, m\<lparr>pm_counters := (pm_counters m)[index := advance_first (counter_ops (pd_ops d)) cs]\<rparr>, p)
     \<and> gather (pd_packet_data d) p = Some (render_ops (pd_packet_data d) clk 0 0 cs (pd_ops d))"
proof -
  let ?p = "temps_reserve (total_temp_bytes (pd_ops d)) (payload_clear payload)"
  have "\<exists>fs'. fill_ops clk (pd_ops d)
        \<lparr>fs_payload = ?p, fs_offset = 0, fs_counter_idx = 0, fs_counters = cs, fs_clock_reads = 0\<rparr> = Some fs'
     \<and> gather (pd_packet_data d) (fs_payload fs') = Some ([] @ render_ops (pd_packet_data d) clk 0 0 cs (pd_ops d))
     \<and> fs_counters fs' = [] @ advance_first (counter_ops (pd_ops d)) cs"
    using assms(4) fill_ops_render [where xs = "[]" and used = "[]" and packet = "pd_packet_data d"
        and fs = "\<lparr>fs_payload = ?p, fs_offset = 0, fs_counter_idx = 0, fs_counters = cs, fs_clock_reads = 0\<rparr>"]
    by (simp add: fillable_def gather_def temps_reserve_def payload_clear_def)
  then show ?thesis
    using assms(1-3) by (auto simp: fill_payload_def Let_def)
qed

subsection \<open>The bytes of one operation\<close>

definition timestamp_ops :: "packet_operation list \<Rightarrow> nat" where
  "timestamp_ops ops = length (filter (\<lambda>op. op_type op = Op_TIMESTAMP) ops)"

lemma timestamp_ops_simps [simp]:
  "timestamp_ops [] = 0"
  "timestamp_ops (op # ops) = (if op_type op = Op_TIMESTAMP then 1 else 0) + timestamp_ops ops"
  by (simp_all add: timestamp_ops_def)

lemma render_ops_append:
  "counter_ops ops \<le> length cs \<Longrightarrow>
   render_ops packet clk off n cs (ops @ ops') =
     render_ops packet clk off n cs ops
     @ render_ops packet clk (off + ops_length ops) (n + timestamp_ops ops) (drop (counter_ops ops) cs) ops'"
proof (induction ops arbitrary: off n cs)
  case (Cons op ops)
  then show ?case
    by (cases cs) (auto simp: Let_def add.assoc split: packet_operation_type.split)
qed simp

text \<open>The operation after \<open>pre\<close> writes its bytes where \<open>pre\<close> ends.\<close>

lemma render_ops_at:
  assumes "ops_length (pre @ op # post) \<le> length packet" and "counter_ops (pre @ op # post) \<le> length cs"
  shows "take (unat (op_length op)) (drop (ops_length pre) (render_ops packet clk 0 0 cs (pre @ op # post))) =
     (case op_type op of
        Op_IDENTITY \<Rightarrow> take (unat (op_length op)) (drop (ops_length pre) packet)
      | Op_COUNTER \<Rightarrow>
          field_bytes (unat (op_length op)) (op_little_endian op) (pc_counter (cs ! counter_ops pre))
      | Op_TIMESTAMP \<Rightarrow>
          field_bytes (unat (op_length op)) (op_little_endian op)
            (timestamp_value (op_time_format op) (clk (timestamp_ops pre))))"
proof -
  have "length (render_ops packet clk 0 0 cs pre) = ops_length pre"
    using assms(1) by (intro length_render_ops) simp
  moreover have "render_ops packet clk 0 0 cs (pre @ op # post) =
      render_ops packet clk 0 0 cs pre
      @ render_ops packet clk (ops_length pre) (timestamp_ops pre) (drop (counter_ops pre) cs) (op # post)"
    using assms(2) by (simp only: render_ops_append counter_ops_simps add.left_neutral)
  ultimately show ?thesis
    using assms by (auto simp: Let_def hd_drop_conv_nth split: packet_operation_type.splits)
qed

section \<open>The values a counter hands out\<close>

text \<open>
  Shards take values from a counter with an atomic \<^verbatim>\<open>fetch_add\<close>, so whatever the
  interleaving, the values are those of one sequence of calls.
\<close>

primrec fetch_values :: "nat \<Rightarrow> payload_counter \<Rightarrow> u64 list" where
  "fetch_values 0 c = []"
| "fetch_values (Suc n) c = (let (v, c') = fetch_add c in v # fetch_values n c')"

lemma fetch_values_arith:
  "fetch_values n c = map (\<lambda>k. pc_counter c + of_nat k * ucast (pc_step c)) [0..<n]"
proof (induction n arbitrary: c)
  case (Suc n)
  have "[0..<Suc n] = 0 # map Suc [0..<n]" by (simp add: map_Suc_upt upt_conv_Cons del: upt_Suc)
  then show ?case
    using Suc.IH by (simp add: fetch_add_def Let_def algebra_simps del: upt_Suc)
qed simp

lemma of_nat_u64_inj:
  "x < 2 ^ 64 \<Longrightarrow> y < 2 ^ 64 \<Longrightarrow> (of_nat x :: u64) = of_nat y \<Longrightarrow> x = y"
proof -
  assume "x < 2 ^ 64" "y < 2 ^ 64" and eq: "(of_nat x :: u64) = of_nat y"
  then have "x mod 2 ^ 64 = x" "y mod 2 ^ 64 = y" by simp_all
  then show "x = y" using arg_cong [OF eq, of unat] by (simp add: unat_of_nat)
qed

lemma fetch_values_distinct_aux:
  assumes "pc_step c \<noteq> 0" "n * unat (pc_step c) \<le> 2 ^ 64"
  shows "distinct (fetch_values n c)"
proof -
  let ?s = "unat (pc_step c)"
  have step: "(ucast (pc_step c) :: u64) = of_nat ?s" by simp
  have pos: "?s > 0" using assms(1) by (simp add: unat_gt_0)
  have "inj_on (\<lambda>k. pc_counter c + of_nat k * (ucast (pc_step c) :: u64)) {0..<n}"
  proof (rule inj_onI)
    fix x y assume xy: "x \<in> {0..<n}" "y \<in> {0..<n}"
      and eq: "pc_counter c + of_nat x * (ucast (pc_step c) :: u64) = pc_counter c + of_nat y * ucast (pc_step c)"
    have bound: "k * ?s < 2 ^ 64" if "k < n" for k
      using mult_less_mono1 [OF that pos] assms(2) by (rule order_less_le_trans)
    have "(of_nat (x * ?s) :: u64) = of_nat (y * ?s)"
      using eq by (simp only: of_nat_mult step add_left_cancel)
    then have "x * ?s = y * ?s"
      using bound xy by (intro of_nat_u64_inj) auto
    then show "x = y" using pos by simp
  qed
  then show ?thesis by (simp add: fetch_values_arith distinct_map)
qed

text \<open>A run of fills, each with its own clock and buffers, on a shared manager.\<close>

primrec fill_run :: "(clock \<times> nat \<times> prepared_payload) list \<Rightarrow> payload_manager \<Rightarrow> payload_manager option" where
  "fill_run [] m = Some m"
| "fill_run (r # rs) m =
     (case r of (clk, index, payload) \<Rightarrow>
      case fill_payload clk index m payload of
        None \<Rightarrow> None
      | Some (b, m', p) \<Rightarrow> fill_run rs m')"

definition manager_ok :: "payload_manager \<Rightarrow> bool" where
  "manager_ok m \<longleftrightarrow> length (pm_counters m) = length (pm_payloads m)
     \<and> (\<forall>i < length (pm_payloads m). fillable (length (pm_counters m ! i)) (pm_payloads m ! i))"

lemma fill_payload_False:
  "index \<ge> length (pm_payloads m) \<Longrightarrow> fill_payload clk index m payload = Some (False, m, payload)"
  by (simp add: fill_payload_def)

lemma fill_payload_manager:
  assumes "manager_ok m" "index < length (pm_payloads m)"
  obtains p where "fill_payload clk index m payload =
    Some (True, m\<lparr>pm_counters := (pm_counters m)[index :=
        advance_first (counter_ops (pd_ops (pm_payloads m ! index))) (pm_counters m ! index)]\<rparr>, p)"
  using fill_payload_render [OF assms(2) refl refl, of clk payload] assms by (auto simp: manager_ok_def)

lemma manager_ok_advance:
  assumes "manager_ok m"
  shows "manager_ok (m\<lparr>pm_counters := (pm_counters m)[index := advance_first k (pm_counters m ! index)]\<rparr>)"
  using assms by (cases "index < length (pm_counters m)") (auto simp: manager_ok_def nth_list_update)

lemma advance_first_nth:
  "i < length cs \<Longrightarrow> advance_first k cs ! i = (if i < k then advance_counter (cs ! i) else cs ! i)"
  by (simp add: advance_first_def nth_append min_def)

lemma fill_run_counters:
  assumes "manager_ok m" "p < length (pm_payloads m)" "i < counter_ops (pd_ops (pm_payloads m ! p))"
  shows "\<exists>m'. fill_run rs m = Some m' \<and> pm_payloads m' = pm_payloads m
     \<and> pm_counters m' ! p ! i = (advance_counter ^^ count_list (map (fst \<circ> snd) rs) p) (pm_counters m ! p ! i)"
  using assms
proof (induction rs arbitrary: m)
  case (Cons r rs)
  obtain clk index payload where r: "r = (clk, index, payload)" by (cases r)
  show ?case
  proof (cases "index < length (pm_payloads m)")
    case False
    moreover from False have "index \<noteq> p" using Cons.prems(2) by auto
    ultimately show ?thesis
      using Cons.IH [OF Cons.prems] by (simp add: r fill_payload_False)
  next
    case True
    let ?m = "m\<lparr>pm_counters := (pm_counters m)[index :=
        advance_first (counter_ops (pd_ops (pm_payloads m ! index))) (pm_counters m ! index)]\<rparr>"
    obtain q where q: "fill_payload clk index m payload = Some (True, ?m, q)"
      using Cons.prems(1) True by (rule fill_payload_manager)
    have len: "length (pm_counters m) = length (pm_payloads m)" "i < length (pm_counters m ! p)"
      using Cons.prems by (auto simp: manager_ok_def fillable_def)
    have "pm_counters ?m ! p ! i =
        (if index = p then advance_counter (pm_counters m ! p ! i) else pm_counters m ! p ! i)"
      using Cons.prems(2,3) len by (simp add: nth_list_update advance_first_nth)
    moreover have "manager_ok ?m" by (rule manager_ok_advance [OF Cons.prems(1)])
    ultimately show ?thesis
      using Cons.IH [of ?m] Cons.prems(2,3) q by (auto simp: r funpow_swap1)
  qed
qed simp

lemma advance_counter_funpow:
  "(advance_counter ^^ k) c = c\<lparr>pc_counter := pc_counter c + of_nat k * ucast (pc_step c)\<rparr>"
  by (induction k arbitrary: c) (simp_all add: advance_counter_def fetch_add_def algebra_simps)

end
