(* ===== verification/Execution_Plan.thy ===== *)
theory Execution_Plan
  imports Interpreter Payloads
begin

text \<open>
  \<^verbatim>\<open>cli/execution-plan.{h,cpp}\<close> and \<^verbatim>\<open>orchestrator/action-descriptor.h\<close>: a validated script is
  turned into the actions, payload descriptors and counter steps that the orchestrator runs.

  The name service, the compiler of WebAssembly modules and the allocator are arguments.
  Packet buffers live in a monotonic arena and are not written after this stage, so a view
  of a buffer is the list of its bytes. An index past the end of a vector is undefined
  behaviour and a result of its own.
\<close>

section \<open>Action descriptors\<close>

record action_descriptor =
  ad_type :: action_type
  ad_start :: u32
  ad_end :: u32
  ad_count :: u32
  ad_offset :: int

text \<open>
  The \<^verbatim>\<open>make_\<close> functions take the offset as a 32-bit number. Those that leave \<^verbatim>\<open>count\<close> alone
  keep the indeterminate value \<open>uninit\<close> of the fresh descriptor.
\<close>

definition make_create :: "u32 \<Rightarrow> u32 \<Rightarrow> u32 \<Rightarrow> action_descriptor" where
  "make_create start stop offset_ms =
     \<lparr>ad_type = CREATE, ad_start = start, ad_end = stop, ad_count = stop - start, ad_offset = uint offset_ms\<rparr>"

definition make_connect :: "u32 \<Rightarrow> u32 \<Rightarrow> u32 \<Rightarrow> u32 \<Rightarrow> action_descriptor" where
  "make_connect uninit start stop offset_ms =
     \<lparr>ad_type = CONNECT, ad_start = start, ad_end = stop, ad_count = uninit, ad_offset = uint offset_ms\<rparr>"

definition make_send :: "u32 \<Rightarrow> u32 \<Rightarrow> u32 \<Rightarrow> u32 \<Rightarrow> action_descriptor" where
  "make_send start stop send_count offset_ms =
     \<lparr>ad_type = SEND, ad_start = start, ad_end = stop, ad_count = send_count, ad_offset = uint offset_ms\<rparr>"

definition make_flood :: "u32 \<Rightarrow> u32 \<Rightarrow> u32 \<Rightarrow> u32 \<Rightarrow> action_descriptor" where
  "make_flood uninit start stop offset_ms =
     \<lparr>ad_type = FLOOD, ad_start = start, ad_end = stop, ad_count = uninit, ad_offset = uint offset_ms\<rparr>"

definition make_drain :: "u32 \<Rightarrow> u32 \<Rightarrow> u32 \<Rightarrow> u32 \<Rightarrow> action_descriptor" where
  "make_drain start stop timeout offset_ms =
     \<lparr>ad_type = DRAIN, ad_start = start, ad_end = stop, ad_count = timeout, ad_offset = uint offset_ms\<rparr>"

definition make_disconnect :: "u32 \<Rightarrow> u32 \<Rightarrow> u32 \<Rightarrow> u32 \<Rightarrow> action_descriptor" where
  "make_disconnect uninit start stop offset_ms =
     \<lparr>ad_type = DISCONNECT, ad_start = start, ad_end = stop, ad_count = uninit, ad_offset = uint offset_ms\<rparr>"

fun type_to_string :: "action_type \<Rightarrow> string" where
  "type_to_string CREATE = ''CREATE''"
| "type_to_string CONNECT = ''CONNECT''"
| "type_to_string SEND = ''SEND''"
| "type_to_string FLOOD = ''FLOOD''"
| "type_to_string DRAIN = ''DRAIN''"
| "type_to_string DISCONNECT = ''DISCONNECT''"

section \<open>Configuration and plan\<close>

record session_config =
  cfg_header_size :: u64
  cfg_payload_size_limit :: u64
  cfg_read_messages :: bool
  cfg_loop_payloads :: bool
  cfg_packet_sample_rate :: u32

definition new_session_config :: "u64 \<Rightarrow> u64 \<Rightarrow> bool \<Rightarrow> bool \<Rightarrow> u64 \<Rightarrow> session_config" where
  "new_session_config h_size p_size rd lp sample_rate =
     \<lparr>cfg_header_size = h_size, cfg_payload_size_limit = p_size, cfg_read_messages = rd,
      cfg_loop_payloads = lp, cfg_packet_sample_rate = ucast sample_rate\<rparr>"

record endpoint =
  ep_address :: string
  ep_port :: u16

text \<open>\<^verbatim>\<open>HostInfo<Session>\<close>: a list of endpoints for TCP, one endpoint for UDP.\<close>

datatype host_info = TCP_Hosts "endpoint list" | UDP_Host endpoint

datatype handler_factory = No_Factory | NOP_Factory | WASM_Factory "u8 list"

record orchestrator_config =
  oc_session_config :: session_config
  oc_host_info :: host_info
  oc_handler_factory :: handler_factory
  oc_shard_count :: u64

record execution_plan =
  pl_actions :: "action_descriptor list"
  pl_payloads :: "payload_descriptor list"
  pl_counter_steps :: "u16 list list"
  pl_config :: orchestrator_config
  pl_packet_data :: "u8 list list"

datatype plan_error = Plan_Error string | Undefined_Behaviour

type_synonym 'a plan_result = "plan_error + 'a"

section \<open>Reading the packets\<close>

record packet_store =
  ps_packet_data :: "u8 list list"
  ps_identity_map :: "string \<rightharpoonup> nat"
  ps_all_packets :: "string list"

definition empty_packet_store :: packet_store where
  "empty_packet_store = \<lparr>ps_packet_data = [], ps_identity_map = Map.empty, ps_all_packets = []\<rparr>"

definition load_packet ::
  "os \<Rightarrow> resolver_options \<Rightarrow> (u64 \<Rightarrow> bool) \<Rightarrow> string \<times> string \<Rightarrow> packet_store \<Rightarrow> packet_store plan_result" where
  "load_packet env opts can_allocate entry st =
     (case entry of (identifier, filename) \<Rightarrow>
      case resolve_file env opts filename of
        Inl error_str \<Rightarrow>
          Inl (Plan_Error (''Failed to resolve '' @ filename @ '' (got error: '' @ error_str @ '')''))
      | Inr path \<Rightarrow>
          if path \<in> set (ps_all_packets st) then
            (case ps_identity_map st filename of
               None \<Rightarrow>
                 Inl (Plan_Error (''Application identified a packet as a duplicate but no memory ''
                   @ ''was allocated. This is an error with the application code.''))
             | Some k \<Rightarrow> Inr (st\<lparr>ps_identity_map := (ps_identity_map st)(identifier \<mapsto> k)\<rparr>))
          else
            let st = st\<lparr>ps_all_packets := path # ps_all_packets st\<rparr>;
                this_index = length (ps_packet_data st);
                file_size = get_file_size env path
            in if file_size = 0 then Inl (Plan_Error (''File '' @ path @ '' has zero bytes to read!''))
               else if \<not> can_allocate file_size then
                 Inl (Plan_Error (''Failed to allocate memory ('' @ to_string (unat file_size)
                   @ '' bytes) for packet file '' @ path))
               else case read_bytes_to_contiguous env path (unat file_size) of
                      Inl error_msg \<Rightarrow>
                        Inl (Plan_Error (''Failed to read data for packet '' @ path @ '' (got error: ''
                          @ error_msg @ '')''))
                    | Inr buf \<Rightarrow>
                        Inr (st\<lparr>ps_packet_data := ps_packet_data st @ [buf],
                                ps_identity_map := (ps_identity_map st)(identifier \<mapsto> this_index)\<rparr>))"

definition load_packets ::
  "os \<Rightarrow> resolver_options \<Rightarrow> (u64 \<Rightarrow> bool) \<Rightarrow> (string \<times> string) list \<Rightarrow> packet_store plan_result" where
  "load_packets env opts can_allocate ids = foldE (load_packet env opts can_allocate) ids empty_packet_store"

section \<open>Preparing a payload\<close>

definition ts_format_lookup :: "string \<Rightarrow> timestamp_format option" where
  "ts_format_lookup name =
     (if name = ''seconds'' then Some Seconds
      else if name = ''milliseconds'' then Some Milliseconds
      else if name = ''microseconds'' then Some Microseconds
      else if name = ''nanoseconds'' then Some Nanoseconds
      else None)"

record op_builder =
  ob_ops :: "packet_operation list"
  ob_counters :: "u16 list"
  ob_ts_idx :: nat
  ob_c_idx :: nat
  ob_data_index :: u64

definition initial_builder :: op_builder where
  "initial_builder = \<lparr>ob_ops = [], ob_counters = [], ob_ts_idx = 0, ob_c_idx = 0, ob_data_index = 0\<rparr>"

text \<open>
  The bytes between the last modification and this one. \<^verbatim>\<open>prev_bytes\<close> is a 64-bit
  difference; the length of the operation is its low 32 bits.
\<close>

definition push_previous :: "u32 \<Rightarrow> op_builder \<Rightarrow> op_builder" where
  "push_previous start b =
     (let prev_bytes = (ucast start :: u64) - ob_data_index b
      in if prev_bytes > 0
         then b\<lparr>ob_ops := ob_ops b @ [make_identity (ucast prev_bytes)],
                ob_data_index := ob_data_index b + prev_bytes\<rparr>
         else b)"

definition push_mod :: "action \<Rightarrow> modification_type \<Rightarrow> op_builder \<Rightarrow> op_builder plan_result" where
  "push_mod a m b =
     (case m of
        Mod_Counter \<Rightarrow>
          if ob_c_idx b < length (act_counter_mods a) then
            let c_mod = act_counter_mods a ! ob_c_idx b;
                b = push_previous (rng_start (cm_bytes c_mod)) (b\<lparr>ob_c_idx := Suc (ob_c_idx b)\<rparr>)
            in Inr (b\<lparr>ob_ops := ob_ops b @ [make_counter (rng_second (cm_bytes c_mod)) (cm_little_endian c_mod)],
                      ob_counters := ob_counters b @ [ucast (cm_step c_mod)],
                      ob_data_index := ob_data_index b + ucast (rng_second (cm_bytes c_mod))\<rparr>)
          else Inl Undefined_Behaviour
      | Mod_Timestamp \<Rightarrow>
          if ob_ts_idx b < length (act_timestamp_mods a) then
            let ts_mod = act_timestamp_mods a ! ob_ts_idx b;
                b = push_previous (rng_start (tm_bytes ts_mod)) (b\<lparr>ob_ts_idx := Suc (ob_ts_idx b)\<rparr>)
            in case ts_format_lookup (tm_format_name ts_mod) of
                 None \<Rightarrow>
                   Inl (Plan_Error (''Failed to resolve timestamp format for value '' @ tm_format_name ts_mod
                     @ '' (this should have been caught by the DSL validator)''))
               | Some ts_format \<Rightarrow>
                   Inr (b\<lparr>ob_ops := ob_ops b @
                            [make_timestamp (rng_second (tm_bytes ts_mod)) (tm_little_endian ts_mod) ts_format],
                          ob_data_index := ob_data_index b + ucast (rng_second (tm_bytes ts_mod))\<rparr>)
          else Inl Undefined_Behaviour)"

definition build_payload :: "action \<Rightarrow> u8 list \<Rightarrow> (payload_descriptor \<times> u16 list) plan_result" where
  "build_payload a buf =
     (if act_mod_order a = [] then
        Inr (\<lparr>pd_packet_data = buf, pd_ops = [make_identity (of_nat (length buf))]\<rparr>, [])
      else
        bindE (foldE (push_mod a) (act_mod_order a) initial_builder) (\<lambda>b.
        let buf_size = (of_nat (length buf) :: u64);
            b = (if ob_data_index b < buf_size
                 then b\<lparr>ob_ops := ob_ops b @ [make_identity (ucast (buf_size - ob_data_index b))]\<rparr> else b)
        in Inr (\<lparr>pd_packet_data = buf, pd_ops = ob_ops b\<rparr>, ob_counters b)))"

section \<open>The plan\<close>

record plan_builder =
  pb_actions :: "action_descriptor list"
  pb_payloads :: "payload_descriptor list"
  pb_counter_steps :: "u16 list list"
  pb_curr_offset :: u64

definition empty_plan_builder :: plan_builder where
  "empty_plan_builder = \<lparr>pb_actions = [], pb_payloads = [], pb_counter_steps = [], pb_curr_offset = 0\<rparr>"

text \<open>The descriptor of an action at a given offset.\<close>

definition describe_action :: "u32 \<Rightarrow> action \<Rightarrow> u64 \<Rightarrow> action_descriptor" where
  "describe_action uninit a curr_offset =
     (let start = rng_start (act_range a); stop = rng_second (act_range a); offset = ucast curr_offset
      in case act_type a of
           CREATE \<Rightarrow> make_create 0 stop offset
         | CONNECT \<Rightarrow> make_connect uninit start stop offset
         | SEND \<Rightarrow> make_send start stop (act_count a) offset
         | FLOOD \<Rightarrow> make_flood uninit start stop offset
         | DRAIN \<Rightarrow> make_drain start stop (act_count a) offset
         | DISCONNECT \<Rightarrow> make_disconnect uninit start stop offset)"

text \<open>The payload a SEND adds to the plan, once for each of its copies.\<close>

definition plan_send :: "packet_store \<Rightarrow> action \<Rightarrow> plan_builder \<Rightarrow> plan_builder plan_result" where
  "plan_send st a pb =
     (case ps_identity_map st (act_packet_identifier a) of
        None \<Rightarrow>
          Inl (Plan_Error (''Failed to map packet identity '' @ act_packet_identifier a
            @ '' to a read packet. This could be an error with the application.''))
      | Some p_index \<Rightarrow>
          if p_index < length (ps_packet_data st) then
            bindE (build_payload a (ps_packet_data st ! p_index)) (\<lambda>(payload, counter_list).
            Inr (pb\<lparr>pb_counter_steps := pb_counter_steps pb @ replicate (unat (act_count a)) counter_list,
                    pb_payloads := pb_payloads pb @ replicate (unat (act_count a)) payload\<rparr>))
          else Inl Undefined_Behaviour)"

definition plan_action :: "u32 \<Rightarrow> packet_store \<Rightarrow> action \<Rightarrow> plan_builder \<Rightarrow> plan_builder plan_result" where
  "plan_action uninit st a pb =
     (let pb = pb\<lparr>pb_curr_offset := pb_curr_offset pb + ucast (act_offset_ms a)\<rparr>;
          desc = describe_action uninit a (pb_curr_offset pb)
      in bindE (if act_type a = SEND then plan_send st a pb else Inr pb) (\<lambda>pb.
         Inr (pb\<lparr>pb_actions := pb_actions pb @ [desc]\<rparr>)))"

definition generate_plan_common ::
  "os \<Rightarrow> resolver_options \<Rightarrow> (u64 \<Rightarrow> bool) \<Rightarrow> u32 \<Rightarrow> dsl_data \<Rightarrow> handler_factory \<Rightarrow> host_info \<Rightarrow> execution_plan plan_result" where
  "generate_plan_common env opts can_allocate uninit script factory host_data =
     (let settings = ds_settings script;
          config = new_session_config (ucast (st_header_size settings)) (ucast (st_body_max settings))
                     (st_read settings) (st_repeat settings) (ucast (st_packet_sample_rate settings))
      in bindE (load_packets env opts can_allocate (st_packet_identifiers settings)) (\<lambda>st.
         bindE (foldE (plan_action uninit st) (or_actions (ds_orchestrator script)) empty_plan_builder) (\<lambda>pb.
         Inr \<lparr>pl_actions = pb_actions pb, pl_payloads = pb_payloads pb,
              pl_counter_steps = pb_counter_steps pb,
              pl_config = \<lparr>oc_session_config = config, oc_host_info = host_data,
                           oc_handler_factory = factory, oc_shard_count = ucast (st_shards settings)\<rparr>,
              pl_packet_data = ps_packet_data st\<rparr>)))"

text \<open>\<open>compiles\<close> tells whether the WebAssembly engine accepts a module.\<close>

definition make_factory ::
  "os \<Rightarrow> resolver_options \<Rightarrow> (u8 list \<Rightarrow> bool) \<Rightarrow> settings_block \<Rightarrow> handler_factory plan_result" where
  "make_factory env opts compiles settings =
     (if \<not> st_read settings \<or> st_handler_value settings = ''NOP'' then Inr NOP_Factory
      else if ends_with (st_handler_value settings) ''.wasm'' then
        case resolve_file env opts (st_handler_value settings) of
          Inl error_msg \<Rightarrow> Inl (Plan_Error error_msg)
        | Inr path \<Rightarrow>
            (case read_binary_file env path of
               Inl error_msg \<Rightarrow> Inl (Plan_Error error_msg)
             | Inr wasm_bytes \<Rightarrow>
                 if compiles wasm_bytes then Inr (WASM_Factory wasm_bytes)
                 else Inl (Plan_Error (''Failed to compile WASM module for file '' @ path)))
      else Inr No_Factory)"

text \<open>\<open>dns host port\<close> is the answer of the name service: no entries when it fails.\<close>

type_synonym dns = "string \<Rightarrow> string \<Rightarrow> endpoint list"

definition port_string :: "settings_block \<Rightarrow> string" where
  "port_string settings = to_string (unat (st_port settings))"

definition resolve_tcp_endpoints :: "dns \<Rightarrow> settings_block \<Rightarrow> endpoint list" where
  "resolve_tcp_endpoints dns settings =
     fold (\<lambda>endpoint eps.
             fold (\<lambda>entry eps. if entry \<in> set eps then eps else eps @ [entry])
               (dns endpoint (port_string settings)) eps)
       (st_endpoints settings) []"

definition unspecified_endpoint :: endpoint where
  "unspecified_endpoint = \<lparr>ep_address = ''0.0.0.0'', ep_port = 0\<rparr>"

definition resolve_udp_endpoint :: "dns \<Rightarrow> settings_block \<Rightarrow> endpoint" where
  "resolve_udp_endpoint dns settings =
     fold (\<lambda>endpoint ep. fold (\<lambda>entry ep. entry) (dns endpoint (port_string settings)) ep)
       (st_endpoints settings) unspecified_endpoint"

definition generate_execution_plan_tcp ::
  "os \<Rightarrow> resolver_options \<Rightarrow> (u64 \<Rightarrow> bool) \<Rightarrow> u32 \<Rightarrow> dns \<Rightarrow> (u8 list \<Rightarrow> bool) \<Rightarrow> dsl_data \<Rightarrow> execution_plan plan_result" where
  "generate_execution_plan_tcp env opts can_allocate uninit dns compiles script =
     bindE (make_factory env opts compiles (ds_settings script)) (\<lambda>factory.
     let endpoints = resolve_tcp_endpoints dns (ds_settings script) in
     bindE (guardE (endpoints \<noteq> []) (Plan_Error ''No endpoints could be resolved!'')) (\<lambda>_.
     generate_plan_common env opts can_allocate uninit script factory (TCP_Hosts endpoints)))"

definition MAX_DATAGRAM_SIZE :: nat where
  "MAX_DATAGRAM_SIZE = 65535 - 8"

definition SUGGESTED_PAYLOAD_SIZE :: nat where
  "SUGGESTED_PAYLOAD_SIZE = 1500 - 20 - 8"

text \<open>The loop over the payloads: an error for one that fits no datagram, else whether one is oversized.\<close>

definition check_datagrams :: "payload_descriptor list \<Rightarrow> bool plan_result" where
  "check_datagrams payloads =
     foldE (\<lambda>payload oversized.
              if length (pd_packet_data payload) > MAX_DATAGRAM_SIZE then
                Inl (Plan_Error (''Payload detected with size greater than the UDP maximum! (''
                  @ to_string MAX_DATAGRAM_SIZE @ '' bytes)''))
              else Inr (oversized \<or> length (pd_packet_data payload) > SUGGESTED_PAYLOAD_SIZE))
       payloads False"

text \<open>The plan and the warning, if any, about payloads above the suggested datagram size.\<close>

definition generate_execution_plan_udp ::
  "os \<Rightarrow> resolver_options \<Rightarrow> (u64 \<Rightarrow> bool) \<Rightarrow> u32 \<Rightarrow> dns \<Rightarrow> (u8 list \<Rightarrow> bool) \<Rightarrow> dsl_data
    \<Rightarrow> (execution_plan \<times> string option) plan_result" where
  "generate_execution_plan_udp env opts can_allocate uninit dns compiles script =
     bindE (make_factory env opts compiles (ds_settings script)) (\<lambda>factory.
     let ep = resolve_udp_endpoint dns (ds_settings script) in
     bindE (guardE (ep \<noteq> unspecified_endpoint) (Plan_Error ''No endpoints could be resolved!'')) (\<lambda>_.
     bindE (generate_plan_common env opts can_allocate uninit script factory (UDP_Host ep)) (\<lambda>plan.
     bindE (check_datagrams (pl_payloads plan)) (\<lambda>oversized.
     Inr (plan,
          if oversized then Some (''Payloads detected with size greater than ''
             @ to_string SUGGESTED_PAYLOAD_SIZE @ '' bytes (suggested datagram size)'') else None)))))"

definition endpoint_line :: "endpoint \<Rightarrow> string" where
  "endpoint_line ep = ''  - '' @ ep_address ep @ '':'' @ to_string (unat (ep_port ep)) @ [NEWLINE]"

definition dump_endpoint_list :: "host_info \<Rightarrow> string" where
  "dump_endpoint_list h =
     (case h of TCP_Hosts eps \<Rightarrow> concat (map endpoint_line eps) | UDP_Host ep \<Rightarrow> endpoint_line ep)"

end
