(* ===== verification/Plan_Layout.thy ===== *)
theory Plan_Layout
  imports Execution_Plan
begin

text \<open>
  What the plan promises about the packets a SEND puts on the wire. The specification speaks
  of the modifications as the script lists them: each overwrites its own range of the packet.
  The plan cuts the packet into operations and the payload manager joins them again; for
  modifications listed in the order of their positions, without overlap and inside the
  packet, the two agree.
\<close>

section \<open>Fields of a SEND\<close>

datatype mod_field = Counter_Field counter_modification | Time_Field timestamp_modification

fun fields_of ::
  "modification_type list \<Rightarrow> timestamp_modification list \<Rightarrow> counter_modification list \<Rightarrow> mod_field list" where
  "fields_of (Mod_Counter # ms) ts (c # cs) = Counter_Field c # fields_of ms ts cs"
| "fields_of (Mod_Timestamp # ms) (t # ts) cs = Time_Field t # fields_of ms ts cs"
| "fields_of _ _ _ = []"

definition send_fields :: "action \<Rightarrow> mod_field list" where
  "send_fields a = fields_of (act_mod_order a) (act_timestamp_mods a) (act_counter_mods a)"

fun field_range :: "mod_field \<Rightarrow> range" where
  "field_range (Counter_Field c) = cm_bytes c"
| "field_range (Time_Field t) = tm_bytes t"

definition field_start :: "mod_field \<Rightarrow> nat" where
  "field_start f = unat (rng_start (field_range f))"

definition field_len :: "mod_field \<Rightarrow> nat" where
  "field_len f = unat (rng_second (field_range f))"

definition field_end :: "mod_field \<Rightarrow> nat" where
  "field_end f = field_start f + field_len f"

fun field_ok :: "mod_field \<Rightarrow> bool" where
  "field_ok (Counter_Field c) = (rng_second (cm_bytes c) \<le> 8)"
| "field_ok (Time_Field t) = (rng_second (tm_bytes t) \<le> 8 \<and> ts_format_lookup (tm_format_name t) \<noteq> None)"

fun fields_in_order :: "nat \<Rightarrow> nat \<Rightarrow> mod_field list \<Rightarrow> bool" where
  "fields_in_order pos sz [] = (pos \<le> sz)"
| "fields_in_order pos sz (f # fs) =
     (pos \<le> field_start f \<and> field_ok f \<and> fields_in_order (field_end f) sz fs)"

definition counter_fields :: "mod_field list \<Rightarrow> counter_modification list" where
  "counter_fields fs = concat (map (\<lambda>f. case f of Counter_Field c \<Rightarrow> [c] | Time_Field t \<Rightarrow> []) fs)"

lemma counter_fields_simps [simp]:
  "counter_fields [] = []"
  "counter_fields (Counter_Field c # fs) = c # counter_fields fs"
  "counter_fields (Time_Field t # fs) = counter_fields fs"
  by (simp_all add: counter_fields_def)

text \<open>Writing bytes over a part of a packet.\<close>

definition overwrite :: "nat \<Rightarrow> u8 list \<Rightarrow> u8 list \<Rightarrow> u8 list" where
  "overwrite k bs packet = take k packet @ bs @ drop (k + length bs) packet"

text \<open>
  The bytes of a field: a COUNTER takes the next counter's value, a TIMESTAMP the next
  reading of the clock.
\<close>

fun field_write :: "clock \<Rightarrow> nat \<Rightarrow> payload_counter list \<Rightarrow> mod_field \<Rightarrow> u8 list" where
  "field_write clk n cs (Counter_Field c) =
     field_bytes (unat (rng_second (cm_bytes c))) (cm_little_endian c) (pc_counter (hd cs))"
| "field_write clk n cs (Time_Field t) =
     field_bytes (unat (rng_second (tm_bytes t))) (tm_little_endian t)
       (timestamp_value (the (ts_format_lookup (tm_format_name t))) (clk n))"

fun counters_after :: "mod_field \<Rightarrow> payload_counter list \<Rightarrow> payload_counter list" where
  "counters_after (Counter_Field c) cs = tl cs"
| "counters_after (Time_Field t) cs = cs"

fun clock_after :: "mod_field \<Rightarrow> nat \<Rightarrow> nat" where
  "clock_after (Counter_Field c) n = n"
| "clock_after (Time_Field t) n = Suc n"

text \<open>The packet with every field overwritten.\<close>

fun patched :: "clock \<Rightarrow> nat \<Rightarrow> payload_counter list \<Rightarrow> mod_field list \<Rightarrow> u8 list \<Rightarrow> u8 list" where
  "patched clk n cs [] packet = packet"
| "patched clk n cs (f # fs) packet =
     patched clk (clock_after f n) (counters_after f cs) fs
       (overwrite (field_start f) (field_write clk n cs f) packet)"

section \<open>The operations as a layout\<close>

definition gap_ops :: "nat \<Rightarrow> nat \<Rightarrow> packet_operation list" where
  "gap_ops pos start = (if pos < start then [make_identity (of_nat (start - pos))] else [])"

fun field_op :: "mod_field \<Rightarrow> packet_operation" where
  "field_op (Counter_Field c) = make_counter (rng_second (cm_bytes c)) (cm_little_endian c)"
| "field_op (Time_Field t) =
     make_timestamp (rng_second (tm_bytes t)) (tm_little_endian t) (the (ts_format_lookup (tm_format_name t)))"

fun mod_ops :: "nat \<Rightarrow> mod_field list \<Rightarrow> packet_operation list" where
  "mod_ops pos [] = []"
| "mod_ops pos (f # fs) = gap_ops pos (field_start f) @ field_op f # mod_ops (field_end f) fs"

fun last_pos :: "nat \<Rightarrow> mod_field list \<Rightarrow> nat" where
  "last_pos pos [] = pos"
| "last_pos pos (f # fs) = last_pos (field_end f) fs"

definition layout_ops :: "nat \<Rightarrow> nat \<Rightarrow> mod_field list \<Rightarrow> packet_operation list" where
  "layout_ops pos sz fs = mod_ops pos fs @ gap_ops (last_pos pos fs) sz"

lemma layout_ops_Nil: "layout_ops pos sz [] = gap_ops pos sz"
  by (simp add: layout_ops_def)

lemma layout_ops_Cons:
  "layout_ops pos sz (f # fs) = gap_ops pos (field_start f) @ field_op f # layout_ops (field_end f) sz fs"
  by (simp add: layout_ops_def)

lemma last_pos_le: "fields_in_order pos sz fs \<Longrightarrow> last_pos pos fs \<le> sz"
  by (induction fs arbitrary: pos) auto

lemma fields_in_order_le: "fields_in_order pos sz fs \<Longrightarrow> pos \<le> sz"
  by (induction fs arbitrary: pos) (fastforce simp: field_end_def)+

lemma field_op_length [simp]: "unat (op_length (field_op f)) = field_len f"
  by (cases f) (simp_all add: field_len_def make_counter_def make_timestamp_def)

lemma field_op_small: "field_ok f \<Longrightarrow> op_length (field_op f) \<le> 8"
  by (cases f) (auto simp: make_counter_def make_timestamp_def)

lemma ops_length_gap: "start < 2 ^ 32 \<Longrightarrow> pos \<le> start \<Longrightarrow> ops_length (gap_ops pos start) = start - pos"
  by (auto simp: gap_ops_def make_identity_def unat_of_nat simp del: of_nat_diff)

lemma counter_ops_gap [simp]: "counter_ops (gap_ops pos start) = 0"
  by (simp add: gap_ops_def make_identity_def)

lemma timestamp_ops_gap [simp]: "timestamp_ops (gap_ops pos start) = 0"
  by (simp add: gap_ops_def make_identity_def)

lemma list_all_gap: "list_all (\<lambda>op. op_type op = Op_IDENTITY \<or> P op) (gap_ops pos start)"
  by (simp add: gap_ops_def make_identity_def)

lemma field_start_bound: "field_start f < 2 ^ 32"
  unfolding field_start_def by simp

lemma ops_length_layout:
  assumes "fields_in_order pos sz fs" "sz < 2 ^ 32"
  shows "ops_length (layout_ops pos sz fs) = sz - pos"
  using assms
proof (induction fs arbitrary: pos)
  case Nil
  then show ?case by (simp add: layout_ops_Nil ops_length_gap)
next
  case (Cons f fs)
  have "field_end f \<le> sz" using Cons.prems fields_in_order_le by auto
  then show ?case
    using Cons field_start_bound [of f] by (simp add: layout_ops_Cons ops_length_gap field_end_def)
qed

lemma counter_ops_layout: "counter_ops (layout_ops pos sz fs) = length (counter_fields fs)"
proof (induction fs arbitrary: pos)
  case (Cons f fs)
  then show ?case
    by (cases f) (simp_all add: layout_ops_Cons make_counter_def make_timestamp_def)
qed (simp add: layout_ops_Nil)

lemma layout_small:
  "fields_in_order pos sz fs \<Longrightarrow>
   list_all (\<lambda>op. op_type op = Op_IDENTITY \<or> op_length op \<le> 8) (layout_ops pos sz fs)"
  by (induction fs arbitrary: pos) (auto simp: layout_ops_Nil layout_ops_Cons list_all_gap field_op_small)

lemma layout_fillable:
  assumes "fields_in_order 0 (length packet) fs" "length packet < 2 ^ 32"
  shows "fillable (length (counter_fields fs))
    \<lparr>pd_packet_data = packet, pd_ops = layout_ops 0 (length packet) fs\<rparr>"
  using assms by (simp add: fillable_def ops_length_layout counter_ops_layout layout_small)

section \<open>The plan builds the layout\<close>

lemma ucast_u64_of_nat: "(ucast (w :: u32) :: u64) = of_nat (unat w)"
  by simp

lemma of_nat_u64_minus:
  assumes "a \<le> b" "b < 2 ^ 64"
  shows "(of_nat b :: u64) - of_nat a = of_nat (b - a)"
  using assms by (simp add: of_nat_diff)

lemma of_nat_u64_pos_iff: "b < 2 ^ 64 \<Longrightarrow> (of_nat b :: u64) > 0 \<longleftrightarrow> 0 < b"
  by (simp add: word_less_nat_alt unat_of_nat)

lemma push_previous_gap:
  assumes "ob_data_index b = of_nat pos" "pos \<le> unat start"
  shows "push_previous start b =
    b\<lparr>ob_ops := ob_ops b @ gap_ops pos (unat start), ob_data_index := of_nat (unat start)\<rparr>"
proof -
  have lt: "unat start < 2 ^ 32" by simp
  have diff: "(ucast start :: u64) - of_nat pos = of_nat (unat start - pos)"
    unfolding ucast_u64_of_nat using assms(2) lt by (intro of_nat_u64_minus) simp_all
  show ?thesis
  proof (cases "pos < unat start")
    case True
    then have "(of_nat (unat start - pos) :: u64) > 0" by (subst of_nat_u64_pos_iff) (simp_all add: less_imp_diff_less)
    moreover have "(of_nat pos :: u64) + of_nat (unat start - pos) = of_nat (unat start)"
      using assms(2) by (simp flip: of_nat_add)
    moreover have "(ucast (of_nat (unat start - pos) :: u64) :: u32) = of_nat (unat start - pos)"
      by (rule ucast_u32_of_nat) (simp add: less_imp_diff_less)
    ultimately show ?thesis
      using True assms(1) by (simp only: push_previous_def gap_ops_def Let_def diff if_True)
  next
    case False
    then have "unat start = pos" using assms(2) by simp
    then show ?thesis using assms(1) diff by (simp add: push_previous_def gap_ops_def Let_def)
  qed
qed

lemma data_index_after:
  "of_nat (unat start) + (ucast (n :: u32) :: u64) = of_nat (unat start + unat n)"
  by (simp only: ucast_u64_of_nat of_nat_add)

lemma foldE_push_mod:
  assumes "fields_in_order pos sz (fields_of ms (drop (ob_ts_idx b) (act_timestamp_mods a))
             (drop (ob_c_idx b) (act_counter_mods a)))" (is "fields_in_order pos sz ?fs")
    and "count_list ms Mod_Timestamp + ob_ts_idx b \<le> length (act_timestamp_mods a)"
    and "count_list ms Mod_Counter + ob_c_idx b \<le> length (act_counter_mods a)"
    and "ob_data_index b = of_nat pos"
  shows "\<exists>b'. foldE (push_mod a) ms b = Inr b' \<and> ob_ops b' = ob_ops b @ mod_ops pos ?fs
     \<and> ob_counters b' = ob_counters b @ map (\<lambda>c. ucast (cm_step c)) (counter_fields ?fs)
     \<and> ob_data_index b' = of_nat (last_pos pos ?fs)"
  using assms
proof (induction ms arbitrary: b pos)
  case Nil
  then show ?case by simp
next
  case (Cons m ms)
  show ?case
  proof (cases m)
    case Mod_Counter
    let ?c = "act_counter_mods a ! ob_c_idx b"
    have lt: "ob_c_idx b < length (act_counter_mods a)"
      using Cons.prems(3) Mod_Counter by simp
    then have drop: "drop (ob_c_idx b) (act_counter_mods a) = ?c # drop (Suc (ob_c_idx b)) (act_counter_mods a)"
      by (simp add: Cons_nth_drop_Suc)
    let ?b = "b\<lparr>ob_c_idx := Suc (ob_c_idx b),
        ob_ops := (ob_ops b @ gap_ops pos (field_start (Counter_Field ?c))) @ [field_op (Counter_Field ?c)],
        ob_counters := ob_counters b @ [ucast (cm_step ?c)],
        ob_data_index := of_nat (field_end (Counter_Field ?c))\<rparr>"
    have "push_mod a m b = Inr ?b"
      using Cons.prems(1,4) drop Mod_Counter lt
      by (simp add: push_mod_def Let_def push_previous_gap [of _ pos] field_start_def field_end_def field_len_def
          data_index_after)
    then show ?thesis
      using Cons.IH [of "field_end (Counter_Field ?c)" ?b] Cons.prems drop Mod_Counter by simp
  next
    case Mod_Timestamp
    let ?t = "act_timestamp_mods a ! ob_ts_idx b"
    have lt: "ob_ts_idx b < length (act_timestamp_mods a)"
      using Cons.prems(2) Mod_Timestamp by simp
    then have drop: "drop (ob_ts_idx b) (act_timestamp_mods a) = ?t # drop (Suc (ob_ts_idx b)) (act_timestamp_mods a)"
      by (simp add: Cons_nth_drop_Suc)
    let ?b = "b\<lparr>ob_ts_idx := Suc (ob_ts_idx b),
        ob_ops := (ob_ops b @ gap_ops pos (field_start (Time_Field ?t))) @ [field_op (Time_Field ?t)],
        ob_data_index := of_nat (field_end (Time_Field ?t))\<rparr>"
    have "push_mod a m b = Inr ?b"
      using Cons.prems(1,4) drop Mod_Timestamp lt
      by (auto simp: push_mod_def Let_def push_previous_gap [of _ pos] field_start_def field_end_def field_len_def
          data_index_after)
    then show ?thesis
      using Cons.IH [of "field_end (Time_Field ?t)" ?b] Cons.prems drop Mod_Timestamp by simp
  qed
qed

lemma build_payload_layout:
  assumes "fields_in_order 0 (length buf) (send_fields a)" "mods_accounted a"
    and "buf \<noteq> []" "length buf < 2 ^ 32"
  shows "build_payload a buf =
    Inr (\<lparr>pd_packet_data = buf, pd_ops = layout_ops 0 (length buf) (send_fields a)\<rparr>,
         map (\<lambda>c. ucast (cm_step c)) (counter_fields (send_fields a)))"
proof (cases "act_mod_order a = []")
  case True
  then show ?thesis using assms(3) by (simp add: build_payload_def send_fields_def layout_ops_Nil gap_ops_def)
next
  case False
  let ?fs = "send_fields a" and ?n = "length buf"
  obtain b where b: "foldE (push_mod a) (act_mod_order a) initial_builder = Inr b" "ob_ops b = mod_ops 0 ?fs"
    "ob_counters b = map (\<lambda>c. ucast (cm_step c)) (counter_fields ?fs)" "ob_data_index b = of_nat (last_pos 0 ?fs)"
    using foldE_push_mod [of 0 ?n "act_mod_order a" initial_builder a] assms(1,2)
    by (auto simp: initial_builder_def send_fields_def mods_accounted_def)
  have le: "last_pos 0 ?fs \<le> ?n" using assms(1) by (rule last_pos_le)
  have lt: "(of_nat (last_pos 0 ?fs) :: u64) < of_nat ?n \<longleftrightarrow> last_pos 0 ?fs < ?n"
    using le assms(4) by (simp add: word_less_nat_alt unat_of_nat)
  have diff: "(of_nat ?n :: u64) - of_nat (last_pos 0 ?fs) = of_nat (?n - last_pos 0 ?fs)"
    using le assms(4) by (intro of_nat_u64_minus) simp_all
  have "(ucast (of_nat (?n - last_pos 0 ?fs) :: u64) :: u32) = of_nat (?n - last_pos 0 ?fs)"
    using assms(4) by (intro ucast_u32_of_nat) (simp add: less_imp_diff_less)
  then show ?thesis
    using False by (simp add: build_payload_def b lt diff Let_def layout_ops_def gap_ops_def del: of_nat_diff)
qed

section \<open>Rendering the layout patches the packet\<close>

lemma length_overwrite [simp]: "k + length bs \<le> length p \<Longrightarrow> length (overwrite k bs p) = length p"
  by (simp add: overwrite_def)

lemma length_field_write [simp]: "length (field_write clk n cs f) = field_len f"
  by (cases f) (simp_all add: field_len_def)

lemma length_patched:
  "fields_in_order pos (length p) fs \<Longrightarrow> length (patched clk n cs fs p) = length p"
proof (induction fs arbitrary: pos n cs p)
  case (Cons f fs)
  then have "field_end f \<le> length p" using fields_in_order_le by auto
  then show ?case
    using Cons.IH [of "field_end f" "overwrite (field_start f) (field_write clk n cs f) p"] Cons.prems
    by (simp add: field_end_def)
qed simp

lemma take_overwrite:
  "k \<le> length p \<Longrightarrow> take (k + length bs) (overwrite k bs p) = take k p @ bs"
  by (simp add: overwrite_def)

lemma drop_overwrite:
  "k \<le> length p \<Longrightarrow> drop (k + length bs) (overwrite k bs p) = drop (k + length bs) p"
  by (simp add: overwrite_def)

text \<open>The bytes before the first field are those of the packet.\<close>

lemma take_patched:
  assumes "fields_in_order pos (length p) fs"
  shows "take pos (patched clk n cs fs p) = take pos p"
  using assms
proof (induction fs arbitrary: pos n cs p)
  case (Cons f fs)
  let ?q = "overwrite (field_start f) (field_write clk n cs f) p"
  have le: "field_end f \<le> length p" "pos \<le> field_start f" using Cons.prems fields_in_order_le by auto
  then have len: "length ?q = length p" by (simp add: field_end_def)
  have "take (field_end f) (patched clk n cs (f # fs) p) = take (field_end f) ?q"
    using Cons.IH [of "field_end f" ?q] Cons.prems len by simp
  then have "take pos (patched clk n cs (f # fs) p) = take pos ?q"
    using le by (metis field_end_def min.absorb1 take_take trans_le_add1)
  then show ?case using le by (simp add: overwrite_def field_end_def)
qed simp

lemma patched_split:
  assumes "pos \<le> field_start f" "fields_in_order (field_end f) (length p) fs"
  shows "drop pos (patched clk n cs (f # fs) p) =
    take (field_start f - pos) (drop pos p) @ field_write clk n cs f
    @ drop (field_end f) (patched clk (clock_after f n) (counters_after f cs) fs
        (overwrite (field_start f) (field_write clk n cs f) p))"
    (is "drop pos ?x = _ @ _ @ drop _ ?y")
proof -
  let ?q = "overwrite (field_start f) (field_write clk n cs f) p"
  have le: "field_end f \<le> length p" using assms(2) by (rule fields_in_order_le)
  have "take (field_end f) ?y = take (field_end f) ?q"
    using assms(2) le by (intro take_patched) (simp add: field_end_def)
  also have "\<dots> = take (field_start f) p @ field_write clk n cs f"
    using take_overwrite [of "field_start f" p "field_write clk n cs f"] le by (simp add: field_end_def)
  finally have "?y = (take (field_start f) p @ field_write clk n cs f) @ drop (field_end f) ?y"
    by (metis append_take_drop_id)
  then have "drop pos ?y = drop pos ((take (field_start f) p @ field_write clk n cs f) @ drop (field_end f) ?y)"
    by (rule arg_cong)
  also have "\<dots> = take (field_start f - pos) (drop pos p) @ field_write clk n cs f @ drop (field_end f) ?y"
    using assms(1) le by (simp add: field_end_def drop_take)
  finally show ?thesis by simp
qed

text \<open>What follows a position depends only on what the packet holds there.\<close>

lemma drop_patched_cong:
  assumes "fields_in_order pos (length p) fs" "length q = length p" "drop pos p = drop pos q"
  shows "drop pos (patched clk n cs fs p) = drop pos (patched clk n cs fs q)"
  using assms
proof (induction fs arbitrary: pos n cs p q)
  case (Cons f fs)
  let ?o = "overwrite (field_start f) (field_write clk n cs f)"
  have le: "field_end f \<le> length p" "pos \<le> field_start f" using Cons.prems fields_in_order_le by auto
  have "drop (field_end f) (?o r) = drop (field_end f) r" if "length r = length p" for r
    using drop_overwrite [of "field_start f" r "field_write clk n cs f"] le that by (simp add: field_end_def)
  moreover have "drop (field_end f) p = drop (field_end f) q"
    using Cons.prems(3) le by (metis drop_drop field_end_def le_add_diff_inverse2 trans_le_add1)
  moreover have "length (?o r) = length p" if "length r = length p" for r
    using le that by (simp add: field_end_def)
  ultimately have "drop (field_end f) (patched clk (clock_after f n) (counters_after f cs) fs (?o p)) =
      drop (field_end f) (patched clk (clock_after f n) (counters_after f cs) fs (?o q))"
    using Cons.prems(1,2) by (intro Cons.IH) simp_all
  then show ?case
    using Cons.prems by (simp add: patched_split del: patched.simps)
qed simp

lemma render_gap:
  assumes "pos \<le> start" "start < 2 ^ 32"
  shows "render_ops packet clk pos n cs (gap_ops pos start @ ops) =
    take (start - pos) (drop pos packet) @ render_ops packet clk start n cs ops"
  using assms by (simp add: gap_ops_def make_identity_def unat_of_nat Let_def del: of_nat_diff)

lemma render_field:
  "render_ops packet clk pos n cs (field_op f # ops) =
    field_write clk n cs f @ render_ops packet clk (pos + field_len f) (clock_after f n) (counters_after f cs) ops"
  by (cases f) (simp_all add: make_counter_def make_timestamp_def Let_def field_len_def)

lemma render_layout:
  assumes "fields_in_order pos (length packet) fs" "length packet < 2 ^ 32"
  shows "render_ops packet clk pos n cs (layout_ops pos (length packet) fs) =
    drop pos (patched clk n cs fs packet)"
  using assms
proof (induction fs arbitrary: pos n cs)
  case Nil
  then show ?case
    using render_gap [of pos "length packet" packet clk n cs "[]"] by (simp add: layout_ops_Nil)
next
  case (Cons f fs)
  let ?o = "overwrite (field_start f) (field_write clk n cs f) packet"
  have le: "field_end f \<le> length packet" "pos \<le> field_start f" using Cons.prems fields_in_order_le by auto
  have "drop (field_end f) (patched clk (clock_after f n) (counters_after f cs) fs packet) =
      drop (field_end f) (patched clk (clock_after f n) (counters_after f cs) fs ?o)"
    using Cons.prems(1) le drop_overwrite [of "field_start f" packet "field_write clk n cs f"]
    by (intro drop_patched_cong) (simp_all add: field_end_def)
  then show ?case
    using Cons le field_start_bound [of f]
    by (simp add: layout_ops_Cons render_gap render_field patched_split field_end_def
        del: patched.simps render_ops.simps)
qed

end
