(* ===== verification/Plan_Correct.thy ===== *)
theory Plan_Correct
  imports Plan_Layout
begin

text \<open>
  Properties of a whole plan: which packet each identifier stands for, the order and the
  offsets of the actions, where the payloads of each SEND are, and what the payload manager
  makes of them.
\<close>

section \<open>Bytes of a patched packet\<close>

lemma nth_overwrite_outside:
  "k < length p \<Longrightarrow> s + length bs \<le> length p \<Longrightarrow> k < s \<or> s + length bs \<le> k \<Longrightarrow> overwrite s bs p ! k = p ! k"
  by (auto simp: overwrite_def nth_append)

lemma patched_outside:
  assumes "fields_in_order pos (length p) fs" "k < length p"
    and "\<forall>f \<in> set fs. k < field_start f \<or> field_end f \<le> k"
  shows "patched clk n cs fs p ! k = p ! k"
  using assms
proof (induction fs arbitrary: pos n cs p)
  case (Cons f fs)
  let ?q = "overwrite (field_start f) (field_write clk n cs f) p"
  have le: "field_end f \<le> length p" using Cons.prems(1) fields_in_order_le by auto
  then have "length ?q = length p" by (simp add: field_end_def)
  moreover have "?q ! k = p ! k"
    using Cons.prems(2,3) le by (intro nth_overwrite_outside) (auto simp: field_end_def)
  ultimately show ?case
    using Cons.IH [of "field_end f" ?q] Cons.prems by simp
qed simp

definition time_fields :: "mod_field list \<Rightarrow> nat" where
  "time_fields fs = length fs - length (counter_fields fs)"

lemma length_counter_fields_le: "length (counter_fields fs) \<le> length fs"
proof (induction fs)
  case (Cons f fs)
  then show ?case by (cases f) auto
qed simp

lemma time_fields_simps [simp]:
  "time_fields [] = 0"
  "time_fields (Counter_Field c # fs) = time_fields fs"
  "time_fields (Time_Field t # fs) = Suc (time_fields fs)"
  using length_counter_fields_le [of fs] by (simp_all add: time_fields_def)

lemma counters_after_drop: "counters_after f cs = drop (length (counter_fields [f])) cs"
  by (cases f) (simp_all add: drop_Suc)

lemma clock_after_add: "clock_after f n = n + time_fields [f]"
  by (cases f) simp_all

lemma counter_fields_Cons: "counter_fields (f # fs) = counter_fields [f] @ counter_fields fs"
  by (cases f) simp_all

lemma time_fields_Cons: "time_fields (f # fs) = time_fields [f] + time_fields fs"
  by (cases f) simp_all

lemma patched_field:
  assumes "fields_in_order pos (length p) (pre @ f # post)"
  shows "take (field_len f) (drop (field_start f) (patched clk n cs (pre @ f # post) p)) =
    field_write clk (n + time_fields pre) (drop (length (counter_fields pre)) cs) f"
  using assms
proof (induction pre arbitrary: pos n cs p)
  case Nil
  have "drop (field_start f) (patched clk n cs (f # post) p) =
      field_write clk n cs f @ drop (field_end f) (patched clk (clock_after f n) (counters_after f cs) post
        (overwrite (field_start f) (field_write clk n cs f) p))"
    using Nil by (subst patched_split) simp_all
  then show ?case by simp
next
  case (Cons g pre)
  have "field_end g \<le> length p" using Cons.prems fields_in_order_le by auto
  then have "length (overwrite (field_start g) (field_write clk n cs g) p) = length p"
    by (simp add: field_end_def)
  then show ?case
    using Cons.IH [of "field_end g" "overwrite (field_start g) (field_write clk n cs g) p"
        "clock_after g n" "counters_after g cs"] Cons.prems
    by (simp add: counters_after_drop clock_after_add counter_fields_Cons [of g pre] time_fields_Cons [of g pre] ac_simps)
qed

section \<open>The packets of a plan\<close>

definition packet_of :: "os \<Rightarrow> resolver_options \<Rightarrow> string \<Rightarrow> u8 list option" where
  "packet_of env opts file =
     (case resolve_file env opts file of
        Inl e \<Rightarrow> None
      | Inr path \<Rightarrow>
          if get_file_size env path = 0 then None else read_bytes env path (unat (get_file_size env path)))"

definition packet_loaded :: "os \<Rightarrow> resolver_options \<Rightarrow> packet_store \<Rightarrow> string \<times> string \<Rightarrow> bool" where
  "packet_loaded env opts st e \<longleftrightarrow>
     (\<exists>k. ps_identity_map st (fst e) = Some k \<and> k < length (ps_packet_data st)
        \<and> packet_of env opts (snd e) = Some (ps_packet_data st ! k))"

lemma load_packet_fresh:
  assumes "load_packet env opts ok e st = Inr st'" "\<forall>path. resolve_file env opts (snd e) = Inr path \<longrightarrow> path \<notin> set (ps_all_packets st)"
  obtains path buf where "resolve_file env opts (snd e) = Inr path" "packet_of env opts (snd e) = Some buf"
    "st' = st\<lparr>ps_all_packets := path # ps_all_packets st, ps_packet_data := ps_packet_data st @ [buf],
        ps_identity_map := (ps_identity_map st)(fst e \<mapsto> length (ps_packet_data st))\<rparr>"
  using assms
  by (auto simp: load_packet_def packet_of_def read_bytes_to_contiguous_def Let_def
      split: prod.splits sum.splits option.splits if_splits)

lemma load_packets_from:
  assumes "foldE (load_packet env opts ok) es st = Inr st'"
    and "distinct (map fst es)" "distinct (map (\<lambda>e. resolve_file env opts (snd e)) es)"
    and "\<forall>e \<in> set es. \<forall>path. resolve_file env opts (snd e) = Inr path \<longrightarrow> path \<notin> set (ps_all_packets st)"
  shows "(\<forall>e \<in> set es. packet_loaded env opts st' e)
     \<and> (\<forall>e. packet_loaded env opts st e \<longrightarrow> fst e \<notin> fst ` set es \<longrightarrow> packet_loaded env opts st' e)"
  using assms
proof (induction es arbitrary: st)
  case Nil
  then show ?case by simp
next
  case (Cons e es)
  then obtain st1 where st1: "load_packet env opts ok e st = Inr st1"
      "foldE (load_packet env opts ok) es st1 = Inr st'"
    by (auto simp: bindE_Inr_iff)
  obtain path buf where p: "resolve_file env opts (snd e) = Inr path" "packet_of env opts (snd e) = Some buf"
    "st1 = st\<lparr>ps_all_packets := path # ps_all_packets st, ps_packet_data := ps_packet_data st @ [buf],
        ps_identity_map := (ps_identity_map st)(fst e \<mapsto> length (ps_packet_data st))\<rparr>"
    using load_packet_fresh [OF st1(1)] Cons.prems(4) by (metis list.set_intros(1))
  have "\<forall>e' \<in> set es. \<forall>q. resolve_file env opts (snd e') = Inr q \<longrightarrow> q \<notin> set (ps_all_packets st1)"
    using Cons.prems(3,4) p by (auto simp: image_iff)
  then have IH: "(\<forall>e \<in> set es. packet_loaded env opts st' e)
     \<and> (\<forall>e. packet_loaded env opts st1 e \<longrightarrow> fst e \<notin> fst ` set es \<longrightarrow> packet_loaded env opts st' e)"
    using Cons.IH [OF st1(2)] Cons.prems(2,3) by simp
  have new: "packet_loaded env opts st1 e"
    using p by (simp add: packet_loaded_def)
  have keep: "packet_loaded env opts st1 e'" if "packet_loaded env opts st e'" "fst e' \<noteq> fst e" for e'
    using that p(3) by (auto simp: packet_loaded_def nth_append)
  have "packet_loaded env opts st' e"
    using conjunct2 [OF IH, rule_format, OF new] Cons.prems(2) by simp
  then show ?case using IH keep by auto
qed

lemma load_packets_loaded:
  assumes "load_packets env opts ok es = Inr st" "e \<in> set es"
    and "distinct (map fst es)" "distinct (map (\<lambda>e. resolve_file env opts (snd e)) es)"
  shows "packet_loaded env opts st e"
  using load_packets_from [of env opts ok es empty_packet_store st] assms
  by (simp add: load_packets_def empty_packet_store_def)

section \<open>The actions of a plan\<close>

definition offset_total :: "action list \<Rightarrow> nat" where
  "offset_total as = sum_list (map (\<lambda>a. unat (act_offset_ms a)) as)"

definition send_copies :: "action list \<Rightarrow> nat" where
  "send_copies as = sum_list (map (\<lambda>a. if act_type a = SEND then unat (act_count a) else 0) as)"

lemma offset_total_simps [simp]:
  "offset_total [] = 0"
  "offset_total (a # as) = unat (act_offset_ms a) + offset_total as"
  "offset_total (as @ bs) = offset_total as + offset_total bs"
  by (simp_all add: offset_total_def)

lemma send_copies_simps [simp]:
  "send_copies [] = 0"
  "send_copies (a # as) = (if act_type a = SEND then unat (act_count a) else 0) + send_copies as"
  "send_copies (as @ bs) = send_copies as + send_copies bs"
  by (simp_all add: send_copies_def)

lemma plan_send_Inr:
  assumes "plan_send st a pb = Inr pb'"
  obtains k payload cl where "ps_identity_map st (act_packet_identifier a) = Some k"
    "k < length (ps_packet_data st)" "build_payload a (ps_packet_data st ! k) = Inr (payload, cl)"
    "pb' = pb\<lparr>pb_counter_steps := pb_counter_steps pb @ replicate (unat (act_count a)) cl,
              pb_payloads := pb_payloads pb @ replicate (unat (act_count a)) payload\<rparr>"
  using assms by (auto simp: plan_send_def bindE_Inr_iff split: option.splits if_splits)

definition builder_ok :: "plan_builder \<Rightarrow> action list \<Rightarrow> bool" where
  "builder_ok pb as \<longleftrightarrow>
     pb_curr_offset pb = of_nat (offset_total as)
     \<and> length (pb_payloads pb) = send_copies as \<and> length (pb_counter_steps pb) = send_copies as"

lemma plan_action_ok:
  assumes "plan_action uninit st a pb = Inr pb'" "builder_ok pb as"
  shows "builder_ok pb' (as @ [a])"
    and "pb_actions pb' = pb_actions pb @ [describe_action uninit a (of_nat (offset_total (as @ [a])))]"
  using assms
  by (auto simp: plan_action_def builder_ok_def bindE_Inr_iff Let_def split: if_splits elim!: plan_send_Inr)

lemma plan_actions_ok:
  assumes "foldE (plan_action uninit st) as empty_plan_builder = Inr pb"
  shows "builder_ok pb as
    \<and> pb_actions pb = map (\<lambda>k. describe_action uninit (as ! k) (of_nat (offset_total (take (Suc k) as)))) [0..<length as]"
  using assms
proof (induction as arbitrary: pb rule: rev_induct)
  case Nil
  then show ?case by (auto simp: builder_ok_def empty_plan_builder_def)
next
  case (snoc a as)
  then obtain pb1 where pb1: "foldE (plan_action uninit st) as empty_plan_builder = Inr pb1"
    "plan_action uninit st a pb1 = Inr pb"
    by (auto simp: foldE_append bindE_Inr_iff)
  note IH = snoc.IH [OF pb1(1)]
  have "pb_actions pb = pb_actions pb1 @ [describe_action uninit a (of_nat (offset_total (as @ [a])))]"
    using plan_action_ok(2) [OF pb1(2)] IH by blast
  moreover have "map (\<lambda>k. describe_action uninit ((as @ [a]) ! k) (of_nat (offset_total (take (Suc k) (as @ [a]))))) [0..<length as]
      = pb_actions pb1"
    using IH by (simp add: nth_append)
  ultimately show ?case
    using plan_action_ok(1) [OF pb1(2)] IH by simp
qed

text \<open>Payloads only grow at the end, so those of a SEND keep their place.\<close>

lemma plan_action_extends:
  assumes "plan_action uninit st a pb = Inr pb'"
  shows "\<exists>ps cs. pb_payloads pb' = pb_payloads pb @ ps \<and> pb_counter_steps pb' = pb_counter_steps pb @ cs"
  using assms
  by (auto simp: plan_action_def bindE_Inr_iff Let_def split: if_splits elim!: plan_send_Inr)

lemma plan_actions_extend:
  assumes "foldE (plan_action uninit st) as pb = Inr pb'"
  shows "\<exists>ps cs. pb_payloads pb' = pb_payloads pb @ ps \<and> pb_counter_steps pb' = pb_counter_steps pb @ cs"
  using assms
proof (induction as arbitrary: pb)
  case (Cons a as)
  then obtain pb1 where "plan_action uninit st a pb = Inr pb1" "foldE (plan_action uninit st) as pb1 = Inr pb'"
    by (auto simp: bindE_Inr_iff)
  then show ?case using Cons.IH plan_action_extends by fastforce
qed simp

lemma plan_send_payloads:
  assumes "foldE (plan_action uninit st) (pre @ a # post) empty_plan_builder = Inr pb"
    and "act_type a = SEND" "c < unat (act_count a)"
  obtains k payload cl where "ps_identity_map st (act_packet_identifier a) = Some k"
    "k < length (ps_packet_data st)" "build_payload a (ps_packet_data st ! k) = Inr (payload, cl)"
    "pb_payloads pb ! (send_copies pre + c) = payload" "pb_counter_steps pb ! (send_copies pre + c) = cl"
proof -
  obtain pb1 pb2 where pb1: "foldE (plan_action uninit st) pre empty_plan_builder = Inr pb1"
    and pb2: "plan_action uninit st a pb1 = Inr pb2" and pb: "foldE (plan_action uninit st) post pb2 = Inr pb"
    using assms(1) by (auto simp: foldE_append bindE_Inr_iff)
  have len: "length (pb_payloads pb1) = send_copies pre" "length (pb_counter_steps pb1) = send_copies pre"
    using plan_actions_ok [OF pb1] by (simp_all add: builder_ok_def)
  obtain k payload cl where k: "ps_identity_map st (act_packet_identifier a) = Some k"
    "k < length (ps_packet_data st)" "build_payload a (ps_packet_data st ! k) = Inr (payload, cl)"
    and pb2': "pb_payloads pb2 = pb_payloads pb1 @ replicate (unat (act_count a)) payload"
      "pb_counter_steps pb2 = pb_counter_steps pb1 @ replicate (unat (act_count a)) cl"
    using pb2 assms(2) by (auto simp: plan_action_def bindE_Inr_iff Let_def elim!: plan_send_Inr)
  show thesis
    using plan_actions_extend [OF pb] pb2' len assms(3)
    by (intro that [OF k]) (auto simp: nth_append)
qed

section \<open>From the script to the wire\<close>

definition fresh_counters :: "u16 list \<Rightarrow> payload_counter list" where
  "fresh_counters steps = map (\<lambda>s. \<lparr>pc_counter = 0, pc_step = s\<rparr>) steps"

lemma new_payload_manager_counters:
  assumes "length payloads \<le> length steps"
  shows "pm_payloads (new_payload_manager payloads steps) = payloads"
    and "pm_counters (new_payload_manager payloads steps) = map (\<lambda>i. fresh_counters (steps ! i)) [0..<length payloads]"
  using assms
  by (simp_all add: new_payload_manager_def Let_def fresh_counters_def new_payload_counter_def)

lemma layout_fill:
  assumes "fields_in_order 0 (length packet) fs" "length packet < 2 ^ 32"
    and "index < length (pm_payloads m)"
    and "pm_payloads m ! index = \<lparr>pd_packet_data = packet, pd_ops = layout_ops 0 (length packet) fs\<rparr>"
    and "length (pm_counters m ! index) = length (counter_fields fs)"
  shows "\<exists>m' p. fill_payload clk index m payload = Some (True, m', p)
     \<and> gather packet p = Some (patched clk 0 (pm_counters m ! index) fs packet)"
  using fill_payload_render [OF assms(3) refl refl, of clk payload] layout_fillable [OF assms(1,2)]
    render_layout [OF assms(1,2), of clk 0 "pm_counters m ! index"]
  by (auto simp: assms(4,5))

lemma plan_common_Inr:
  assumes "generate_plan_common env opts ok uninit script factory host = Inr plan"
  obtains st pb where "load_packets env opts ok (st_packet_identifiers (ds_settings script)) = Inr st"
    "foldE (plan_action uninit st) (or_actions (ds_orchestrator script)) empty_plan_builder = Inr pb"
    "pl_actions plan = pb_actions pb" "pl_payloads plan = pb_payloads pb" "pl_counter_steps plan = pb_counter_steps pb"
  using assms by (auto simp: generate_plan_common_def bindE_Inr_iff Let_def)

end
