(* ===== verification/Plan_Run.thy ===== *)
theory Plan_Run
  imports Plan_Correct
begin

text \<open>
  Running a plan: the payload manager built from the plan of a script whose SENDs are all
  well formed can fill every payload any number of times, and its counters count the fills.
\<close>

section \<open>Scripts whose payloads can all be filled\<close>

definition well_formed_send :: "os \<Rightarrow> resolver_options \<Rightarrow> dsl_data \<Rightarrow> action \<Rightarrow> u8 list \<Rightarrow> bool" where
  "well_formed_send env opts script a packet \<longleftrightarrow>
     (\<exists>e \<in> set (st_packet_identifiers (ds_settings script)).
        fst e = act_packet_identifier a \<and> packet_of env opts (snd e) = Some packet)
     \<and> packet \<noteq> [] \<and> length packet < 2 ^ 32 \<and> mods_accounted a
     \<and> fields_in_order 0 (length packet) (send_fields a)"

definition distinct_packets :: "os \<Rightarrow> resolver_options \<Rightarrow> dsl_data \<Rightarrow> bool" where
  "distinct_packets env opts script \<longleftrightarrow>
     distinct (map fst (st_packet_identifiers (ds_settings script)))
     \<and> distinct (map (\<lambda>e. resolve_file env opts (snd e)) (st_packet_identifiers (ds_settings script)))"

definition well_formed_sends :: "os \<Rightarrow> resolver_options \<Rightarrow> dsl_data \<Rightarrow> bool" where
  "well_formed_sends env opts script \<longleftrightarrow>
     distinct_packets env opts script
     \<and> (\<forall>a \<in> set (or_actions (ds_orchestrator script)).
          act_type a = SEND \<longrightarrow> (\<exists>packet. well_formed_send env opts script a packet))"

text \<open>The payload and the counter steps of a well-formed SEND.\<close>

definition send_descriptor :: "action \<Rightarrow> u8 list \<Rightarrow> payload_descriptor" where
  "send_descriptor a packet = \<lparr>pd_packet_data = packet, pd_ops = layout_ops 0 (length packet) (send_fields a)\<rparr>"

definition send_steps :: "action \<Rightarrow> u16 list" where
  "send_steps a = map (\<lambda>m. ucast (cm_step m)) (counter_fields (send_fields a))"

lemma send_descriptor_fillable:
  assumes "well_formed_send env opts script a packet"
  shows "fillable (length (send_steps a)) (send_descriptor a packet)"
  using assms layout_fillable [of packet "send_fields a"]
  by (simp add: well_formed_send_def send_descriptor_def send_steps_def)

lemma plan_send_well_formed:
  assumes "load_packets env opts ok (st_packet_identifiers (ds_settings script)) = Inr st"
    and "distinct_packets env opts script" "well_formed_send env opts script a packet"
    and "plan_send st a pb = Inr pb'"
  shows "pb' = pb\<lparr>pb_counter_steps := pb_counter_steps pb @ replicate (unat (act_count a)) (send_steps a),
              pb_payloads := pb_payloads pb @ replicate (unat (act_count a)) (send_descriptor a packet)\<rparr>"
proof -
  obtain e where e: "e \<in> set (st_packet_identifiers (ds_settings script))" "fst e = act_packet_identifier a"
    "packet_of env opts (snd e) = Some packet"
    using assms(3) by (auto simp: well_formed_send_def)
  have "packet_loaded env opts st e"
    using load_packets_loaded [OF assms(1) e(1)] assms(2) by (simp add: distinct_packets_def)
  then have k: "\<exists>k. ps_identity_map st (act_packet_identifier a) = Some k \<and> ps_packet_data st ! k = packet"
    using e by (auto simp: packet_loaded_def)
  have "build_payload a packet = Inr (send_descriptor a packet, send_steps a)"
    using build_payload_layout [of packet a] assms(3)
    by (simp add: well_formed_send_def send_descriptor_def send_steps_def)
  then show ?thesis
    using plan_send_Inr [OF assms(4)] k by (metis Pair_inject option.inject sum.inject(2))
qed

text \<open>What holds of the payloads of well-formed SENDs holds of all payloads of the plan.\<close>

lemma plan_actions_all:
  assumes "load_packets env opts ok (st_packet_identifiers (ds_settings script)) = Inr st"
    and "well_formed_sends env opts script"
    and "foldE (plan_action uninit st) (or_actions (ds_orchestrator script)) empty_plan_builder = Inr pb"
    and P: "\<And>a packet. well_formed_send env opts script a packet \<Longrightarrow> P (send_steps a) (send_descriptor a packet)"
  shows "list_all2 P (pb_counter_steps pb) (pb_payloads pb)"
  using assms(3)
proof (rule foldE_invariant [where P = "\<lambda>pb. list_all2 P (pb_counter_steps pb) (pb_payloads pb)"])
  show "list_all2 P (pb_counter_steps empty_plan_builder) (pb_payloads empty_plan_builder)"
    by (simp add: empty_plan_builder_def)
next
  fix a t t'
  assume a: "a \<in> set (or_actions (ds_orchestrator script))" and step: "plan_action uninit st a t = Inr t'"
    and t: "list_all2 P (pb_counter_steps t) (pb_payloads t)"
  show "list_all2 P (pb_counter_steps t') (pb_payloads t')"
  proof (cases "act_type a = SEND")
    case True
    then obtain packet where wf: "well_formed_send env opts script a packet"
      using assms(2) a by (auto simp: well_formed_sends_def)
    have "distinct_packets env opts script" using assms(2) by (simp add: well_formed_sends_def)
    note send = plan_send_well_formed [OF assms(1) this wf]
    have "list_all2 P (replicate n (send_steps a)) (replicate n (send_descriptor a packet))" for n
      using P [OF wf] by (induction n) simp_all
    then show ?thesis
      using step True t by (auto simp: plan_action_def bindE_Inr_iff Let_def intro!: list_all2_appendI dest!: send)
  next
    case False
    then show ?thesis using step t by (auto simp: plan_action_def Let_def)
  qed
qed

lemma fresh_manager_ok:
  assumes "list_all2 (\<lambda>steps d. fillable (length steps) d) steps payloads"
  shows "manager_ok (new_payload_manager payloads steps)"
  using assms by (auto simp: manager_ok_def new_payload_manager_def list_all2_conv_all_nth)

lemma planned_manager_ok:
  assumes "generate_plan_common env opts ok uninit script factory host = Inr plan"
    and "well_formed_sends env opts script"
  shows "manager_ok (new_payload_manager (pl_payloads plan) (pl_counter_steps plan))"
proof -
  obtain st pb where st: "load_packets env opts ok (st_packet_identifiers (ds_settings script)) = Inr st"
    and pb: "foldE (plan_action uninit st) (or_actions (ds_orchestrator script)) empty_plan_builder = Inr pb"
    and pl: "pl_payloads plan = pb_payloads pb" "pl_counter_steps plan = pb_counter_steps pb"
    using plan_common_Inr [OF assms(1)] by metis
  show ?thesis
    unfolding pl by (intro fresh_manager_ok plan_actions_all [OF st assms(2) pb] send_descriptor_fillable)
qed

section \<open>Filling the payloads of a plan again and again\<close>

lemma fill_payload_shape:
  assumes "manager_ok m" "fill_payload clk index m payload = Some (b, m', p)"
  shows "manager_ok m' \<and> pm_payloads m' = pm_payloads m
     \<and> map length (pm_counters m') = map length (pm_counters m)"
proof (cases "index < length (pm_payloads m)")
  case True
  obtain q where "fill_payload clk index m payload = Some (True, m\<lparr>pm_counters := (pm_counters m)[index :=
      advance_first (counter_ops (pd_ops (pm_payloads m ! index))) (pm_counters m ! index)]\<rparr>, q)"
    using fill_payload_manager [OF assms(1) True] by metis
  moreover from this assms(2) have "m' = m\<lparr>pm_counters := (pm_counters m)[index :=
      advance_first (counter_ops (pd_ops (pm_payloads m ! index))) (pm_counters m ! index)]\<rparr>"
    by simp
  ultimately show ?thesis
    using manager_ok_advance [OF assms(1), of index] assms(1) True
    by (auto simp: manager_ok_def map_update intro!: list_update_same_conv [THEN iffD2])
next
  case False
  then show ?thesis using assms by (simp add: fill_payload_False)
qed

lemma fill_run_shape:
  assumes "manager_ok m" "fill_run rs m = Some m'"
  shows "manager_ok m' \<and> pm_payloads m' = pm_payloads m
     \<and> map length (pm_counters m') = map length (pm_counters m)"
  using assms
proof (induction rs arbitrary: m)
  case (Cons r rs)
  then obtain clk index payload b m1 p where "r = (clk, index, payload)"
    "fill_payload clk index m payload = Some (b, m1, p)" "fill_run rs m1 = Some m'"
    by (cases r) (auto split: option.splits)
  then show ?case using Cons.IH [of m1] fill_payload_shape [OF Cons.prems(1)] by metis
qed simp

lemma fill_run_returns: "manager_ok m \<Longrightarrow> \<exists>m'. fill_run rs m = Some m'"
proof (induction rs arbitrary: m)
  case (Cons r rs)
  obtain clk index payload where r: "r = (clk, index, payload)" by (cases r)
  obtain b m1 p where f: "fill_payload clk index m payload = Some (b, m1, p)"
    using fill_payload_manager [OF Cons.prems, of index] fill_payload_False [of m index] not_le by metis
  then show ?case
    using Cons.IH fill_payload_shape [OF Cons.prems f] by (simp add: r)
qed simp

lemma counter_fields_append: "counter_fields (fs @ gs) = counter_fields fs @ counter_fields gs"
  by (simp add: counter_fields_def)

text \<open>The manager of a plan at the payload of one copy of a SEND.\<close>

lemma planned_payload:
  assumes "generate_plan_common env opts ok uninit script factory host = Inr plan"
    and "or_actions (ds_orchestrator script) = pre @ a # post" "act_type a = SEND" "c < unat (act_count a)"
    and "distinct_packets env opts script" "well_formed_send env opts script a packet"
  defines "m \<equiv> new_payload_manager (pl_payloads plan) (pl_counter_steps plan)"
  shows "send_copies pre + c < length (pm_payloads m)"
    and "pm_payloads m ! (send_copies pre + c) = send_descriptor a packet"
    and "pm_counters m ! (send_copies pre + c) = fresh_counters (send_steps a)"
proof -
  let ?i = "send_copies pre + c"
  obtain st pb where st: "load_packets env opts ok (st_packet_identifiers (ds_settings script)) = Inr st"
    and pb: "foldE (plan_action uninit st) (pre @ a # post) empty_plan_builder = Inr pb"
    and pl: "pl_payloads plan = pb_payloads pb" "pl_counter_steps plan = pb_counter_steps pb"
    using plan_common_Inr [OF assms(1)] assms(2) by metis
  obtain pb1 pb2 where pb1: "foldE (plan_action uninit st) pre empty_plan_builder = Inr pb1"
    and pb2: "plan_action uninit st a pb1 = Inr pb2" and post: "foldE (plan_action uninit st) post pb2 = Inr pb"
    using pb by (auto simp: foldE_append bindE_Inr_iff)
  have len: "length (pb_payloads pb1) = send_copies pre" "length (pb_counter_steps pb1) = send_copies pre"
    using plan_actions_ok [OF pb1] by (simp_all add: builder_ok_def)
  have "pb_payloads pb2 = pb_payloads pb1 @ replicate (unat (act_count a)) (send_descriptor a packet)"
    "pb_counter_steps pb2 = pb_counter_steps pb1 @ replicate (unat (act_count a)) (send_steps a)"
    using pb2 assms(3) by (auto simp: plan_action_def bindE_Inr_iff Let_def
        dest!: plan_send_well_formed [OF st assms(5,6)])
  then have at: "?i < length (pb_payloads pb)" "pb_payloads pb ! ?i = send_descriptor a packet"
    "pb_counter_steps pb ! ?i = send_steps a" "length (pb_payloads pb) \<le> length (pb_counter_steps pb)"
    using plan_actions_extend [OF post] len assms(4) plan_actions_ok [OF pb]
    by (auto simp: nth_append builder_ok_def)
  show "?i < length (pm_payloads m)" "pm_payloads m ! ?i = send_descriptor a packet"
    "pm_counters m ! ?i = fresh_counters (send_steps a)"
    using new_payload_manager_counters [OF at(4)] at by (simp_all add: m_def pl)
qed

lemma planned_fill_counters:
  assumes plan: "generate_plan_common env opts ok uninit script factory host = Inr plan"
    and act: "or_actions (ds_orchestrator script) = pre @ a # post" "act_type a = SEND" "c < unat (act_count a)"
    and wf: "well_formed_sends env opts script" "well_formed_send env opts script a packet"
    and run: "fill_run rs (new_payload_manager (pl_payloads plan) (pl_counter_steps plan)) = Some m"
  defines "i \<equiv> send_copies pre + c"
  shows "\<exists>m' p cs. fill_payload clk i m payload = Some (True, m', p)
     \<and> gather packet p = Some (patched clk 0 cs (send_fields a) packet)
     \<and> length cs = length (send_steps a)
     \<and> (\<forall>k < length (send_steps a).
          pc_counter (cs ! k) = of_nat (count_list (map (fst \<circ> snd) rs) i) * ucast (send_steps a ! k))"
proof -
  let ?m0 = "new_payload_manager (pl_payloads plan) (pl_counter_steps plan)"
  have d: "distinct_packets env opts script" using wf(1) by (simp add: well_formed_sends_def)
  note at = planned_payload [OF plan act d wf(2), folded i_def]
  have ok: "manager_ok ?m0" by (rule planned_manager_ok [OF plan wf(1)])
  have shape: "pm_payloads m = pm_payloads ?m0" "map length (pm_counters m) = map length (pm_counters ?m0)" "manager_ok m"
    using fill_run_shape [OF ok run] by simp_all
  have i: "i < length (pm_payloads m)" "i < length (pm_counters m)" "i < length (pm_counters ?m0)"
    using at(1) shape ok by (auto simp: manager_ok_def)
  have len: "length (pm_counters m ! i) = length (send_steps a)"
    using arg_cong [OF shape(2), of "\<lambda>l. l ! i"] i at(3) by (simp add: fresh_counters_def)
  have val: "pc_counter (pm_counters m ! i ! k) = of_nat (count_list (map (fst \<circ> snd) rs) i) * ucast (send_steps a ! k)"
    if k: "k < length (send_steps a)" for k
  proof -
    have "k < counter_ops (pd_ops (pm_payloads ?m0 ! i))"
      using k at(2) by (simp add: send_descriptor_def counter_ops_layout send_steps_def)
    then have "pm_counters m ! i ! k =
        (advance_counter ^^ count_list (map (fst \<circ> snd) rs) i) (pm_counters ?m0 ! i ! k)"
      using fill_run_counters [OF ok at(1), of k rs] run by auto
    then show ?thesis using k by (simp add: at(3) fresh_counters_def advance_counter_funpow)
  qed
  show ?thesis
    using layout_fill [of packet "send_fields a" i m clk payload] wf(2) i(1) at(2) shape(1) len val
    by (auto simp: well_formed_send_def send_descriptor_def send_steps_def)
qed

end
