(* ===== verification/Sample_Script.thy ===== *)
theory Sample_Script
  imports Plan_Run
begin

text \<open>
  A small script and the files it reads, for the concrete instances of the theorems: two
  packets, one session, one SEND of two copies with a counter and a timestamp field.
\<close>

definition sample_file :: "u8 list" where
  "sample_file = [10, 11, 12, 13, 14, 15, 16, 17, 18, 19]"

definition sample_os :: os where
  "sample_os =
     \<lparr>os_getenv = (\<lambda>_. None),
      os_canonical = (\<lambda>path. if path \<in> {''a.bin'', ''b.bin''} then Inr path else Inl ''no such file''),
      os_file_size = (\<lambda>path. if path = ''a.bin'' then Some 10 else if path = ''b.bin'' then Some 2 else None),
      os_contents = (\<lambda>path. if path = ''a.bin'' then Some sample_file
                             else if path = ''b.bin'' then Some [1, 2] else None),
      os_hardware_concurrency = 4\<rparr>"

definition sample_options :: resolver_options where
  "sample_options = \<lparr>expand_envs = False\<rparr>"

definition sample_settings :: settings_block where
  "sample_settings =
     (default_settings 0 0)\<lparr>st_identifier := ''s'', st_session_protocol := ''TCP'', st_packet_sample_rate := 100,
        st_shards := 1, st_port := 80, st_handler_value := ''NOP'', st_endpoints := [''localhost''],
        st_packet_identifiers := [(''p1'', ''a.bin''), (''p2'', ''b.bin'')]\<rparr>"

definition sample_range :: "u32 \<Rightarrow> u32 \<Rightarrow> range" where
  "sample_range a b = \<lparr>rng_start = a, rng_second = b\<rparr>"

definition sample_create :: action where
  "sample_create = (new_action CREATE 1)\<lparr>act_range := sample_range 0 1\<rparr>"

definition sample_connect :: action where
  "sample_connect = (new_action CONNECT 0)\<lparr>act_range := sample_range 0 1, act_offset_ms := 5\<rparr>"

definition sample_send :: action where
  "sample_send =
     push_timestamp \<lparr>tm_bytes = sample_range 6 1, tm_little_endian = True, tm_format_name = ''seconds''\<rparr>
       (push_counter \<lparr>cm_bytes = sample_range 2 2, cm_step = 3, cm_little_endian = True\<rparr>
          ((new_action SEND 2)\<lparr>act_range := sample_range 0 1, act_offset_ms := 7, act_packet_identifier := ''p1''\<rparr>))"

definition sample_script :: dsl_data where
  "sample_script =
     \<lparr>ds_settings = sample_settings,
      ds_orchestrator = \<lparr>or_settings_identifier = ''s'', or_actions = [sample_create, sample_connect, sample_send]\<rparr>\<rparr>"

lemmas sample_defs =
  sample_file_def sample_os_def sample_options_def sample_settings_def sample_range_def sample_create_def
  sample_connect_def sample_send_def sample_script_def new_action_def push_timestamp_def push_counter_def
  default_settings_def

definition sample_plan :: execution_plan where
  "sample_plan =
     (case generate_plan_common sample_os sample_options (\<lambda>_. True) 0 sample_script NOP_Factory (TCP_Hosts []) of
        Inr plan \<Rightarrow> plan
      | Inl e \<Rightarrow> \<lparr>pl_actions = [], pl_payloads = [], pl_counter_steps = [],
                  pl_config = \<lparr>oc_session_config = new_session_config 0 0 False False 0, oc_host_info = TCP_Hosts [],
                               oc_handler_factory = No_Factory, oc_shard_count = 0\<rparr>,
                  pl_packet_data = []\<rparr>)"

lemma sample_isl:
  "isl (generate_plan_common sample_os sample_options (\<lambda>_. True) 0 sample_script NOP_Factory (TCP_Hosts [])) = False"
  by code_simp

lemma sample_plan_generated:
  "generate_plan_common sample_os sample_options (\<lambda>_. True) 0 sample_script NOP_Factory (TCP_Hosts []) = Inr sample_plan"
  using sample_isl by (auto simp: sample_plan_def split: sum.splits)

lemma sample_verified:
  "isl (verify_script sample_os sample_options sample_script) = False"
  by code_simp

lemma sample_send_well_formed: "well_formed_send sample_os sample_options sample_script sample_send sample_file"
  by (simp add: well_formed_send_def sample_defs packet_of_def resolve_file_def expand_tilde_def get_file_size_def
      read_bytes_def mods_accounted_def send_fields_def ts_format_lookup_def field_start_def field_end_def
      field_len_def)

lemma sample_distinct: "distinct_packets sample_os sample_options sample_script"
  by (simp add: distinct_packets_def sample_defs resolve_file_def expand_tilde_def)

lemma sample_actions: "or_actions (ds_orchestrator sample_script) = [sample_create, sample_connect] @ sample_send # []"
  by (simp add: sample_script_def)

lemma sample_only_send:
  "or_actions (ds_orchestrator sample_script) = pre @ a # post \<Longrightarrow> act_type a = SEND \<Longrightarrow> a = sample_send"
  by (auto simp: sample_actions Cons_eq_append_conv sample_defs)

lemma sample_send_type [simp]: "act_type sample_send = SEND" "unat (act_count sample_send) = 2"
  by (simp_all add: sample_defs)

lemma sample_types [simp]: "act_type sample_create = CREATE" "act_type sample_connect = CONNECT"
  by (simp_all add: sample_defs)

lemma sample_send_steps [simp]: "send_steps sample_send = [3]"
  by (simp add: send_steps_def send_fields_def sample_defs)

lemma sample_well_formed: "well_formed_sends sample_os sample_options sample_script"
proof -
  have "act_type a = SEND \<longrightarrow> a = sample_send" if "a \<in> set (or_actions (ds_orchestrator sample_script))" for a
    using that by (auto simp: sample_script_def)
  then show ?thesis using sample_send_well_formed sample_distinct by (auto simp: well_formed_sends_def)
qed

end
