(* ===== verification/Script_Print.thy ===== *)
theory Script_Print
  imports Parser
begin

text \<open>
  A printer from \<^verbatim>\<open>DSLData\<close> to tokens, the inverse of the parser on the scripts that have a
  concrete syntax (\<open>printable_script\<close>). It is the reference against which the parser's
  behaviour is stated: reading a printed script gives the script back.
\<close>

section \<open>The printer\<close>

type_synonym ptoken = "token_type \<times> string"

definition print_num :: "u32 \<Rightarrow> ptoken" where
  "print_num w = (Value, to_string (unat w))"

definition print_bool :: "bool \<Rightarrow> ptoken" where
  "print_bool b = (Value, if b then ''true'' else ''false'')"

definition print_assign :: "string \<Rightarrow> ptoken \<Rightarrow> ptoken list" where
  "print_assign kw v = [(Keyword, kw), (Operator, ''=''), v]"

definition print_packet :: "string \<times> string \<Rightarrow> ptoken list" where
  "print_packet = (\<lambda>(k, v). [(Identity, k), (Operator, '':''), (Value, v), (Operator, '','')])"

definition print_scalars :: "settings_block \<Rightarrow> ptoken list" where
  "print_scalars s =
     print_assign ''SESSION'' (Value, st_session_protocol s)
     @ print_assign ''PORT'' (Value, to_string (unat (st_port s)))
     @ print_assign ''HEADERSIZE'' (print_num (st_header_size s))
     @ print_assign ''BODYMAX'' (print_num (st_body_max s))
     @ print_assign ''READ'' (print_bool (st_read s))
     @ print_assign ''REPEAT'' (print_bool (st_repeat s))
     @ print_assign ''SAMPLERATE'' (print_num (st_packet_sample_rate s))
     @ print_assign ''SHARDS'' (print_num (st_shards s))
     @ print_assign ''HANDLER'' (Value, st_handler_value s)"

definition print_settings :: "settings_block \<Rightarrow> ptoken list" where
  "print_settings s =
     [(Keyword, ''SETTINGS''), (Identity, st_identifier s), (BraceOpen, ''{'')]
     @ print_scalars s
     @ [(Keyword, ''ENDPOINTS''), (BraceOpen, ''{'')]
     @ concat (map (\<lambda>e. [(Value, e), (Operator, '','')]) (st_endpoints s))
     @ [(BraceClosed, ''}''), (Keyword, ''PACKETS''), (BraceOpen, ''{'')]
     @ concat (map print_packet (st_packet_identifiers s))
     @ [(BraceClosed, ''}''), (BraceClosed, ''}'')]"

definition print_range :: "range \<Rightarrow> ptoken list" where
  "print_range r = [print_num (rng_start r), (Operator, '':''), print_num (rng_second r)]"

definition print_endian :: "bool \<Rightarrow> ptoken" where
  "print_endian le = (Value, if le then ''little'' else ''big'')"

definition print_timestamp :: "timestamp_modification \<Rightarrow> ptoken list" where
  "print_timestamp m =
     (Keyword, ''TIMESTAMP'') # print_range (tm_bytes m)
     @ [print_endian (tm_little_endian m), (Operator, '':''), (Value, tm_format_name m)]"

definition print_counter :: "counter_modification \<Rightarrow> ptoken list" where
  "print_counter m =
     (Keyword, ''COUNTER'') # print_range (cm_bytes m)
     @ [print_endian (cm_little_endian m), (Operator, '':''), print_num (cm_step m)]"

fun print_mods ::
  "modification_type list \<Rightarrow> timestamp_modification list \<Rightarrow> counter_modification list \<Rightarrow> ptoken list" where
  "print_mods (Mod_Timestamp # ms) (t # ts) cs = print_timestamp t @ print_mods ms ts cs"
| "print_mods (Mod_Counter # ms) ts (c # cs) = print_counter c @ print_mods ms ts cs"
| "print_mods _ _ _ = []"

fun action_keyword :: "action_type \<Rightarrow> string" where
  "action_keyword CREATE = ''CREATE''"
| "action_keyword CONNECT = ''CONNECT''"
| "action_keyword SEND = ''SEND''"
| "action_keyword FLOOD = ''FLOOD''"
| "action_keyword DRAIN = ''DRAIN''"
| "action_keyword DISCONNECT = ''DISCONNECT''"

definition print_offset :: "action \<Rightarrow> ptoken list" where
  "print_offset a = [(Keyword, ''OFFSET''), (Value, to_string (unat (act_offset_ms a)) @ ''ms'')]"

definition print_action :: "action \<Rightarrow> ptoken list" where
  "print_action a =
     (Keyword, action_keyword (act_type a))
     # (if act_type a = CREATE then [print_num (act_count a)] else print_range (act_range a))
     @ (if act_type a = SEND
        then [(Identity, act_packet_identifier a), (Keyword, ''COPIES''), print_num (act_count a)]
             @ print_mods (act_mod_order a) (act_timestamp_mods a) (act_counter_mods a)
        else [])
     @ print_offset a"

definition print_orchestrator :: "orchestrator_block \<Rightarrow> ptoken list" where
  "print_orchestrator orch =
     [(Keyword, ''ORCHESTRATOR''), (Identity, or_settings_identifier orch), (BraceOpen, ''{'')]
     @ concat (map print_action (or_actions orch)) @ [(BraceClosed, ''}'')]"

definition print_script :: "dsl_data \<Rightarrow> ptoken list" where
  "print_script d = print_settings (ds_settings d) @ print_orchestrator (ds_orchestrator d)"

section \<open>Scripts that have a concrete syntax\<close>

text \<open>Numbers are read with \<^verbatim>\<open>std::stoi\<close>, so they have to be \<^verbatim>\<open>int\<close> values.\<close>

definition small :: "u32 \<Rightarrow> bool" where
  "small w \<longleftrightarrow> unat w < 2 ^ 31"

definition small_range :: "range \<Rightarrow> bool" where
  "small_range r \<longleftrightarrow> small (rng_start r) \<and> small (rng_second r)"

definition printable_settings :: "settings_block \<Rightarrow> bool" where
  "printable_settings s \<longleftrightarrow>
     small (st_header_size s) \<and> small (st_body_max s) \<and> small (st_packet_sample_rate s)
     \<and> small (st_shards s) \<and> distinct (map fst (st_packet_identifiers s))"

definition printable_action :: "u32 \<Rightarrow> action \<Rightarrow> bool" where
  "printable_action uninit a \<longleftrightarrow>
     small (act_offset_ms a) \<and> small_range (act_range a)
     \<and> (if act_type a = SEND then
          small (act_count a) \<and> mods_accounted a
          \<and> list_all (\<lambda>m. small_range (tm_bytes m) \<and> tm_format_name m \<in> set VALID_TIME_FORMATS) (act_timestamp_mods a)
          \<and> list_all (\<lambda>m. small_range (cm_bytes m) \<and> small (cm_step m)) (act_counter_mods a)
        else
          act_packet_identifier a = [] \<and> act_timestamp_mods a = [] \<and> act_counter_mods a = []
          \<and> act_mod_order a = []
          \<and> (if act_type a = CREATE then act_range a = \<lparr>rng_start = 0, rng_second = act_count a\<rparr>
             else act_count a = uninit))"

definition printable_script :: "u32 \<Rightarrow> dsl_data \<Rightarrow> bool" where
  "printable_script uninit d \<longleftrightarrow>
     printable_settings (ds_settings d)
     \<and> list_all (printable_action uninit) (or_actions (ds_orchestrator d))"

text \<open>The texts in a script can be spelled: identifiers are identifiers and no value holds a backslash.\<close>

definition spellable_script :: "dsl_data \<Rightarrow> bool" where
  "spellable_script d \<longleftrightarrow> list_all printable_token (print_script d)"

section \<open>Reading back the parts\<close>

lemma map_token_core_Cons:
  "map token_core us = (ty, tx) # cs \<longleftrightarrow>
     (\<exists>t us'. us = t # us' \<and> tok_type t = ty \<and> tok_text t = tx \<and> map token_core us' = cs)"
  by (cases us) (auto simp: token_core_def)

lemma map_token_core_append:
  "map token_core us = cs @ ds \<longleftrightarrow>
     (\<exists>vs ws. us = vs @ ws \<and> map token_core vs = cs \<and> map token_core ws = ds)"
  by (auto simp: map_eq_append_conv)

lemma try_convert_int_num:
  "tok_text t = to_string (unat w) \<Longrightarrow> small w \<Longrightarrow> try_convert_int t kw = Inr w"
  by (simp add: try_convert_int_def small_def stoi_to_string)

lemma try_convert_int_small: "try_convert_int t kw = Inr w \<Longrightarrow> small w"
  by (auto simp: try_convert_int_def small_def unat_of_int_nonneg dest!: stoi_bounds
      split: option.splits if_splits)

lemmas parser_step =
  expect_operator_def expect_def is_expected_def end_of_tokens_def peek_token_def consume_def

lemma try_parse_range_print:
  assumes "map token_core us = print_range r" "small_range r"
  shows "\<exists>t us'. us = t # us' \<and> tok_type t = Value \<and> try_parse_range t kw (us' @ rest) = Inr (r, rest)"
proof -
  from assms(1) obtain a b c where us: "us = [a, b, c]" "tok_type a = Value"
    "tok_text a = to_string (unat (rng_start r))" "tok_type b = Operator" "tok_text b = '':''"
    "tok_type c = Value" "tok_text c = to_string (unat (rng_second r))"
    by (auto simp: print_range_def print_num_def map_token_core_Cons)
  with assms(2) have "try_parse_range a kw ([b, c] @ rest) = Inr (r, rest)"
    by (cases r) (auto simp: small_range_def try_parse_range_def parser_step try_convert_int_num)
  with us show ?thesis by auto
qed

lemma try_parse_time_print:
  assumes "tok_text t = to_string (unat w) @ ''ms''" "small w"
  shows "try_parse_time t = Inr w"
proof -
  have "stoi (to_string (unat w) @ ''m'') = Some (int (unat w))"
    using assms(2) by (intro stoi_to_string_append) (auto simp: small_def isdigit_def char_code_def)
  then show ?thesis
    using assms(1) by (simp add: try_parse_time_def ends_with_def butlast_append)
qed

lemma parse_option_tokens_print:
  assumes "map token_core us = print_range r @ [(Value, x), (Operator, '':''), (Value, y)]" "small_range r"
  shows "\<exists>t u. tok_text t = x \<and> tok_text u = y \<and> parse_option_tokens (us @ rest) = Inr (r, t, u, rest)"
proof -
  from assms(1) obtain vs ws where us: "us = vs @ ws" "map token_core vs = print_range r"
    "map token_core ws = [(Value, x), (Operator, '':''), (Value, y)]"
    by (auto simp: map_token_core_append)
  from us(3) obtain a b c where ws: "ws = [a, b, c]" "tok_type a = Value" "tok_text a = x"
    "tok_type b = Operator" "tok_text b = '':''" "tok_type c = Value" "tok_text c = y"
    by (auto simp: map_token_core_Cons)
  from try_parse_range_print [OF us(2) assms(2), of "''TIMESTAMP''" "ws @ rest"]
  obtain t vs' where "vs = t # vs'" "tok_type t = Value"
    "try_parse_range t ''TIMESTAMP'' (vs' @ ws @ rest) = Inr (r, ws @ rest)" by auto
  then show ?thesis using us(1) ws
    by (auto simp: parse_option_tokens_def parser_step)
qed

lemma parse_endian_print: "tok_text t = snd (print_endian le) \<Longrightarrow> parse_endian t = Inr le"
  by (auto simp: parse_endian_def print_endian_def)

lemma try_parse_timestamp_print:
  assumes "map token_core us = tl (print_timestamp m)" "small_range (tm_bytes m)"
    "tm_format_name m \<in> set VALID_TIME_FORMATS"
  shows "try_parse_timestamp_option a (us @ rest) = Inr (push_timestamp m a, rest)"
proof -
  from parse_option_tokens_print [of us "tm_bytes m" _ _ rest] assms(1,2)
  obtain t u where "tok_text t = snd (print_endian (tm_little_endian m))" "tok_text u = tm_format_name m"
    "parse_option_tokens (us @ rest) = Inr (tm_bytes m, t, u, rest)"
    by (fastforce simp: print_timestamp_def print_endian_def)
  with assms(3) show ?thesis
    by (cases m) (auto simp: try_parse_timestamp_option_def parse_endian_print VALID_TIME_FORMATS_def)
qed

lemma try_parse_counter_print:
  assumes "map token_core us = tl (print_counter m)" "small_range (cm_bytes m)" "small (cm_step m)"
  shows "try_parse_counter_option a (us @ rest) = Inr (push_counter m a, rest)"
proof -
  from parse_option_tokens_print [of us "cm_bytes m" _ _ rest] assms(1,2)
  obtain t u where "tok_text t = snd (print_endian (cm_little_endian m))"
    "tok_text u = to_string (unat (cm_step m))"
    "parse_option_tokens (us @ rest) = Inr (cm_bytes m, t, u, rest)"
    by (fastforce simp: print_counter_def print_endian_def print_num_def)
  with assms(3) show ?thesis
    by (cases m) (auto simp: try_parse_counter_option_def parse_endian_print try_convert_int_num)
qed

lemma parse_send_options_print:
  assumes "map token_core us = print_mods ms ts cs"
    and "length ts = count_list ms Mod_Timestamp" "length cs = count_list ms Mod_Counter"
    and "list_all (\<lambda>m. small_range (tm_bytes m) \<and> tm_format_name m \<in> set VALID_TIME_FORMATS) ts"
    and "list_all (\<lambda>m. small_range (cm_bytes m) \<and> small (cm_step m)) cs"
    and "tok_text (peek_token rest) = ''OFFSET''"
  shows "parse_send_options a (us @ rest) =
    Inr (a\<lparr>act_timestamp_mods := act_timestamp_mods a @ ts, act_counter_mods := act_counter_mods a @ cs,
           act_mod_order := act_mod_order a @ ms\<rparr>, rest)"
  using assms
proof (induction ms ts cs arbitrary: us a rule: print_mods.induct)
  case (1 ms t ts cs)
  have "print_mods (Mod_Timestamp # ms) (t # ts) cs = (Keyword, ''TIMESTAMP'') # tl (print_timestamp t) @ print_mods ms ts cs"
    by (simp add: print_timestamp_def)
  with "1.prems"(1) obtain k vs ws where us: "us = k # vs @ ws" "tok_type k = Keyword"
    "tok_text k = ''TIMESTAMP''" "map token_core vs = tl (print_timestamp t)"
    "map token_core ws = print_mods ms ts cs"
    by (auto simp: map_token_core_Cons map_token_core_append simp del: print_mods.simps)
  have "try_parse_timestamp_option a (vs @ ws @ rest) = Inr (push_timestamp t a, ws @ rest)"
    using us(4) "1.prems"(4) by (intro try_parse_timestamp_print) auto
  then have "parse_send_options a (us @ rest) = parse_send_options (push_timestamp t a) (ws @ rest)"
    using us by (simp add: parse_send_options.simps [of a] parser_step)
  also have "\<dots> = Inr ((push_timestamp t a)\<lparr>act_timestamp_mods := act_timestamp_mods (push_timestamp t a) @ ts,
      act_counter_mods := act_counter_mods (push_timestamp t a) @ cs,
      act_mod_order := act_mod_order (push_timestamp t a) @ ms\<rparr>, rest)"
    using "1.prems" us(5) by (intro "1.IH") auto
  finally show ?case by (simp add: push_timestamp_def)
next
  case (2 ms ts c cs)
  have "print_mods (Mod_Counter # ms) ts (c # cs) = (Keyword, ''COUNTER'') # tl (print_counter c) @ print_mods ms ts cs"
    by (simp add: print_counter_def)
  with "2.prems"(1) obtain k vs ws where us: "us = k # vs @ ws" "tok_type k = Keyword"
    "tok_text k = ''COUNTER''" "map token_core vs = tl (print_counter c)"
    "map token_core ws = print_mods ms ts cs"
    by (auto simp: map_token_core_Cons map_token_core_append simp del: print_mods.simps)
  have "try_parse_counter_option a (vs @ ws @ rest) = Inr (push_counter c a, ws @ rest)"
    using us(4) "2.prems"(5) by (intro try_parse_counter_print) auto
  then have "parse_send_options a (us @ rest) = parse_send_options (push_counter c a) (ws @ rest)"
    using us by (simp add: parse_send_options.simps [of a] parser_step)
  also have "\<dots> = Inr ((push_counter c a)\<lparr>act_timestamp_mods := act_timestamp_mods (push_counter c a) @ ts,
      act_counter_mods := act_counter_mods (push_counter c a) @ cs,
      act_mod_order := act_mod_order (push_counter c a) @ ms\<rparr>, rest)"
    using "2.prems" us(5) by (intro "2.IH") auto
  finally show ?case by (simp add: push_counter_def)
qed (auto simp: parse_send_options.simps [of _ rest] dest: mod_order_Nil)

lemma parse_offset_print:
  assumes "map token_core us = print_offset a" "small (act_offset_ms a)"
  shows "parse_offset b (us @ rest) = Inr (b\<lparr>act_offset_ms := act_offset_ms a\<rparr>, rest)"
  using assms
  by (auto simp: print_offset_def map_token_core_Cons parse_offset_def parser_step try_parse_time_print)

lemma print_offset_peek:
  "map token_core us = print_offset a \<Longrightarrow> tok_text (peek_token (us @ rest)) = ''OFFSET''"
  by (auto simp: print_offset_def map_token_core_Cons parser_step)

lemma parse_action_print_ranged:
  assumes "map token_core us = print_action a" "printable_action uninit a"
    and "act_type a \<notin> {CREATE, SEND}"
  shows "parse_action uninit (us @ rest) = Inr (a, rest)"
proof -
  from assms(1,3) obtain k vs ws where us: "us = k # vs @ ws" "tok_type k = Keyword"
    "tok_text k = action_keyword (act_type a)" "map token_core vs = print_range (act_range a)"
    "map token_core ws = print_offset a"
    by (auto simp: print_action_def map_token_core_Cons map_token_core_append)
  have sm: "small (act_offset_ms a)" "small_range (act_range a)"
    using assms(2) by (auto simp: printable_action_def)
  from try_parse_range_print [OF us(4) sm(2), of "tok_text k" "ws @ rest"] obtain t vs' where
    t: "vs = t # vs'" "tok_type t = Value"
    "try_parse_range t (tok_text k) (vs' @ ws @ rest) = Inr (act_range a, ws @ rest)" by blast
  then have "parse_action uninit (us @ rest) =
      parse_offset ((new_action (act_type a) uninit)\<lparr>act_range := act_range a\<rparr>) (ws @ rest)"
    using us(1-3) assms(3)
    by (cases "act_type a") (auto simp: parse_action_def parse_ranged_def parser_step)
  also have "\<dots> = Inr (a, rest)"
    using assms(2,3) parse_offset_print [OF us(5) sm(1)]
    by (cases a) (auto simp: printable_action_def new_action_def)
  finally show ?thesis .
qed

lemma parse_action_print_create:
  assumes "map token_core us = print_action a" "printable_action uninit a" "act_type a = CREATE"
  shows "parse_action uninit (us @ rest) = Inr (a, rest)"
proof -
  from assms(1,3) obtain k v ws where us: "us = k # v # ws" "tok_type k = Keyword"
    "tok_text k = ''CREATE''" "tok_type v = Value" "tok_text v = to_string (unat (act_count a))"
    "map token_core ws = print_offset a"
    by (auto simp: print_action_def print_num_def map_token_core_Cons map_token_core_append)
  have sm: "small (act_offset_ms a)" "small (act_count a)"
    using assms(2,3) by (auto simp: printable_action_def small_range_def split: if_splits)
  have "parse_action uninit (us @ rest) =
      parse_offset ((new_action CREATE (act_count a))\<lparr>act_range := act_range a\<rparr>) (ws @ rest)"
    using us assms(2,3) sm
    by (auto simp: parse_action_def parser_step try_convert_int_num printable_action_def)
  also have "\<dots> = Inr (a, rest)"
    using assms(2,3) parse_offset_print [OF us(6) sm(1)]
    by (cases a) (auto simp: printable_action_def new_action_def)
  finally show ?thesis .
qed

lemma parse_action_print_send:
  assumes "map token_core us = print_action a" "printable_action uninit a" "act_type a = SEND"
  shows "parse_action uninit (us @ rest) = Inr (a, rest)"
proof -
  from assms(1,3) obtain k vs p c n ms ws where us: "us = k # vs @ [p, c, n] @ ms @ ws"
    "tok_type k = Keyword" "tok_text k = ''SEND''" "map token_core vs = print_range (act_range a)"
    "tok_type p = Identity" "tok_text p = act_packet_identifier a"
    "tok_type c = Keyword" "tok_text c = ''COPIES''"
    "tok_type n = Value" "tok_text n = to_string (unat (act_count a))"
    "map token_core ms = print_mods (act_mod_order a) (act_timestamp_mods a) (act_counter_mods a)"
    "map token_core ws = print_offset a"
    by (fastforce simp: print_action_def print_num_def map_token_core_Cons map_token_core_append)
  have sm: "small (act_offset_ms a)" "small_range (act_range a)" "small (act_count a)" "mods_accounted a"
    using assms(2,3) by (auto simp: printable_action_def)
  let ?b = "(new_action SEND uninit)\<lparr>act_range := act_range a,
      act_packet_identifier := act_packet_identifier a, act_count := act_count a\<rparr>"
  from try_parse_range_print [OF us(4) sm(2), of "tok_text k" "[p, c, n] @ ms @ ws @ rest"]
  obtain t vs' where t: "vs = t # vs'" "tok_type t = Value"
    "try_parse_range t (tok_text k) (vs' @ [p, c, n] @ ms @ ws @ rest)
       = Inr (act_range a, [p, c, n] @ ms @ ws @ rest)" by blast
  have opts: "parse_send_options ?b (ms @ ws @ rest) =
      Inr (?b\<lparr>act_timestamp_mods := act_timestamp_mods a, act_counter_mods := act_counter_mods a,
             act_mod_order := act_mod_order a\<rparr>, ws @ rest)"
    using parse_send_options_print [OF us(11), of "ws @ rest" ?b] assms(2,3) sm(4)
      print_offset_peek [OF us(12)]
    by (simp add: printable_action_def mods_accounted_def new_action_def)
  have "parse_action uninit (us @ rest) = parse_offset
      (?b\<lparr>act_timestamp_mods := act_timestamp_mods a, act_counter_mods := act_counter_mods a,
          act_mod_order := act_mod_order a\<rparr>) (ws @ rest)"
    using us(1-10) t sm(3) opts
    by (simp add: parse_action_def parse_send_def parser_step try_convert_int_num)
  also have "\<dots> = Inr (a, rest)"
    using assms(3) parse_offset_print [OF us(12) sm(1)] by (cases a) (simp add: new_action_def)
  finally show ?thesis .
qed

lemma parse_action_print:
  assumes "map token_core us = print_action a" "printable_action uninit a"
  shows "parse_action uninit (us @ rest) = Inr (a, rest)"
  using parse_action_print_send [OF assms] parse_action_print_create [OF assms]
    parse_action_print_ranged [OF assms] by blast

lemma print_action_start: "\<exists>k cs. print_action a = (Keyword, k) # cs"
  by (simp add: print_action_def)

lemma parse_actions_print:
  assumes "map token_core us = concat (map print_action as)" "list_all (printable_action uninit) as"
    and "tok_type b = BraceClosed"
  shows "parse_actions uninit orch (us @ b # rest) =
     Inr (orch\<lparr>or_actions := or_actions orch @ as\<rparr>, b # rest)"
  using assms
proof (induction as arbitrary: us orch)
  case Nil
  then show ?case by (simp add: parse_actions.simps [of uninit orch] parser_step)
next
  case (Cons a as)
  from Cons.prems(1) obtain vs ws where us: "us = vs @ ws" "map token_core vs = print_action a"
    "map token_core ws = concat (map print_action as)"
    by (auto simp: map_token_core_append)
  have "\<not> is_expected BraceClosed (us @ b # rest)"
    using us print_action_start [of a] by (auto simp: map_token_core_Cons parser_step)
  then have "parse_actions uninit orch (us @ b # rest) =
      parse_actions uninit (orch\<lparr>or_actions := or_actions orch @ [a]\<rparr>) (ws @ b # rest)"
    using parse_action_print [OF us(2), of uninit "ws @ b # rest"] Cons.prems(2) us(1)
    by (simp add: parse_actions.simps [of uninit orch])
  also have "\<dots> = Inr ((orch\<lparr>or_actions := or_actions orch @ [a]\<rparr>)
      \<lparr>or_actions := or_actions (orch\<lparr>or_actions := or_actions orch @ [a]\<rparr>) @ as\<rparr>, b # rest)"
    using Cons.prems us(3) by (intro Cons.IH) auto
  finally show ?case by simp
qed

lemma parse_orchestrator_print:
  assumes "map token_core us = print_orchestrator orch" "list_all (printable_action uninit) (or_actions orch)"
    and "or_actions orch0 = []"
  shows "parse_orchestrator uninit orch0 (us @ rest) = Inr (orch, rest)"
proof -
  from assms(1) obtain k n b vs c where us: "us = k # n # b # vs @ [c]" "tok_type n = Identity"
    "tok_text n = or_settings_identifier orch" "tok_type b = BraceOpen" "tok_type c = BraceClosed"
    "map token_core vs = concat (map print_action (or_actions orch))"
    by (fastforce simp: print_orchestrator_def map_token_core_Cons map_token_core_append)
  with parse_actions_print [OF us(6) assms(2) us(5), of "orch0\<lparr>or_settings_identifier := tok_text n\<rparr>" rest]
  show ?thesis using assms(3)
    by (cases orch) (auto simp: parse_orchestrator_def parser_step)
qed

lemma parse_settings_body_assign:
  assumes "map token_core us = print_assign kw (Value, v)"
    and "\<And>k t. tok_text k = kw \<Longrightarrow> tok_text t = v \<Longrightarrow> assign_setting k t s = Inr s'"
  shows "parse_settings_body s (us @ rest) = parse_settings_body s' rest"
  using assms
  by (auto simp: print_assign_def map_token_core_Cons parse_settings_body.simps [of s]
      parse_setting_def parser_step)

lemma parse_endpoints_print:
  assumes "map token_core us = concat (map (\<lambda>e. [(Value, e), (Operator, '','')]) es)"
    and "tok_type b = BraceClosed"
  shows "parse_endpoints s (us @ b # rest) = Inr (s\<lparr>st_endpoints := st_endpoints s @ es\<rparr>, b # rest)"
  using assms
proof (induction es arbitrary: us s)
  case Nil
  then show ?case by (simp add: parse_endpoints.simps [of s] parser_step)
next
  case (Cons e es)
  from Cons.prems(1) obtain v c us' where us: "us = v # c # us'" "tok_type v = Value" "tok_text v = e"
    "tok_type c = Operator" "tok_text c = '',''"
    "map token_core us' = concat (map (\<lambda>e. [(Value, e), (Operator, '','')]) es)"
    by (auto simp: map_token_core_Cons)
  with Cons.IH [OF us(6) Cons.prems(2)] show ?case
    by (simp add: parse_endpoints.simps [of s] parser_step)
qed

lemma update_append_new: "k \<notin> fst ` set xs \<Longrightarrow> AList.update k v xs = xs @ [(k, v)]"
  by (induction xs) auto

lemma parse_packets_print:
  assumes "map token_core us = concat (map print_packet ps)" "tok_type b = BraceClosed"
    and "distinct (map fst (st_packet_identifiers s @ ps))"
  shows "parse_packets s (us @ b # rest) =
     Inr (s\<lparr>st_packet_identifiers := st_packet_identifiers s @ ps\<rparr>, b # rest)"
  using assms
proof (induction ps arbitrary: us s)
  case Nil
  then show ?case by (simp add: parse_packets.simps [of s] parser_step)
next
  case (Cons p ps)
  obtain k v where p: "p = (k, v)" by (cases p)
  with Cons.prems(1) obtain a c w d us' where us: "us = a # c # w # d # us'"
    "tok_type a = Identity" "tok_text a = k" "tok_type c = Operator" "tok_text c = '':''"
    "tok_type w = Value" "tok_text w = v" "tok_type d = Operator" "tok_text d = '',''"
    "map token_core us' = concat (map print_packet ps)"
    by (auto simp: print_packet_def map_token_core_Cons)
  let ?s = "s\<lparr>st_packet_identifiers := st_packet_identifiers s @ [(k, v)]\<rparr>"
  have "k \<notin> fst ` set (st_packet_identifiers s)" using Cons.prems(3) p by auto
  then have "parse_packets s (us @ b # rest) = parse_packets ?s (us' @ b # rest)"
    using us by (simp add: parse_packets.simps [of s] parser_step update_append_new)
  also have "\<dots> = Inr (?s\<lparr>st_packet_identifiers := st_packet_identifiers ?s @ ps\<rparr>, b # rest)"
    using Cons.prems us(10) p by (intro Cons.IH) auto
  finally show ?case by (simp add: p)
qed

lemma parse_settings_body_nested:
  assumes "parse_nested k s (us @ rest) = Inr (s', rest)" "tok_type k = Keyword" "tok_type b = BraceOpen"
  shows "parse_settings_body s (k # b # us @ rest) = parse_settings_body s' rest"
  using assms by (simp add: parse_settings_body.simps [of s] parse_setting_def parser_step)

lemma assign_port:
  "tok_text t = to_string (unat (p :: u16)) \<Longrightarrow> tok_text k = ''PORT'' \<Longrightarrow>
     assign_setting k t s = Inr (s\<lparr>st_port := p\<rparr>)"
proof -
  assume t: "tok_text t = to_string (unat p)" and k: "tok_text k = ''PORT''"
  have lt: "unat p < 65536" using unsigned_less [of p] by simp
  then have "unat (ucast p :: u32) = unat p" by (simp add: unsigned_ucast_eq take_bit_nat_eq_self)
  with t lt have "try_convert_int t ''PORT'' = Inr (ucast p)"
    by (intro try_convert_int_num) (auto simp: small_def)
  moreover have "\<not> (ucast p :: u32) > 65535" using lt \<open>unat (ucast p :: u32) = unat p\<close>
    by (simp add: word_less_nat_alt)
  moreover have "ucast (ucast p :: u32) = p" by (rule bit_word_eqI) (simp add: bit_simps)
  ultimately show ?thesis using k by (simp add: assign_setting_def)
qed

lemma parse_settings_body_assigns:
  assumes "map token_core us = concat (map (\<lambda>(kw, v, f). print_assign kw (Value, v)) as)"
    and "\<forall>(kw, v, f) \<in> set as. \<forall>k t s. tok_text k = kw \<longrightarrow> tok_text t = v \<longrightarrow> assign_setting k t s = Inr (f s)"
  shows "parse_settings_body s0 (us @ rest) = parse_settings_body (fold (\<lambda>(kw, v, f). f) as s0) rest"
  using assms
proof (induction as arbitrary: us s0)
  case (Cons a as)
  obtain kw v f where a: "a = (kw, v, f)" by (cases a)
  with Cons.prems(1) obtain vs ws where us: "us = vs @ ws" "map token_core vs = print_assign kw (Value, v)"
    "map token_core ws = concat (map (\<lambda>(kw, v, f). print_assign kw (Value, v)) as)"
    by (auto simp: map_token_core_append)
  have "parse_settings_body s0 (us @ rest) = parse_settings_body (f s0) (ws @ rest)"
    unfolding us(1) append_assoc using Cons.prems(2) a by (intro parse_settings_body_assign [OF us(2)]) auto
  with Cons.IH [OF us(3)] Cons.prems(2) a show ?case by simp
qed simp

text \<open>The settings block after its scalar fields have been read.\<close>

definition read_settings :: "settings_block \<Rightarrow> settings_block \<Rightarrow> settings_block" where
  "read_settings s0 s = s0\<lparr>st_session_protocol := st_session_protocol s, st_port := st_port s,
     st_header_size := st_header_size s, st_body_max := st_body_max s, st_read := st_read s,
     st_repeat := st_repeat s, st_packet_sample_rate := st_packet_sample_rate s,
     st_shards := st_shards s, st_handler_value := st_handler_value s\<rparr>"

lemma parse_settings_body_scalars:
  assumes "map token_core us = print_scalars s"
    and "printable_settings s"
  shows "parse_settings_body s0 (us @ rest) = parse_settings_body (read_settings s0 s) rest"
proof -
  let ?num = "\<lambda>kw upd w. (kw, to_string (unat (w :: u32)), upd (\<lambda>_. w))"
  let ?bool = "\<lambda>kw upd b. (kw, snd (print_bool b), upd (\<lambda>_. b))"
  define as :: "(string \<times> string \<times> (settings_block \<Rightarrow> settings_block)) list" where "as =
    [(''SESSION'', st_session_protocol s, st_session_protocol_update (\<lambda>_. st_session_protocol s)),
     (''PORT'', to_string (unat (st_port s)), st_port_update (\<lambda>_. st_port s)),
     ?num ''HEADERSIZE'' st_header_size_update (st_header_size s),
     ?num ''BODYMAX'' st_body_max_update (st_body_max s),
     ?bool ''READ'' st_read_update (st_read s),
     ?bool ''REPEAT'' st_repeat_update (st_repeat s),
     ?num ''SAMPLERATE'' st_packet_sample_rate_update (st_packet_sample_rate s),
     ?num ''SHARDS'' st_shards_update (st_shards s),
     (''HANDLER'', st_handler_value s, st_handler_value_update (\<lambda>_. st_handler_value s))]"
  have "map token_core us = concat (map (\<lambda>(kw, v, f). print_assign kw (Value, v)) as)"
    using assms(1) by (simp add: as_def print_scalars_def print_num_def print_bool_def)
  moreover have "\<forall>(kw, v, f) \<in> set as. \<forall>k t x. tok_text k = kw \<longrightarrow> tok_text t = v \<longrightarrow>
      assign_setting k t x = Inr (f x)"
    using assms(2)
    by (simp add: as_def assign_port) (simp add: assign_setting_def printable_settings_def
        try_convert_int_num print_bool_def parse_bool_def)
  ultimately have "parse_settings_body s0 (us @ rest) = parse_settings_body (fold (\<lambda>(kw, v, f). f) as s0) rest"
    by (rule parse_settings_body_assigns)
  then show ?thesis by (simp add: as_def read_settings_def)
qed

lemma parse_settings_print:
  assumes "map token_core us = print_settings s" "printable_settings s"
    and "st_endpoints s0 = []" "st_packet_identifiers s0 = []"
  shows "parse_settings s0 (us @ rest) = Inr (s, rest)"
proof -
  from assms(1) obtain k n b vs e eb es ec p pb ps pc c where us:
    "us = k # n # b # vs @ e # eb # es @ ec # p # pb # ps @ [pc, c]"
    "tok_type n = Identity" "tok_text n = st_identifier s" "tok_type b = BraceOpen"
    "tok_type e = Keyword" "tok_text e = ''ENDPOINTS''" "tok_type eb = BraceOpen" "tok_type ec = BraceClosed"
    "tok_type p = Keyword" "tok_text p = ''PACKETS''" "tok_type pb = BraceOpen" "tok_type pc = BraceClosed"
    "tok_type c = BraceClosed"
    "map token_core es = concat (map (\<lambda>e. [(Value, e), (Operator, '','')]) (st_endpoints s))"
    "map token_core ps = concat (map print_packet (st_packet_identifiers s))"
    and vs: "map token_core vs = print_scalars s"
    by (auto simp: print_settings_def map_token_core_Cons map_token_core_append)
  let ?s1 = "read_settings (s0\<lparr>st_identifier := st_identifier s\<rparr>) s"
  let ?s2 = "?s1\<lparr>st_endpoints := st_endpoints s\<rparr>"
  have "parse_nested e ?s1 (es @ ec # p # pb # ps @ [pc, c] @ rest) = Inr (?s2, p # pb # ps @ [pc, c] @ rest)"
    using us assms(3) parse_endpoints_print [OF us(14,8), of ?s1]
    by (simp add: parse_nested_def parser_step read_settings_def)
  moreover have "parse_nested p ?s2 (ps @ pc # c # rest) = Inr (s, c # rest)"
    using us assms(2-4) parse_packets_print [OF us(15,12), of ?s2]
    by (cases s) (simp add: parse_nested_def parser_step read_settings_def printable_settings_def)
  ultimately show ?thesis
    using us parse_settings_body_scalars [OF vs assms(2)]
      parse_settings_body_nested [of e ?s1 "es @ [ec]" "p # pb # ps @ [pc, c] @ rest" ?s2 eb]
      parse_settings_body_nested [of p ?s2 "ps @ [pc]" "c # rest" s pb]
    by (simp add: parse_settings_def parser_step parse_settings_body.simps [of s])
qed

text \<open>Reading a printed script gives the script back, whatever the initial settings held.\<close>

lemma parse_print_script:
  assumes "map token_core ts = print_script d" "printable_script uninit d"
  shows "parse uninit (default_dsl_data hs bm) ts = Inr d"
proof -
  let ?d0 = "default_dsl_data hs bm"
  from assms(1) obtain us vs where ts: "ts = us @ vs" "map token_core us = print_settings (ds_settings d)"
    "map token_core vs = print_orchestrator (ds_orchestrator d)"
    by (auto simp: print_script_def map_token_core_append)
  have sett: "parse_settings (ds_settings ?d0) (us @ vs) = Inr (ds_settings d, vs)"
    using ts assms(2) by (intro parse_settings_print) (auto simp: printable_script_def default_dsl_data_def default_settings_def)
  have orch: "parse_orchestrator uninit (ds_orchestrator ?d0) (vs @ []) = Inr (ds_orchestrator d, [])"
    using ts assms(2) by (intro parse_orchestrator_print) (auto simp: printable_script_def default_dsl_data_def)
  have "us \<noteq> []" "tok_text (peek_token (us @ vs)) = ''SETTINGS''"
    "vs \<noteq> []" "tok_text (peek_token vs) = ''ORCHESTRATOR''"
    using ts by (auto simp: print_settings_def print_orchestrator_def map_token_core_Cons peek_token_def)
  with ts sett orch show ?thesis
    by (cases d) (simp add: parse.simps [of uninit _ "us @ vs"] parse.simps [of uninit _ vs]
        parse.simps [of uninit _ "[]"] end_of_tokens_def default_dsl_data_def)
qed

end
