(* ===== verification/Schedule.thy ===== *)
theory Schedule
  imports Interpreter
begin

text \<open>
  What the validator promises about the order of actions. The specification is an abstract
  machine on sets of session indices: which sessions exist, which are scheduled as
  connected, which have been disconnected. The validator's flag vectors refine it.
\<close>

section \<open>The flag vectors as fields of the verifier\<close>

text \<open>
  The three loops that set flags differ in the field they work on. The contract of a field:
  reading it after writing it, and the last write wins.
\<close>

locale flag_field =
  fixes get :: "'v \<Rightarrow> bool list" and put :: "bool list \<Rightarrow> 'v \<Rightarrow> 'v"
  assumes get_put: "get (put xs v) = xs"
    and put_get: "put (get v) v = v"
    and put_put: "put xs (put ys v) = put xs v"
begin

definition set_flag_loop :: "bool \<Rightarrow> (nat \<Rightarrow> string) \<Rightarrow> nat list \<Rightarrow> 'v \<Rightarrow> 'v result" where
  "set_flag_loop b err js v =
     foldE (\<lambda>j v. if get v ! j = b then Inl (err j) else Inr (put ((get v)[j := b]) v)) js v"

definition flags_set :: "bool \<Rightarrow> nat list \<Rightarrow> bool list \<Rightarrow> bool list" where
  "flags_set b js xs = fold (\<lambda>j xs. xs[j := b]) js xs"

lemma length_flags_set [simp]: "length (flags_set b js xs) = length xs"
  by (induction js arbitrary: xs) (auto simp: flags_set_def)

lemma flags_set_Nil [simp]: "flags_set b [] xs = xs"
  by (simp add: flags_set_def)

lemma flags_set_Cons [simp]: "flags_set b (j # js) xs = flags_set b js (xs[j := b])"
  by (simp add: flags_set_def)

lemma nth_flags_set:
  "k < length xs \<Longrightarrow> flags_set b js xs ! k = (if k \<in> set js then b else xs ! k)"
  by (induction js arbitrary: xs) (auto simp: nth_list_update)

lemma set_flag_loop_iff:
  assumes "distinct js"
  shows "set_flag_loop b err js v = Inr v' \<longleftrightarrow>
     (\<forall>j \<in> set js. get v ! j \<noteq> b) \<and> v' = put (flags_set b js (get v)) v"
  using assms
proof (induction js arbitrary: v)
  case Nil
  then show ?case by (auto simp: set_flag_loop_def put_get)
next
  case (Cons j js)
  let ?v = "put ((get v)[j := b]) v"
  have "set_flag_loop b err (j # js) v =
      (if get v ! j = b then Inl (err j) else set_flag_loop b err js ?v)"
    by (simp add: set_flag_loop_def)
  moreover have "\<forall>k \<in> set js. (get v)[j := b] ! k = get v ! k"
    using Cons.prems by (metis distinct.simps(2) nth_list_update_neq)
  ultimately show ?case
    using Cons.IH [of ?v] Cons.prems by (auto simp: get_put put_put)
qed

end

interpretation act_flags: flag_field session_active "\<lambda>xs v. v\<lparr>session_active := xs\<rparr>"
  by unfold_locales auto

interpretation disc_flags: flag_field session_disconnect_called "\<lambda>xs v. v\<lparr>session_disconnect_called := xs\<rparr>"
  by unfold_locales auto

section \<open>The abstract schedule\<close>

record schedule =
  sc_pool :: nat
  sc_active :: "nat set"
  sc_disconnected :: "nat set"

definition action_sessions :: "action \<Rightarrow> nat set" where
  "action_sessions a = {unat (rng_start (act_range a)) ..< unat (rng_second (act_range a))}"

definition schedule_allows :: "(action \<Rightarrow> bool) \<Rightarrow> nat \<Rightarrow> action \<Rightarrow> schedule \<Rightarrow> bool" where
  "schedule_allows payload_ok shards a s \<longleftrightarrow>
     (if act_type a = CREATE then sc_pool s = 0 \<and> shards \<le> unat (act_count a)
      else
        unat (rng_second (act_range a)) \<le> sc_pool s
        \<and> (case act_type a of
             CONNECT \<Rightarrow> sc_pool s \<noteq> 0 \<and> action_sessions a \<inter> sc_active s = {}
           | SEND \<Rightarrow> act_count a \<noteq> 0 \<and> payload_ok a \<and> action_sessions a \<subseteq> sc_active s
           | DISCONNECT \<Rightarrow> action_sessions a \<inter> sc_disconnected s = {}
           | _ \<Rightarrow> action_sessions a \<subseteq> sc_active s))"

definition schedule_next :: "action \<Rightarrow> schedule \<Rightarrow> schedule" where
  "schedule_next a s =
     (case act_type a of
        CREATE \<Rightarrow> s\<lparr>sc_pool := unat (act_count a)\<rparr>
      | CONNECT \<Rightarrow> s\<lparr>sc_active := sc_active s \<union> action_sessions a\<rparr>
      | DRAIN \<Rightarrow> s\<lparr>sc_active := sc_active s - action_sessions a\<rparr>
      | DISCONNECT \<Rightarrow> s\<lparr>sc_disconnected := sc_disconnected s \<union> action_sessions a\<rparr>
      | _ \<Rightarrow> s)"

fun schedule_run :: "(action \<Rightarrow> bool) \<Rightarrow> nat \<Rightarrow> action list \<Rightarrow> schedule \<Rightarrow> schedule option" where
  "schedule_run ok shards [] s = Some s"
| "schedule_run ok shards (a # as) s =
     (if schedule_allows ok shards a s then schedule_run ok shards as (schedule_next a s) else None)"

definition initial_schedule :: schedule where
  "initial_schedule = \<lparr>sc_pool = 0, sc_active = {}, sc_disconnected = {}\<rparr>"

section \<open>The validator refines the schedule\<close>

definition verifier_wf :: "verifier \<Rightarrow> bool" where
  "verifier_wf v \<longleftrightarrow>
     length (session_active v) = unat (pool_size v)
     \<and> length (session_disconnect_called v) = unat (pool_size v)"

definition flag_set :: "bool list \<Rightarrow> nat set" where
  "flag_set xs = {j. j < length xs \<and> xs ! j}"

definition schedule_of :: "verifier \<Rightarrow> schedule" where
  "schedule_of v =
     \<lparr>sc_pool = unat (pool_size v), sc_active = flag_set (session_active v),
      sc_disconnected = flag_set (session_disconnect_called v)\<rparr>"

definition payload_accepted :: "os \<Rightarrow> resolver_options \<Rightarrow> settings_block \<Rightarrow> action \<Rightarrow> bool" where
  "payload_accepted env opts settings a \<longleftrightarrow> verify_send_payload env opts settings 0 a = Inr ()"

lemma set_session_indices [simp]: "set (session_indices a) = action_sessions a"
  by (auto simp: session_indices_def action_sessions_def)

lemma distinct_session_indices [simp]: "distinct (session_indices a)"
  by (simp add: session_indices_def)

lemma flag_set_update_True:
  "\<forall>j \<in> set js. j < length xs \<Longrightarrow> flag_set (act_flags.flags_set True js xs) = flag_set xs \<union> set js"
  by (auto simp: flag_set_def act_flags.nth_flags_set)

lemma flag_set_update_False:
  "flag_set (act_flags.flags_set False js xs) = flag_set xs - set js"
  by (auto simp: flag_set_def act_flags.nth_flags_set split: if_splits)

lemma foldE_guard_iff:
  "foldE (\<lambda>j _. guardE (P j) (err j)) js () = Inr u \<longleftrightarrow> (\<forall>j \<in> set js. P j)"
  by (induction js) (auto simp: result_simps)

lemma verify_all_active_iff [result_simps]:
  "verify_all_active kw i a v = Inr u \<longleftrightarrow> (\<forall>j \<in> action_sessions a. session_active v ! j)"
  by (simp add: verify_all_active_def foldE_guard_iff)

lemma verify_in_pool_iff [result_simps]:
  "verify_in_pool kw lead tail i a v = Inr u \<longleftrightarrow> unat (rng_second (act_range a)) \<le> unat (pool_size v)"
  by (simp add: verify_in_pool_def result_simps word_le_nat_alt not_less)

lemma connect_loop:
  "foldE (\<lambda>j v. if session_active v ! j then Inl (err j)
      else Inr (v\<lparr>session_active := (session_active v)[j := True]\<rparr>)) js v
   = act_flags.set_flag_loop True err js v"
  by (simp add: act_flags.set_flag_loop_def)

lemma drain_loop:
  "foldE (\<lambda>j v. if \<not> session_active v ! j then Inl (err j)
      else Inr (v\<lparr>session_active := (session_active v)[j := False]\<rparr>)) js v
   = act_flags.set_flag_loop False err js v"
  by (simp add: act_flags.set_flag_loop_def)

lemma disconnect_loop:
  "foldE (\<lambda>j v. if session_disconnect_called v ! j then Inl (err j)
      else Inr (v\<lparr>session_disconnect_called := (session_disconnect_called v)[j := True]\<rparr>)) js v
   = disc_flags.set_flag_loop True err js v"
  by (simp add: disc_flags.set_flag_loop_def)

text \<open>The messages of the payload checks name the action's index; whether they succeed does not depend on it.\<close>

lemma insert_mod_range_index:
  "insert_mod_range r i m = Inr m' \<longleftrightarrow> insert_mod_range r k m = Inr m'"
  by (simp add: insert_mod_range_def Let_def)

lemma verify_mod_bounds_Inr [result_simps]:
  "verify_mod_bounds kind r n p i = Inr u \<longleftrightarrow> \<not> rng_second r > 8 \<and> \<not> ucast (end_from_length r) \<ge> n"
  by (simp add: verify_mod_bounds_def result_simps)

lemma verify_timestamp_mod_index:
  "verify_timestamp_mod p n i t m = Inr m' \<longleftrightarrow> verify_timestamp_mod p n k t m = Inr m'"
  using insert_mod_range_index [of "tm_bytes t" i m _ k]
  by (simp add: verify_timestamp_mod_def result_simps)

lemma verify_counter_mod_index:
  "verify_counter_mod p n i t m = Inr m' \<longleftrightarrow> verify_counter_mod p n k t m = Inr m'"
  using insert_mod_range_index [of "cm_bytes t" i m _ k]
  by (simp add: verify_counter_mod_def result_simps)

lemma foldE_same_success:
  assumes "\<And>x s t. f x s = Inr t \<longleftrightarrow> g x s = Inr t"
  shows "foldE f xs s = Inr t \<longleftrightarrow> foldE g xs s = Inr t"
  using assms by (induction xs arbitrary: s) (simp_all add: bindE_Inr_iff)

lemma verify_send_payload_index:
  "verify_send_payload env opts settings i a = Inr () \<longleftrightarrow> payload_accepted env opts settings a"
proof -
  have ts: "foldE (verify_timestamp_mod p n i) ts m = Inr m' \<longleftrightarrow>
      foldE (verify_timestamp_mod p n 0) ts m = Inr m'" for p n ts m m'
    by (rule foldE_same_success) (rule verify_timestamp_mod_index)
  have cs: "foldE (verify_counter_mod p n i) ts m = Inr m' \<longleftrightarrow>
      foldE (verify_counter_mod p n 0) ts m = Inr m'" for p n ts m m'
    by (rule foldE_same_success) (rule verify_counter_mod_index)
  show ?thesis
    by (auto simp: payload_accepted_def verify_send_payload_def result_simps ts cs Let_def
        split: option.splits sum.splits)
qed

lemma flag_set_resize_empty: "xs = [] \<Longrightarrow> flag_set (resize n xs) = {}"
  by (auto simp: flag_set_def resize_def)

lemma length_resize [simp]: "length (resize n xs) = n"
  by (simp add: resize_def)

lemma schedule_of_simps [simp]:
  "sc_pool (schedule_of v) = unat (pool_size v)"
  "sc_active (schedule_of v) = flag_set (session_active v)"
  "sc_disconnected (schedule_of v) = flag_set (session_disconnect_called v)"
  by (simp_all add: schedule_of_def)

lemma initial_verifier_wf: "verifier_wf initial_verifier"
  by (simp add: verifier_wf_def initial_verifier_def)

lemma schedule_of_initial: "schedule_of initial_verifier = initial_schedule"
  by (simp add: schedule_of_def initial_verifier_def initial_schedule_def flag_set_def)

text \<open>Inside the pool, a flag is the membership of its index.\<close>

lemma flag_iff_mem:
  assumes "verifier_wf v" "unat (rng_second (act_range a)) \<le> unat (pool_size v)" "j \<in> action_sessions a"
  shows "session_active v ! j \<longleftrightarrow> j \<in> flag_set (session_active v)"
    and "session_disconnect_called v ! j \<longleftrightarrow> j \<in> flag_set (session_disconnect_called v)"
  using assms by (auto simp: verifier_wf_def flag_set_def action_sessions_def)

definition step_refines :: "(verifier result) \<Rightarrow> (action \<Rightarrow> bool) \<Rightarrow> nat \<Rightarrow> action \<Rightarrow> verifier \<Rightarrow> bool" where
  "step_refines r ok shards a v \<longleftrightarrow>
     (schedule_allows ok shards a (schedule_of v) \<longleftrightarrow> (\<exists>v'. r = Inr v'))
     \<and> (\<forall>v'. r = Inr v' \<longrightarrow> verifier_wf v' \<and> schedule_of v' = schedule_next a (schedule_of v))"

lemma verify_create_refines:
  assumes "verifier_wf v" "act_type a = CREATE"
  shows "step_refines (verify_create settings i a v) ok (unat (st_shards settings)) a v"
  using assms
  by (auto simp: step_refines_def verify_create_def result_simps schedule_allows_def schedule_next_def
      verifier_wf_def schedule_of_def flag_set_resize_empty flag_set_def word_le_nat_alt not_less
      unat_eq_zero resize_def)

lemma verify_connect_refines:
  assumes "verifier_wf v" "act_type a = CONNECT"
  shows "step_refines (verify_connect i a v) ok shards a v"
proof -
  have run: "verify_connect i a v = Inr v' \<longleftrightarrow>
      pool_size v \<noteq> 0 \<and> unat (rng_second (act_range a)) \<le> unat (pool_size v)
      \<and> (\<forall>j \<in> action_sessions a. \<not> session_active v ! j)
      \<and> v' = v\<lparr>session_active := act_flags.flags_set True (session_indices a) (session_active v)\<rparr>" for v'
    by (auto simp: verify_connect_def result_simps connect_loop act_flags.set_flag_loop_iff)
  show ?thesis
    using assms flag_iff_mem [OF assms(1), of a]
    by (auto simp: step_refines_def run schedule_allows_def schedule_next_def verifier_wf_def
        schedule_of_def flag_set_update_True action_sessions_def unat_eq_zero)
qed

lemma verify_drain_refines:
  assumes "verifier_wf v" "act_type a = DRAIN"
  shows "step_refines (verify_drain i a v) ok shards a v"
proof -
  have run: "verify_drain i a v = Inr v' \<longleftrightarrow>
      unat (rng_second (act_range a)) \<le> unat (pool_size v)
      \<and> (\<forall>j \<in> action_sessions a. session_active v ! j)
      \<and> v' = v\<lparr>session_active := act_flags.flags_set False (session_indices a) (session_active v)\<rparr>" for v'
    by (auto simp: verify_drain_def result_simps drain_loop act_flags.set_flag_loop_iff)
  show ?thesis
    using assms flag_iff_mem [OF assms(1), of a]
    by (auto simp: step_refines_def run schedule_allows_def schedule_next_def verifier_wf_def
        schedule_of_def flag_set_update_False)
qed

lemma verify_disconnect_refines:
  assumes "verifier_wf v" "act_type a = DISCONNECT"
  shows "step_refines (verify_disconnect i a v) ok shards a v"
proof -
  have run: "verify_disconnect i a v = Inr v' \<longleftrightarrow>
      unat (rng_second (act_range a)) \<le> unat (pool_size v)
      \<and> (\<forall>j \<in> action_sessions a. \<not> session_disconnect_called v ! j)
      \<and> v' = v\<lparr>session_disconnect_called :=
            act_flags.flags_set True (session_indices a) (session_disconnect_called v)\<rparr>" for v'
    by (auto simp: verify_disconnect_def result_simps disconnect_loop disc_flags.set_flag_loop_iff)
  show ?thesis
    using assms flag_iff_mem [OF assms(1), of a]
    by (auto simp: step_refines_def run schedule_allows_def schedule_next_def verifier_wf_def
        schedule_of_def flag_set_update_True action_sessions_def)
qed

lemma verify_flood_refines:
  assumes "verifier_wf v" "act_type a = FLOOD"
  shows "step_refines (verify_flood i a v) ok shards a v"
  using assms flag_iff_mem [OF assms(1), of a]
  by (auto simp: step_refines_def verify_flood_def result_simps schedule_allows_def schedule_next_def)

lemma verify_send_refines:
  assumes "verifier_wf v" "act_type a = SEND"
  shows "step_refines (verify_send env opts settings i a v)
    (payload_accepted env opts settings) shards a v"
  using assms flag_iff_mem [OF assms(1), of a]
  by (auto simp: step_refines_def verify_send_def result_simps schedule_allows_def schedule_next_def
      verify_send_payload_index)

lemma verify_action_refines:
  assumes "verifier_wf v"
  shows "step_refines (verify_action env opts settings (i, a) v)
    (payload_accepted env opts settings) (unat (st_shards settings)) a v"
  using assms
  by (cases "act_type a")
    (simp_all add: verify_action_def verify_create_refines verify_connect_refines verify_send_refines
      verify_flood_refines verify_drain_refines verify_disconnect_refines)

lemma verify_actions_from_refines:
  assumes "verifier_wf v"
  shows "(\<exists>v'. foldE (verify_action env opts settings) (enumerate n as) v = Inr v'
            \<and> schedule_of v' = s) \<longleftrightarrow>
    schedule_run (payload_accepted env opts settings) (unat (st_shards settings)) as (schedule_of v) = Some s"
  using assms
proof (induction as arbitrary: n v)
  case Nil
  then show ?case by auto
next
  case (Cons a as)
  have r: "step_refines (verify_action env opts settings (n, a) v)
      (payload_accepted env opts settings) (unat (st_shards settings)) a v"
    using Cons.prems by (rule verify_action_refines)
  show ?case
  proof (cases "verify_action env opts settings (n, a) v")
    case (Inl e)
    then show ?thesis using r by (simp add: step_refines_def)
  next
    case (Inr v1)
    then show ?thesis using r Cons.IH [of v1 "Suc n"] by (simp add: step_refines_def)
  qed
qed

lemma verify_actions_schedule:
  "(\<exists>v. verify_actions env opts settings as = Inr v \<and> schedule_of v = s) \<longleftrightarrow>
   schedule_run (payload_accepted env opts settings) (unat (st_shards settings)) as initial_schedule = Some s"
  using verify_actions_from_refines [OF initial_verifier_wf, of env opts settings 0 as s]
  by (simp add: verify_actions_def schedule_of_initial)

section \<open>What an accepted schedule guarantees about a session\<close>

lemma schedule_run_append:
  "schedule_run ok n (as @ bs) s = Option.bind (schedule_run ok n as s) (schedule_run ok n bs)"
  by (induction as arbitrary: s) auto

text \<open>
  A session is scheduled as active exactly when some CONNECT of it has no later DRAIN of it.
\<close>

definition connected_undrained :: "nat \<Rightarrow> action list \<Rightarrow> bool" where
  "connected_undrained j as \<longleftrightarrow>
     (\<exists>pre a post. as = pre @ a # post \<and> act_type a = CONNECT \<and> j \<in> action_sessions a
        \<and> (\<forall>d \<in> set post. act_type d = DRAIN \<longrightarrow> j \<notin> action_sessions d))"

lemma connected_undrainedI:
  "as = pre @ a # post \<Longrightarrow> act_type a = CONNECT \<Longrightarrow> j \<in> action_sessions a \<Longrightarrow>
   (\<And>d. d \<in> set post \<Longrightarrow> act_type d = DRAIN \<Longrightarrow> j \<notin> action_sessions d) \<Longrightarrow> connected_undrained j as"
  unfolding connected_undrained_def by blast

lemma connected_undrainedE:
  assumes "connected_undrained j as"
  obtains pre a post where "as = pre @ a # post" "act_type a = CONNECT" "j \<in> action_sessions a"
    "\<forall>d \<in> set post. act_type d = DRAIN \<longrightarrow> j \<notin> action_sessions d"
  using assms unfolding connected_undrained_def by blast

lemma connected_undrained_Nil [simp]: "\<not> connected_undrained j []"
  by (simp add: connected_undrained_def)

lemma connected_undrained_snoc:
  "connected_undrained j (as @ [b]) \<longleftrightarrow>
     act_type b = CONNECT \<and> j \<in> action_sessions b
     \<or> connected_undrained j as \<and> (act_type b = DRAIN \<longrightarrow> j \<notin> action_sessions b)"
    (is "?L \<longleftrightarrow> ?R")
proof
  assume ?L
  then obtain pre a post where *: "as @ [b] = pre @ a # post" "act_type a = CONNECT"
    "j \<in> action_sessions a" "\<forall>d \<in> set post. act_type d = DRAIN \<longrightarrow> j \<notin> action_sessions d"
    by (rule connected_undrainedE)
  show ?R
  proof (cases post rule: rev_cases)
    case Nil
    then show ?thesis using * by simp
  next
    case (snoc post' d)
    then have as: "as = pre @ a # post'" and d: "d = b" using *(1) by simp_all
    have "connected_undrained j as"
      by (rule connected_undrainedI [OF as *(2,3)]) (simp add: * snoc)
    then show ?thesis using *(4) snoc d by simp
  qed
next
  assume ?R
  then show ?L
  proof
    assume "act_type b = CONNECT \<and> j \<in> action_sessions b"
    then show ?thesis by (intro connected_undrainedI [of _ as b "[]"]) simp_all
  next
    assume r: "connected_undrained j as \<and> (act_type b = DRAIN \<longrightarrow> j \<notin> action_sessions b)"
    then obtain pre a post where "as = pre @ a # post" "act_type a = CONNECT"
      "j \<in> action_sessions a" "\<forall>d \<in> set post. act_type d = DRAIN \<longrightarrow> j \<notin> action_sessions d"
      by (blast elim: connected_undrainedE)
    then show ?thesis using r by (intro connected_undrainedI [of _ pre a "post @ [b]"]) auto
  qed
qed

lemma schedule_run_active:
  assumes "schedule_run ok n as s = Some t" "sc_active s = {}"
  shows "j \<in> sc_active t \<longleftrightarrow> connected_undrained j as"
  using assms
proof (induction as arbitrary: t rule: rev_induct)
  case Nil
  then show ?case by auto
next
  case (snoc b as)
  then obtain u where u: "schedule_run ok n as s = Some u" and t: "t = schedule_next b u"
    by (auto simp: schedule_run_append bind_eq_Some_conv split: if_splits)
  show ?case
    unfolding connected_undrained_snoc using snoc.IH [OF u] snoc.prems(2) t
    by (cases "act_type b") (auto simp: schedule_next_def)
qed

lemma schedule_run_split:
  assumes "schedule_run ok n (pre @ a # post) s = Some t"
  obtains u where "schedule_run ok n pre s = Some u" "schedule_allows ok n a u"
  using assms by (auto simp: schedule_run_append bind_eq_Some_conv split: if_splits)

lemma validator_schedule_run:
  "verify_actions env opts settings as = Inr v \<Longrightarrow>
   schedule_run (payload_accepted env opts settings) (unat (st_shards settings)) as initial_schedule = Some (schedule_of v)"
  using verify_actions_schedule by blast

lemma accepted_use_connected:
  assumes "verify_actions env opts settings (pre @ a # post) = Inr v"
    and "act_type a \<in> {SEND, FLOOD, DRAIN}" and "j \<in> action_sessions a"
  shows "connected_undrained j pre"
proof -
  have "schedule_run (payload_accepted env opts settings) (unat (st_shards settings))
      (pre @ a # post) initial_schedule = Some (schedule_of v)"
    using verify_actions_schedule assms(1) by blast
  then obtain u where u: "schedule_run (payload_accepted env opts settings) (unat (st_shards settings))
      pre initial_schedule = Some u"
    and "schedule_allows (payload_accepted env opts settings) (unat (st_shards settings)) a u"
    by (rule schedule_run_split)
  then have "j \<in> sc_active u" using assms(2, 3) by (auto simp: schedule_allows_def)
  then show ?thesis using schedule_run_active [OF u] by (simp add: initial_schedule_def)
qed

section \<open>What an accepted SEND guarantees about its modifications\<close>

text \<open>
  The map of ranges stays sorted, and no entry reaches the key of a later one. An insertion
  reads the entry as the closed interval from its start to its second component.
\<close>

definition mod_map_wf :: "mod_map \<Rightarrow> bool" where
  "mod_map_wf m \<longleftrightarrow> sorted_wrt (\<lambda>p q. fst p < fst q \<and> snd p < fst q) m"

definition closed_interval :: "u32 \<Rightarrow> u32 \<Rightarrow> nat set" where
  "closed_interval a b = {unat a .. unat b}"

lemma mod_map_wf_Nil [simp]: "mod_map_wf []"
  by (simp add: mod_map_wf_def)

lemma sorted_takeWhile_iff:
  assumes "sorted_wrt (\<lambda>p q. fst p < (fst q :: u32) \<and> R p q) m"
  shows "p \<in> set (takeWhile (\<lambda>p. fst p < k) m) \<longleftrightarrow> p \<in> set m \<and> fst p < k"
    and "p \<in> set (dropWhile (\<lambda>p. fst p < k) m) \<longleftrightarrow> p \<in> set m \<and> k \<le> fst p"
    and "p \<in> set (dropWhile (\<lambda>p. fst p \<le> k) m) \<longleftrightarrow> p \<in> set m \<and> k < fst p"
  using assms by (induction m) force+

lemma sorted_wrt_parts:
  assumes "sorted_wrt R m"
  shows "sorted_wrt R (takeWhile P m)" "sorted_wrt R (dropWhile P m)"
  using assms by (induction m) (auto dest: set_takeWhileD)

lemma mod_map_wf_hd:
  assumes "mod_map_wf m"
  shows "(m \<noteq> [] \<longrightarrow> x < fst (hd m)) \<longleftrightarrow> (\<forall>p \<in> set m. x < fst p)"
  using assms unfolding mod_map_wf_def by (cases m) (auto intro: order_less_trans)

lemma mod_map_wf_last:
  assumes "mod_map_wf m" "p \<in> set m"
  shows "p = last m \<or> snd p < fst (last m)"
  using assms unfolding mod_map_wf_def by (induction m) auto

lemma mod_map_wf_last_below:
  assumes "mod_map_wf m" "\<forall>p \<in> set m. fst p < k"
  shows "(m \<noteq> [] \<longrightarrow> snd (last m) < k) \<longleftrightarrow> (\<forall>p \<in> set m. snd p < k)"
proof (cases "m = []")
  case False
  then have "last m \<in> set m" by simp
  moreover have "snd p < k" if "p \<in> set m" "snd (last m) < k" for p
    using mod_map_wf_last [OF assms(1) that(1)] that(2) assms(2) \<open>last m \<in> set m\<close>
    by (auto intro: order_less_trans)
  ultimately show ?thesis using False by blast
qed simp

lemma insert_mod_range_Inr_iff:
  assumes "mod_map_wf m"
  shows "insert_mod_range r i m = Inr m' \<longleftrightarrow>
     (\<forall>p \<in> set m. if fst p < rng_start r then snd p < rng_start r else rng_second r < fst p)
     \<and> m' = map_put (rng_start r) (rng_second r) m"
proof -
  let ?b = "takeWhile (\<lambda>p. fst p < rng_start r) m" and ?f = "dropWhile (\<lambda>p. fst p < rng_start r) m"
  have sorted: "sorted_wrt (\<lambda>p q. fst p < fst q \<and> snd p < fst q) m"
    using assms by (simp add: mod_map_wf_def)
  have parts: "mod_map_wf ?b" "mod_map_wf ?f"
    using sorted by (simp_all add: mod_map_wf_def sorted_wrt_parts)
  have "(?f \<noteq> [] \<longrightarrow> rng_second r < fst (hd ?f)) \<longleftrightarrow> (\<forall>p \<in> set ?f. rng_second r < fst p)"
    by (rule mod_map_wf_hd [OF parts(2)])
  moreover have "(?b \<noteq> [] \<longrightarrow> snd (last ?b) < rng_start r) \<longleftrightarrow> (\<forall>p \<in> set ?b. snd p < rng_start r)"
    by (rule mod_map_wf_last_below [OF parts(1)]) (simp add: sorted_takeWhile_iff(1) [OF sorted])
  moreover have "(\<forall>p \<in> set m. if fst p < rng_start r then snd p < rng_start r else rng_second r < fst p)
      \<longleftrightarrow> (\<forall>p \<in> set ?f. rng_second r < fst p) \<and> (\<forall>p \<in> set ?b. snd p < rng_start r)"
    unfolding Ball_def sorted_takeWhile_iff(1,2) [OF sorted] by (metis not_less)
  moreover have "insert_mod_range r i m = Inr m' \<longleftrightarrow>
      (?f \<noteq> [] \<longrightarrow> rng_second r < fst (hd ?f)) \<and> (?b \<noteq> [] \<longrightarrow> snd (last ?b) < rng_start r)
      \<and> m' = map_put (rng_start r) (rng_second r) m"
    by (auto simp add: insert_mod_range_def Let_def not_le)
  ultimately show ?thesis by blast
qed

lemma map_put_wf:
  assumes "mod_map_wf m"
    and "\<forall>p \<in> set m. if fst p < k then snd p < k else v < fst p"
  shows "mod_map_wf (map_put k v m)"
proof -
  have sorted: "sorted_wrt (\<lambda>p q. fst p < fst q \<and> snd p < fst q) m"
    using assms(1) by (simp add: mod_map_wf_def)
  have "sorted_wrt (\<lambda>p q. fst p < fst q \<and> snd p < fst q) (takeWhile (\<lambda>p. fst p < k) m)"
    "sorted_wrt (\<lambda>p q. fst p < fst q \<and> snd p < fst q) (dropWhile (\<lambda>p. fst p \<le> k) m)"
    using sorted by (simp_all add: sorted_wrt_parts)
  moreover have "snd p < k" if "p \<in> set m" "fst p < k" for p
    using assms(2) that by auto
  moreover have "v < fst p" if "p \<in> set m" "k < fst p" for p
    using bspec [OF assms(2) that(1)] that(2) by (simp add: not_less_iff_gr_or_eq split: if_splits)
  moreover have "snd p < fst q" if "p \<in> set m" "fst p < k" "q \<in> set m" "k < fst q" for p q
    using calculation(3) [OF that(1,2)] that(4) by (rule order_less_trans)
  ultimately show ?thesis
    unfolding mod_map_wf_def map_put_def
    by (auto simp: sorted_wrt_append sorted_takeWhile_iff [OF sorted] intro: order_less_trans)
qed

end
