(* ===== verification/Plan_Defined.thy ===== *)
theory Plan_Defined
  imports Execution_Plan
begin

text \<open>
  When the planning stage is defined: the indices it computes into the modifications of an
  action and into the packets never run past their vectors, for scripts whose actions list
  their modifications consistently.
\<close>

section \<open>Modifications\<close>

lemma push_previous_indices [simp]:
  "ob_c_idx (push_previous w b) = ob_c_idx b" "ob_ts_idx (push_previous w b) = ob_ts_idx b"
  by (simp_all add: push_previous_def Let_def)

lemma push_mods_defined:
  assumes "ob_c_idx b + count_list ms Mod_Counter \<le> length (act_counter_mods a)"
    and "ob_ts_idx b + count_list ms Mod_Timestamp \<le> length (act_timestamp_mods a)"
  shows "foldE (push_mod a) ms b \<noteq> Inl Undefined_Behaviour"
  using assms
proof (induction ms arbitrary: b)
  case (Cons m ms)
  have "push_mod a m b \<noteq> Inl Undefined_Behaviour"
    using Cons.prems by (cases m) (auto simp: push_mod_def Let_def split: option.split)
  moreover have "foldE (push_mod a) ms b' \<noteq> Inl Undefined_Behaviour" if "push_mod a m b = Inr b'" for b'
    using that Cons.prems by (intro Cons.IH; cases m) (auto simp: push_mod_def Let_def split: if_splits option.splits)
  ultimately show ?case by (cases "push_mod a m b") auto
qed simp

lemma build_payload_defined:
  assumes "mods_accounted a"
  shows "build_payload a buf \<noteq> Inl Undefined_Behaviour"
proof -
  have "foldE (push_mod a) (act_mod_order a) initial_builder \<noteq> Inl Undefined_Behaviour"
    using assms by (intro push_mods_defined) (simp_all add: mods_accounted_def initial_builder_def)
  then show ?thesis
    by (cases "foldE (push_mod a) (act_mod_order a) initial_builder") (auto simp: build_payload_def Let_def)
qed

section \<open>Packets\<close>

definition store_ok :: "packet_store \<Rightarrow> bool" where
  "store_ok st \<longleftrightarrow> (\<forall>name k. ps_identity_map st name = Some k \<longrightarrow> k < length (ps_packet_data st))"

lemma load_packet_ok:
  assumes "load_packet env opts ok e st = Inr st'" "store_ok st"
  shows "store_ok st'"
  using assms
  by (auto simp: load_packet_def store_ok_def Let_def less_Suc_eq split: prod.splits sum.splits if_splits option.splits)

lemma load_packet_defined: "load_packet env opts ok e st \<noteq> Inl Undefined_Behaviour"
  by (auto simp: load_packet_def Let_def split: prod.splits sum.splits option.splits)

text \<open>A sequence of steps is defined when each is, where an invariant holds.\<close>

lemma foldE_defined:
  assumes "P s" "\<And>x t. x \<in> set xs \<Longrightarrow> P t \<Longrightarrow> f x t \<noteq> Inl e"
    and "\<And>x t t'. x \<in> set xs \<Longrightarrow> P t \<Longrightarrow> f x t = Inr t' \<Longrightarrow> P t'"
  shows "foldE f xs s \<noteq> Inl e"
  using assms(1,2,3)
proof (induction xs arbitrary: s)
  case (Cons x xs)
  have "foldE f xs t \<noteq> Inl e" if "f x s = Inr t" for t
  proof (rule Cons.IH)
    show "P t" using Cons.prems(1,3) that by (meson list.set_intros(1))
  qed (meson Cons.prems(2,3) list.set_intros(2))+
  then show ?case using Cons.prems(1,2) by (auto simp: bindE_Inl_iff)
qed simp

lemma plan_action_defined:
  assumes "store_ok st" "mods_accounted a"
  shows "plan_action uninit st a pb \<noteq> Inl Undefined_Behaviour"
proof -
  have "plan_send st a pb' \<noteq> Inl Undefined_Behaviour" for pb'
    using assms(1) build_payload_defined [OF assms(2)]
    by (auto simp: plan_send_def store_ok_def bindE_Inl_iff split: option.split)
  then show ?thesis by (simp add: plan_action_def Let_def bindE_Inl_iff)
qed

lemma plan_common_defined:
  assumes "\<forall>a \<in> set (or_actions (ds_orchestrator script)). mods_accounted a"
  shows "generate_plan_common env opts ok uninit script factory host \<noteq> Inl Undefined_Behaviour"
proof -
  let ?ids = "st_packet_identifiers (ds_settings script)" and ?acts = "or_actions (ds_orchestrator script)"
  have load: "load_packets env opts ok ?ids \<noteq> Inl Undefined_Behaviour"
    unfolding load_packets_def by (rule foldE_defined [where P = "\<lambda>_. True"]) (simp_all add: load_packet_defined)
  have "foldE (plan_action uninit st) ?acts empty_plan_builder \<noteq> Inl Undefined_Behaviour"
    if st: "load_packets env opts ok ?ids = Inr st" for st
  proof (rule foldE_defined [where P = "\<lambda>_. True"])
    have "store_ok st"
      using st unfolding load_packets_def
    proof (rule foldE_invariant)
      show "store_ok empty_packet_store" by (simp add: store_ok_def empty_packet_store_def)
    qed (rule load_packet_ok)
    then show "plan_action uninit st a t \<noteq> Inl Undefined_Behaviour" if "a \<in> set ?acts" for a t
      using plan_action_defined assms that by blast
  qed simp_all
  then show ?thesis
    using load by (auto simp: generate_plan_common_def Let_def bindE_Inl_iff)
qed

end
