(* ===== verification/Interpreted.thy ===== *)
theory Interpreted
  imports Schedule Plan_Defined
begin

text \<open>
  What holds of every script the interpreter returns: the parser's invariant, and with the
  validator's checks what the planning stage and the command line rely on.
\<close>

section \<open>The parser's invariant\<close>

lemma convert_int_small:
  assumes "try_convert_int t kw = Inr n"
  shows "n < 2 ^ 31"
proof -
  obtain v where v: "stoi (tok_text t) = Some v" "0 \<le> v" "n = word_of_int v"
    using assms by (auto simp: try_convert_int_def split: option.splits if_splits)
  have "v < 2 ^ 31" using stoi_bounds [OF v(1)] by simp
  moreover have "uint n = v mod 2 ^ 32" using v(3) by (simp add: unsigned_of_int take_bit_eq_mod)
  ultimately have "uint n < 2 ^ 31" using v(2) by simp
  then show ?thesis by (simp add: word_less_def)
qed

lemma option_tokens_small: "parse_option_tokens ts = Inr (r, x, y, ts') \<Longrightarrow> rng_start r < 2 ^ 31"
  by (auto simp: parse_option_tokens_def try_parse_range_def result_simps dest: convert_int_small)

lemma timestamp_option_mods:
  "try_parse_timestamp_option a ts = Inr (a', ts') \<Longrightarrow> mods_parsed a' = mods_parsed a"
  by (auto simp: try_parse_timestamp_option_def result_simps split: if_splits dest: option_tokens_small)

lemma counter_option_mods:
  "try_parse_counter_option a ts = Inr (a', ts') \<Longrightarrow> mods_parsed a' = mods_parsed a"
  by (auto simp: try_parse_counter_option_def result_simps dest: option_tokens_small)

lemma send_options_mods:
  "parse_send_options a ts = Inr (a', ts') \<Longrightarrow> mods_parsed a' = mods_parsed a"
proof (induction a ts rule: parse_send_options.induct)
  case (1 a ts)
  show ?case
  proof (cases "tok_text (peek_token ts) \<noteq> ''OFFSET'' \<and> is_expected Keyword ts")
    case True
    show ?thesis
    proof (cases "tok_text (peek_token ts) = ''COUNTER''")
      case counter: True
      then obtain b us where b: "try_parse_counter_option a (consume ts) = Inr (b, us)"
        "parse_send_options b us = Inr (a', ts')"
        using "1.prems" True by (subst (asm) parse_send_options.simps) (auto simp: bindE_Inr_iff)
      from "1.IH"(1) [OF True counter b(1) refl b(2)] counter_option_mods [OF b(1)] show ?thesis by simp
    next
      case no_counter: False
      show ?thesis
      proof (cases "tok_text (peek_token ts) = ''TIMESTAMP''")
        case stamp: True
        then obtain b us where b: "try_parse_timestamp_option a (consume ts) = Inr (b, us)"
          "parse_send_options b us = Inr (a', ts')"
          using "1.prems" True by (subst (asm) parse_send_options.simps) (auto simp: bindE_Inr_iff)
        from "1.IH"(2) [OF True no_counter stamp b(1) refl b(2)] timestamp_option_mods [OF b(1)] show ?thesis by simp
      next
        case False
        then show ?thesis using "1.prems" True no_counter by (simp add: parse_send_options.simps [of a ts])
      qed
    qed
  next
    case False
    from "1.prems" False show ?thesis
      by (subst (asm) parse_send_options.simps) (auto split: if_splits)
  qed
qed

lemma mods_parsed_update [simp]:
  "mods_parsed (a\<lparr>act_range := r\<rparr>) = mods_parsed a"
  "mods_parsed (a\<lparr>act_count := n\<rparr>) = mods_parsed a"
  "mods_parsed (a\<lparr>act_packet_identifier := p\<rparr>) = mods_parsed a"
  "mods_parsed (a\<lparr>act_offset_ms := ms\<rparr>) = mods_parsed a"
  by (simp_all add: mods_parsed_def mods_accounted_def)

lemma parse_action_mods:
  assumes "parse_action uninit ts = Inr (a, ts')"
  shows "mods_parsed a"
  using assms
  by (auto simp: parse_action_def parse_offset_def parse_send_def parse_ranged_def result_simps
      dest!: send_options_mods split: if_splits)

lemma parse_actions_mods:
  assumes "parse_actions uninit orch ts = Inr (orch', ts')" "list_all mods_parsed (or_actions orch)"
  shows "list_all mods_parsed (or_actions orch')"
  using assms
proof (induction uninit orch ts rule: parse_actions.induct)
  case (1 uninit orch ts)
  show ?case
  proof (cases "is_expected BraceClosed ts")
    case True
    then show ?thesis using "1.prems" by (simp add: parse_actions.simps [of uninit orch ts])
  next
    case False
    then obtain a us where a: "parse_action uninit ts = Inr (a, us)"
      "parse_actions uninit (orch\<lparr>or_actions := or_actions orch @ [a]\<rparr>) us = Inr (orch', ts')"
      using "1.prems"(1) by (subst (asm) parse_actions.simps) (auto simp: bindE_Inr_iff)
    then show ?thesis using "1.IH" [OF False a(1) refl a(2)] "1.prems"(2) parse_action_mods [OF a(1)] by simp
  qed
qed

lemma parse_packets_distinct:
  assumes "parse_packets st ts = Inr (st', ts')" "distinct (map fst (st_packet_identifiers st))"
  shows "distinct (map fst (st_packet_identifiers st'))"
  using assms
proof (induction st ts rule: parse_packets.induct)
  case (1 st ts)
  show ?case
  proof (cases "is_expected BraceClosed ts")
    case True
    then show ?thesis using "1.prems" by (simp add: parse_packets.simps [of st ts])
  next
    case False
    obtain pid ts1 ts2 pv ts3 where e: "expect Identity ts = Inr (pid, ts1)" "expect_operator '':'' ts1 = Inr ts2"
      "expect Value ts2 = Inr (pv, ts3)"
      using "1.prems"(1) False by (subst (asm) parse_packets.simps) (auto simp: bindE_Inr_iff)
    let ?st = "st\<lparr>st_packet_identifiers := AList.update (tok_text pid) (tok_text pv) (st_packet_identifiers st)\<rparr>"
    have d: "distinct (map fst (st_packet_identifiers ?st))" using "1.prems"(2) by (simp add: distinct_update)
    show ?thesis
    proof (cases "\<not> is_expected Operator ts3 \<or> tok_text (peek_token ts3) \<noteq> '',''")
      case True
      then have "st' = ?st"
        using "1.prems"(1) False e by (subst (asm) parse_packets.simps) (auto simp: Let_def split: if_splits)
      then show ?thesis using d by simp
    next
      case more: False
      have next_round: "parse_packets ?st (consume ts3) = Inr (st', ts')"
        using "1.prems"(1) False e more by (subst (asm) parse_packets.simps) (simp add: Let_def)
      show ?thesis using "1.IH" [OF False e(1) refl e(2) e(3) refl refl _ next_round d] more by simp
    qed
  qed
qed

lemma parse_endpoints_identifiers:
  "parse_endpoints st ts = Inr (st', ts') \<Longrightarrow> st_packet_identifiers st' = st_packet_identifiers st"
proof (induction st ts rule: parse_endpoints.induct)
  case (1 st ts)
  show ?case
  proof (cases "is_expected BraceClosed ts")
    case True
    then show ?thesis using "1.prems" by (simp add: parse_endpoints.simps [of st ts])
  next
    case False
    obtain v ts1 where e: "expect Value ts = Inr (v, ts1)"
      using "1.prems" False by (subst (asm) parse_endpoints.simps) (auto simp: bindE_Inr_iff)
    let ?st = "st\<lparr>st_endpoints := st_endpoints st @ [tok_text v]\<rparr>"
    show ?thesis
    proof (cases "\<not> is_expected Operator ts1 \<or> tok_text (peek_token ts1) \<noteq> '',''")
      case True
      then have "st' = ?st"
        using "1.prems" False e by (subst (asm) parse_endpoints.simps) (auto simp: Let_def split: if_splits)
      then show ?thesis by simp
    next
      case more: False
      then have next_round: "parse_endpoints ?st (consume ts1) = Inr (st', ts')"
        using "1.prems" False e by (subst (asm) parse_endpoints.simps) (simp add: Let_def)
      show ?thesis using "1.IH" [OF False e(1) refl refl _ next_round] more by simp
    qed
  qed
qed

lemma assign_setting_identifiers:
  "assign_setting k v st = Inr st' \<Longrightarrow> st_packet_identifiers st' = st_packet_identifiers st"
  by (auto simp: assign_setting_def bindE_Inr_iff Let_def split: if_splits)

lemma parse_setting_distinct:
  assumes "parse_setting st ts = Inr (st', ts')" "distinct (map fst (st_packet_identifiers st))"
  shows "distinct (map fst (st_packet_identifiers st'))"
  using assms
  by (auto simp: parse_setting_def parse_nested_def bindE_Inr_iff split: if_splits
      dest: parse_packets_distinct parse_endpoints_identifiers assign_setting_identifiers)

lemma parse_settings_body_distinct:
  assumes "parse_settings_body st ts = Inr (st', ts')" "distinct (map fst (st_packet_identifiers st))"
  shows "distinct (map fst (st_packet_identifiers st'))"
  using assms
proof (induction st ts rule: parse_settings_body.induct)
  case (1 st ts)
  show ?case
  proof (cases "is_expected BraceClosed ts")
    case True
    then show ?thesis using "1.prems" by (simp add: parse_settings_body.simps [of st ts])
  next
    case False
    then obtain st1 ts1 where e: "parse_setting st ts = Inr (st1, ts1)" "parse_settings_body st1 ts1 = Inr (st', ts')"
      using "1.prems"(1) by (subst (asm) parse_settings_body.simps) (auto simp: bindE_Inr_iff)
    show ?thesis by (rule "1.IH" [OF False e(1) refl e(2) parse_setting_distinct [OF e(1) "1.prems"(2)]])
  qed
qed

definition well_parsed :: "dsl_data \<Rightarrow> bool" where
  "well_parsed d \<longleftrightarrow>
     distinct (map fst (st_packet_identifiers (ds_settings d)))
     \<and> list_all mods_parsed (or_actions (ds_orchestrator d))"

lemma parse_well_parsed:
  assumes "parse uninit d ts = Inr d'" "well_parsed d"
  shows "well_parsed d'"
  using assms
proof (induction uninit d ts rule: parse.induct)
  case (1 uninit d ts)
  show ?case
  proof (cases "end_of_tokens ts")
    case True
    then show ?thesis using "1.prems" by (simp add: parse.simps [of uninit d ts])
  next
    case False
    show ?thesis
    proof (cases "tok_text (peek_token ts) = ''SETTINGS''")
      case settings: True
      then obtain st us where e: "parse_settings (ds_settings d) ts = Inr (st, us)"
        "parse uninit (d\<lparr>ds_settings := st\<rparr>) us = Inr d'"
        using "1.prems"(1) False by (subst (asm) parse.simps) (auto simp: bindE_Inr_iff)
      have "distinct (map fst (st_packet_identifiers st))"
        using e(1) "1.prems"(2)
        by (auto simp: parse_settings_def bindE_Inr_iff well_parsed_def dest!: parse_settings_body_distinct)
      then have "well_parsed (d\<lparr>ds_settings := st\<rparr>)" using "1.prems"(2) by (simp add: well_parsed_def)
      then show ?thesis by (rule "1.IH"(1) [OF False settings e(1) refl e(2)])
    next
      case no_settings: False
      then have orch_kw: "tok_text (peek_token ts) = ''ORCHESTRATOR''"
        using "1.prems"(1) False by (subst (asm) parse.simps) (simp split: if_splits)
      obtain orch us where e: "parse_orchestrator uninit (ds_orchestrator d) ts = Inr (orch, us)"
        "parse uninit (d\<lparr>ds_orchestrator := orch\<rparr>) us = Inr d'"
        using "1.prems"(1) False no_settings orch_kw by (subst (asm) parse.simps) (auto simp: bindE_Inr_iff)
      have "list_all mods_parsed (or_actions orch)"
        using e(1) "1.prems"(2)
        by (auto simp: parse_orchestrator_def bindE_Inr_iff well_parsed_def dest!: parse_actions_mods)
      then have "well_parsed (d\<lparr>ds_orchestrator := orch\<rparr>)" using "1.prems"(2) by (simp add: well_parsed_def)
      then show ?thesis by (rule "1.IH"(2) [OF False no_settings orch_kw e(1) refl e(2)])
    qed
  qed
qed

section \<open>Scripts the interpreter returns\<close>

lemma prefixE_Inr: "prefixE p r = Inr x \<longleftrightarrow> r = Inr x"
  by (cases r) (simp_all add: prefixE_def)

lemma parse_script_Inr:
  assumes "parse_script env opts hs bm uninit name = Inr d"
  obtains source ts d' where "read_script env opts name = Inr source" "tokenize source = Inr ts"
    "parse uninit (default_dsl_data hs bm) ts = Inr d'"
    "d = d'\<lparr>ds_settings := set_script_defaults env (ds_settings d')\<rparr>" "verify_script env opts d = Inr ()"
  using assms by (auto simp: parse_script_def result_simps prefixE_Inr Let_def)

lemma set_script_defaults_identifiers [simp]:
  "st_packet_identifiers (set_script_defaults env settings) = st_packet_identifiers settings"
  by (simp add: set_script_defaults_def Let_def)

lemma interpreted_parsed:
  assumes "parse_script env opts hs bm uninit name = Inr d"
  shows "well_parsed d"
proof -
  obtain source ts d' where d': "parse uninit (default_dsl_data hs bm) ts = Inr d'"
    "d = d'\<lparr>ds_settings := set_script_defaults env (ds_settings d')\<rparr>"
    using parse_script_Inr [OF assms] by metis
  have "well_parsed (default_dsl_data hs bm)"
    by (simp add: well_parsed_def default_dsl_data_def default_settings_def)
  then have "well_parsed d'" by (rule parse_well_parsed [OF d'(1)])
  then show ?thesis using d'(2) by (simp add: well_parsed_def)
qed

lemma interpreted_mods:
  assumes "parse_script env opts hs bm uninit name = Inr d"
  shows "\<forall>a \<in> set (or_actions (ds_orchestrator d)). mods_accounted a"
  using interpreted_parsed [OF assms] by (simp add: well_parsed_def list_all_iff mods_parsed_def)

lemma verified_handler:
  assumes "verify_script env opts d = Inr ()"
  shows "make_factory env opts compiles (ds_settings d) \<noteq> Inr No_Factory"
  using assms by (auto simp: verify_script_def verify_handler_def make_factory_def Let_def result_simps
      VALID_MESSAGE_HANDLERS_def split: if_splits sum.splits)

lemma verified_fields:
  assumes "verify_script env opts d = Inr ()"
  shows "st_shards (ds_settings d) \<noteq> 0" "st_session_protocol (ds_settings d) \<in> {''TCP'', ''UDP''}"
  using assms by (auto simp: verify_script_def verify_settings_fields_def VALID_PROTOCOLS_def Let_def result_simps)

lemma verified_send_copies:
  assumes "verify_script env opts d = Inr ()" "a \<in> set (or_actions (ds_orchestrator d))" "act_type a = SEND"
  shows "act_count a \<noteq> 0" "payload_accepted env opts (ds_settings d) a"
proof -
  obtain pre post where split: "or_actions (ds_orchestrator d) = pre @ a # post"
    using assms(2) by (metis split_list)
  obtain v where "verify_actions env opts (ds_settings d) (pre @ a # post) = Inr v"
    using assms(1) split by (auto simp: verify_script_def result_simps Let_def)
  then have "schedule_run (payload_accepted env opts (ds_settings d)) (unat (st_shards (ds_settings d)))
      (pre @ a # post) initial_schedule = Some (schedule_of v)"
    using validator_schedule_run by blast
  then obtain u where "schedule_allows (payload_accepted env opts (ds_settings d))
      (unat (st_shards (ds_settings d))) a u"
    by (rule schedule_run_split)
  then show "act_count a \<noteq> 0" "payload_accepted env opts (ds_settings d) a"
    using assms(3) by (auto simp: schedule_allows_def)
qed

lemma verified_send_packet:
  assumes "verify_script env opts d = Inr ()" "a \<in> set (or_actions (ds_orchestrator d))" "act_type a = SEND"
  obtains fname path where "map_of (st_packet_identifiers (ds_settings d)) (act_packet_identifier a) = Some fname"
    "resolve_file env opts fname = Inr path" "get_file_size env path \<noteq> 0"
    "\<forall>m \<in> set (act_timestamp_mods a). rng_second (tm_bytes m) \<le> 8
       \<and> ucast (end_from_length (tm_bytes m)) < get_file_size env path \<and> tm_format_name m \<in> set VALID_TIME_FORMATS"
    "\<forall>m \<in> set (act_counter_mods a). rng_second (cm_bytes m) \<le> 8
       \<and> ucast (end_from_length (cm_bytes m)) < get_file_size env path \<and> cm_step m \<noteq> 0"
proof -
  have ts: "foldE (verify_timestamp_mod p n i) ms r = Inr r' \<Longrightarrow> m \<in> set ms \<Longrightarrow>
      rng_second (tm_bytes m) \<le> 8 \<and> ucast (end_from_length (tm_bytes m)) < n \<and> tm_format_name m \<in> set VALID_TIME_FORMATS"
    for p n i ms r r' m
    by (induction ms arbitrary: r) (auto simp: bindE_Inr_iff verify_timestamp_mod_def result_simps not_less not_le)
  have cs: "foldE (verify_counter_mod p n i) ms r = Inr r' \<Longrightarrow> m \<in> set ms \<Longrightarrow>
      rng_second (cm_bytes m) \<le> 8 \<and> ucast (end_from_length (cm_bytes m)) < n \<and> cm_step m \<noteq> 0"
    for p n i ms r r' m
    by (induction ms arbitrary: r) (auto simp: bindE_Inr_iff verify_counter_mod_def result_simps not_less not_le)
  show thesis
    using verified_send_copies(2) [OF assms] that
    by (auto simp: payload_accepted_def verify_send_payload_def result_simps Let_def dest: ts cs split: option.splits sum.splits)
qed

text \<open>Generating a plan for it is always defined, for either transport.\<close>

lemma make_factory_defined: "make_factory env opts compiles settings \<noteq> Inl Undefined_Behaviour"
  by (auto simp: make_factory_def split: sum.split)

lemma check_datagrams_defined: "check_datagrams payloads \<noteq> Inl Undefined_Behaviour"
  unfolding check_datagrams_def by (rule foldE_defined [where P = "\<lambda>_. True"]) simp_all

lemma guardE_Inl_iff: "guardE b e = Inl e' \<longleftrightarrow> \<not> b \<and> e = e'"
  by (cases b) simp_all

lemma interpreted_plans_defined:
  assumes "parse_script env opts hs bm uninit name = Inr d"
  shows "generate_execution_plan_tcp env opts ok count dns compiles d \<noteq> Inl Undefined_Behaviour"
    and "generate_execution_plan_udp env opts ok count dns compiles d \<noteq> Inl Undefined_Behaviour"
  using plan_common_defined [OF interpreted_mods [OF assms], of env opts ok count] make_factory_defined
    check_datagrams_defined
  by (auto simp: generate_execution_plan_tcp_def generate_execution_plan_udp_def bindE_Inl_iff guardE_Inl_iff Let_def)

end
