(* ===== verification/Accepted_Sends.thy ===== *)
theory Accepted_Sends
  imports Plan_Run Interpreted
begin

text \<open>
  The SENDs of a script the interpreter returns. Their fields lie inside the packet, but the
  validator does not see to the order they are listed in, and it lets some overlaps through.
  Planning takes the fields as they are listed: where one starts before the end of the one
  before it, the number of bytes between them wraps around, and filling the payload makes a
  buffer of nearly 4 GiB, far past the end of the packet.
\<close>

section \<open>Fields in the order they are listed\<close>

text \<open>Every field starts at or after the end of the one listed before it.\<close>

fun listed_in_order :: "nat \<Rightarrow> mod_field list \<Rightarrow> bool" where
  "listed_in_order pos [] = True"
| "listed_in_order pos (f # fs) = (pos \<le> field_start f \<and> listed_in_order (field_end f) fs)"

definition fields_inside :: "nat \<Rightarrow> mod_field list \<Rightarrow> bool" where
  "fields_inside sz fs \<longleftrightarrow> (\<forall>f \<in> set fs. field_ok f \<and> field_end f \<le> sz)"

lemma fields_inside_simps [simp]:
  "fields_inside sz []"
  "fields_inside sz (f # fs) \<longleftrightarrow> field_ok f \<and> field_end f \<le> sz \<and> fields_inside sz fs"
  "fields_inside sz (fs @ gs) \<longleftrightarrow> fields_inside sz fs \<and> fields_inside sz gs"
  by (auto simp: fields_inside_def)

lemma listed_fields_in_order:
  "fields_inside sz fs \<Longrightarrow> pos \<le> sz \<Longrightarrow> fields_in_order pos sz fs \<longleftrightarrow> listed_in_order pos fs"
  by (induction fs arbitrary: pos) auto

text \<open>The first field that is out of order.\<close>

lemma first_out_of_order:
  assumes "\<not> listed_in_order pos fs"
  obtains good f rest where "fs = good @ f # rest" "listed_in_order pos good" "field_start f < last_pos pos good"
proof -
  have "\<exists>good f rest. fs = good @ f # rest \<and> listed_in_order pos good \<and> field_start f < last_pos pos good"
    using assms
  proof (induction fs arbitrary: pos)
    case (Cons f fs)
    show ?case
    proof (cases "pos \<le> field_start f")
      case True
      then obtain good g rest where "fs = good @ g # rest" "listed_in_order (field_end f) good"
        "field_start g < last_pos (field_end f) good"
        using Cons.IH [of "field_end f"] Cons.prems by auto
      then show ?thesis using True by (intro exI [of _ "f # good"] exI [of _ g] exI [of _ rest]) simp
    next
      case False
      then show ?thesis by (intro exI [of _ "[]"] exI [of _ f] exI [of _ fs]) simp
    qed
  qed simp
  then show thesis using that by blast
qed

section \<open>The operations of any listing\<close>

text \<open>The operations the plan makes of fields listed in any order, from a 64-bit index.\<close>

fun listed_ops :: "u64 \<Rightarrow> mod_field list \<Rightarrow> packet_operation list" where
  "listed_ops index [] = []"
| "listed_ops index (f # fs) =
     (let start = ucast (rng_start (field_range f)); prev_bytes = start - index
      in (if prev_bytes > 0 then [make_identity (ucast prev_bytes)] else [])
         @ field_op f # listed_ops (start + ucast (rng_second (field_range f))) fs)"

lemma push_previous_listed:
  "push_previous start b =
     b\<lparr>ob_ops := ob_ops b @ (let prev_bytes = ucast start - ob_data_index b
         in if prev_bytes > 0 then [make_identity (ucast prev_bytes)] else []),
       ob_data_index := ucast start\<rparr>"
proof (cases "ucast start - ob_data_index b > 0")
  case True
  then show ?thesis by (simp add: push_previous_def Let_def)
next
  case False
  then have "ucast start - ob_data_index b = 0" using word_neq_0_conv by blast
  then show ?thesis by (simp add: push_previous_def Let_def)
qed

lemma foldE_push_mod_listed:
  assumes "count_list ms Mod_Timestamp + ob_ts_idx b \<le> length (act_timestamp_mods a)"
    and "count_list ms Mod_Counter + ob_c_idx b \<le> length (act_counter_mods a)"
    and "\<forall>f \<in> set (fields_of ms (drop (ob_ts_idx b) (act_timestamp_mods a)) (drop (ob_c_idx b) (act_counter_mods a))).
      field_ok f"
  shows "\<exists>b'. foldE (push_mod a) ms b = Inr b'
     \<and> ob_ops b' = ob_ops b @ listed_ops (ob_data_index b)
         (fields_of ms (drop (ob_ts_idx b) (act_timestamp_mods a)) (drop (ob_c_idx b) (act_counter_mods a)))
     \<and> ob_counters b' = ob_counters b @ map (\<lambda>c. ucast (cm_step c)) (counter_fields
         (fields_of ms (drop (ob_ts_idx b) (act_timestamp_mods a)) (drop (ob_c_idx b) (act_counter_mods a))))"
  using assms
proof (induction ms arbitrary: b)
  case Nil
  then show ?case by simp
next
  case (Cons m ms)
  show ?case
  proof (cases m)
    case Mod_Counter
    let ?c = "act_counter_mods a ! ob_c_idx b"
    have lt: "ob_c_idx b < length (act_counter_mods a)" using Cons.prems(2) Mod_Counter by simp
    then have drop: "drop (ob_c_idx b) (act_counter_mods a) = ?c # drop (Suc (ob_c_idx b)) (act_counter_mods a)"
      by (simp add: Cons_nth_drop_Suc)
    let ?b = "b\<lparr>ob_c_idx := Suc (ob_c_idx b), ob_ops := ob_ops b @ listed_ops (ob_data_index b) [Counter_Field ?c],
        ob_counters := ob_counters b @ [ucast (cm_step ?c)],
        ob_data_index := ucast (rng_start (cm_bytes ?c)) + ucast (rng_second (cm_bytes ?c))\<rparr>"
    have step: "push_mod a m b = Inr ?b"
      using Mod_Counter lt by (simp add: push_mod_def Let_def push_previous_listed)
    show ?thesis
      using Cons.IH [of ?b] Cons.prems drop Mod_Counter step by (simp add: Let_def)
  next
    case Mod_Timestamp
    let ?t = "act_timestamp_mods a ! ob_ts_idx b"
    have lt: "ob_ts_idx b < length (act_timestamp_mods a)" using Cons.prems(1) Mod_Timestamp by simp
    then have drop: "drop (ob_ts_idx b) (act_timestamp_mods a) = ?t # drop (Suc (ob_ts_idx b)) (act_timestamp_mods a)"
      by (simp add: Cons_nth_drop_Suc)
    obtain fmt where fmt: "ts_format_lookup (tm_format_name ?t) = Some fmt"
      using Cons.prems(3) Mod_Timestamp drop by auto
    let ?b = "b\<lparr>ob_ts_idx := Suc (ob_ts_idx b), ob_ops := ob_ops b @ listed_ops (ob_data_index b) [Time_Field ?t],
        ob_data_index := ucast (rng_start (tm_bytes ?t)) + ucast (rng_second (tm_bytes ?t))\<rparr>"
    have step: "push_mod a m b = Inr ?b"
      using Mod_Timestamp lt fmt by (simp add: push_mod_def Let_def push_previous_listed)
    show ?thesis
      using Cons.IH [of ?b] Cons.prems drop Mod_Timestamp step by (simp add: Let_def)
  qed
qed

lemma unat_lt2p_u32: "unat (w :: u32) < 2 ^ 32"
  using unsigned_less [of w, where ?'a = nat] by simp

lemma listed_ops_in_order:
  assumes "listed_in_order pos good" "pos < 2 ^ 33"
  shows "listed_ops (of_nat pos) (good @ fs) = mod_ops pos good @ listed_ops (of_nat (last_pos pos good)) fs"
  using assms
proof (induction good arbitrary: pos)
  case (Cons f good)
  let ?start = "rng_start (field_range f)" and ?len = "rng_second (field_range f)"
  have le: "pos \<le> unat ?start" using Cons.prems(1) by (simp add: field_start_def)
  have lt: "unat ?start < 2 ^ 32" "unat ?len < 2 ^ 32" by (rule unat_lt2p_u32)+
  have diff: "(ucast ?start :: u64) - of_nat pos = of_nat (unat ?start - pos)"
    unfolding ucast_u64_of_nat using le less_trans [OF lt(1), of "2 ^ 64"] by (intro of_nat_u64_minus) simp_all
  have pos: "(of_nat (unat ?start - pos) :: u64) > 0 \<longleftrightarrow> pos < unat ?start"
    using lt(1) by (subst of_nat_u64_pos_iff) (simp_all add: less_imp_diff_less)
  have len: "(ucast (of_nat (unat ?start - pos) :: u64) :: u32) = of_nat (unat ?start - pos)"
    by (rule ucast_u32_of_nat) (simp add: less_imp_diff_less)
  have after: "(ucast ?start :: u64) + ucast ?len = of_nat (field_end f)"
    unfolding ucast_u64_of_nat by (simp only: field_end_def field_start_def field_len_def of_nat_add)
  have "field_end f < 2 ^ 33" 
    unfolding field_end_def field_start_def field_len_def using add_strict_mono [OF lt] by simp
  moreover have "listed_in_order (field_end f) good" using Cons.prems(1) by simp
  ultimately show ?case
    using Cons.IH [of "field_end f"]
    by (simp only: append_Cons listed_ops.simps Let_def diff pos len after mod_ops.simps last_pos.simps gap_ops_def
        field_start_def append_assoc if_distribR)
qed simp

lemma ops_length_mod_ops:
  "listed_in_order pos fs \<Longrightarrow> pos + ops_length (mod_ops pos fs) = last_pos pos fs"
proof (induction fs arbitrary: pos)
  case (Cons f fs)
  then have le: "pos \<le> field_start f" "listed_in_order (field_end f) fs" by simp_all
  have "ops_length (gap_ops pos (field_start f)) = field_start f - pos"
    by (rule ops_length_gap [OF field_start_bound le(1)])
  then show ?case using Cons.IH [OF le(2)] le(1) by (simp add: field_end_def)
qed simp

lemma last_pos_inside: "fields_inside sz fs \<Longrightarrow> pos \<le> sz \<Longrightarrow> last_pos pos fs \<le> sz"
  by (induction fs arbitrary: pos) auto

lemma counter_ops_listed: "counter_ops (listed_ops index fs) = length (counter_fields fs)"
proof (induction fs arbitrary: index)
  case (Cons f fs)
  then show ?case
    by (cases f) (simp_all add: Let_def make_identity_def make_counter_def make_timestamp_def)
qed simp

definition small_fields :: "packet_operation list \<Rightarrow> bool" where
  "small_fields ops \<longleftrightarrow> list_all (\<lambda>op. op_type op = Op_IDENTITY \<or> op_length op \<le> 8) ops"

lemma small_listed: "fields_inside sz fs \<Longrightarrow> small_fields (listed_ops index fs)"
  by (induction fs arbitrary: index) (auto simp: small_fields_def Let_def make_identity_def field_op_small)

text \<open>
  A field that starts before the end \<open>pos\<close> of the one before it: the bytes between them are a
  negative number, whose low 32 bits are the length of the identity operation before the field.
\<close>

lemma listed_ops_back:
  assumes "field_start f < pos" "pos < 2 ^ 32"
  obtains ops where "listed_ops (of_nat pos) (f # rest) =
    make_identity (of_nat (2 ^ 32 - (pos - field_start f))) # ops"
proof -
  let ?start = "rng_start (field_range f)" and ?gap = "pos - field_start f"
  have "(ucast ?start :: u64) - of_nat pos = - of_nat ?gap"
  proof -
    have "(of_nat pos :: u64) = ucast ?start + of_nat ?gap"
      unfolding ucast_u64_of_nat using assms(1) by (simp add: field_start_def flip: of_nat_add)
    then show ?thesis by simp
  qed
  moreover have "(of_nat ?gap :: u64) \<noteq> 0"
  proof
    assume "(of_nat ?gap :: u64) = 0"
    then have "?gap mod 2 ^ 64 = 0" by (simp add: word_of_nat_eq_0_iff mod_eq_0_iff_dvd del: of_nat_diff)
    then show False using assms by simp
  qed
  then have "0 < (- of_nat ?gap :: u64)" by (simp add: word_neq_0_conv [symmetric])
  moreover have "(ucast (- of_nat ?gap :: u64) :: u32) = of_nat (2 ^ 32 - ?gap)"
  proof -
    have "(ucast (- of_nat ?gap :: u64) :: u32) = - of_nat ?gap"
    proof -
      have "(- of_nat ?gap :: u64) = word_of_int (- int ?gap)" by simp
      then have "(ucast (- of_nat ?gap :: u64) :: u32) = word_of_int (take_bit 64 (- int ?gap))"
        by (simp only: unsigned_of_int) simp
      also have "\<dots> = word_of_int (- int ?gap)" by (simp only: word_of_int_eq_iff take_bit_take_bit) simp
      finally show ?thesis by simp
    qed
    also have "\<dots> = of_nat (2 ^ 32) - of_nat ?gap" by simp
    also have "\<dots> = of_nat (2 ^ 32 - ?gap)" using assms by (simp add: of_nat_diff)
    finally show ?thesis .
  qed
  ultimately show thesis
    using that by (simp add: Let_def del: of_nat_diff)
qed

section \<open>Filling what was listed out of order\<close>

lemma fill_op_defined:
  assumes "op_type op = Op_IDENTITY \<or> op_length op \<le> 8" "fs_counter_idx fs + counter_ops [op] \<le> length (fs_counters fs)"
  shows "\<exists>fs'. fill_op clk op fs = Some fs' \<and> fs_offset fs' = fs_offset fs + unat (op_length op)
     \<and> (\<exists>ss. pp_slices (fs_payload fs') = pp_slices (fs_payload fs) @ ss)
     \<and> fs_counter_idx fs' = fs_counter_idx fs + counter_ops [op] \<and> length (fs_counters fs') = length (fs_counters fs)"
proof (cases "op_type op")
  case Op_IDENTITY
  then show ?thesis by (simp add: fill_op_def push_slice_def)
next
  case Op_COUNTER
  then show ?thesis using assms
    by (simp add: fill_op_def insert_numeric_def fetch_add_def write_numeric_field_bytes Let_def push_slice_def
        temps_append_def)
next
  case Op_TIMESTAMP
  then show ?thesis using assms
    by (simp add: fill_op_def insert_numeric_def write_numeric_field_bytes Let_def push_slice_def temps_append_def)
qed

lemma fill_ops_defined:
  assumes "small_fields ops" "fs_counter_idx fs + counter_ops ops \<le> length (fs_counters fs)"
  shows "\<exists>fs'. fill_ops clk ops fs = Some fs' \<and> fs_offset fs' = fs_offset fs + ops_length ops
     \<and> (\<exists>ss. pp_slices (fs_payload fs') = pp_slices (fs_payload fs) @ ss)
     \<and> fs_counter_idx fs' = fs_counter_idx fs + counter_ops ops \<and> length (fs_counters fs') = length (fs_counters fs)"
  using assms
proof (induction ops arbitrary: fs)
  case (Cons op ops)
  have small: "op_type op = Op_IDENTITY \<or> op_length op \<le> 8" "small_fields ops"
    using Cons.prems(1) by (simp_all add: small_fields_def)
  obtain fs1 ss where fs1: "fill_op clk op fs = Some fs1" "fs_offset fs1 = fs_offset fs + unat (op_length op)"
    "pp_slices (fs_payload fs1) = pp_slices (fs_payload fs) @ ss"
    "fs_counter_idx fs1 = fs_counter_idx fs + counter_ops [op]" "length (fs_counters fs1) = length (fs_counters fs)"
    using fill_op_defined [OF small(1), of fs clk] Cons.prems(2) by auto
  then show ?case using Cons.IH [OF small(2), of fs1] Cons.prems(2) by auto
qed simp

lemma fill_ops_append: "fill_ops clk (xs @ ys) fs = Option.bind (fill_ops clk xs fs) (fill_ops clk ys)"
proof (induction xs arbitrary: fs)
  case (Cons x xs)
  then show ?case by (cases "fill_op clk x fs") simp_all
qed simp

lemma gather_slices_None: "b \<in> set bs \<Longrightarrow> slice_bytes packet p b = None \<Longrightarrow> gather_slices packet p bs = None"
  by (induction bs) (auto split: option.split)

text \<open>An identity operation that reaches past the end of the packet makes a buffer nothing can read.\<close>

lemma fill_ops_overrun:
  assumes "small_fields (xs @ make_identity n # ys)"
    and "fs_counter_idx fs + counter_ops (xs @ make_identity n # ys) \<le> length (fs_counters fs)"
    and "fs_offset fs + ops_length xs + unat n > length packet"
  shows "\<exists>fs'. fill_ops clk (xs @ make_identity n # ys) fs = Some fs' \<and> gather packet (fs_payload fs') = None"
proof -
  let ?id = "make_identity n"
  obtain fs1 where fs1: "fill_ops clk xs fs = Some fs1" "fs_offset fs1 = fs_offset fs + ops_length xs"
    "fs_counter_idx fs1 = fs_counter_idx fs + counter_ops xs" "length (fs_counters fs1) = length (fs_counters fs)"
    using fill_ops_defined [of xs fs clk] assms(1,2) by (auto simp: small_fields_def)
  let ?b = "Packet_Slice (fs_offset fs1) (unat n)"
  let ?fs2 = "fs1\<lparr>fs_payload := push_slice ?b (fs_payload fs1), fs_offset := fs_offset fs1 + unat n\<rparr>"
  have step: "fill_op clk ?id fs1 = Some ?fs2" by (simp add: fill_op_def make_identity_def)
  have "small_fields ys" "fs_counter_idx ?fs2 + counter_ops ys \<le> length (fs_counters ?fs2)"
    using assms(1,2) fs1(3,4) by (simp_all add: small_fields_def make_identity_def)
  then obtain fs' ss where fs': "fill_ops clk ys ?fs2 = Some fs'"
    "pp_slices (fs_payload fs') = pp_slices (fs_payload ?fs2) @ ss"
    using fill_ops_defined by blast
  have "?b \<in> set (pp_slices (fs_payload fs'))" using fs'(2) by (simp add: push_slice_def)
  moreover have "slice_bytes packet (fs_payload fs') ?b = None"
    using assms(3) fs1(2) by (simp add: slice_bytes_def)
  ultimately have "gather packet (fs_payload fs') = None" unfolding gather_def by (rule gather_slices_None)
  then show ?thesis using fs1(1) step fs'(1) by (simp add: fill_ops_append)
qed

text \<open>The operations planned for a SEND, however its fields are listed, and their last identity.\<close>

definition planned_ops :: "mod_field list \<Rightarrow> packet_operation list \<Rightarrow> bool" where
  "planned_ops fs ops \<longleftrightarrow> (\<exists>n. ops = listed_ops 0 fs \<or> ops = listed_ops 0 fs @ [make_identity n])"

lemma build_payload_listed:
  assumes "fields_inside (length buf) (send_fields a)" "mods_accounted a" "act_mod_order a \<noteq> []"
  obtains ops where "build_payload a buf = Inr (\<lparr>pd_packet_data = buf, pd_ops = ops\<rparr>, send_steps a)"
    "planned_ops (send_fields a) ops"
proof -
  obtain b where b: "foldE (push_mod a) (act_mod_order a) initial_builder = Inr b"
    "ob_ops b = listed_ops 0 (send_fields a)" "ob_counters b = send_steps a"
    using foldE_push_mod_listed [of "act_mod_order a" initial_builder a] assms(1,2)
    by (auto simp: initial_builder_def send_fields_def mods_accounted_def fields_inside_def send_steps_def)
  let ?n = "of_nat (length buf) :: u64"
  show thesis
  proof (cases "ob_data_index b < ?n")
    case True
    let ?ops = "ob_ops b @ [make_identity (ucast (?n - ob_data_index b))]"
    show thesis using assms(3) b True by (intro that [of ?ops]) (auto simp: build_payload_def Let_def planned_ops_def)
  next
    case False
    show thesis using assms(3) b False by (intro that [of "ob_ops b"]) (simp_all add: build_payload_def Let_def planned_ops_def)
  qed
qed

lemma planned_ops_overrun:
  assumes "planned_ops fs ops" "fields_inside sz fs" "sz < 2 ^ 32" "\<not> listed_in_order 0 fs"
  obtains xs n ys where "ops = xs @ make_identity n # ys" "ops_length xs + unat n > sz"
proof -
  obtain good f rest where fs: "fs = good @ f # rest" "listed_in_order 0 good" "field_start f < last_pos 0 good"
    by (rule first_out_of_order [OF assms(4)])
  let ?p = "last_pos 0 good"
  have p: "?p \<le> sz" using assms(2) fs(1) by (intro last_pos_inside) simp_all
  then obtain ys where ys: "listed_ops (of_nat ?p) (f # rest) = make_identity (of_nat (2 ^ 32 - (?p - field_start f))) # ys"
    using listed_ops_back [OF fs(3), of rest] assms(3) by auto
  have "listed_ops 0 fs = mod_ops 0 good @ make_identity (of_nat (2 ^ 32 - (?p - field_start f))) # ys"
    using listed_ops_in_order [OF fs(2), of "f # rest"] ys fs(1) by simp
  moreover have "ops_length (mod_ops 0 good) = ?p" using ops_length_mod_ops [OF fs(2)] by simp
  moreover have "unat (of_nat (2 ^ 32 - (?p - field_start f)) :: u32) = 2 ^ 32 - (?p - field_start f)"
    using fs(3) by (simp add: unat_of_nat del: of_nat_diff)
  ultimately show thesis
    using assms(1,3) p fs(3) that [of "mod_ops 0 good"] by (auto simp: planned_ops_def)
qed

section \<open>The SENDs of an accepted script\<close>

text \<open>The file of a SEND's packet, and scripts whose packets are below 4 GiB.\<close>

definition sent_packet :: "os \<Rightarrow> resolver_options \<Rightarrow> dsl_data \<Rightarrow> action \<Rightarrow> u8 list option" where
  "sent_packet env opts script a =
     Option.bind (map_of (st_packet_identifiers (ds_settings script)) (act_packet_identifier a)) (packet_of env opts)"

definition small_packets :: "os \<Rightarrow> resolver_options \<Rightarrow> dsl_data \<Rightarrow> bool" where
  "small_packets env opts script \<longleftrightarrow>
     (\<forall>e \<in> set (st_packet_identifiers (ds_settings script)). \<forall>packet.
        packet_of env opts (snd e) = Some packet \<longrightarrow> length packet < 2 ^ 32)"

definition sends_listed_in_order :: "dsl_data \<Rightarrow> bool" where
  "sends_listed_in_order script \<longleftrightarrow>
     (\<forall>a \<in> set (or_actions (ds_orchestrator script)). act_type a = SEND \<longrightarrow> listed_in_order 0 (send_fields a))"

lemma packet_of_length:
  assumes "packet_of env opts fname = Some packet" "resolve_file env opts fname = Inr path"
  shows "length packet = unat (get_file_size env path)" "packet \<noteq> []"
  using assms by (auto simp: packet_of_def read_bytes_def unat_eq_zero split: if_splits option.splits)

lemma send_fields_subset:
  "set (fields_of ms ts cs) \<subseteq> Time_Field ` set ts \<union> Counter_Field ` set cs"
  by (induction ms ts cs rule: fields_of.induct) auto

lemma valid_time_format: "name \<in> set VALID_TIME_FORMATS \<Longrightarrow> ts_format_lookup name \<noteq> None"
  by (auto simp: VALID_TIME_FORMATS_def ts_format_lookup_def)

text \<open>The validator's 32-bit end of a field is its end, since the parser keeps its start below \<open>2 ^ 31\<close>.\<close>

lemma small_end:
  assumes "rng_start r < 2 ^ 31" "rng_second r \<le> 8" "(ucast (end_from_length r) :: u64) < n"
  shows "unat (rng_start r) + unat (rng_second r) < unat n"
proof -
  have "unat (rng_start r) < 2 ^ 31" "unat (rng_second r) \<le> 8"
    using assms(1,2) by (simp_all add: word_less_nat_alt word_le_nat_alt)
  then have "unat (end_from_length r) = unat (rng_start r) + unat (rng_second r)"
    unfolding end_from_length_def by (subst unat_word_ariths) simp
  moreover have "unat (ucast (end_from_length r) :: u64) = unat (end_from_length r)"
    using less_trans [OF unat_lt2p_u32 [of "end_from_length r"], of "2 ^ 64"]
    by (simp add: unsigned_ucast_eq take_bit_nat_eq_self_iff)
  ultimately show ?thesis using assms(3) by (simp only: word_less_nat_alt)
qed

lemma accepted_fields:
  assumes "parse_script env opts hs bm uninit name = Inr script"
    and "a \<in> set (or_actions (ds_orchestrator script))" "act_type a = SEND" "sent_packet env opts script a = Some packet"
  shows "packet \<noteq> []" "fields_inside (length packet) (send_fields a)"
proof -
  have v: "verify_script env opts script = Inr ()" using parse_script_Inr [OF assms(1)] by metis
  have m: "mods_parsed a" using interpreted_parsed [OF assms(1)] assms(2) by (simp add: well_parsed_def list_all_iff)
  obtain fname path where fid: "map_of (st_packet_identifiers (ds_settings script)) (act_packet_identifier a) = Some fname"
      "resolve_file env opts fname = Inr path" "get_file_size env path \<noteq> 0"
    and ts: "\<forall>m \<in> set (act_timestamp_mods a). rng_second (tm_bytes m) \<le> 8
       \<and> ucast (end_from_length (tm_bytes m)) < get_file_size env path \<and> tm_format_name m \<in> set VALID_TIME_FORMATS"
    and cs: "\<forall>m \<in> set (act_counter_mods a). rng_second (cm_bytes m) \<le> 8
       \<and> ucast (end_from_length (cm_bytes m)) < get_file_size env path \<and> cm_step m \<noteq> 0"
    by (rule verified_send_packet [OF v assms(2,3)])
  have p: "packet_of env opts fname = Some packet" using assms(4) fid(1) by (simp add: sent_packet_def)
  note len = packet_of_length [OF p fid(2)]
  show "packet \<noteq> []" by (rule len(2))
  have "field_ok f \<and> field_end f \<le> length packet" if f: "f \<in> set (send_fields a)" for f
  proof -
    consider t where "f = Time_Field t" "t \<in> set (act_timestamp_mods a)"
      | c where "f = Counter_Field c" "c \<in> set (act_counter_mods a)"
      using f send_fields_subset [of "act_mod_order a" "act_timestamp_mods a" "act_counter_mods a"]
      unfolding send_fields_def by blast
    then show ?thesis
    proof cases
      case 1
      then show ?thesis
        using ts m small_end [of "tm_bytes t" "get_file_size env path"] valid_time_format
        by (auto simp: mods_parsed_def list_all_iff field_end_def field_start_def field_len_def len(1) intro: less_imp_le)
    next
      case 2
      then show ?thesis
        using cs m small_end [of "cm_bytes c" "get_file_size env path"]
        by (auto simp: mods_parsed_def list_all_iff field_end_def field_start_def field_len_def len(1) intro: less_imp_le)
    qed
  qed
  then show "fields_inside (length packet) (send_fields a)" by (simp add: fields_inside_def)
qed

lemma accepted_packet:
  assumes "parse_script env opts hs bm uninit name = Inr script"
    and "load_packets env opts ok (st_packet_identifiers (ds_settings script)) = Inr st" "distinct_packets env opts script"
    and "a \<in> set (or_actions (ds_orchestrator script))" "act_type a = SEND"
  obtains k where "ps_identity_map st (act_packet_identifier a) = Some k" "k < length (ps_packet_data st)"
    "sent_packet env opts script a = Some (ps_packet_data st ! k)"
proof -
  have v: "verify_script env opts script = Inr ()" using parse_script_Inr [OF assms(1)] by metis
  obtain fname where fid: "map_of (st_packet_identifiers (ds_settings script)) (act_packet_identifier a) = Some fname"
    using verified_send_packet [OF v assms(4,5)] by metis
  have "packet_loaded env opts st (act_packet_identifier a, fname)"
    using load_packets_loaded [OF assms(2) map_of_SomeD [OF fid]] assms(3) by (simp add: distinct_packets_def)
  then show thesis using that fid by (auto simp: packet_loaded_def sent_packet_def)
qed

lemma sent_packet_small:
  "sent_packet env opts script a = Some packet \<Longrightarrow> small_packets env opts script \<Longrightarrow> length packet < 2 ^ 32"
  by (auto simp: sent_packet_def small_packets_def bind_eq_Some_conv dest: map_of_SomeD)

lemma accepted_well_formed_send:
  assumes "parse_script env opts hs bm uninit name = Inr script" "small_packets env opts script"
    and "a \<in> set (or_actions (ds_orchestrator script))" "act_type a = SEND" "sent_packet env opts script a = Some packet"
    and "listed_in_order 0 (send_fields a)"
  shows "well_formed_send env opts script a packet"
  using accepted_fields [OF assms(1,3,4,5)] assms(5,6) interpreted_mods [OF assms(1)] assms(3)
    sent_packet_small [OF assms(5,2)]
  by (auto simp: well_formed_send_def listed_fields_in_order sent_packet_def bind_eq_Some_conv
      intro!: bexI [OF _ map_of_SomeD])

lemma accepted_well_formed:
  assumes "parse_script env opts hs bm uninit name = Inr script"
    and "generate_plan_common env opts ok uninit' script factory host = Inr plan"
    and "distinct_packets env opts script" "small_packets env opts script" "sends_listed_in_order script"
  shows "well_formed_sends env opts script"
proof -
  obtain st where st: "load_packets env opts ok (st_packet_identifiers (ds_settings script)) = Inr st"
    using plan_common_Inr [OF assms(2)] by metis
  have "\<exists>packet. well_formed_send env opts script a packet"
    if "a \<in> set (or_actions (ds_orchestrator script))" "act_type a = SEND" for a
    using accepted_packet [OF assms(1) st assms(3) that] accepted_well_formed_send [OF assms(1,4) that] assms(5) that
    by (metis sends_listed_in_order_def)
  then show ?thesis using assms(3) by (simp add: well_formed_sends_def)
qed

text \<open>A well-formed SEND has one packet, the file its identifier names.\<close>

lemma well_formed_sent_packet:
  "distinct_packets env opts script \<Longrightarrow> well_formed_send env opts script a packet
    \<Longrightarrow> sent_packet env opts script a = Some packet"
  by (auto simp: well_formed_send_def distinct_packets_def sent_packet_def)

lemma misordered_fill:
  assumes "index < length (pm_payloads m)" "pm_payloads m ! index = \<lparr>pd_packet_data = packet, pd_ops = ops\<rparr>"
    and "planned_ops fs ops" "fields_inside (length packet) fs" "length packet < 2 ^ 32" "\<not> listed_in_order 0 fs"
    and "length (pm_counters m ! index) = length (counter_fields fs)"
  shows "\<exists>m' p. fill_payload clk index m payload = Some (True, m', p) \<and> gather packet p = None"
proof -
  have ops: "small_fields ops" "counter_ops ops = length (counter_fields fs)"
    using assms(3) small_listed [OF assms(4)]
    by (auto simp: planned_ops_def counter_ops_listed small_fields_def make_identity_def)
  obtain xs n ys where split: "ops = xs @ make_identity n # ys" "ops_length xs + unat n > length packet"
    by (rule planned_ops_overrun [OF assms(3-6)])
  let ?fs = "\<lparr>fs_payload = temps_reserve (total_temp_bytes ops) (payload_clear payload), fs_offset = 0,
      fs_counter_idx = 0, fs_counters = pm_counters m ! index, fs_clock_reads = 0\<rparr>"
  have "\<exists>fs'. fill_ops clk ops ?fs = Some fs' \<and> gather packet (fs_payload fs') = None"
    unfolding split(1) by (rule fill_ops_overrun) (use ops split assms(7) in simp_all)
  then show ?thesis using assms(1,2) by (auto simp: fill_payload_def Let_def)
qed

text \<open>The payload of one copy of a SEND, for a SEND of an accepted script.\<close>

lemma accepted_send_fill:
  assumes parsed: "parse_script env opts hs bm uninit name = Inr script"
    and plan: "generate_plan_common env opts ok uninit' script factory host = Inr plan"
    and act: "or_actions (ds_orchestrator script) = pre @ a # post" "act_type a = SEND" "c < unat (act_count a)"
    and files: "distinct_packets env opts script" "small_packets env opts script"
  shows "\<exists>packet m' p. sent_packet env opts script a = Some packet
     \<and> fill_payload clk (send_copies pre + c) (new_payload_manager (pl_payloads plan) (pl_counter_steps plan)) payload
         = Some (True, m', p)
     \<and> gather packet p = (if listed_in_order 0 (send_fields a)
         then Some (patched clk 0 (fresh_counters (send_steps a)) (send_fields a) packet) else None)"
proof -
  let ?m = "new_payload_manager (pl_payloads plan) (pl_counter_steps plan)" and ?i = "send_copies pre + c"
  obtain st pb where st: "load_packets env opts ok (st_packet_identifiers (ds_settings script)) = Inr st"
    and pb: "foldE (plan_action uninit' st) (pre @ a # post) empty_plan_builder = Inr pb"
    and pl: "pl_payloads plan = pb_payloads pb" "pl_counter_steps plan = pb_counter_steps pb"
    using plan_common_Inr [OF plan] act(1) by metis
  have a: "a \<in> set (or_actions (ds_orchestrator script))" using act(1) by simp
  obtain k where k: "ps_identity_map st (act_packet_identifier a) = Some k"
      "sent_packet env opts script a = Some (ps_packet_data st ! k)"
    using accepted_packet [OF parsed st files(1) a act(2)] by metis
  let ?packet = "ps_packet_data st ! k"
  note inside = accepted_fields(2) [OF parsed a act(2) k(2)]
  note small = sent_packet_small [OF k(2) files(2)]
  show ?thesis
  proof (cases "listed_in_order 0 (send_fields a)")
    case True
    note wf = accepted_well_formed_send [OF parsed files(2) a act(2) k(2) True]
    note at = planned_payload [OF plan act files(1) wf]
    show ?thesis
      using layout_fill [OF _ small at(1), of "send_fields a" clk payload] at k(2) wf True
      by (auto simp: well_formed_send_def send_descriptor_def fresh_counters_def send_steps_def)
  next
    case False
    have mods: "mods_accounted a" using interpreted_mods [OF parsed] a by blast
    obtain desc cl where desc: "build_payload a ?packet = Inr (desc, cl)" "pb_payloads pb ! ?i = desc"
        "pb_counter_steps pb ! ?i = cl"
      using plan_send_payloads [OF pb act(2,3)] k(1) by (metis option.inject)
    have "act_mod_order a \<noteq> []" using False by (auto simp: send_fields_def)
    then obtain ops where ops: "build_payload a ?packet = Inr (\<lparr>pd_packet_data = ?packet, pd_ops = ops\<rparr>, send_steps a)"
        "planned_ops (send_fields a) ops"
      using build_payload_listed [OF inside mods] by metis
    have eq: "desc = \<lparr>pd_packet_data = ?packet, pd_ops = ops\<rparr>" "cl = send_steps a"
      using desc(1) ops(1) by simp_all
    have "length (pb_payloads pb) = send_copies (pre @ a # post)" "length (pb_counter_steps pb) = send_copies (pre @ a # post)"
      using plan_actions_ok [OF pb] by (simp_all add: builder_ok_def)
    then have at: "?i < length (pm_payloads ?m)" "pm_payloads ?m ! ?i = \<lparr>pd_packet_data = ?packet, pd_ops = ops\<rparr>"
        "length (pm_counters ?m ! ?i) = length (counter_fields (send_fields a))"
      using new_payload_manager_counters [of "pb_payloads pb" "pb_counter_steps pb"] act(2,3) desc(2,3)
      unfolding eq by (simp_all add: pl fresh_counters_def) (simp add: send_steps_def)
    show ?thesis
      using misordered_fill [OF at(1,2) ops(2) inside small False at(3), of clk payload] k(2) False by auto
  qed
qed

end
