(* ===== verification/Sample_File.thy ===== *)
theory Sample_File
  imports Sample_Script Script_Print Accepted_Sends
begin

text \<open>
  The sample script printed into a file, which the interpreter reads back.
\<close>

lemma sample_printable: "printable_script 0 sample_script"
  by (simp add: printable_script_def printable_settings_def printable_action_def small_def small_range_def
      mods_accounted_def VALID_TIME_FORMATS_def sample_defs)

lemma number_spellable: "BACKSLASH \<notin> set (to_string n)"
  using to_string_isdigit [of BACKSLASH n] by (auto simp: isdigit_def char_code_def)

lemma sample_spellable: "spellable_script sample_script"
  by (simp add: spellable_script_def print_script_def print_settings_def print_scalars_def print_assign_def
      print_num_def print_bool_def print_packet_def print_orchestrator_def print_action_def print_range_def
      print_offset_def print_endian_def print_timestamp_def print_counter_def printable_token_def number_spellable
      is_ident_char_def isalpha_def isalnum_def isdigit_def char_code_def VALID_KEYWORDS_def sample_defs)

lemma sample_script_verified: "verify_script sample_os sample_options sample_script = Inr ()"
  using sample_verified by (auto simp: isl_def) (metis (full_types) old.unit.exhaust sum.exhaust)

text \<open>The system of the samples with a script in a file; it reads back what was printed.\<close>

definition file_os :: "string \<Rightarrow> os" where
  "file_os source = sample_os\<lparr>
     os_canonical := (\<lambda>path. if path = ''s.ldsh'' then Inr path else os_canonical sample_os path),
     os_file_size := (\<lambda>path. if path = ''s.ldsh'' then Some (of_nat (length source)) else os_file_size sample_os path),
     os_contents := (\<lambda>path. if path = ''s.ldsh'' then Some (map (\<lambda>c. of_nat (of_char c)) source)
                              else os_contents sample_os path)\<rparr>"

lemma file_os_parts [simp]:
  "os_getenv (file_os source) = os_getenv sample_os" "os_hardware_concurrency (file_os source) = 4"
  "os_canonical (file_os source) ''s.ldsh'' = Inr ''s.ldsh''"
  "os_file_size (file_os source) ''s.ldsh'' = Some (of_nat (length source))"
  by (simp_all add: file_os_def sample_os_def)

lemma file_read:
  assumes "source \<noteq> []" "length source < 2 ^ 64"
  shows "read_script (file_os source) sample_options ''s.ldsh'' = Inr source"
proof -
  have "char_of (unat (of_nat (of_char c) :: u8)) = c" for c :: char
    using nat_of_char_less_256 [of c] by (simp add: unat_of_nat)
  then have bytes: "map (\<lambda>b. char_of (unat b)) (map (\<lambda>c. of_nat (of_char c) :: u8) source) = source"
    by (simp add: comp_def)
  have size: "unat (of_nat (length source) :: u64) = length source" using assms(2) by (simp add: unat_of_nat)
  then have "(of_nat (length source) :: u64) \<noteq> 0" using assms(1) by (metis length_0_conv unat_0)
  moreover have "os_contents (file_os source) ''s.ldsh'' = Some (map (\<lambda>c. of_nat (of_char c)) source)"
    by (simp add: file_os_def)
  ultimately show ?thesis
    using bytes size by (simp add: read_script_def resolve_file_def sample_options_def expand_tilde_def get_file_size_def
        read_bytes_def)
qed

lemma printed_file_parsed:
  assumes "printable_script 0 d" "spellable_script d" "length (render_tokens (print_script d)) < 2 ^ 64"
    and "set_script_defaults (file_os (render_tokens (print_script d))) (ds_settings d) = ds_settings d"
    and "verify_script (file_os (render_tokens (print_script d))) sample_options d = Inr ()"
  shows "parse_script (file_os (render_tokens (print_script d))) sample_options 7 9 0 ''s.ldsh'' = Inr d"
proof -
  let ?source = "render_tokens (print_script d)"
  have "\<forall>t \<in> set (print_script d). printable_token t"
    using assms(2) by (simp add: spellable_script_def list_all_iff)
  then obtain ts where ts: "tokenize ?source = Inr ts" "map token_core ts = print_script d"
    using tokenize_loop_render [of "print_script d" "new_lexer ?source" "[]"]
    by (auto simp: tokenize_def new_lexer_def)
  have ne: "ts \<noteq> []" using ts(2) by (auto simp: print_script_def print_settings_def)
  have "tokenize [] = Inr []" by code_simp
  then have "?source \<noteq> []" using ts(1) ne by auto
  then show ?thesis
    using parse_print_script [OF ts(2) assms(1), of 7 9] ne ts(1) file_read [OF _ assms(3)] assms(4,5)
    by (simp add: parse_script_def prefixE_def guardE_def Let_def)
qed

definition sample_source :: string where
  "sample_source = render_tokens (print_script sample_script)"

definition script_os :: os where
  "script_os = file_os sample_source"

lemma sample_source_length: "length sample_source = 414"
  by code_simp

lemma sample_defaults: "set_script_defaults e sample_settings = sample_settings"
  by (simp add: set_script_defaults_def sample_settings_def default_settings_def)

lemma sample_verified_here: "isl (verify_script script_os sample_options sample_script) = False"
  by code_simp

lemma not_isl_unit: "isl (r :: unit result) = False \<Longrightarrow> r = Inr ()"
  by (cases r) simp_all

lemma sample_parsed: "parse_script script_os sample_options 7 9 0 ''s.ldsh'' = Inr sample_script"
  unfolding script_os_def sample_source_def
  using sample_source_length not_isl_unit [OF sample_verified_here] sample_defaults
  by (intro printed_file_parsed sample_printable sample_spellable)
    (simp_all add: sample_source_def script_os_def sample_script_def)

text \<open>The sample script's plan.\<close>

definition script_plan :: execution_plan where
  "script_plan =
     projr (generate_plan_common script_os sample_options (\<lambda>_. True) 0 sample_script NOP_Factory (TCP_Hosts []))"

lemma script_plan_generated:
  "generate_plan_common script_os sample_options (\<lambda>_. True) 0 sample_script NOP_Factory (TCP_Hosts []) = Inr script_plan"
proof -
  have "isl (generate_plan_common script_os sample_options (\<lambda>_. True) 0 sample_script NOP_Factory (TCP_Hosts [])) = False"
    by code_simp
  then show ?thesis by (simp add: script_plan_def)
qed


lemma script_files:
  "distinct_packets script_os sample_options sample_script" "small_packets script_os sample_options sample_script"
  by (auto simp: distinct_packets_def small_packets_def sample_defs resolve_file_def expand_tilde_def script_os_def
      file_os_def packet_of_def get_file_size_def read_bytes_def)

lemma sample_listed: "sends_listed_in_order sample_script"
  by (simp add: sends_listed_in_order_def sample_script_def)
    (simp add: send_fields_def sample_defs field_start_def field_end_def field_len_def)

lemma script_well_formed: "well_formed_sends script_os sample_options sample_script"
  by (rule accepted_well_formed [OF sample_parsed script_plan_generated script_files sample_listed])

lemma script_packet: "sent_packet script_os sample_options sample_script sample_send = Some sample_file"
  by (simp add: sent_packet_def sample_defs packet_of_def resolve_file_def expand_tilde_def get_file_size_def
      read_bytes_def script_os_def file_os_def)

text \<open>A script whose SEND lists a field before one that starts earlier.\<close>

definition swapped_send :: action where
  "swapped_send =
     push_counter \<lparr>cm_bytes = sample_range 0 2, cm_step = 3, cm_little_endian = True\<rparr>
       (push_timestamp \<lparr>tm_bytes = sample_range 6 1, tm_little_endian = True, tm_format_name = ''seconds''\<rparr>
          ((new_action SEND 2)\<lparr>act_range := sample_range 0 1, act_offset_ms := 7, act_packet_identifier := ''p1''\<rparr>))"

definition swapped_script :: dsl_data where
  "swapped_script =
     sample_script\<lparr>ds_orchestrator := (ds_orchestrator sample_script)\<lparr>or_actions :=
       [sample_create, sample_connect, swapped_send]\<rparr>\<rparr>"

definition swapped_os :: os where
  "swapped_os = file_os (render_tokens (print_script swapped_script))"

lemma swapped_printable: "printable_script 0 swapped_script"
  by (simp add: printable_script_def printable_settings_def printable_action_def small_def small_range_def
      mods_accounted_def VALID_TIME_FORMATS_def swapped_script_def swapped_send_def sample_defs)

lemma swapped_spellable: "spellable_script swapped_script"
  by (simp add: spellable_script_def print_script_def print_settings_def print_scalars_def print_assign_def
      print_num_def print_bool_def print_packet_def print_orchestrator_def print_action_def print_range_def
      print_offset_def print_endian_def print_timestamp_def print_counter_def printable_token_def number_spellable
      is_ident_char_def isalpha_def isalnum_def isdigit_def char_code_def VALID_KEYWORDS_def swapped_script_def
      swapped_send_def sample_defs)

lemma swapped_source_length: "length (render_tokens (print_script swapped_script)) < 500"
  by code_simp

lemma swapped_verified: "isl (verify_script swapped_os sample_options swapped_script) = False"
  by code_simp

lemma swapped_parsed: "parse_script swapped_os sample_options 7 9 0 ''s.ldsh'' = Inr swapped_script"
  unfolding swapped_os_def
  using swapped_source_length not_isl_unit [OF swapped_verified] sample_defaults
  by (intro printed_file_parsed swapped_printable swapped_spellable)
    (simp_all add: swapped_os_def swapped_script_def sample_script_def)

definition swapped_plan :: execution_plan where
  "swapped_plan =
     projr (generate_plan_common swapped_os sample_options (\<lambda>_. True) 0 swapped_script NOP_Factory (TCP_Hosts []))"

lemma swapped_plan_generated:
  "generate_plan_common swapped_os sample_options (\<lambda>_. True) 0 swapped_script NOP_Factory (TCP_Hosts []) = Inr swapped_plan"
proof -
  have "isl (generate_plan_common swapped_os sample_options (\<lambda>_. True) 0 swapped_script NOP_Factory (TCP_Hosts [])) = False"
    by code_simp
  then show ?thesis by (simp add: swapped_plan_def)
qed

lemma swapped_files:
  "distinct_packets swapped_os sample_options swapped_script" "small_packets swapped_os sample_options swapped_script"
  by (auto simp: distinct_packets_def small_packets_def swapped_script_def sample_defs resolve_file_def expand_tilde_def
      swapped_os_def file_os_def packet_of_def get_file_size_def read_bytes_def)

lemma swapped_actions:
  "or_actions (ds_orchestrator swapped_script) = [sample_create, sample_connect] @ swapped_send # []"
  "act_type swapped_send = SEND" "unat (act_count swapped_send) = 2"
  by (simp_all add: swapped_script_def swapped_send_def push_counter_def push_timestamp_def new_action_def)

lemma swapped_listed: "\<not> listed_in_order 0 (send_fields swapped_send)"
  by (simp add: send_fields_def swapped_send_def sample_defs field_start_def field_end_def field_len_def)

text \<open>A script that floods no session before it creates any.\<close>

definition flood_script :: dsl_data where
  "flood_script =
     sample_script\<lparr>ds_orchestrator := (ds_orchestrator sample_script)\<lparr>or_actions :=
       (new_action FLOOD 0)\<lparr>act_range := sample_range 0 0\<rparr> # or_actions (ds_orchestrator sample_script)\<rparr>\<rparr>"

definition flood_os :: os where
  "flood_os = file_os (render_tokens (print_script flood_script))"

lemma flood_printable: "printable_script 0 flood_script"
  using sample_printable by (simp add: flood_script_def printable_script_def printable_action_def small_def small_range_def
      sample_range_def new_action_def)

lemma flood_spellable: "spellable_script flood_script"
  by (simp add: spellable_script_def print_script_def print_settings_def print_scalars_def print_assign_def
      print_num_def print_bool_def print_packet_def print_orchestrator_def print_action_def print_range_def
      print_offset_def print_endian_def print_timestamp_def print_counter_def printable_token_def number_spellable
      is_ident_char_def isalpha_def isalnum_def isdigit_def char_code_def VALID_KEYWORDS_def flood_script_def sample_defs)

lemma flood_source_length: "length (render_tokens (print_script flood_script)) < 500"
  by code_simp

lemma flood_verified: "isl (verify_script flood_os sample_options flood_script) = False"
  by code_simp

lemma flood_parsed: "parse_script flood_os sample_options 7 9 0 ''s.ldsh'' = Inr flood_script"
  unfolding flood_os_def
  using flood_source_length not_isl_unit [OF flood_verified] sample_defaults
  by (intro printed_file_parsed flood_printable flood_spellable)
    (simp_all add: flood_os_def flood_script_def sample_script_def)

lemma flood_plan_isl:
  "isl (generate_plan_common flood_os sample_options (\<lambda>_. True) 0 flood_script NOP_Factory (TCP_Hosts [])) = False"
  by code_simp

text \<open>Its plan over TCP, with one endpoint.\<close>

definition sample_endpoint :: endpoint where
  "sample_endpoint = \<lparr>ep_address = ''127.0.0.1'', ep_port = 80\<rparr>"

lemma sample_tcp_plan_isl:
  "isl (generate_execution_plan_tcp script_os sample_options (\<lambda>_. True) 0 (\<lambda>_ _. [sample_endpoint]) (\<lambda>_. True) sample_script) = False"
  by code_simp

lemma sample_tcp_plan:
  obtains plan where
    "generate_execution_plan_tcp script_os sample_options (\<lambda>_. True) 0 (\<lambda>_ _. [sample_endpoint]) (\<lambda>_. True) sample_script = Inr plan"
  using sample_tcp_plan_isl by (cases "generate_execution_plan_tcp script_os sample_options (\<lambda>_. True) 0
    (\<lambda>_ _. [sample_endpoint]) (\<lambda>_. True) sample_script") auto

end
