(* ===== verification/Script_Properties.thy ===== *)
theory Script_Properties
  imports Sample_File
begin

text \<open>
  The properties of the script language: the lexer, the parser, the validator and the
  resolution of paths.
\<close>

section \<open>Lexer and parser\<close>

text \<open>C32: every token the lexer returns stands in the source at the line and column it carries,
  and its text is what its type says of the piece of source there: a keyword, an identifier, an
  operator, a brace, a bare value, or the content of a quoted value with its escapes undone.\<close>

theorem tokens_come_from_source:
  assumes "tokenize source = Inr ts"
  shows "\<forall>t \<in> set ts. token_in_source source t"
  using tokenize_loop_in_source [of "new_lexer source" "[]" ts source] assms lexer_at_new
  by (simp add: tokenize_def)

theorem tokens_come_from_source_witness:
  "\<exists>ts. tokenize (render_tokens [(Keyword, ''SEND''), (Value, ''0'')]) = Inr ts
     \<and> list_all (token_in_source (render_tokens [(Keyword, ''SEND''), (Value, ''0'')])) ts"
proof -
  have "\<forall>t \<in> set [(Keyword, ''SEND''), (Value, ''0'')]. printable_token t"
    by (simp add: printable_token_def VALID_KEYWORDS_def)
  then obtain ts where "tokenize (render_tokens [(Keyword, ''SEND''), (Value, ''0'')]) = Inr ts"
    using tokenize_loop_render [of "[(Keyword, ''SEND''), (Value, ''0'')]" "new_lexer (render_tokens [(Keyword, ''SEND''), (Value, ''0'')])" "[]"]
    by (auto simp: tokenize_def new_lexer_def)
  then show ?thesis using tokens_come_from_source by (auto simp: list_all_iff)
qed

text \<open>C8: round trip. Printing a script, tokenizing the text and parsing the tokens gives the
  script back, whatever the uninitialised fields of the parser's output held before. The script
  must have a concrete syntax: numbers below \<open>2 ^ 31\<close>, distinct packet names, identifiers that
  are identifiers and no value with a backslash.\<close>

theorem script_roundtrip:
  assumes "printable_script uninit d" "spellable_script d"
  shows "\<exists>ts. tokenize (render_tokens (print_script d)) = Inr ts
     \<and> parse uninit (default_dsl_data hs bm) ts = Inr d"
proof -
  have "\<forall>t \<in> set (print_script d). printable_token t"
    using assms(2) by (simp add: spellable_script_def list_all_iff)
  then obtain ts where ts: "tokenize (render_tokens (print_script d)) = Inr ts" "map token_core ts = print_script d"
    using tokenize_loop_render [of "print_script d" "new_lexer (render_tokens (print_script d))" "[]"]
    by (auto simp: tokenize_def new_lexer_def)
  with parse_print_script [OF ts(2) assms(1)] show ?thesis by blast
qed

theorem script_roundtrip_witness:
  "\<exists>ts. tokenize (render_tokens (print_script sample_script)) = Inr ts
     \<and> parse 0 (default_dsl_data 7 9) ts = Inr sample_script"
  by (rule script_roundtrip [OF sample_printable sample_spellable])

text \<open>C39: in every script the parser returns, the packet identifiers are distinct and each action
  lists exactly its modifications, each once, in \<^verbatim>\<open>mod_order\<close>, so the index of a modification
  in the planning stage never runs past its vector.\<close>

theorem parsed_scripts_consistent:
  assumes "parse uninit (default_dsl_data hs bm) ts = Inr d"
  shows "distinct (map fst (st_packet_identifiers (ds_settings d)))
     \<and> (\<forall>a \<in> set (or_actions (ds_orchestrator d)).
          length (act_timestamp_mods a) = count_list (act_mod_order a) Mod_Timestamp
          \<and> length (act_counter_mods a) = count_list (act_mod_order a) Mod_Counter)"
proof -
  have "well_parsed (default_dsl_data hs bm)"
    by (simp add: well_parsed_def default_dsl_data_def default_settings_def)
  from parse_well_parsed [OF assms this] show ?thesis
    by (simp add: well_parsed_def list_all_iff mods_parsed_def mods_accounted_def)
qed

theorem parsed_scripts_consistent_witness:
  "\<exists>ts d. parse 0 (default_dsl_data 0 0) ts = Inr d
     \<and> length (act_counter_mods (or_actions (ds_orchestrator d) ! 2)) = 1
     \<and> count_list (act_mod_order (or_actions (ds_orchestrator d) ! 2)) Mod_Counter = 1"
proof -
  have "map token_core (map (\<lambda>(ty, tx). make_token ty tx 1 1) ps) = ps" for ps
    by (induction ps) (auto simp: token_core_def make_token_def)
  then have "parse 0 (default_dsl_data 0 0) (map (\<lambda>(ty, tx). make_token ty tx 1 1) (print_script sample_script)) = Inr sample_script"
    by (rule parse_print_script [OF _ sample_printable])
  moreover from parsed_scripts_consistent [OF this]
  have "length (act_counter_mods sample_send) = count_list (act_mod_order sample_send) Mod_Counter"
    by (simp add: sample_script_def)
  moreover have "length (act_counter_mods sample_send) = 1" "or_actions (ds_orchestrator sample_script) ! 2 = sample_send"
    by (simp_all add: sample_send_def sample_script_def push_timestamp_def push_counter_def new_action_def)
  ultimately show ?thesis by (intro exI [of _ sample_script] exI) (simp only: simp_thms)
qed

section \<open>The validator\<close>

text \<open>C7: the validator refines an abstract schedule on sets of session indices. It accepts a
  list of actions exactly when the schedule can run it: one CREATE with at least one session
  per shard, ranges inside the pool, no session connected while connected, SEND, FLOOD and
  DRAIN only for connected sessions, no session disconnected twice, every SEND with an
  acceptable payload; and its flag vectors then stand for the schedule's sets.\<close>

theorem validator_refines_schedule:
  "(\<exists>v. verify_actions env opts settings actions = Inr v \<and> schedule_of v = s)
   \<longleftrightarrow> schedule_run (payload_accepted env opts settings) (unat (st_shards settings)) actions initial_schedule = Some s"
  by (rule verify_actions_schedule)

text \<open>C23: in an accepted script, whenever a SEND, FLOOD or DRAIN names a session, an earlier
  CONNECT names it too and no DRAIN between the two does.\<close>

theorem accepted_sessions_are_connected:
  assumes "verify_script env opts script = Inr ()"
    and "or_actions (ds_orchestrator script) = pre @ a # post"
    and "act_type a \<in> {SEND, FLOOD, DRAIN}" and "j \<in> action_sessions a"
  shows "connected_undrained j pre"
proof -
  obtain v where "verify_actions env opts (ds_settings script) (pre @ a # post) = Inr v"
    using assms(1,2) by (auto simp: verify_script_def result_simps Let_def)
  then show ?thesis using assms(3,4) by (rule accepted_use_connected)
qed

theorem accepted_sessions_are_connected_witness:
  "connected_undrained 0 [sample_create, sample_connect]"
  using accepted_sessions_are_connected [OF sample_script_verified sample_actions, of 0]
  by (simp add: action_sessions_def) (simp add: sample_defs)

text \<open>C24: what an accepted SEND guarantees of its packet: the identifier is defined, its file
  resolves and is not empty, the number of copies is not zero, each field is at most eight
  bytes long and its start plus its length, in 32 bits, is below the packet's size, each format is
  known and no counter stands still.\<close>

theorem accepted_send_fields_in_bounds:
  assumes "verify_script env opts script = Inr ()" "a \<in> set (or_actions (ds_orchestrator script))" "act_type a = SEND"
  shows "act_count a \<noteq> 0
     \<and> (\<exists>file path. map_of (st_packet_identifiers (ds_settings script)) (act_packet_identifier a) = Some file
        \<and> resolve_file env opts file = Inr path \<and> get_file_size env path \<noteq> 0
        \<and> (\<forall>m \<in> set (act_timestamp_mods a). rng_second (tm_bytes m) \<le> 8
             \<and> ucast (end_from_length (tm_bytes m)) < get_file_size env path
             \<and> tm_format_name m \<in> set VALID_TIME_FORMATS)
        \<and> (\<forall>m \<in> set (act_counter_mods a). rng_second (cm_bytes m) \<le> 8
             \<and> ucast (end_from_length (cm_bytes m)) < get_file_size env path \<and> cm_step m \<noteq> 0))"
proof -
  have "act_count a \<noteq> 0" using verified_send_copies(1) [OF assms] .
  then show ?thesis using verified_send_packet [OF assms] by (metis (no_types, lifting))
qed

theorem accepted_send_fields_in_bounds_witness:
  "act_count sample_send \<noteq> 0 \<and> list_all (\<lambda>m. rng_second (tm_bytes m) \<le> 8) (act_timestamp_mods sample_send)"
proof -
  have "sample_send \<in> set (or_actions (ds_orchestrator sample_script))" by (simp add: sample_script_def)
  from accepted_send_fields_in_bounds [OF sample_script_verified this] show ?thesis by (auto simp: list_all_iff)
qed

text \<open>C40: the check for overlapping fields reads a length as an end. Inserting a range into the
  ranges seen so far succeeds exactly when the closed intervals from start to second component
  are disjoint, so two fields of four bytes at 10 and 12, which overlap, are accepted in
  either order, and two adjacent fields of eight bytes at 0 and 8 are rejected.\<close>

theorem overlap_check_confuses_length_and_end:
  "(\<forall>m r i m'. mod_map_wf m \<longrightarrow>
      (insert_mod_range r i m = Inr m' \<longleftrightarrow>
         (\<forall>p \<in> set m. if fst p < rng_start r then snd p < rng_start r else rng_second r < fst p)
         \<and> m' = map_put (rng_start r) (rng_second r) m \<and> mod_map_wf m'))
   \<and> insert_mod_range (sample_range 12 4) 0 [(10, 4)] = Inr [(10, 4), (12, 4)]
   \<and> insert_mod_range (sample_range 10 4) 0 [(12, 4)] = Inr [(10, 4), (12, 4)]
   \<and> isl (insert_mod_range (sample_range 8 8) 0 [(0, 8)])"
proof (intro conjI allI impI)
  fix m r i m'
  assume "mod_map_wf m"
  then show "insert_mod_range r i m = Inr m' \<longleftrightarrow>
      (\<forall>p \<in> set m. if fst p < rng_start r then snd p < rng_start r else rng_second r < fst p)
      \<and> m' = map_put (rng_start r) (rng_second r) m \<and> mod_map_wf m'"
    using insert_mod_range_Inr_iff [of m r i m'] map_put_wf [of m "rng_start r" "rng_second r"] by blast
qed (simp_all add: insert_mod_range_def map_put_def sample_range_def)

theorem overlap_check_confuses_length_and_end_witness:
  "isl (insert_mod_range (sample_range 20 2) 0 [(10, 21)])"
proof -
  have "mod_map_wf [(10, 21)]" by (simp add: mod_map_wf_def)
  then have "insert_mod_range (sample_range 20 2) 0 [(10, 21)] \<noteq> Inr m" for m
    using overlap_check_confuses_length_and_end by (auto simp: sample_range_def)
  then show ?thesis by (cases "insert_mod_range (sample_range 20 2) 0 [(10, 21)]") (simp, blast)
qed

section \<open>Paths\<close>

text \<open>Expansion of environment variables, by cases on the first variable: text without a
  dollar is kept, a variable that a slash ends is replaced by its value or by nothing, and a
  variable at the end of the path is dropped whatever its value.\<close>

lemma expand_env_variables_cases:
  assumes "CHR ''$'' \<notin> set a" "CHR ''$'' \<notin> set name" "CHR ''/'' \<notin> set name"
  shows "expand_env_variables g a = a
    \<and> expand_env_variables g (a @ CHR ''$'' # name @ CHR ''/'' # rest) =
      a @ (case g name of Some v \<Rightarrow> v | None \<Rightarrow> []) @ expand_env_variables g (CHR ''/'' # rest)
    \<and> expand_env_variables g (a @ CHR ''$'' # name) = a"
proof (intro conjI)
  have out: "expand_env_loop g (out @ out') b cur s = out @ expand_env_loop g out' b cur s" for out out' b cur s
    by (induction s arbitrary: out' b cur) (auto simp: Let_def)
  have stale: "expand_env_loop g out False cur s = expand_env_loop g out False cur' s" for out cur cur' s
    by (induction s arbitrary: out) auto
  show "expand_env_variables g a = a" using assms(1) by (rule expand_env_variables_no_dollar)
  have name: "expand_env_variables g (a @ CHR ''$'' # name @ s) = expand_env_loop g a True name s" for s
    using expand_env_loop_plain [OF assms(1), of g "[]" "[]" "CHR ''$'' # name @ s"]
      expand_env_loop_name [OF assms(2,3), of g a "[]" s]
    by (simp add: expand_env_variables_def)
  show "expand_env_variables g (a @ CHR ''$'' # name) = a" using name [of "[]"] by simp
  have "expand_env_loop g a True name (CHR ''/'' # rest) =
      expand_env_loop g ((a @ (case g name of Some v \<Rightarrow> v | None \<Rightarrow> [])) @ ''/'') False name rest"
    by simp
  also have "\<dots> = (a @ (case g name of Some v \<Rightarrow> v | None \<Rightarrow> [])) @ expand_env_loop g ''/'' False name rest"
    by (rule out)
  also have "expand_env_loop g ''/'' False name rest = expand_env_variables g (CHR ''/'' # rest)"
    using stale [of "''/''" name rest "[]"] by (simp add: expand_env_variables_def)
  finally show "expand_env_variables g (a @ CHR ''$'' # name @ CHR ''/'' # rest) =
      a @ (case g name of Some v \<Rightarrow> v | None \<Rightarrow> []) @ expand_env_variables g (CHR ''/'' # rest)"
    using name [of "CHR ''/'' # rest"] by simp
qed

lemma expand_env_variables_examples:
  "expand_env_variables (\<lambda>v. if v = ''HOME'' then Some ''/root'' else None) ''a$HOME'' = ''a''
   \<and> expand_env_variables (\<lambda>v. if v = ''HOME'' then Some ''/root'' else None) ''$HOME/x'' = ''/root/x''"
  using expand_env_variables_cases [of "''a''" "''HOME''" "\<lambda>v. if v = ''HOME'' then Some ''/root'' else None"]
    expand_env_variables_cases [of "[]" "''HOME''" "\<lambda>v. if v = ''HOME'' then Some ''/root'' else None" "''x''"]
    expand_env_variables_cases [of "''/x''" "''HOME''" "\<lambda>v. if v = ''HOME'' then Some ''/root'' else None"]
  by simp

section \<open>Defaults\<close>

text \<open>After the defaults are set, a script has at least one shard when the hardware
  concurrency fits 32 bits, a handler and a sample rate; a value the script gave is kept; and
  setting the defaults twice is setting them once.\<close>

lemma script_defaults_complete:
  fixes s :: settings_block
  assumes "os_hardware_concurrency env < 2 ^ 32"
  defines "s' \<equiv> set_script_defaults env s"
  shows "st_shards s' \<noteq> 0 \<and> st_handler_value s' \<noteq> [] \<and> st_packet_sample_rate s' \<noteq> 0
     \<and> (st_shards s \<noteq> 0 \<longrightarrow> st_shards s' = st_shards s)
     \<and> (st_handler_value s \<noteq> [] \<longrightarrow> st_handler_value s' = st_handler_value s)
     \<and> (st_packet_sample_rate s \<noteq> 0 \<longrightarrow> st_packet_sample_rate s' = st_packet_sample_rate s)
     \<and> set_script_defaults env s' = s'"
proof -
  have nz: "word_of_int h \<noteq> (0 :: u32)" if "0 < h" "h < 2 ^ 32" for h
    using unat_of_int_nonneg [of h] that by force
  have "(word_of_int (if os_hardware_concurrency env \<le> 0 then 1 else os_hardware_concurrency env) :: u32) \<noteq> 0"
    using nz [of "os_hardware_concurrency env"] assms(1) by simp
  then show ?thesis
    by (simp add: s'_def set_script_defaults_def Let_def DEFAULT_PACKET_SAMPLE_RATE_def)
qed

end
