(* ===== verification/Plan_Properties.thy ===== *)
theory Plan_Properties
  imports Sample_File
begin

text \<open>
  The properties of the planning stage and of the payloads: what a SEND puts on the wire, the
  counters, the numeric encoding, the offsets and the endpoints.
\<close>

section \<open>The bytes of a SEND\<close>

text \<open>C1: whenever the plan of a script the interpreter returns is generated, its packets being
  distinct files below 4 GiB, filling the payload of any copy of any SEND succeeds. If the SEND
  lists its fields in the order of their positions, each at or after the end of the one before
  it, the buffers gathered from the payload are the packet's file with exactly the listed fields
  overwritten, each in its own byte order. If it does not, which the validator lets through, one
  of the buffers reaches past the end of the packet, and reading them is undefined: the number of
  bytes between two fields is an unsigned difference that wraps around. The other conditions,
  that the packet is not empty and the fields lie inside it, follow from acceptance.\<close>

theorem send_matches_script:
  assumes "parse_script env opts hs bm uninit name = Inr script"
    and "generate_plan_common env opts ok uninit' script factory host = Inr plan"
    and "or_actions (ds_orchestrator script) = pre @ a # post" "act_type a = SEND" "c < unat (act_count a)"
    and "distinct_packets env opts script" "small_packets env opts script"
  shows "\<exists>packet m' p. sent_packet env opts script a = Some packet
     \<and> fill_payload clk (send_copies pre + c) (new_payload_manager (pl_payloads plan) (pl_counter_steps plan)) payload
         = Some (True, m', p)
     \<and> gather packet p = (if listed_in_order 0 (send_fields a)
         then Some (patched clk 0 (fresh_counters (send_steps a)) (send_fields a) packet) else None)"
  by (rule accepted_send_fill [OF assms])

theorem send_matches_script_witness:
  "(\<exists>m' p. fill_payload (\<lambda>_. 5000000000) 1
        (new_payload_manager (pl_payloads script_plan) (pl_counter_steps script_plan)) empty_payload = Some (True, m', p)
      \<and> gather sample_file p = Some [10, 11, 0, 0, 14, 15, 5, 17, 18, 19])
   \<and> (\<exists>packet m' p. sent_packet swapped_os sample_options swapped_script swapped_send = Some packet
      \<and> fill_payload (\<lambda>_. 0) 0
          (new_payload_manager (pl_payloads swapped_plan) (pl_counter_steps swapped_plan)) empty_payload = Some (True, m', p)
      \<and> gather packet p = None)"
proof (rule conjI)
  have "patched (\<lambda>_. 5000000000) 0 (fresh_counters [3]) (send_fields sample_send) sample_file
      = [10, 11, 0, 0, 14, 15, 5, 17, 18, 19]"
    by code_simp
  moreover have "listed_in_order 0 (send_fields sample_send)" by code_simp
  ultimately show "\<exists>m' p. fill_payload (\<lambda>_. 5000000000) 1
        (new_payload_manager (pl_payloads script_plan) (pl_counter_steps script_plan)) empty_payload = Some (True, m', p)
      \<and> gather sample_file p = Some [10, 11, 0, 0, 14, 15, 5, 17, 18, 19]"
    using send_matches_script [OF sample_parsed script_plan_generated sample_actions _ _ script_files,
        of 1 "\<lambda>_. 5000000000" empty_payload] script_packet
    by simp
  show "\<exists>packet m' p. sent_packet swapped_os sample_options swapped_script swapped_send = Some packet
      \<and> fill_payload (\<lambda>_. 0) 0
          (new_payload_manager (pl_payloads swapped_plan) (pl_counter_steps swapped_plan)) empty_payload = Some (True, m', p)
      \<and> gather packet p = None"
    using send_matches_script [OF swapped_parsed swapped_plan_generated swapped_actions(1,2) _ swapped_files,
        of 0 "\<lambda>_. 0" empty_payload] swapped_listed swapped_actions(3)
    by simp
qed

text \<open>C5: a COUNTER field counts the fills of its own copy of the packet: each copy a SEND asks for
  has its own counters. In a plan whose SENDs are all well formed (each names a non-empty packet
  below 4 GiB, lists its fields inside it in the order of their positions without overlap, and
  no two packets are one file), after any sequence of fills of any payloads by any sessions, the
  next fill of a copy of a SEND writes, at the field's position and in its byte order, the number
  of earlier fills of that copy, by whichever session, times the step, cut to the field's width.
  The rest of the packet keeps its length. So the copies of one SEND start at the same value and
  do not share a counter.\<close>

theorem counter_field_counts_fills:
  assumes "generate_plan_common env opts ok uninit script factory host = Inr plan"
    and "or_actions (ds_orchestrator script) = pre @ a # post" "act_type a = SEND" "c < unat (act_count a)"
    and "well_formed_sends env opts script" "well_formed_send env opts script a packet"
    and "fill_run rs (new_payload_manager (pl_payloads plan) (pl_counter_steps plan)) = Some m"
    and "send_fields a = before @ Counter_Field cm # after"
  shows "\<exists>m' p bytes. fill_payload clk (send_copies pre + c) m payload = Some (True, m', p)
     \<and> gather packet p = Some bytes \<and> length bytes = length packet
     \<and> field_value (cm_little_endian cm) (take (field_len (Counter_Field cm)) (drop (field_start (Counter_Field cm)) bytes))
       = take_bit (8 * field_len (Counter_Field cm))
           (of_nat (count_list (map (fst \<circ> snd) rs) (send_copies pre + c)) * ucast (ucast (cm_step cm) :: u16))"
proof -
  let ?f = "Counter_Field cm" and ?n = "length (counter_fields before)"
  obtain m' p cs where fill: "fill_payload clk (send_copies pre + c) m payload = Some (True, m', p)"
    "gather packet p = Some (patched clk 0 cs (send_fields a) packet)" "length cs = length (send_steps a)"
    "\<forall>k < length (send_steps a). pc_counter (cs ! k) =
       of_nat (count_list (map (fst \<circ> snd) rs) (send_copies pre + c)) * ucast (send_steps a ! k)"
    using planned_fill_counters [OF assms(1-7), of clk payload] by blast
  have order: "fields_in_order 0 (length packet) (send_fields a)"
    using assms(6) by (simp add: well_formed_send_def)
  have steps: "?n < length (send_steps a)" "send_steps a ! ?n = ucast (cm_step cm)"
    by (simp_all add: send_steps_def assms(8) counter_fields_append nth_append)
  have "take (field_len ?f) (drop (field_start ?f) (patched clk 0 cs (send_fields a) packet)) =
      field_bytes (field_len ?f) (cm_little_endian cm) (pc_counter (hd (drop ?n cs)))"
    using patched_field [of 0 packet before ?f after clk 0 cs] order
    by (simp add: assms(8)) (simp add: field_len_def)
  moreover have "length (patched clk 0 cs (send_fields a) packet) = length packet"
    using order by (rule length_patched)
  ultimately show ?thesis
    using fill steps by (simp add: hd_drop_conv_nth field_value_field_bytes)
qed

theorem counter_field_counts_fills_witness:
  "\<exists>m m' p bytes.
      fill_run [(\<lambda>_. 0, 1, empty_payload), (\<lambda>_. 0, 0, empty_payload), (\<lambda>_. 0, 1, empty_payload)]
        (new_payload_manager (pl_payloads sample_plan) (pl_counter_steps sample_plan)) = Some m
      \<and> fill_payload (\<lambda>_. 0) 1 m empty_payload = Some (True, m', p)
      \<and> gather sample_file p = Some bytes \<and> field_value True (take 2 (drop 2 bytes)) = 6"
proof -
  let ?rs = "[(\<lambda>_. 0, 1, empty_payload), (\<lambda>_. 0, 0, empty_payload), (\<lambda>_. 0, 1, empty_payload)]"
  let ?m = "new_payload_manager (pl_payloads sample_plan) (pl_counter_steps sample_plan)"
  have ok: "manager_ok ?m" by (rule planned_manager_ok [OF sample_plan_generated sample_well_formed])
  obtain m where m: "fill_run ?rs ?m = Some m"
    using fill_run_returns [OF ok] by blast
  have fields: "send_fields sample_send =
      [] @ Counter_Field \<lparr>cm_bytes = sample_range 2 2, cm_step = 3, cm_little_endian = True\<rparr>
      # [Time_Field \<lparr>tm_bytes = sample_range 6 1, tm_little_endian = True, tm_format_name = ''seconds''\<rparr>]"
    by (simp add: send_fields_def sample_defs)
  show ?thesis
    using counter_field_counts_fills [OF sample_plan_generated sample_actions _ _ sample_well_formed
        sample_send_well_formed m fields, of 1 "\<lambda>_. 0" empty_payload] m
    by (auto simp: field_len_def field_start_def sample_range_def take_bit_eq_mask mask_eq_exp_minus_1)
qed

text \<open>The values a counter hands out are its start plus multiples of its step, so for a
  nonzero step they are pairwise distinct until the 64-bit counter wraps: copies of a packet
  whose COUNTER field has eight bytes are told apart.\<close>

lemma counter_values_distinct:
  assumes "pc_step c \<noteq> 0" "n * unat (pc_step c) \<le> 2 ^ 64"
  shows "distinct (fetch_values n c) \<and> (\<forall>k < n. fetch_values n c ! k = pc_counter c + of_nat k * ucast (pc_step c))"
  using fetch_values_distinct_aux [OF assms] by (simp add: fetch_values_arith)

section \<open>The numeric encoding\<close>

text \<open>C37: \<^verbatim>\<open>write_numeric\<close> writes exactly \<open>len\<close> bytes, and reading them back in the same byte
  order gives the value modulo \<open>2 ^ (8 * len)\<close>. It is undefined exactly for more than eight
  bytes, which the 4- and 8-byte fast paths and the generic loop all respect.\<close>

theorem write_numeric_roundtrip:
  "(write_numeric v len little = None \<longleftrightarrow> len > 8)
   \<and> (case write_numeric v len little of
        None \<Rightarrow> True
      | Some bs \<Rightarrow> length bs = unat len \<and> field_value little bs = take_bit (8 * unat len) v)"
proof (cases "len > 8")
  case False
  then show ?thesis by (simp add: write_numeric_None write_numeric_field_bytes field_value_field_bytes)
next
  case True
  then have "write_numeric v len little = None" by (simp add: write_numeric_None)
  then show ?thesis using True by simp
qed

section \<open>The plan\<close>

text \<open>C31: the actions of a plan are those of the script in order, each with its type, the range of
  its sessions (a CREATE from 0) and its count: the copies of a SEND, the sessions of a CREATE,
  the number a DRAIN carries. The offset of an action is the sum of the offsets up to and
  including it, modulo \<open>2 ^ 32\<close>: the 64-bit running sum is passed as a 32-bit number. There is
  one payload for each copy of each SEND.\<close>

theorem plan_actions_in_order:
  assumes "generate_plan_common env opts ok uninit script factory host = Inr plan"
  defines "acts \<equiv> or_actions (ds_orchestrator script)"
  shows "map ad_type (pl_actions plan) = map act_type acts
     \<and> map ad_start (pl_actions plan) = map (\<lambda>a. if act_type a = CREATE then 0 else rng_start (act_range a)) acts
     \<and> map ad_end (pl_actions plan) = map (\<lambda>a. rng_second (act_range a)) acts
     \<and> list_all2 (\<lambda>d a. (act_type a \<in> {SEND, DRAIN} \<longrightarrow> ad_count d = act_count a)
           \<and> (act_type a = CREATE \<longrightarrow> ad_count d = rng_second (act_range a))) (pl_actions plan) acts
     \<and> map ad_offset (pl_actions plan) = map (\<lambda>k. int (offset_total (take (Suc k) acts)) mod 2 ^ 32) [0..<length acts]
     \<and> length (pl_payloads plan) = send_copies acts"
proof -
  obtain st pb where pb: "foldE (plan_action uninit st) acts empty_plan_builder = Inr pb"
    and pl: "pl_actions plan = pb_actions pb" "pl_payloads plan = pb_payloads pb"
    using plan_common_Inr [OF assms(1)] acts_def by metis
  have d: "ad_type (describe_action u a w) = act_type a" "ad_end (describe_action u a w) = rng_second (act_range a)"
    "ad_start (describe_action u a w) = (if act_type a = CREATE then 0 else rng_start (act_range a))"
    "ad_offset (describe_action u a w) = uint (ucast w :: u32)" for u a w
    by (cases "act_type a"; simp add: describe_action_def Let_def make_create_def make_connect_def make_send_def
        make_flood_def make_drain_def make_disconnect_def)+
  have count: "(act_type a \<in> {SEND, DRAIN} \<longrightarrow> ad_count (describe_action u a w) = act_count a)
      \<and> (act_type a = CREATE \<longrightarrow> ad_count (describe_action u a w) = rng_second (act_range a))" for u a w
    by (cases "act_type a"; simp add: describe_action_def Let_def make_create_def make_send_def make_drain_def)
  have off: "uint (ucast (of_nat n :: u64) :: u32) = int n mod 2 ^ 32" for n
    by (simp add: unsigned_ucast_eq unsigned_of_nat take_bit_eq_mod mod_mod_cancel zmod_int)
  have nth: "map (\<lambda>k. f (acts ! k)) [0..<length acts] = map f acts" for f :: "action \<Rightarrow> 'b"
    by (rule nth_equalityI) auto
  show ?thesis
    using plan_actions_ok [OF pb] count
    by (simp add: pl d off builder_ok_def comp_def nth nth [of "\<lambda>a. rng_second (act_range a)"]
        nth [of "\<lambda>a. if act_type a = CREATE then 0 else rng_start (act_range a)"] list_all2_conv_all_nth)
qed

theorem plan_actions_in_order_witness:
  "map ad_offset (pl_actions sample_plan) = [0, 5, 12] \<and> map ad_start (pl_actions sample_plan) = [0, 0, 0]
   \<and> length (pl_payloads sample_plan) = 2"
  using plan_actions_in_order [OF sample_plan_generated]
  by (simp add: sample_actions) (simp add: sample_defs upt_rec)

lemma check_datagrams_Inr:
  "check_datagrams ps = Inr r \<longleftrightarrow> (\<forall>d \<in> set ps. length (pd_packet_data d) \<le> 65527)
     \<and> r = (\<exists>d \<in> set ps. length (pd_packet_data d) > 1472)"
proof -
  have "foldE (\<lambda>payload oversized. if length (pd_packet_data payload) > m then Inl e
      else Inr (oversized \<or> length (pd_packet_data payload) > n)) ps b = Inr r
    \<longleftrightarrow> (\<forall>d \<in> set ps. length (pd_packet_data d) \<le> m)
      \<and> r = (b \<or> (\<exists>d \<in> set ps. length (pd_packet_data d) > n))" for b m n and e :: plan_error
    by (induction ps arbitrary: b) (auto simp: bindE_Inr_iff)
  then show ?thesis by (simp add: check_datagrams_def MAX_DATAGRAM_SIZE_def SUGGESTED_PAYLOAD_SIZE_def)
qed

text \<open>C38: when a UDP plan is generated, every payload of it fits the maximal datagram of 65527
  bytes, and a warning is given exactly when one exceeds the suggested 1472 bytes.\<close>

theorem udp_plan_fits_datagrams:
  assumes "generate_execution_plan_udp env opts ok uninit dns compiles script = Inr (plan, warning)"
  shows "(\<forall>d \<in> set (pl_payloads plan). length (pd_packet_data d) \<le> 65527)
     \<and> (warning \<noteq> None \<longleftrightarrow> (\<exists>d \<in> set (pl_payloads plan). length (pd_packet_data d) > 1472))
     \<and> resolve_udp_endpoint dns (ds_settings script) \<noteq> unspecified_endpoint"
proof -
  obtain oversized where "check_datagrams (pl_payloads plan) = Inr oversized" "warning \<noteq> None \<longleftrightarrow> oversized"
    "resolve_udp_endpoint dns (ds_settings script) \<noteq> unspecified_endpoint"
    using assms by (auto simp: generate_execution_plan_udp_def bindE_Inr_iff guardE_Inr_iff Let_def split: if_splits)
  then show ?thesis by (simp add: check_datagrams_Inr)
qed

theorem udp_plan_fits_datagrams_witness:
  "\<exists>plan warning. generate_execution_plan_udp sample_os sample_options (\<lambda>_. True) 0 (\<lambda>_ _. [sample_endpoint]) (\<lambda>_. True)
       sample_script = Inr (plan, warning)
     \<and> list_all (\<lambda>d. length (pd_packet_data d) \<le> 65527) (pl_payloads plan)"
proof -
  let ?g = "generate_execution_plan_udp sample_os sample_options (\<lambda>_. True) 0 (\<lambda>_ _. [sample_endpoint]) (\<lambda>_. True)
       sample_script"
  let ?c = "generate_plan_common sample_os sample_options (\<lambda>_. True) 0 sample_script NOP_Factory (UDP_Host sample_endpoint)"
  have "(case ?c of Inl e \<Rightarrow> False | Inr plan \<Rightarrow> list_all (\<lambda>d. length (pd_packet_data d) = 10) (pl_payloads plan)) = True"
    by code_simp
  then obtain plan where c: "?c = Inr plan" "\<forall>d \<in> set (pl_payloads plan). length (pd_packet_data d) = 10"
    by (auto simp: list_all_iff split: sum.splits)
  have "make_factory sample_os sample_options (\<lambda>_. True) (ds_settings sample_script) = Inr NOP_Factory"
    by (simp add: make_factory_def sample_script_def sample_settings_def)
  moreover have "resolve_udp_endpoint (\<lambda>_ _. [sample_endpoint]) (ds_settings sample_script) = sample_endpoint"
    by (simp add: resolve_udp_endpoint_def sample_script_def sample_settings_def)
  moreover have "check_datagrams (pl_payloads plan) = Inr False"
    using c(2) by (simp add: check_datagrams_Inr)
  ultimately have g: "?g = Inr (plan, None)"
    using c(1) by (simp add: generate_execution_plan_udp_def Let_def guardE_def sample_endpoint_def unspecified_endpoint_def)
  from udp_plan_fits_datagrams [OF g] show ?thesis using g by (auto simp: list_all_iff)
qed

text \<open>The endpoints of a TCP plan are the answers of the name service for the endpoints of
  the script, each once; generation fails when there is none.\<close>

lemma tcp_endpoints_resolved:
  "distinct (resolve_tcp_endpoints dns settings)
   \<and> set (resolve_tcp_endpoints dns settings) =
       (\<Union>e \<in> set (st_endpoints settings). set (dns e (port_string settings)))
   \<and> (resolve_tcp_endpoints dns (ds_settings script) = [] \<longrightarrow>
        \<not> (\<exists>plan. generate_execution_plan_tcp env opts ok uninit dns compiles script = Inr plan))"
proof -
  have inner: "distinct eps \<Longrightarrow>
      distinct (fold (\<lambda>entry eps. if entry \<in> set eps then eps else eps @ [entry]) xs eps)
      \<and> set (fold (\<lambda>entry eps. if entry \<in> set eps then eps else eps @ [entry]) xs eps) = set eps \<union> set xs"
    for eps :: "endpoint list" and xs
    by (induction xs arbitrary: eps) auto
  have outer: "distinct eps \<Longrightarrow>
      distinct (fold (\<lambda>endpoint eps. fold (\<lambda>entry eps. if entry \<in> set eps then eps else eps @ [entry]) (dns endpoint p) eps) hs eps)
      \<and> set (fold (\<lambda>endpoint eps. fold (\<lambda>entry eps. if entry \<in> set eps then eps else eps @ [entry]) (dns endpoint p) eps) hs eps)
        = set eps \<union> (\<Union>e \<in> set hs. set (dns e p))" for eps hs p
  proof (induction hs arbitrary: eps)
    case (Cons h hs)
    then show ?case
      using inner [OF Cons.prems, of "dns h p"]
        Cons.IH [of "fold (\<lambda>entry eps. if entry \<in> set eps then eps else eps @ [entry]) (dns h p) eps"]
      by (simp add: Un_assoc)
  qed simp
  have "\<not> (\<exists>plan. generate_execution_plan_tcp env opts ok uninit dns compiles script = Inr plan)"
    if "resolve_tcp_endpoints dns (ds_settings script) = []"
    using that by (auto simp: generate_execution_plan_tcp_def bindE_Inr_iff guardE_Inr_iff Let_def)
  then show ?thesis
    using outer [of "[]" "port_string settings" "st_endpoints settings"]
    by (simp add: resolve_tcp_endpoints_def)
qed

section \<open>Where the planning stage falls short\<close>

text \<open>Two identifiers for the same file are accepted by the interpreter but never planned:
  the second one is looked up under its file name, which is not an identifier, and the plan
  fails with the message that blames the application.\<close>

lemma duplicate_packet_file_rejected:
  assumes "resolve_file env opts file1 = Inr path" "resolve_file env opts file2 = Inr path" "file2 \<noteq> id1"
    and "load_packet env opts ok (id1, file1) empty_packet_store = Inr st"
  shows "load_packets env opts ok [(id1, file1), (id2, file2)] =
    Inl (Plan_Error (''Application identified a packet as a duplicate but no memory ''
      @ ''was allocated. This is an error with the application code.''))"
proof -
  obtain buf where st: "st = empty_packet_store\<lparr>ps_all_packets := [path], ps_packet_data := [buf],
      ps_identity_map := [id1 \<mapsto> 0]\<rparr>"
    using load_packet_fresh [OF assms(4)] assms(1) by (simp add: empty_packet_store_def) (metis Inr_inject)
  have "load_packet env opts ok (id2, file2) st = Inl (Plan_Error (''Application identified a packet as a duplicate but no memory ''
      @ ''was allocated. This is an error with the application code.''))"
    using assms(2,3) by (simp add: st load_packet_def)
  then show ?thesis
    using assms(4) by (simp add: load_packets_def)
qed

text \<open>A counter step is checked as a 32-bit number but stored in 16 bits, so a step of
  65536 passes the validator and becomes 0: every copy carries the same value.\<close>

lemma large_counter_step_vanishes:
  "let m = \<lparr>cm_bytes = sample_range 0 2, cm_step = 65536, cm_little_endian = True\<rparr>;
       a = push_counter m (new_action SEND 2)
   in verify_counter_mod ''p'' 10 0 m [] = Inr [(0, 2)]
    \<and> (\<exists>d. build_payload a sample_file = Inr (d, [0]))
    \<and> fetch_values 3 \<lparr>pc_counter = 0, pc_step = 0\<rparr> = [0, 0, 0]"
proof -
  let ?m = "\<lparr>cm_bytes = sample_range 0 2, cm_step = 65536, cm_little_endian = True\<rparr>"
  have "verify_counter_mod ''p'' 10 0 ?m [] = Inr [(0, 2)]"
    by (simp add: verify_counter_mod_def insert_mod_range_def map_put_def verify_mod_bounds_def
      guardE_def sample_range_def end_from_length_def)
  moreover have "\<exists>d. build_payload (push_counter ?m (new_action SEND 2)) sample_file = Inr (d, [0])"
    by (simp add: build_payload_def push_counter_def new_action_def)
      (simp add: push_mod_def initial_builder_def push_previous_def sample_range_def Let_def)
  moreover have "fetch_values 3 \<lparr>pc_counter = 0, pc_step = 0\<rparr> = [0, 0, 0]"
    by (simp add: eval_nat_numeral fetch_add_def)
  ultimately show ?thesis by (simp only: Let_def simp_thms)
qed

end
