(* ===== verification/Metrics.thy ===== *)
theory Metrics
  imports Prelude
begin

text \<open>
  \<^verbatim>\<open>metrics/metrics-snapshot.h\<close>, \<^verbatim>\<open>metrics/shard-metrics.{h,cpp}\<close>, \<^verbatim>\<open>metrics/orchestrator-metrics.h\<close>:
  the counters of a shard, its logarithmic latency histograms, snapshots of them, and the
  aggregate over all shards with the change since the previous snapshot.
\<close>

section \<open>Shard metrics\<close>

definition NUM_BUCKETS :: nat where
  "NUM_BUCKETS = 16"

record shard_metrics =
  sm_bytes_sent :: u64
  sm_bytes_read :: u64
  sm_connection_attempts :: u64
  sm_failed_connections :: u64
  sm_finished_connections :: u64
  sm_connection_latency_buckets :: "u64 list"
  sm_send_latency_buckets :: "u64 list"
  sm_read_latency_buckets :: "u64 list"

definition new_shard_metrics :: shard_metrics where
  "new_shard_metrics =
     \<lparr>sm_bytes_sent = 0, sm_bytes_read = 0, sm_connection_attempts = 0, sm_failed_connections = 0,
      sm_finished_connections = 0, sm_connection_latency_buckets = replicate NUM_BUCKETS 0,
      sm_send_latency_buckets = replicate NUM_BUCKETS 0, sm_read_latency_buckets = replicate NUM_BUCKETS 0\<rparr>"

text \<open>\<^verbatim>\<open>std::bit_width\<close>.\<close>

fun bit_width :: "nat \<Rightarrow> nat" where
  "bit_width n = (if n = 0 then 0 else Suc (bit_width (n div 2)))"

declare bit_width.simps [simp del]

definition bucket_index :: "u64 \<Rightarrow> nat" where
  "bucket_index latency_us =
     (if latency_us < 64 then 0
      else let index = int (bit_width (unat latency_us)) - 6
           in nat (if index \<ge> 15 then 15 else index))"

definition bump :: "nat \<Rightarrow> u64 list \<Rightarrow> u64 list" where
  "bump k buckets = buckets[k := buckets ! k + 1]"

definition record_connection_latency :: "u64 \<Rightarrow> shard_metrics \<Rightarrow> shard_metrics" where
  "record_connection_latency latency_us m =
     m\<lparr>sm_connection_latency_buckets := bump (bucket_index latency_us) (sm_connection_latency_buckets m)\<rparr>"

definition record_send_latency :: "u64 \<Rightarrow> shard_metrics \<Rightarrow> shard_metrics" where
  "record_send_latency latency_us m =
     m\<lparr>sm_send_latency_buckets := bump (bucket_index latency_us) (sm_send_latency_buckets m)\<rparr>"

definition record_read_latency :: "u64 \<Rightarrow> shard_metrics \<Rightarrow> shard_metrics" where
  "record_read_latency latency_us m =
     m\<lparr>sm_read_latency_buckets := bump (bucket_index latency_us) (sm_read_latency_buckets m)\<rparr>"

definition record_bytes_sent :: "u64 \<Rightarrow> shard_metrics \<Rightarrow> shard_metrics" where
  "record_bytes_sent count m = m\<lparr>sm_bytes_sent := sm_bytes_sent m + count\<rparr>"

definition record_bytes_read :: "u64 \<Rightarrow> shard_metrics \<Rightarrow> shard_metrics" where
  "record_bytes_read count m = m\<lparr>sm_bytes_read := sm_bytes_read m + count\<rparr>"

definition record_connection_attempt :: "shard_metrics \<Rightarrow> shard_metrics" where
  "record_connection_attempt m = m\<lparr>sm_connection_attempts := sm_connection_attempts m + 1\<rparr>"

definition record_connection_fail :: "shard_metrics \<Rightarrow> shard_metrics" where
  "record_connection_fail m = m\<lparr>sm_failed_connections := sm_failed_connections m + 1\<rparr>"

definition record_connection_success :: "shard_metrics \<Rightarrow> shard_metrics" where
  "record_connection_success m = m\<lparr>sm_finished_connections := sm_finished_connections m + 1\<rparr>"

section \<open>Snapshots and their aggregate\<close>

record metrics_snapshot =
  ms_bytes_sent :: u64
  ms_bytes_read :: u64
  ms_connection_attempts :: u64
  ms_failed_connections :: u64
  ms_finished_connections :: u64
  ms_connected_sessions :: u64
  ms_connection_latency_buckets :: "u64 list"
  ms_send_latency_buckets :: "u64 list"
  ms_read_latency_buckets :: "u64 list"

definition zero_snapshot :: metrics_snapshot where
  "zero_snapshot =
     \<lparr>ms_bytes_sent = 0, ms_bytes_read = 0, ms_connection_attempts = 0, ms_failed_connections = 0,
      ms_finished_connections = 0, ms_connected_sessions = 0,
      ms_connection_latency_buckets = replicate NUM_BUCKETS 0,
      ms_send_latency_buckets = replicate NUM_BUCKETS 0, ms_read_latency_buckets = replicate NUM_BUCKETS 0\<rparr>"

definition fetch_snapshot :: "shard_metrics \<Rightarrow> metrics_snapshot" where
  "fetch_snapshot m =
     zero_snapshot\<lparr>ms_bytes_sent := sm_bytes_sent m, ms_bytes_read := sm_bytes_read m,
       ms_connection_attempts := sm_connection_attempts m, ms_failed_connections := sm_failed_connections m,
       ms_finished_connections := sm_finished_connections m,
       ms_connection_latency_buckets := sm_connection_latency_buckets m,
       ms_send_latency_buckets := sm_send_latency_buckets m,
       ms_read_latency_buckets := sm_read_latency_buckets m\<rparr>"

definition add_buckets :: "u64 list \<Rightarrow> u64 list \<Rightarrow> u64 list" where
  "add_buckets xs ys = map (\<lambda>i. xs ! i + ys ! i) [0..<NUM_BUCKETS]"

text \<open>\<^verbatim>\<open>operator+=\<close>.\<close>

definition add_snapshot :: "metrics_snapshot \<Rightarrow> metrics_snapshot \<Rightarrow> metrics_snapshot" where
  "add_snapshot s r =
     \<lparr>ms_bytes_sent = ms_bytes_sent s + ms_bytes_sent r,
      ms_bytes_read = ms_bytes_read s + ms_bytes_read r,
      ms_connection_attempts = ms_connection_attempts s + ms_connection_attempts r,
      ms_failed_connections = ms_failed_connections s + ms_failed_connections r,
      ms_finished_connections = ms_finished_connections s + ms_finished_connections r,
      ms_connected_sessions = ms_connected_sessions s + ms_connected_sessions r,
      ms_connection_latency_buckets =
        add_buckets (ms_connection_latency_buckets s) (ms_connection_latency_buckets r),
      ms_send_latency_buckets = add_buckets (ms_send_latency_buckets s) (ms_send_latency_buckets r),
      ms_read_latency_buckets = add_buckets (ms_read_latency_buckets s) (ms_read_latency_buckets r)\<rparr>"

record metrics_delta =
  md_bytes_sent :: int
  md_bytes_read :: int
  md_connection_attempts :: int
  md_failed_connections :: int
  md_finished_connections :: int
  md_connected_sessions :: int
  md_connection_latency_buckets :: "int list"
  md_send_latency_buckets :: "int list"
  md_read_latency_buckets :: "int list"

text \<open>The difference of two values cast to \<^verbatim>\<open>int64_t\<close>.\<close>

definition signed_difference :: "u64 \<Rightarrow> u64 \<Rightarrow> int" where
  "signed_difference cur prev = sint cur - sint prev"

definition bucket_differences :: "u64 list \<Rightarrow> u64 list \<Rightarrow> int list" where
  "bucket_differences cur prev = map (\<lambda>i. signed_difference (cur ! i) (prev ! i)) [0..<NUM_BUCKETS]"

definition compute_difference :: "metrics_snapshot \<Rightarrow> metrics_snapshot \<Rightarrow> metrics_delta" where
  "compute_difference c p =
     \<lparr>md_bytes_sent = signed_difference (ms_bytes_sent c) (ms_bytes_sent p),
      md_bytes_read = signed_difference (ms_bytes_read c) (ms_bytes_read p),
      md_connection_attempts = signed_difference (ms_connection_attempts c) (ms_connection_attempts p),
      md_failed_connections = signed_difference (ms_failed_connections c) (ms_failed_connections p),
      md_finished_connections = signed_difference (ms_finished_connections c) (ms_finished_connections p),
      md_connected_sessions = signed_difference (ms_connected_sessions c) (ms_connected_sessions p),
      md_connection_latency_buckets =
        bucket_differences (ms_connection_latency_buckets c) (ms_connection_latency_buckets p),
      md_send_latency_buckets = bucket_differences (ms_send_latency_buckets c) (ms_send_latency_buckets p),
      md_read_latency_buckets = bucket_differences (ms_read_latency_buckets c) (ms_read_latency_buckets p)\<rparr>"

record metrics_aggregate =
  ma_current :: metrics_snapshot
  ma_change :: metrics_delta

text \<open>The history of a shard is the list of its snapshots, the newest last.\<close>

definition aggregate_step :: "metrics_snapshot list \<Rightarrow> metrics_snapshot \<times> metrics_snapshot \<Rightarrow> metrics_snapshot \<times> metrics_snapshot" where
  "aggregate_step snapshots cp =
     (let N = length snapshots in
      if N = 0 then cp
      else (add_snapshot (fst cp) (snapshots ! (N - 1)),
            if N \<ge> 2 then add_snapshot (snd cp) (snapshots ! (N - 2)) else snd cp))"

definition get_aggregate_delta :: "metrics_snapshot list list \<Rightarrow> metrics_aggregate" where
  "get_aggregate_delta history =
     (let (cur, prev) = fold aggregate_step history (zero_snapshot, zero_snapshot)
      in \<lparr>ma_current = cur, ma_change = compute_difference cur prev\<rparr>)"

section \<open>The histogram\<close>

lemma bit_width_0 [simp]: "bit_width 0 = 0"
  by (simp add: bit_width.simps)

lemma bit_width_step: "0 < n \<Longrightarrow> bit_width n = Suc (bit_width (n div 2))"
  by (simp add: bit_width.simps)

lemma bit_width_bounds: "0 < n \<Longrightarrow> 2 ^ (bit_width n - 1) \<le> n \<and> n < 2 ^ bit_width n"
proof (induction n rule: bit_width.induct)
  case (1 n)
  show ?case
  proof (cases "n div 2 = 0")
    case True
    with 1 have "n = 1" by auto
    then show ?thesis by (simp add: bit_width_step)
  next
    case False
    then have "2 ^ (bit_width (n div 2) - 1) \<le> n div 2" "n div 2 < 2 ^ bit_width (n div 2)"
      using 1 by auto
    moreover obtain w where "bit_width (n div 2) = Suc w"
      using False by (simp add: bit_width_step)
    ultimately have "2 * 2 ^ w \<le> n \<and> n < 2 * (2 * 2 ^ w)" by auto
    then show ?thesis using 1 \<open>bit_width (n div 2) = Suc w\<close> by (simp add: bit_width_step)
  qed
qed

lemma bit_width_unique: "2 ^ w \<le> n \<Longrightarrow> n < 2 ^ Suc w \<Longrightarrow> bit_width n = Suc w"
proof -
  assume n: "2 ^ w \<le> n" "n < 2 ^ Suc w"
  then have pos: "0 < n" by (meson less_le_trans zero_less_numeral zero_less_power)
  have b: "2 ^ (bit_width n - 1) \<le> n" "n < 2 ^ bit_width n" using bit_width_bounds [OF pos] by auto
  have "(2::nat) ^ w < 2 ^ bit_width n" "(2::nat) ^ (bit_width n - 1) < 2 ^ Suc w"
    using n b by linarith+
  then have "w < bit_width n" "bit_width n - 1 < Suc w"
    by (simp_all only: power_strict_increasing_iff one_less_numeral_iff semiring_norm)
  then show ?thesis by simp
qed

lemma bucket_index_less: "bucket_index v < NUM_BUCKETS"
  by (auto simp: bucket_index_def NUM_BUCKETS_def Let_def)

text \<open>Bucket \<open>k\<close> between the first and the last holds the latencies from \<open>2 ^ (k + 5)\<close> to below \<open>2 ^ (k + 6)\<close> microseconds.\<close>

lemma bucket_index_0_iff: "bucket_index v = 0 \<longleftrightarrow> unat v < 64"
proof -
  have "unat v \<ge> 64 \<Longrightarrow> bit_width (unat v) > 6"
  proof -
    assume v: "unat v \<ge> 64"
    then have "unat v < 2 ^ bit_width (unat v)" using bit_width_bounds [of "unat v"] by simp
    then have "(2::nat) ^ 6 < 2 ^ bit_width (unat v)" using v by simp
    then show ?thesis by (simp only: power_strict_increasing_iff one_less_numeral_iff semiring_norm)
  qed
  then show ?thesis by (auto simp: bucket_index_def word_less_nat_alt Let_def not_less)
qed

lemma bucket_index_mid:
  assumes "2 ^ (k + 5) \<le> unat v" "unat v < 2 ^ (k + 6)" "1 \<le> k" "k < 15"
  shows "bucket_index v = k"
proof -
  have "bit_width (unat v) = Suc (k + 5)"
    using assms by (intro bit_width_unique) (simp_all add: add.commute)
  moreover have "\<not> v < 64"
  proof -
    have "(2::nat) ^ 6 \<le> 2 ^ (k + 5)" using assms(3) by (intro power_increasing) simp_all
    then show ?thesis using assms(1) by (simp add: word_less_nat_alt)
  qed
  ultimately show ?thesis using assms(4) by (simp add: bucket_index_def Let_def)
qed

lemma bucket_index_top:
  assumes "2 ^ 20 \<le> unat v"
  shows "bucket_index v = 15"
proof -
  have "unat v < 2 ^ bit_width (unat v)" using bit_width_bounds [of "unat v"] assms by simp
  then have "(2::nat) ^ 20 < 2 ^ bit_width (unat v)" using assms by (rule le_less_trans [rotated])
  then have "20 < bit_width (unat v)"
    by (simp only: power_strict_increasing_iff one_less_numeral_iff semiring_norm)
  then show ?thesis using assms by (simp add: bucket_index_def Let_def word_less_nat_alt)
qed

section \<open>The aggregate\<close>

lemma signed_difference_exact:
  assumes "unat a < 2 ^ 63" "unat b < 2 ^ 63"
  shows "signed_difference a b = int (unat a) - int (unat b)"
proof -
  have "sint w = int (unat w)" if "unat w < 2 ^ 63" for w :: u64
  proof -
    have "int (unat w) < int (2 ^ 63)" using that by (simp only: of_nat_less_iff)
    then have w: "int (unat w) < 2 ^ 63" by (simp only: of_nat_power of_nat_numeral)
    have "sint w = signed_take_bit 63 (int (unat w))" by (simp add: sint_uint)
    also have "\<dots> = int (unat w)" by (rule signed_take_bit_int_eq_self [OF _ w]) (rule order_trans [of _ 0], simp_all del: of_nat_unat)
    finally show ?thesis .
  qed
  then show ?thesis using assms by (simp add: signed_difference_def)
qed

text \<open>
  Every member of a snapshot is summed the same way. The contract of a member: it is zero in
  the empty snapshot and adds under \<^verbatim>\<open>operator+=\<close>.
\<close>

definition latest_sum :: "(metrics_snapshot \<Rightarrow> u64) \<Rightarrow> metrics_snapshot list list \<Rightarrow> u64" where
  "latest_sum get h = sum_list (map (\<lambda>ss. get (last ss)) (filter (\<lambda>ss. ss \<noteq> []) h))"

definition previous_sum :: "(metrics_snapshot \<Rightarrow> u64) \<Rightarrow> metrics_snapshot list list \<Rightarrow> u64" where
  "previous_sum get h = sum_list (map (\<lambda>ss. get (last (butlast ss))) (filter (\<lambda>ss. length ss \<ge> 2) h))"

locale snapshot_field =
  fixes get :: "metrics_snapshot \<Rightarrow> u64"
  assumes get_zero: "get zero_snapshot = 0"
    and get_add: "get (add_snapshot s r) = get s + get r"
begin

lemma get_step:
  assumes "aggregate_step ss (c, p) = (c', p')"
  shows "get c' = get c + (if ss = [] then 0 else get (last ss))"
    and "get p' = get p + (if length ss \<ge> 2 then get (last (butlast ss)) else 0)"
proof -
  have prev: "ss ! (length ss - 2) = last (butlast ss)" if "length ss \<ge> 2"
  proof -
    have "butlast ss \<noteq> []" using that by (cases ss) auto
    then show ?thesis using that by (simp add: last_conv_nth nth_butlast numeral_2_eq_2)
  qed
  show "get c' = get c + (if ss = [] then 0 else get (last ss))"
    and "get p' = get p + (if length ss \<ge> 2 then get (last (butlast ss)) else 0)"
    using assms prev
    by (auto simp: aggregate_step_def Let_def get_add last_conv_nth split: if_splits)
qed

lemma get_fold:
  "get (fst (fold aggregate_step h (c, p))) = get c + latest_sum get h
   \<and> get (snd (fold aggregate_step h (c, p))) = get p + previous_sum get h"
proof (induction h arbitrary: c p)
  case Nil
  show ?case by (simp add: latest_sum_def previous_sum_def)
next
  case (Cons ss h)
  obtain c' p' where step: "aggregate_step ss (c, p) = (c', p')" by (cases "aggregate_step ss (c, p)")
  show ?case
    using Cons.IH [of c' p'] get_step [OF step] step by (simp add: latest_sum_def previous_sum_def)
qed

lemma get_current: "get (ma_current (get_aggregate_delta h)) = latest_sum get h"
  using get_fold [of h zero_snapshot zero_snapshot]
  by (simp add: get_aggregate_delta_def case_prod_beta get_zero)

lemma get_change:
  assumes "\<And>a b. dget (compute_difference a b) = signed_difference (get a) (get b)"
  shows "dget (ma_change (get_aggregate_delta h)) = signed_difference (latest_sum get h) (previous_sum get h)"
  using get_fold [of h zero_snapshot zero_snapshot]
  by (simp add: get_aggregate_delta_def case_prod_beta get_zero assms)

end

interpretation sent_field: snapshot_field ms_bytes_sent
  by unfold_locales (simp_all add: zero_snapshot_def add_snapshot_def)

interpretation read_field: snapshot_field ms_bytes_read
  by unfold_locales (simp_all add: zero_snapshot_def add_snapshot_def)

interpretation connected_field: snapshot_field ms_connected_sessions
  by unfold_locales (simp_all add: zero_snapshot_def add_snapshot_def)

interpretation attempts_field: snapshot_field ms_connection_attempts
  by unfold_locales (simp_all add: zero_snapshot_def add_snapshot_def)

end
