(* ===== verification/Message_Handlers.thy ===== *)
theory Message_Handlers
  imports Prelude
begin

text \<open>
  \<^verbatim>\<open>packets/message-handler-interface.h\<close>, \<^verbatim>\<open>header-result.h\<close>, \<^verbatim>\<open>nop-message-handler.{h,cpp}\<close> and
  \<^verbatim>\<open>wasm-message-handler.{h,cpp}\<close>: how server messages are turned into responses.

  The guest module and the WebAssembly runtime are not part of the program. A guest is a
  record of functions on an opaque state: its memory, a write to it, and the exported
  functions. A call of one gives a \<^verbatim>\<open>Result\<close> with a value or with an error, a trap for instance,
  or an exception leaves it. The runtime documents that \<^verbatim>\<open>Result::unwrap\<close> aborts the process when
  there is an error, so of the three only an exception reaches the \<^verbatim>\<open>catch\<close> clauses.
\<close>

section \<open>Results and the interface\<close>

datatype header_status = Header_OK | Header_ERROR | Header_TIMEOUT

record header_result =
  hr_length :: nat
  hr_status :: header_status

text \<open>
  A handler: \<open>hd_parse_message\<close> yields the packets its callback is called with, oldest
  first, or \<open>None\<close> where the host reads or writes outside the guest's memory or the process is
  aborted.
\<close>

record 'h handler_ops =
  hd_parse_header :: "u8 list \<Rightarrow> 'h \<Rightarrow> (header_result \<times> 'h) option"
  hd_parse_message :: "u8 list \<Rightarrow> u8 list \<Rightarrow> 'h \<Rightarrow> (u8 list list \<times> 'h) option"

text \<open>
  What a session relies on: a message that fits the 32-bit sizes of the interface is
  answered by exactly one call of the callback, and a header by a result.
\<close>

locale message_handler =
  fixes ops :: "'h handler_ops"
  assumes header_defined: "length buf < 2 ^ 32 \<Longrightarrow> hd_parse_header ops buf h \<noteq> None"
    and one_callback: "length header + length body < 2 ^ 32 \<Longrightarrow>
      \<exists>r h'. hd_parse_message ops header body h = Some ([r], h')"
begin

lemma header_total:
  assumes "length buf < 2 ^ 32"
  obtains r h' where "hd_parse_header ops buf h = Some (r, h')"
  using header_defined [OF assms, of h] by auto

lemma message_total:
  assumes "length header + length body < 2 ^ 32"
  obtains r h' where "hd_parse_message ops header body h = Some ([r], h')"
  using one_callback [OF assms, of h] by auto

end

section \<open>The handler that ignores messages\<close>

definition nop_parse_message :: "u8 list \<Rightarrow> u8 list \<Rightarrow> unit \<Rightarrow> (u8 list list \<times> unit) option" where
  "nop_parse_message header body h = Some ([[]], h)"

definition nop_parse_header :: "u8 list \<Rightarrow> unit \<Rightarrow> (header_result \<times> unit) option" where
  "nop_parse_header buffer h = Some (\<lparr>hr_length = 0, hr_status = Header_OK\<rparr>, h)"

definition nop_handler :: "unit handler_ops" where
  "nop_handler = \<lparr>hd_parse_header = nop_parse_header, hd_parse_message = nop_parse_message\<rparr>"

interpretation nop: message_handler nop_handler
  by unfold_locales (simp_all add: nop_handler_def nop_parse_header_def nop_parse_message_def)

section \<open>The WebAssembly handler\<close>

datatype exn = Trap_Exn string | Std_Exn string

datatype 'a wasm_call = Returned 'a | Failed string | Threw exn

record 'g wasm_guest =
  wg_memory :: "'g \<Rightarrow> u8 list"
  wg_write :: "nat \<Rightarrow> u8 list \<Rightarrow> 'g \<Rightarrow> 'g"
  wg_alloc :: "u32 \<Rightarrow> 'g \<Rightarrow> u32 wasm_call \<times> 'g"
  wg_dealloc :: "u32 \<Rightarrow> u32 \<Rightarrow> 'g \<Rightarrow> unit wasm_call \<times> 'g"
  wg_handle_body :: "u32 \<Rightarrow> u32 \<Rightarrow> 'g \<Rightarrow> u64 wasm_call \<times> 'g"
  wg_handle_header :: "(u32 \<Rightarrow> u32 \<Rightarrow> 'g \<Rightarrow> u32 wasm_call \<times> 'g) option"

record 'g wasm_state =
  ws_guest :: 'g
  ws_warnings :: "string list"

definition warn :: "string \<Rightarrow> 'g wasm_state \<Rightarrow> 'g wasm_state" where
  "warn msg s = s\<lparr>ws_warnings := ws_warnings s @ [msg]\<rparr>"

text \<open>
  The body of a \<^verbatim>\<open>try\<close> block: a step returns a value, leaves with an exception, aborts the process,
  or makes the host access memory it must not.
\<close>

datatype 'a outcome = Done 'a | Raise exn | Aborted string | Out_Of_Bounds

fun then_do :: "'a outcome \<times> 's \<Rightarrow> ('a \<Rightarrow> 's \<Rightarrow> 'b outcome \<times> 's) \<Rightarrow> 'b outcome \<times> 's" where
  "then_do (Done x, s) f = f x s"
| "then_do (Raise e, s) f = (Raise e, s)"
| "then_do (Aborted m, s) f = (Aborted m, s)"
| "then_do (Out_Of_Bounds, s) f = (Out_Of_Bounds, s)"

text \<open>A call of an exported function, followed by \<^verbatim>\<open>unwrap\<close>, which aborts on an error.\<close>

definition call_guest :: "('g \<Rightarrow> 'a wasm_call \<times> 'g) \<Rightarrow> 'g wasm_state \<Rightarrow> 'a outcome \<times> 'g wasm_state" where
  "call_guest f s =
     (let (r, g) = f (ws_guest s); s = s\<lparr>ws_guest := g\<rparr>
      in case r of Returned x \<Rightarrow> (Done x, s)
         | Failed m \<Rightarrow> (Aborted m, s)
         | Threw e \<Rightarrow> (Raise e, s))"

text \<open>\<^verbatim>\<open>memcpy\<close> to and from the guest's memory.\<close>

definition copy_in :: "'g wasm_guest \<Rightarrow> nat \<Rightarrow> u8 list \<Rightarrow> 'g wasm_state \<Rightarrow> unit outcome \<times> 'g wasm_state" where
  "copy_in w k bs s =
     (if k + length bs \<le> length (wg_memory w (ws_guest s))
      then (Done (), s\<lparr>ws_guest := wg_write w k bs (ws_guest s)\<rparr>) else (Out_Of_Bounds, s))"

definition copy_out :: "'g wasm_guest \<Rightarrow> nat \<Rightarrow> nat \<Rightarrow> 'g wasm_state \<Rightarrow> u8 list outcome \<times> 'g wasm_state" where
  "copy_out w k n s =
     (let mem = wg_memory w (ws_guest s)
      in if k + n \<le> length mem then (Done (take n (drop k mem)), s) else (Out_Of_Bounds, s))"

definition dealloc :: "'g wasm_guest \<Rightarrow> u32 \<Rightarrow> u32 \<Rightarrow> 'g wasm_state \<Rightarrow> unit outcome \<times> 'g wasm_state" where
  "dealloc w index len = call_guest (wg_dealloc w index len)"

text \<open>The test both entry points make before they touch the guest's memory.\<close>

definition fits_memory :: "'g wasm_guest \<Rightarrow> u32 \<Rightarrow> u32 \<Rightarrow> 'g wasm_state \<Rightarrow> bool" where
  "fits_memory w index len s \<longleftrightarrow>
     \<not> unat index + unat len > length (wg_memory w (ws_guest s))"

definition header_error :: header_result where
  "header_error = \<lparr>hr_length = 0, hr_status = Header_ERROR\<rparr>"

definition header_body ::
  "'g wasm_guest \<Rightarrow> (u32 \<Rightarrow> u32 \<Rightarrow> 'g \<Rightarrow> u32 wasm_call \<times> 'g) \<Rightarrow> u8 list \<Rightarrow> 'g wasm_state
    \<Rightarrow> header_result outcome \<times> 'g wasm_state" where
  "header_body w handle_header buffer s =
     (let input_length = (of_nat (length buffer) :: u32) in
      then_do (call_guest (wg_alloc w (of_nat (length buffer))) s) (\<lambda>input_index s.
      if input_index = 0 then
        then_do (dealloc w input_index input_length (warn ''Bad allocation detected for header'' s)) (\<lambda>_ s.
        (Done header_error, s))
      else if \<not> fits_memory w input_index input_length s then
        then_do (dealloc w input_index input_length
          (warn (''OOB behavior detected during header input buffer write. ''
             @ ''Your WASM script violates the contract.'') s)) (\<lambda>_ s.
        (Done header_error, s))
      else
        then_do (copy_in w (unat input_index) buffer s) (\<lambda>_ s.
        then_do (call_guest (handle_header input_index input_length) s) (\<lambda>header_res s.
        if sint header_res < 0 then
          then_do (dealloc w input_index input_length
            (warn (''handle_header returned a negative size. ''
               @ ''Your WASM script violates the contract.'') s)) (\<lambda>_ s.
          (Done header_error, s))
        else
          then_do (dealloc w input_index input_length s) (\<lambda>_ s.
          (Done \<lparr>hr_length = unat header_res, hr_status = Header_OK\<rparr>, s))))))"

definition wasm_parse_header ::
  "'g wasm_guest \<Rightarrow> u8 list \<Rightarrow> 'g wasm_state \<Rightarrow> (header_result \<times> 'g wasm_state) option" where
  "wasm_parse_header w buffer s =
     (case wg_handle_header w of
        None \<Rightarrow>
          Some (header_error,
                warn (''No header parse function was found! Either provide a WASM handle_header export or ''
                  @ ''provide byte fields to read in config!'') s)
      | Some handle_header \<Rightarrow>
          (case header_body w handle_header buffer s of
             (Done r, s) \<Rightarrow> Some (r, s)
           | (Raise e, s) \<Rightarrow>
               Some (header_error,
                     warn (''Exception during header input buffer write. ''
                       @ ''Your WASM script violates the contract.'') s)
           | _ \<Rightarrow> None))"

text \<open>The value a guest returns: the response's index in the low half, its length in the high half.\<close>

definition unpack_index :: "u64 \<Rightarrow> u32" where
  "unpack_index packed = ucast (and packed 0xffffffff)"

definition unpack_length :: "u64 \<Rightarrow> u32" where
  "unpack_length packed = ucast (and (drop_bit 32 packed) 0xffffffff)"

definition message_body ::
  "'g wasm_guest \<Rightarrow> u8 list \<Rightarrow> u8 list \<Rightarrow> 'g wasm_state \<Rightarrow> u8 list outcome \<times> 'g wasm_state" where
  "message_body w header body s =
     (let input_length = (of_nat (length header + length body) :: u32) in
      then_do (call_guest (wg_alloc w input_length) s) (\<lambda>input_index s.
      if input_index = 0 then (Done [], warn ''Bad allocation detected for body'' s)
      else if \<not> fits_memory w input_index input_length s then
        then_do (dealloc w input_index input_length
          (warn (''OOB behavior detected during input buffer write. ''
             @ ''Your WASM script violates the contract.'') s)) (\<lambda>_ s.
        (Done [], s))
      else
        then_do (copy_in w (unat input_index) header s) (\<lambda>_ s.
        then_do (copy_in w (unat input_index + length header) body s) (\<lambda>_ s.
        then_do (call_guest (wg_handle_body w input_index input_length) s) (\<lambda>packed s.
        let out_index = unpack_index packed; out_length = unpack_length packed in
        if out_length > 0 then
          if \<not> fits_memory w out_index out_length s then
            then_do (dealloc w out_index out_length
              (warn (''OOB behavior detected during response buffer read. ''
                 @ ''Your WASM script violates the contract.'') s)) (\<lambda>_ s.
            then_do (dealloc w input_index input_length s) (\<lambda>_ s.
            (Done [], s)))
          else
            then_do (copy_out w (unat out_index) (unat out_length) s) (\<lambda>vec s.
            then_do (dealloc w out_index out_length s) (\<lambda>_ s.
            then_do (dealloc w input_index input_length s) (\<lambda>_ s.
            (Done vec, s))))
        else
          then_do (dealloc w input_index input_length s) (\<lambda>_ s.
          (Done [], s)))))))"

text \<open>Each way out of the \<^verbatim>\<open>try\<close> block and its two handlers calls the callback once; an abort is no way out.\<close>

definition wasm_parse_message ::
  "'g wasm_guest \<Rightarrow> u8 list \<Rightarrow> u8 list \<Rightarrow> 'g wasm_state \<Rightarrow> (u8 list list \<times> 'g wasm_state) option" where
  "wasm_parse_message w header body s =
     (case message_body w header body s of
        (Done vec, s) \<Rightarrow> Some ([vec], s)
      | (Raise (Trap_Exn m), s) \<Rightarrow> Some ([[]], warn (''WASM Trap during packet processing: '' @ m) s)
      | (Raise (Std_Exn m), s) \<Rightarrow> Some ([[]], warn (''WASM exception during packet processing: '' @ m) s)
      | _ \<Rightarrow> None)"

definition wasm_handler :: "'g wasm_guest \<Rightarrow> 'g wasm_state handler_ops" where
  "wasm_handler w = \<lparr>hd_parse_header = wasm_parse_header w, hd_parse_message = wasm_parse_message w\<rparr>"

subsection \<open>The host stays inside the guest's memory\<close>

text \<open>Documented behaviour of a linear memory: writing inside it does not change its size.\<close>

definition memory_law :: "'g wasm_guest \<Rightarrow> bool" where
  "memory_law w \<longleftrightarrow>
     (\<forall>k bs g. k + length bs \<le> length (wg_memory w g)
        \<longrightarrow> length (wg_memory w (wg_write w k bs g)) = length (wg_memory w g))"

definition in_bounds :: "'a outcome \<times> 's \<Rightarrow> bool" where
  "in_bounds r \<longleftrightarrow> fst r \<noteq> Out_Of_Bounds"

lemma in_bounds_pair [simp]: "in_bounds (Done x, s)" "in_bounds (Raise e, s)" "in_bounds (Aborted m, s)"
  by (simp_all add: in_bounds_def)

lemma then_do_in_bounds:
  assumes "in_bounds r" and "\<And>x s. r = (Done x, s) \<Longrightarrow> in_bounds (f x s)"
  shows "in_bounds (then_do r f)"
  using assms by (cases r; cases "fst r") (auto simp: in_bounds_def)

text \<open>
  A guest none of whose calls gives an error. Its handler never aborts, and only a call that
  gives an error makes one abort.
\<close>

fun gives_error :: "'a wasm_call \<Rightarrow> bool" where
  "gives_error (Failed m) = True"
| "gives_error r = False"

definition never_fails :: "'g wasm_guest \<Rightarrow> bool" where
  "never_fails w \<longleftrightarrow>
     (\<forall>i n g. \<not> gives_error (fst (wg_alloc w n g)) \<and> \<not> gives_error (fst (wg_dealloc w i n g))
        \<and> \<not> gives_error (fst (wg_handle_body w i n g))
        \<and> (case wg_handle_header w of None \<Rightarrow> True | Some f \<Rightarrow> \<not> gives_error (fst (f i n g))))"

definition goes_on :: "'a outcome \<times> 's \<Rightarrow> bool" where
  "goes_on r \<longleftrightarrow> (\<forall>m. fst r \<noteq> Aborted m)"

lemma goes_on_pair [simp]: "goes_on (Done x, s)" "goes_on (Raise e, s)" "goes_on (Out_Of_Bounds, s)"
  by (simp_all add: goes_on_def)

lemma then_do_goes_on:
  assumes "goes_on r" and "\<And>x s. r = (Done x, s) \<Longrightarrow> goes_on (f x s)"
  shows "goes_on (then_do r f)"
  using assms by (cases r; cases "fst r") (auto simp: goes_on_def)

lemma call_guest_goes_on: "goes_on (call_guest f s) \<longleftrightarrow> \<not> gives_error (fst (f (ws_guest s)))"
  by (auto simp: goes_on_def call_guest_def Let_def split: prod.split wasm_call.split)

lemma copy_goes_on [simp]: "goes_on (copy_in w k bs s)" "goes_on (copy_out w k n s)"
  by (simp_all add: copy_in_def copy_out_def Let_def)

lemma call_guest_in_bounds [simp]: "in_bounds (call_guest f s)"
  by (simp add: in_bounds_def call_guest_def Let_def split: prod.split wasm_call.split)

lemma dealloc_in_bounds [simp]: "in_bounds (dealloc w i n s)"
  by (simp add: dealloc_def)

lemma copy_in_bounds: "k + length bs \<le> length (wg_memory w (ws_guest s)) \<Longrightarrow> in_bounds (copy_in w k bs s)"
  by (simp add: copy_in_def)

lemma copy_out_bounds: "k + n \<le> length (wg_memory w (ws_guest s)) \<Longrightarrow> in_bounds (copy_out w k n s)"
  by (simp add: copy_out_def Let_def)

lemma copy_in_memory:
  "memory_law w \<Longrightarrow> copy_in w k bs s = (Done u, s') \<Longrightarrow>
   length (wg_memory w (ws_guest s')) = length (wg_memory w (ws_guest s))"
  by (auto simp: copy_in_def memory_law_def split: if_splits)

lemma unat_of_nat_u32: "n < 2 ^ 32 \<Longrightarrow> unat (of_nat n :: u32) = n"
  by (simp add: unat_of_nat)

lemma header_body_in_bounds:
  assumes "length buffer < 2 ^ 32"
  shows "in_bounds (header_body w hh buffer s)"
  unfolding header_body_def Let_def
  using assms
  by (auto intro!: then_do_in_bounds copy_in_bounds simp: fits_memory_def unat_of_nat_u32)

lemma message_body_in_bounds:
  assumes "length header + length body < 2 ^ 32" "memory_law w"
  shows "in_bounds (message_body w header body s)"
  unfolding message_body_def Let_def
  using assms unat_of_nat_u32 [OF assms(1)]
  by (auto intro!: then_do_in_bounds copy_in_bounds copy_out_bounds
      dest!: copy_in_memory [OF assms(2)] simp: fits_memory_def)

lemma header_body_goes_on:
  assumes "never_fails w" "wg_handle_header w = Some hh"
  shows "goes_on (header_body w hh buffer s)"
proof -
  have "\<not> gives_error (fst (hh i n g))" for i n g using assms by (simp add: never_fails_def)
  then show ?thesis
    unfolding header_body_def Let_def dealloc_def
    using assms(1) by (auto intro!: then_do_goes_on simp: call_guest_goes_on never_fails_def)
qed

lemma message_body_goes_on:
  assumes "never_fails w"
  shows "goes_on (message_body w header body s)"
  unfolding message_body_def Let_def dealloc_def
  using assms by (auto intro!: then_do_goes_on simp: call_guest_goes_on never_fails_def)

text \<open>What the two entry points make of the body of their \<^verbatim>\<open>try\<close> block.\<close>

lemma wasm_parse_header_None:
  assumes "length buffer < 2 ^ 32"
  shows "hd_parse_header (wasm_handler w) buffer s = None \<longleftrightarrow>
    (\<exists>hh. wg_handle_header w = Some hh \<and> \<not> goes_on (header_body w hh buffer s))"
  using header_body_in_bounds [OF assms, of w _ s]
  by (auto simp: in_bounds_def goes_on_def wasm_handler_def wasm_parse_header_def
      split: option.split prod.split outcome.split) (metis fst_conv)+

lemma wasm_parse_message_cases:
  assumes "length header + length body < 2 ^ 32" "memory_law w"
  shows "case hd_parse_message (wasm_handler w) header body s of
      None \<Rightarrow> \<not> goes_on (message_body w header body s)
    | Some (answers, s') \<Rightarrow> goes_on (message_body w header body s) \<and> length answers = 1"
  using message_body_in_bounds [OF assms, of s]
  by (auto simp: in_bounds_def goes_on_def wasm_handler_def wasm_parse_message_def
      split: prod.split outcome.split exn.split)

lemma wasm_message_handler:
  assumes "memory_law w" "never_fails w"
  shows "message_handler (wasm_handler w)"
proof
  show "hd_parse_header (wasm_handler w) buf h \<noteq> None" if "length buf < 2 ^ 32" for buf h
    using wasm_parse_header_None [OF that] header_body_goes_on [OF assms(2)] by blast
  show "\<exists>r h'. hd_parse_message (wasm_handler w) header body h = Some ([r], h')"
    if "length header + length body < 2 ^ 32" for header body h
    using wasm_parse_message_cases [OF that assms(1), of h] message_body_goes_on [OF assms(2), of header body h]
    by (auto simp: length_Suc_conv split: option.splits prod.splits)
qed

end
