(* ===== verification/Session_Core.thy ===== *)
theory Session_Core
  imports Execution_Plan Metrics Message_Handlers
begin

text \<open>
  The part of \<^verbatim>\<open>transports/tcp-session.{h,cpp}\<close> and \<^verbatim>\<open>transports/udp-session.{h,cpp}\<close> the two
  session classes have in common: the flags, the queue of responses, the writer and its
  sampling, closing, and the operations a pool calls.

  All of it runs on the session's strand, so a handler is one step on the state. An
  asynchronous operation is added to \<open>ss_pending\<close>; its completion is a later step. \<open>ss_log\<close>
  keeps every write that was started, \<open>ss_disconnects\<close> counts the calls of \<^verbatim>\<open>on_disconnect_\<close>.
  A result is \<open>None\<close> where the source has undefined behaviour or does not return.
\<close>

text \<open>
  The clock readings of one handler: the system clock for timestamps, and the steady clock
  where a latency ends and where a new one starts.
\<close>

record moment =
  mo_clock :: clock
  mo_stop :: int
  mo_now :: int

section \<open>State\<close>

text \<open>What a write sends: a response, or the payload of an index with the bytes its buffers hold.\<close>

datatype write_data = Response_Write "u8 list" | Payload_Write nat "u8 list option"

datatype socket_op =
  Connect_Op int
| Read_Header_Op
| Read_Body_Op nat
| Receive_Op
| Write_Op write_data
| Response_Post "u8 list"

record session =
  ss_live :: bool
  ss_flood :: bool
  ss_draining :: bool
  ss_writing :: bool
  ss_responses :: "u8 list list"
  ss_next_payload_index :: nat
  ss_current_payload :: prepared_payload
  ss_writes_queued :: u64
  ss_write_sample :: u32
  ss_read_sample :: u32
  ss_write_start :: int
  ss_read_start :: int
  ss_pending :: "socket_op list"
  ss_log :: "write_data list"
  ss_disconnects :: nat

text \<open>What the sessions of a shard share.\<close>

record 'h shard_context =
  cx_metrics :: shard_metrics
  cx_manager :: payload_manager
  cx_handler :: 'h

definition on_metrics :: "(shard_metrics \<Rightarrow> shard_metrics) \<Rightarrow> 'h shard_context \<Rightarrow> 'h shard_context" where
  "on_metrics f cx = cx\<lparr>cx_metrics := f (cx_metrics cx)\<rparr>"

definition new_session :: "session_config \<Rightarrow> session" where
  "new_session cfg =
     \<lparr>ss_live = False, ss_flood = False, ss_draining = False, ss_writing = False, ss_responses = [],
      ss_next_payload_index = 0, ss_current_payload = empty_payload, ss_writes_queued = 0,
      ss_write_sample = cfg_packet_sample_rate cfg, ss_read_sample = cfg_packet_sample_rate cfg,
      ss_write_start = 0, ss_read_start = 0, ss_pending = [], ss_log = [], ss_disconnects = 0\<rparr>"

definition start_op :: "socket_op \<Rightarrow> 'a session_scheme \<Rightarrow> 'a session_scheme" where
  "start_op op s = s\<lparr>ss_pending := ss_pending s @ [op]\<rparr>"

section \<open>Sampling of latencies\<close>

text \<open>The difference of two readings of the steady clock, in microseconds.\<close>

definition latency_us :: "int \<Rightarrow> int \<Rightarrow> u64" where
  "latency_us start stop = word_of_int ((stop - start) sdiv 1000)"

definition sample_write_start :: "session_config \<Rightarrow> int \<Rightarrow> 'a session_scheme \<Rightarrow> 'a session_scheme" where
  "sample_write_start cfg now s =
     (let s = s\<lparr>ss_write_sample := ss_write_sample s + 1\<rparr>
      in if ss_write_sample s \<ge> cfg_packet_sample_rate cfg then s\<lparr>ss_write_start := now\<rparr> else s)"

definition sample_read_start :: "session_config \<Rightarrow> int \<Rightarrow> 'a session_scheme \<Rightarrow> 'a session_scheme" where
  "sample_read_start cfg now s =
     (let s = s\<lparr>ss_read_sample := ss_read_sample s + 1\<rparr>
      in if ss_read_sample s \<ge> cfg_packet_sample_rate cfg then s\<lparr>ss_read_start := now\<rparr> else s)"

definition sample_write_end ::
  "session_config \<Rightarrow> int \<Rightarrow> 'a session_scheme \<times> 'h shard_context \<Rightarrow> 'a session_scheme \<times> 'h shard_context" where
  "sample_write_end cfg now w =
     (case w of (s, cx) \<Rightarrow>
      if ss_write_sample s > cfg_packet_sample_rate cfg
      then (s\<lparr>ss_write_sample := 0\<rparr>, on_metrics (record_send_latency (latency_us (ss_write_start s) now)) cx)
      else (s, cx))"

definition sample_read_end ::
  "session_config \<Rightarrow> int \<Rightarrow> 'a session_scheme \<times> 'h shard_context \<Rightarrow> 'a session_scheme \<times> 'h shard_context" where
  "sample_read_end cfg now w =
     (case w of (s, cx) \<Rightarrow>
      if ss_read_sample s > cfg_packet_sample_rate cfg
      then (s\<lparr>ss_read_sample := 0\<rparr>, on_metrics (record_read_latency (latency_us (ss_read_start s) now)) cx)
      else (s, cx))"

section \<open>Closing and writing\<close>

definition close_session :: "'a session_scheme \<Rightarrow> 'a session_scheme" where
  "close_session s =
     (if \<not> ss_live s then s
      else s\<lparr>ss_live := False, ss_disconnects := Suc (ss_disconnects s)\<rparr>)"

definition issue_write :: "write_data \<Rightarrow> 'a session_scheme \<Rightarrow> 'a session_scheme" where
  "issue_write d s = (start_op (Write_Op d) s)\<lparr>ss_log := ss_log s @ [d]\<rparr>"

definition payload_bytes :: "payload_manager \<Rightarrow> nat \<Rightarrow> prepared_payload \<Rightarrow> u8 list option" where
  "payload_bytes m k p =
     (if k < length (pm_payloads m) then gather (pd_packet_data (pm_payloads m ! k)) p else None)"

partial_function (option) do_write ::
  "session_config \<Rightarrow> clock \<Rightarrow> int \<Rightarrow> 'a session_scheme \<Rightarrow> 'h shard_context
    \<Rightarrow> ('a session_scheme \<times> 'h shard_context) option" where
  "do_write cfg clk now s cx =
     (if ss_responses s \<noteq> [] then
        let packet = hd (ss_responses s);
            s = s\<lparr>ss_responses := tl (ss_responses s), ss_writing := True\<rparr>
        in Some (issue_write (Response_Write packet) (sample_write_start cfg now s), cx)
      else if ss_flood s \<or> ss_writes_queued s > 0 then
        (case fill_payload clk (ss_next_payload_index s) (cx_manager cx) (ss_current_payload s) of
           None \<Rightarrow> None
         | Some (valid_payload, m, p) \<Rightarrow>
             if \<not> valid_payload then
               if cfg_loop_payloads cfg \<and> \<not> ss_draining s
               then do_write cfg clk now (s\<lparr>ss_next_payload_index := 0\<rparr>) cx
               else let s = s\<lparr>ss_writing := False\<rparr>
                    in Some (if ss_draining s then close_session s else s, cx)
             else
               let k = ss_next_payload_index s;
                   s = (if \<not> ss_flood s then s\<lparr>ss_writes_queued := ss_writes_queued s - 1\<rparr> else s);
                   s = s\<lparr>ss_current_payload := p, ss_next_payload_index := Suc k, ss_writing := True\<rparr>
               in Some (issue_write (Payload_Write k (payload_bytes m k p)) (sample_write_start cfg now s),
                        cx\<lparr>cx_manager := m\<rparr>))
      else
        let s = s\<lparr>ss_writing := False\<rparr>
        in Some (if ss_draining s then close_session s else s, cx))"

definition try_start_write ::
  "session_config \<Rightarrow> clock \<Rightarrow> int \<Rightarrow> 'a session_scheme \<Rightarrow> 'h shard_context
    \<Rightarrow> ('a session_scheme \<times> 'h shard_context) option" where
  "try_start_write cfg clk now s cx =
     (if ss_writing s then Some (s, cx)
      else if ss_flood s \<or> ss_writes_queued s > 0 \<or> ss_responses s \<noteq> [] then do_write cfg clk now s cx
      else if ss_draining s then Some (close_session s, cx)
      else Some (s, cx))"

text \<open>The completion of a write; the writer goes on from it.\<close>

definition write_done ::
  "session_config \<Rightarrow> clock \<Rightarrow> int \<Rightarrow> int \<Rightarrow> bool \<Rightarrow> u64 \<Rightarrow> 'a session_scheme \<Rightarrow> 'h shard_context
    \<Rightarrow> ('a session_scheme \<times> 'h shard_context) option" where
  "write_done cfg clk stop now ec count s cx =
     (if ec then Some (close_session s, cx)
      else let (s, cx) = sample_write_end cfg stop (s, on_metrics (record_bytes_sent count) cx)
           in do_write cfg clk now s cx)"

section \<open>Operations of the pool\<close>

text \<open>\<open>ready\<close> is the test each class makes before it starts a write: live and, for TCP, not connecting.\<close>

definition session_flood ::
  "bool \<Rightarrow> session_config \<Rightarrow> clock \<Rightarrow> int \<Rightarrow> 'a session_scheme \<Rightarrow> 'h shard_context
    \<Rightarrow> ('a session_scheme \<times> 'h shard_context) option" where
  "session_flood ready cfg clk now s cx =
     (if ss_flood s \<or> ss_draining s then Some (s, cx)
      else let s = s\<lparr>ss_flood := True\<rparr>
           in if ready then try_start_write cfg clk now s cx else Some (s, cx))"

definition session_send ::
  "bool \<Rightarrow> session_config \<Rightarrow> clock \<Rightarrow> int \<Rightarrow> u64 \<Rightarrow> 'a session_scheme \<Rightarrow> 'h shard_context
    \<Rightarrow> ('a session_scheme \<times> 'h shard_context) option" where
  "session_send ready cfg clk now N s cx =
     (let s = s\<lparr>ss_writes_queued := ss_writes_queued s + N\<rparr>
      in if ready then try_start_write cfg clk now s cx else Some (s, cx))"

definition session_drain :: "'a session_scheme \<Rightarrow> 'a session_scheme" where
  "session_drain s =
     (let s = s\<lparr>ss_draining := True\<rparr>
      in if \<not> ss_writing s \<and> ss_writes_queued s = 0 \<and> ss_responses s = [] then close_session s else s)"

definition session_stop :: "'a session_scheme \<Rightarrow> 'a session_scheme" where
  "session_stop s = close_session s"

section \<open>What a write can do\<close>

lemma fill_payload_flag:
  assumes "fill_payload clk k m p = Some (b, m', p')"
  shows "b \<longleftrightarrow> k < length (pm_payloads m)" and "\<not> b \<Longrightarrow> m' = m \<and> p' = p"
    and "pm_payloads m' = pm_payloads m"
  using assms by (auto simp: fill_payload_def Let_def split: if_splits)

lemma fill_payload_bytes:
  assumes "manager_ok m" "k < length (pm_payloads m)"
    and "fill_payload clk k m p = Some (b, m', p')"
  shows "\<exists>bs. gather (pd_packet_data (pm_payloads m ! k)) p' = Some bs"
  using fill_payload_render [OF assms(2) refl refl, of clk p] assms by (auto simp: manager_ok_def)

definition response_step :: "session_config \<Rightarrow> int \<Rightarrow> 'a session_scheme \<Rightarrow> 'a session_scheme" where
  "response_step cfg now s =
     issue_write (Response_Write (hd (ss_responses s)))
       (sample_write_start cfg now (s\<lparr>ss_responses := tl (ss_responses s), ss_writing := True\<rparr>))"

definition payload_step ::
  "session_config \<Rightarrow> int \<Rightarrow> nat \<Rightarrow> payload_manager \<Rightarrow> prepared_payload \<Rightarrow> 'a session_scheme \<Rightarrow> 'a session_scheme" where
  "payload_step cfg now k m p s =
     issue_write (Payload_Write k (payload_bytes m k p))
       (sample_write_start cfg now
         (s\<lparr>ss_writes_queued := (if ss_flood s then ss_writes_queued s else ss_writes_queued s - 1),
            ss_current_payload := p, ss_next_payload_index := Suc k, ss_writing := True\<rparr>))"

definition idle_step :: "'a session_scheme \<Rightarrow> 'a session_scheme" where
  "idle_step s =
     (let s = s\<lparr>ss_writing := False\<rparr> in if ss_draining s then close_session s else s)"

definition wants_payload :: "'a session_scheme \<Rightarrow> bool" where
  "wants_payload s \<longleftrightarrow> ss_flood s \<or> ss_writes_queued s > 0"

text \<open>The index of the payload a writer takes next, going round when it loops.\<close>

definition next_index :: "session_config \<Rightarrow> nat \<Rightarrow> 'a session_scheme \<Rightarrow> nat" where
  "next_index cfg n s =
     (if ss_next_payload_index s \<ge> n \<and> cfg_loop_payloads cfg \<and> \<not> ss_draining s then 0
      else ss_next_payload_index s)"

inductive write_step ::
  "session_config \<Rightarrow> clock \<Rightarrow> int \<Rightarrow> 'a session_scheme \<Rightarrow> 'h shard_context
    \<Rightarrow> 'a session_scheme \<Rightarrow> 'h shard_context \<Rightarrow> bool" for cfg clk now s cx where
  response: "ss_responses s \<noteq> [] \<Longrightarrow> write_step cfg clk now s cx (response_step cfg now s) cx"
| payload: "ss_responses s = [] \<Longrightarrow> wants_payload s \<Longrightarrow>
    k = next_index cfg (length (pm_payloads (cx_manager cx))) s \<Longrightarrow>
    fill_payload clk k (cx_manager cx) (ss_current_payload s) = Some (True, m, p) \<Longrightarrow>
    write_step cfg clk now s cx (payload_step cfg now k m p s) (cx\<lparr>cx_manager := m\<rparr>)"
| idle: "ss_responses s = [] \<Longrightarrow>
    \<not> wants_payload s
    \<or> ss_next_payload_index s \<ge> length (pm_payloads (cx_manager cx)) \<and> \<not> (cfg_loop_payloads cfg \<and> \<not> ss_draining s) \<Longrightarrow>
    write_step cfg clk now s cx (idle_step s) cx"

inductive_cases write_stepE: "write_step cfg clk now s cx s' cx'"

lemma wants_payload_restart [simp]: "wants_payload (s\<lparr>ss_next_payload_index := k\<rparr>) = wants_payload s"
  by (simp add: wants_payload_def)

lemma payload_step_restart [simp]:
  "payload_step cfg now k m p (s\<lparr>ss_next_payload_index := j\<rparr>) = payload_step cfg now k m p s"
  by (simp add: payload_step_def)

lemma write_step_restart:
  assumes "write_step cfg clk now (s\<lparr>ss_next_payload_index := 0\<rparr>) cx s' cx'"
    and "ss_responses s = []" "wants_payload s" "cfg_loop_payloads cfg" "\<not> ss_draining s"
    and "ss_next_payload_index s \<ge> length (pm_payloads (cx_manager cx))"
  shows "write_step cfg clk now s cx s' cx'"
  using assms(1)
proof (cases rule: write_step.cases)
  case (payload k m p)
  then have "fill_payload clk k (cx_manager cx) (ss_current_payload s) = Some (True, m, p)" by simp
  moreover have "k = next_index cfg (length (pm_payloads (cx_manager cx))) s"
    using payload assms by (simp add: next_index_def)
  ultimately have "write_step cfg clk now s cx (payload_step cfg now k m p s) (cx\<lparr>cx_manager := m\<rparr>)"
    using assms by (intro write_step.payload)
  then show ?thesis using payload by simp
qed (use assms in simp_all)

lemma do_write_step:
  assumes "do_write cfg clk now s cx = Some y"
  shows "write_step cfg clk now s cx (fst y) (snd y)"
  using assms
proof (rule do_write.raw_induct [of "\<lambda>cfg clk now s cx y. write_step cfg clk now s cx (fst y) (snd y)", rotated])
  fix f :: "session_config \<Rightarrow> clock \<Rightarrow> int \<Rightarrow> 'a session_scheme \<Rightarrow> 'h shard_context
    \<Rightarrow> ('a session_scheme \<times> 'h shard_context) option"
  fix cfg clk now and s :: "'a session_scheme" and cx :: "'h shard_context" and y
  assume IH: "\<And>cfg clk now s cx y. f cfg clk now s cx = Some y \<Longrightarrow> write_step cfg clk now s cx (fst y) (snd y)"
  assume eq: "(if ss_responses s \<noteq> [] then
        let packet = hd (ss_responses s);
            s = s\<lparr>ss_responses := tl (ss_responses s), ss_writing := True\<rparr>
        in Some (issue_write (Response_Write packet) (sample_write_start cfg now s), cx)
      else if ss_flood s \<or> ss_writes_queued s > 0 then
        (case fill_payload clk (ss_next_payload_index s) (cx_manager cx) (ss_current_payload s) of
           None \<Rightarrow> None
         | Some (valid_payload, m, p) \<Rightarrow>
             if \<not> valid_payload then
               if cfg_loop_payloads cfg \<and> \<not> ss_draining s
               then f cfg clk now (s\<lparr>ss_next_payload_index := 0\<rparr>) cx
               else let s = s\<lparr>ss_writing := False\<rparr>
                    in Some (if ss_draining s then close_session s else s, cx)
             else
               let k = ss_next_payload_index s;
                   s = (if \<not> ss_flood s then s\<lparr>ss_writes_queued := ss_writes_queued s - 1\<rparr> else s);
                   s = s\<lparr>ss_current_payload := p, ss_next_payload_index := Suc k, ss_writing := True\<rparr>
               in Some (issue_write (Payload_Write k (payload_bytes m k p)) (sample_write_start cfg now s),
                        cx\<lparr>cx_manager := m\<rparr>))
      else
        let s = s\<lparr>ss_writing := False\<rparr>
        in Some (if ss_draining s then close_session s else s, cx)) = Some y"
  let ?n = "length (pm_payloads (cx_manager cx))"
  consider (resp) "ss_responses s \<noteq> []" | (none) "ss_responses s = []" "\<not> wants_payload s"
    | (some) b m p where "ss_responses s = []" "wants_payload s"
        "fill_payload clk (ss_next_payload_index s) (cx_manager cx) (ss_current_payload s) = Some (b, m, p)"
    using eq by (auto simp: wants_payload_def split: if_splits option.splits)
  then show "write_step cfg clk now s cx (fst y) (snd y)"
  proof cases
    case resp
    then show ?thesis
      using eq write_step.response [OF resp, of cfg clk now cx] by (auto simp: response_step_def Let_def)
  next
    case none
    then show ?thesis
      using eq write_step.idle [of s cx cfg clk now]
      by (auto simp: wants_payload_def idle_step_def Let_def)
  next
    case some
    note flag = fill_payload_flag [OF some(3)]
    show ?thesis
    proof (cases b)
      case True
      have "ss_next_payload_index s = next_index cfg ?n s"
        using True flag(1) by (simp add: next_index_def)
      then have "write_step cfg clk now s cx
          (payload_step cfg now (ss_next_payload_index s) m p s) (cx\<lparr>cx_manager := m\<rparr>)"
        using some True by (intro write_step.payload) simp_all
      moreover have "y = (payload_step cfg now (ss_next_payload_index s) m p s, cx\<lparr>cx_manager := m\<rparr>)"
        using eq some True by (cases "ss_flood s") (simp_all add: wants_payload_def payload_step_def Let_def)
      ultimately show ?thesis by simp
    next
      case False
      then have ge: "ss_next_payload_index s \<ge> ?n" using flag(1) by simp
      show ?thesis
      proof (cases "cfg_loop_payloads cfg \<and> \<not> ss_draining s")
        case True
        then have "f cfg clk now (s\<lparr>ss_next_payload_index := 0\<rparr>) cx = Some y"
          using eq some False by (simp add: wants_payload_def)
        from IH [OF this] show ?thesis
          by (rule write_step_restart) (use some(1,2) True ge in simp_all)
      next
        case stop: False
        then have "y = (idle_step s, cx)"
          using eq some False stop by (auto simp: wants_payload_def idle_step_def Let_def)
        then show ?thesis
          using write_step.idle [of s cx cfg clk now] some(1) ge stop by simp
      qed
    qed
  qed
qed

text \<open>
  The writer does not return exactly when there is nothing to write but it is told to loop
  over the payloads.
\<close>

definition write_diverges :: "session_config \<Rightarrow> 'a session_scheme \<Rightarrow> 'h shard_context \<Rightarrow> bool" where
  "write_diverges cfg s cx \<longleftrightarrow>
     ss_responses s = [] \<and> wants_payload s \<and> pm_payloads (cx_manager cx) = []
     \<and> cfg_loop_payloads cfg \<and> \<not> ss_draining s"

lemma do_write_diverges:
  assumes "write_diverges cfg s cx"
  shows "do_write cfg clk now s cx = None"
proof (rule ccontr)
  assume "do_write cfg clk now s cx \<noteq> None"
  then obtain y where "do_write cfg clk now s cx = Some y" by auto
  from do_write_step [OF this] show False
    using assms by (auto elim!: write_stepE simp: write_diverges_def dest: fill_payload_flag(1))
qed

lemma do_write_returns:
  fixes s :: "'a session_scheme"
  assumes "manager_ok (cx_manager cx)" "\<not> write_diverges cfg s cx"
  shows "do_write cfg clk now s cx \<noteq> None"
proof (cases "ss_responses s = [] \<and> wants_payload s")
  case False
  then show ?thesis
    by (auto simp: do_write.simps [of cfg clk now s cx] wants_payload_def Let_def)
next
  case True
  let ?n = "length (pm_payloads (cx_manager cx))"
  have fills: "\<exists>p m. fill_payload clk k (cx_manager cx) (ss_current_payload s) = Some (True, m, p)" if "k < ?n" for k
    using fill_payload_manager [OF assms(1) that] by metis
  have goes: "do_write cfg clk now t cx \<noteq> None"
    if "ss_next_payload_index t < ?n" "ss_responses t = []" "wants_payload t" "ss_current_payload t = ss_current_payload s"
    for t :: "'a session_scheme"
    using fills [OF that(1)] that(2-4)
    by (auto simp: do_write.simps [of cfg clk now t cx] wants_payload_def Let_def)
  show ?thesis
  proof (cases "ss_next_payload_index s < ?n")
    case lt: True
    then show ?thesis using True by (intro goes) simp_all
  next
    case ge: False
    then have f: "fill_payload clk (ss_next_payload_index s) (cx_manager cx) (ss_current_payload s) =
        Some (False, cx_manager cx, ss_current_payload s)" by (simp add: fill_payload_False)
    show ?thesis
    proof (cases "cfg_loop_payloads cfg \<and> \<not> ss_draining s")
      case loop: True
      then have "do_write cfg clk now s cx = do_write cfg clk now (s\<lparr>ss_next_payload_index := 0\<rparr>) cx"
        using True f by (subst do_write.simps) (simp add: wants_payload_def)
      moreover have "do_write cfg clk now (s\<lparr>ss_next_payload_index := 0\<rparr>) cx \<noteq> None"
        using assms(2) True loop by (intro goes) (simp_all add: write_diverges_def)
      ultimately show ?thesis by simp
    next
      case False
      then show ?thesis
        using True f by (subst do_write.simps) (auto simp: wants_payload_def Let_def)
    qed
  qed
qed

end
