(* ===== verification/Session_Invariant.thy ===== *)
theory Session_Invariant
  imports Session_Core
begin

text \<open>
  The invariant of a session that both transports keep: at most one write in flight, payloads
  written in rotation, every requested payload accounted for, one disconnect call for each
  time the session was live.
\<close>

fun is_write :: "socket_op \<Rightarrow> bool" where
  "is_write (Write_Op d) = True"
| "is_write _ = False"

definition write_count :: "socket_op list \<Rightarrow> nat" where
  "write_count ops = length (filter is_write ops)"

fun payload_index :: "write_data \<Rightarrow> nat list" where
  "payload_index (Payload_Write k bs) = [k]"
| "payload_index (Response_Write bs) = []"

definition payload_indices :: "write_data list \<Rightarrow> nat list" where
  "payload_indices ds = concat (map payload_index ds)"

lemma write_count_simps [simp]:
  "write_count [] = 0"
  "write_count (ops @ ops') = write_count ops + write_count ops'"
  "write_count (op # ops) = (if is_write op then 1 else 0) + write_count ops"
  by (simp_all add: write_count_def)

lemma write_count_remove1:
  "write_count (remove1 op ops) = (if op \<in> set ops \<and> is_write op then write_count ops - 1 else write_count ops)"
proof (induction ops)
  case (Cons a ops)
  have "is_write op \<Longrightarrow> op \<in> set ops \<Longrightarrow> 0 < write_count ops"
    by (induction ops) auto
  then show ?case using Cons by auto
qed simp

lemma payload_indices_simps [simp]:
  "payload_indices [] = []"
  "payload_indices (ds @ ds') = payload_indices ds @ payload_indices ds'"
  "payload_indices (d # ds) = payload_index d @ payload_indices ds"
  by (simp_all add: payload_indices_def)

definition one_writer :: "'a session_scheme \<Rightarrow> bool" where
  "one_writer s \<longleftrightarrow> write_count (ss_pending s) \<le> 1 \<and> (write_count (ss_pending s) = 1 \<longrightarrow> ss_writing s)"

definition in_rotation :: "nat \<Rightarrow> 'a session_scheme \<Rightarrow> bool" where
  "in_rotation n s \<longleftrightarrow>
     (let written = payload_indices (ss_log s); L = length written
      in written = map (\<lambda>i. i mod n) [0..<L]
         \<and> ss_next_payload_index s = (if L = 0 then 0 else Suc ((L - 1) mod n)))"

text \<open>
  The requests are those still queued and those \<open>taken\<close> by a payload. Every payload takes one,
  but for those a flooding session writes.
\<close>

definition requests_taken :: "bool \<Rightarrow> u64 \<Rightarrow> nat \<Rightarrow> u64 \<Rightarrow> bool" where
  "requests_taken flood queued written asked \<longleftrightarrow>
     (\<exists>taken \<le> written. (\<not> flood \<longrightarrow> taken = written) \<and> queued + of_nat taken = asked)"

lemma requests_taken_False [simp]: "requests_taken False queued written asked \<longleftrightarrow> queued + of_nat written = asked"
  by (auto simp: requests_taken_def)

lemma requests_taken_flood [intro]:
  "requests_taken flood queued written asked \<Longrightarrow> requests_taken True queued written asked"
  "requests_taken True queued written asked \<Longrightarrow> requests_taken True queued (Suc written) asked"
  by (auto simp: requests_taken_def intro: le_SucI)

lemma requests_taken_more [intro]:
  "requests_taken flood queued written asked \<Longrightarrow> requests_taken flood (queued + N) written (asked + N)"
  by (auto simp: requests_taken_def algebra_simps)

definition accounted :: "u64 \<Rightarrow> 'a session_scheme \<Rightarrow> bool" where
  "accounted asked s \<longleftrightarrow>
     requests_taken (ss_flood s) (ss_writes_queued s) (length (payload_indices (ss_log s))) asked"

text \<open>
  A start of a session that is live already is one the session never calls back for; a session
  started once calls back once.
\<close>

definition closed_once :: "nat \<Rightarrow> 'a session_scheme \<Rightarrow> bool" where
  "closed_once starts s \<longleftrightarrow>
     (let ended = ss_disconnects s + (if ss_live s then 1 else 0)
      in ended \<le> starts \<and> (0 < starts \<longrightarrow> 0 < ended))"

lemma closed_once_iff [simp]:
  "closed_once 0 s \<longleftrightarrow> ss_disconnects s = 0 \<and> \<not> ss_live s"
  "closed_once (Suc 0) s \<longleftrightarrow> ss_disconnects s + (if ss_live s then 1 else 0) = 1"
  by (auto simp: closed_once_def Let_def)

text \<open>The buffers of a payload in flight still hold the bytes they were given.\<close>

definition buffers_valid :: "payload_descriptor list \<Rightarrow> 'a session_scheme \<Rightarrow> bool" where
  "buffers_valid ps s \<longleftrightarrow>
     (\<forall>k bs. Write_Op (Payload_Write k bs) \<in> set (ss_pending s) \<longrightarrow>
        k < length ps \<and> bs \<noteq> None \<and> gather (pd_packet_data (ps ! k)) (ss_current_payload s) = bs)"

definition session_inv :: "payload_descriptor list \<Rightarrow> nat \<Rightarrow> u64 \<Rightarrow> 'a session_scheme \<Rightarrow> bool" where
  "session_inv ps starts asked s \<longleftrightarrow>
     one_writer s \<and> in_rotation (length ps) s \<and> accounted asked s \<and> closed_once starts s \<and> buffers_valid ps s"

lemmas session_inv_defs =
  session_inv_def one_writer_def in_rotation_def accounted_def closed_once_def buffers_valid_def

lemma session_inv_new: "session_inv ps 0 0 (new_session cfg)"
  by (simp add: session_inv_defs new_session_def)

text \<open>The invariant reads only these members.\<close>

lemma session_inv_cong:
  assumes "session_inv ps starts asked s"
    and "ss_live t = ss_live s" "ss_flood t = ss_flood s" "ss_writing t = ss_writing s"
    and "ss_next_payload_index t = ss_next_payload_index s" "ss_writes_queued t = ss_writes_queued s"
    and "write_count (ss_pending t) = write_count (ss_pending s)" "ss_log t = ss_log s"
    and "ss_disconnects t = ss_disconnects s" "ss_current_payload t = ss_current_payload s"
    and "\<forall>op \<in> set (ss_pending t). is_write op \<longrightarrow> op \<in> set (ss_pending s)"
  shows "session_inv ps starts asked t"
proof -
  have "Write_Op d \<in> set (ss_pending t) \<Longrightarrow> Write_Op d \<in> set (ss_pending s)" for d using assms(11) by force
  then have "buffers_valid ps t" using assms(1,10) by (auto simp: session_inv_defs)
  then show ?thesis using assms by (simp add: session_inv_def one_writer_def in_rotation_def accounted_def closed_once_def)
qed

subsection \<open>Steps that do not write\<close>

lemma close_session_simps [simp]:
  "ss_pending (close_session s) = ss_pending s" "ss_log (close_session s) = ss_log s"
  "ss_writing (close_session s) = ss_writing s" "ss_flood (close_session s) = ss_flood s"
  "ss_writes_queued (close_session s) = ss_writes_queued s"
  "ss_next_payload_index (close_session s) = ss_next_payload_index s"
  "ss_responses (close_session s) = ss_responses s" "ss_draining (close_session s) = ss_draining s"
  "ss_live (close_session s) = False" "ss_current_payload (close_session s) = ss_current_payload s"
  by (simp_all add: close_session_def)

lemma close_session_inv:
  "session_inv ps starts asked s \<Longrightarrow> session_inv ps starts asked (close_session s)"
  by (auto simp: session_inv_defs close_session_def)

lemma session_drain_inv:
  "session_inv ps starts asked s \<Longrightarrow> session_inv ps starts asked (session_drain s)"
  unfolding session_drain_def Let_def
  by (auto intro!: close_session_inv elim!: session_inv_cong)

lemma start_op_inv:
  "\<not> is_write op \<Longrightarrow> session_inv ps starts asked s \<Longrightarrow> session_inv ps starts asked (start_op op s)"
  by (auto simp: start_op_def elim!: session_inv_cong)

lemma sample_inv [simp]:
  "session_inv ps starts asked (sample_write_start cfg now s) = session_inv ps starts asked s"
  "session_inv ps starts asked (sample_read_start cfg now s) = session_inv ps starts asked s"
  by (auto simp: sample_write_start_def sample_read_start_def Let_def session_inv_defs)

lemma sample_write_start_simps [simp]:
  "ss_pending (sample_write_start cfg now s) = ss_pending s" "ss_log (sample_write_start cfg now s) = ss_log s"
  "ss_writing (sample_write_start cfg now s) = ss_writing s" "ss_flood (sample_write_start cfg now s) = ss_flood s"
  "ss_writes_queued (sample_write_start cfg now s) = ss_writes_queued s"
  "ss_next_payload_index (sample_write_start cfg now s) = ss_next_payload_index s"
  "ss_live (sample_write_start cfg now s) = ss_live s"
  "ss_disconnects (sample_write_start cfg now s) = ss_disconnects s"
  "ss_current_payload (sample_write_start cfg now s) = ss_current_payload s"
  by (simp_all add: sample_write_start_def Let_def)

subsection \<open>Steps that write\<close>

lemma rotation_next:
  assumes "k = next_index cfg n s" "k < n" "in_rotation n s"
  shows "k = length (payload_indices (ss_log s)) mod n"
proof -
  let ?L = "length (payload_indices (ss_log s))"
  have idx: "ss_next_payload_index s = (if ?L = 0 then 0 else Suc ((?L - 1) mod n))"
    using assms(3) by (simp add: in_rotation_def Let_def)
  show ?thesis
  proof (cases "?L = 0")
    case True
    then show ?thesis using assms idx by (simp add: next_index_def split: if_splits)
  next
    case False
    define x where "x = (?L - 1) mod n"
    have "?L mod n = (if Suc x = n then 0 else Suc x)" "x < n"
      using mod_Suc [of "?L - 1" n] False assms(2) by (simp_all add: x_def)
    moreover have "ss_next_payload_index s = Suc x" using idx False by (simp add: x_def)
    ultimately show ?thesis using assms(1,2) by (auto simp: next_index_def split: if_splits)
  qed
qed

lemma no_write_pending: "write_count ops = 0 \<Longrightarrow> Write_Op d \<notin> set ops"
  by (induction ops) auto

lemma write_step_inv:
  assumes "write_step cfg clk now s cx s' cx'" and "write_count (ss_pending s) = 0"
    and "session_inv (pm_payloads (cx_manager cx)) starts asked s" "manager_ok (cx_manager cx)"
  shows "session_inv (pm_payloads (cx_manager cx)) starts asked s'"
  using assms(1)
proof (cases rule: write_step.cases)
  case response
  then show ?thesis
    using assms(2,3) no_write_pending [OF assms(2)]
    by (simp add: response_step_def issue_write_def start_op_def session_inv_defs Let_def)
next
  case (payload k m p)
  let ?ps = "pm_payloads (cx_manager cx)"
  have k: "k < length ?ps" using payload fill_payload_flag(1) by metis
  have rot: "in_rotation (length ?ps) s" using assms(3) by (simp add: session_inv_def)
  have "k = length (payload_indices (ss_log s)) mod length ?ps"
    using rotation_next [OF _ k rot] payload by blast
  moreover obtain bs where "payload_bytes m k p = Some bs" "gather (pd_packet_data (?ps ! k)) p = Some bs"
    using fill_payload_bytes [OF assms(4) k] payload fill_payload_flag(3) k
    by (metis (no_types, lifting) payload_bytes_def)
  ultimately show ?thesis
    using assms(2,3) payload k no_write_pending [OF assms(2)]
    by (auto simp: payload_step_def issue_write_def start_op_def session_inv_defs Let_def)
next
  case idle
  then show ?thesis
    using assms(2,3) no_write_pending [OF assms(2)]
    by (auto simp: idle_step_def Let_def close_session_def session_inv_defs)
qed

lemma write_step_context:
  assumes "write_step cfg clk now s cx s' cx'" "manager_ok (cx_manager cx)"
  shows "pm_payloads (cx_manager cx') = pm_payloads (cx_manager cx)" "manager_ok (cx_manager cx')"
proof -
  have "pm_payloads (cx_manager cx') = pm_payloads (cx_manager cx) \<and> manager_ok (cx_manager cx')"
    using assms(1)
  proof (cases rule: write_step.cases)
    case (payload k m p)
    have "k < length (pm_payloads (cx_manager cx))" using payload fill_payload_flag(1) by metis
    then obtain q where "fill_payload clk k (cx_manager cx) (ss_current_payload s) = Some (True, (cx_manager cx)
        \<lparr>pm_counters := (pm_counters (cx_manager cx))[k := advance_first
          (counter_ops (pd_ops (pm_payloads (cx_manager cx) ! k))) (pm_counters (cx_manager cx) ! k)]\<rparr>, q)"
      using fill_payload_manager [OF assms(2)] by blast
    then show ?thesis using payload manager_ok_advance [OF assms(2)] by auto
  qed (use assms(2) in simp_all)
  then show "pm_payloads (cx_manager cx') = pm_payloads (cx_manager cx)" "manager_ok (cx_manager cx')" by simp_all
qed

text \<open>A context is good for a list of payloads when the manager has them and can fill them.\<close>

definition context_ok :: "payload_descriptor list \<Rightarrow> 'h shard_context \<Rightarrow> bool" where
  "context_ok ps cx \<longleftrightarrow> manager_ok (cx_manager cx) \<and> pm_payloads (cx_manager cx) = ps"

lemma context_ok_metrics [simp]: "context_ok ps (on_metrics f cx) = context_ok ps cx"
  by (simp add: context_ok_def on_metrics_def)

text \<open>
  What the other sessions of the process do to the manager: every counter of every payload may
  have been advanced any number of times, each on its own, and nothing else changes.
\<close>

definition counters_later :: "payload_manager \<Rightarrow> payload_manager \<Rightarrow> bool" where
  "counters_later m m' \<longleftrightarrow>
     pm_payloads m' = pm_payloads m
     \<and> list_all2 (list_all2 (\<lambda>c c'. \<exists>n. c' = (advance_counter ^^ n) c)) (pm_counters m) (pm_counters m')"

lemma counters_later_ok:
  assumes "context_ok ps cx" "counters_later (cx_manager cx) (cx_manager cx')"
  shows "context_ok ps cx'"
proof -
  have "length (pm_counters (cx_manager cx')) = length (pm_counters (cx_manager cx))"
    using assms(2) by (auto simp: counters_later_def dest: list_all2_lengthD)
  moreover have "length (pm_counters (cx_manager cx') ! i) = length (pm_counters (cx_manager cx) ! i)"
    if "i < length (pm_counters (cx_manager cx))" for i
    using assms(2) that unfolding counters_later_def by (metis list_all2_conv_all_nth)
  moreover have "manager_ok (cx_manager cx)" "pm_payloads (cx_manager cx) = ps" "pm_payloads (cx_manager cx') = ps"
    using assms by (simp_all add: context_ok_def counters_later_def)
  ultimately show ?thesis by (simp add: context_ok_def manager_ok_def)
qed

lemma do_write_inv:
  assumes "do_write cfg clk now s cx = Some (s', cx')" and "write_count (ss_pending s) = 0"
    and "session_inv ps starts asked s" "context_ok ps cx"
  shows "session_inv ps starts asked s'" "context_ok ps cx'"
  using do_write_step [OF assms(1)] write_step_inv write_step_context assms(2-4)
  by (fastforce simp: context_ok_def)+

lemma try_start_write_inv:
  assumes "try_start_write cfg clk now s cx = Some (s', cx')"
    and "session_inv ps starts asked s" "context_ok ps cx"
  shows "session_inv ps starts asked s'" "context_ok ps cx'"
proof -
  have "\<not> ss_writing s \<Longrightarrow> write_count (ss_pending s) = 0"
    using assms(2) by (auto simp: session_inv_def one_writer_def)
  then show "session_inv ps starts asked s'" "context_ok ps cx'"
    using assms do_write_inv close_session_inv
    by (auto simp: try_start_write_def split: if_splits)
qed

lemma sample_write_end_inv:
  assumes "sample_write_end cfg now (s, cx) = (s', cx')" "session_inv ps starts asked s" "context_ok ps cx"
  shows "session_inv ps starts asked s'" "context_ok ps cx'" "ss_pending s' = ss_pending s"
  using assms by (auto simp: sample_write_end_def split: if_splits elim!: session_inv_cong)

lemma sample_read_end_inv:
  assumes "sample_read_end cfg now (s, cx) = (s', cx')" "session_inv ps starts asked s" "context_ok ps cx"
  shows "session_inv ps starts asked s'" "context_ok ps cx'" "ss_pending s' = ss_pending s"
  using assms by (auto simp: sample_read_end_def split: if_splits elim!: session_inv_cong)

lemma write_done_inv:
  assumes "write_done cfg clk stop now ec count s cx = Some (s', cx')" and "write_count (ss_pending s) = 0"
    and "session_inv ps starts asked s" "context_ok ps cx"
  shows "session_inv ps starts asked s'" "context_ok ps cx'"
proof -
  obtain t cy where e: "sample_write_end cfg stop (s, on_metrics (record_bytes_sent count) cx) = (t, cy)"
    by (cases "sample_write_end cfg stop (s, on_metrics (record_bytes_sent count) cx)")
  note t = sample_write_end_inv [OF e assms(3)] 
  show "session_inv ps starts asked s'" "context_ok ps cx'"
    using assms t e do_write_inv [of cfg clk now t cy s' cx' ps starts asked] close_session_inv
    by (auto simp: write_done_def split: if_splits)
qed

lemma session_flood_inv:
  assumes "session_flood ready cfg clk now s cx = Some (s', cx')"
    and "session_inv ps starts asked s" "context_ok ps cx"
  shows "session_inv ps starts asked s'" "context_ok ps cx'"
proof -
  have "session_inv ps starts asked (s\<lparr>ss_flood := True\<rparr>)"
    using assms(2) by (auto simp: session_inv_defs)
  then show "session_inv ps starts asked s'" "context_ok ps cx'"
    using assms try_start_write_inv by (auto simp: session_flood_def Let_def split: if_splits)
qed

lemma session_send_inv:
  assumes "session_send ready cfg clk now N s cx = Some (s', cx')"
    and "session_inv ps starts asked s" "context_ok ps cx"
  shows "session_inv ps starts (asked + N) s'" "context_ok ps cx'"
proof -
  have "session_inv ps starts (asked + N) (s\<lparr>ss_writes_queued := ss_writes_queued s + N\<rparr>)"
    using assms(2) by (auto simp: session_inv_defs)
  then show "session_inv ps starts (asked + N) s'" "context_ok ps cx'"
    using assms try_start_write_inv by (auto simp: session_send_def Let_def split: if_splits)
qed

subsection \<open>Keeping the invariant\<close>

lemma fold_responses_inv:
  "session_inv ps st asked s \<Longrightarrow> session_inv ps st asked (fold (\<lambda>r s. start_op (Response_Post r) s) rs s)"
  by (induction rs arbitrary: s) (simp_all add: start_op_inv)

lemma context_ok_handler [simp]: "context_ok ps (cx\<lparr>cx_handler := h\<rparr>) = context_ok ps cx"
  by (simp add: context_ok_def)

definition keeps_inv :: "payload_descriptor list \<Rightarrow> nat \<Rightarrow> u64 \<Rightarrow> ('a session_scheme \<times> 'h shard_context) option \<Rightarrow> bool" where
  "keeps_inv ps st asked r \<longleftrightarrow>
     (\<forall>s cx. r = Some (s, cx) \<longrightarrow> session_inv ps st asked s \<and> context_ok ps cx)"

lemma keeps_inv_simps [simp]:
  "keeps_inv ps st asked None"
  "keeps_inv ps st asked (Some (s, cx)) \<longleftrightarrow> session_inv ps st asked s \<and> context_ok ps cx"
  by (simp_all add: keeps_inv_def)

lemma do_write_keeps:
  "write_count (ss_pending s) = 0 \<Longrightarrow> session_inv ps st asked s \<Longrightarrow> context_ok ps cx \<Longrightarrow>
   keeps_inv ps st asked (do_write cfg clk now s cx)"
  unfolding keeps_inv_def using do_write_inv by blast

lemma try_start_write_keeps:
  "session_inv ps st asked s \<Longrightarrow> context_ok ps cx \<Longrightarrow> keeps_inv ps st asked (try_start_write cfg clk now s cx)"
  unfolding keeps_inv_def using try_start_write_inv by blast

lemma one_writer_idle: "session_inv ps st asked s \<Longrightarrow> \<not> ss_writing s \<Longrightarrow> write_count (ss_pending s) = 0"
  by (auto simp: session_inv_def one_writer_def)

lemma write_done_keeps:
  "write_count (ss_pending s) = 0 \<Longrightarrow> session_inv ps st asked s \<Longrightarrow> context_ok ps cx \<Longrightarrow>
   keeps_inv ps st asked (write_done cfg clk stop now ec count s cx)"
  unfolding keeps_inv_def by (metis write_done_inv)

lemma session_flood_keeps:
  "session_inv ps st asked s \<Longrightarrow> context_ok ps cx \<Longrightarrow> keeps_inv ps st asked (session_flood ready cfg clk now s cx)"
  unfolding keeps_inv_def by (metis session_flood_inv)

lemma session_send_keeps:
  "session_inv ps st asked s \<Longrightarrow> context_ok ps cx \<Longrightarrow>
   keeps_inv ps st (asked + N) (session_send ready cfg clk now N s cx)"
  unfolding keeps_inv_def by (metis session_send_inv)

lemma resp_queue_inv [simp]:
  "session_inv ps st asked (s\<lparr>ss_responses := rs\<rparr>) = session_inv ps st asked s"
  by (simp add: session_inv_defs)

lemma remove_op_inv:
  assumes "session_inv ps st asked s"
  shows "session_inv ps st asked (s\<lparr>ss_pending := remove1 op (ss_pending s)\<rparr>)"
proof -
  have "one_writer (s\<lparr>ss_pending := remove1 op (ss_pending s)\<rparr>)"
    using assms by (auto simp: session_inv_def one_writer_def write_count_remove1)
  moreover have "buffers_valid ps (s\<lparr>ss_pending := remove1 op (ss_pending s)\<rparr>)"
    using assms by (auto simp: session_inv_def buffers_valid_def dest: notin_set_remove1)
  ultimately show ?thesis
    using assms by (simp add: session_inv_def in_rotation_def accounted_def closed_once_def)
qed

lemma remove_write_count:
  assumes "session_inv ps st asked s" "Write_Op d \<in> set (ss_pending s)"
  shows "write_count (remove1 (Write_Op d) (ss_pending s)) = 0"
  using assms by (simp add: write_count_remove1 session_inv_def one_writer_def)

end
