(* ===== verification/TCP_Session.thy ===== *)
theory TCP_Session
  imports Session_Invariant
begin

text \<open>
  \<^verbatim>\<open>transports/tcp-session.{h,cpp}\<close>: the handlers of a TCP session as functions on its state
  and the context of its shard, the events that run them, and the runs of a session in which
  other sessions of the process change the shared context in between.

  The message handler is an argument.
\<close>

section \<open>State and handlers\<close>

record tcp_session = session +
  tcp_connecting :: bool
  tcp_incoming_header :: "u8 list"
  tcp_next_payload_size :: nat
  tcp_body :: "u8 list"

definition new_tcp_session :: "session_config \<Rightarrow> tcp_session" where
  "new_tcp_session cfg =
     session.extend (new_session cfg)
       \<lparr>tcp_connecting = False, tcp_incoming_header = replicate (unat (cfg_header_size cfg)) 0,
        tcp_next_payload_size = 0, tcp_body = []\<rparr>"

type_synonym 'h tcp_result = "(tcp_session \<times> 'h shard_context) option"

definition MESSAGE_BUFFER_SIZE :: nat where
  "MESSAGE_BUFFER_SIZE = 4 * 1024"

definition tcp_start :: "int \<Rightarrow> tcp_session \<Rightarrow> 'h shard_context \<Rightarrow> 'h tcp_result" where
  "tcp_start conn_start s cx =
     Some (start_op (Connect_Op conn_start) (s\<lparr>ss_live := True, tcp_connecting := True\<rparr>),
           on_metrics record_connection_attempt cx)"

definition tcp_do_read_header :: "session_config \<Rightarrow> int \<Rightarrow> tcp_session \<Rightarrow> tcp_session" where
  "tcp_do_read_header cfg now s = start_op Read_Header_Op (sample_read_start cfg now s)"

definition tcp_on_connect :: "session_config \<Rightarrow> moment \<Rightarrow> tcp_session \<Rightarrow> 'h shard_context \<Rightarrow> 'h tcp_result" where
  "tcp_on_connect cfg mo s cx =
     (let s = (if cfg_read_messages cfg then tcp_do_read_header cfg (mo_now mo) s else s)
      in if ss_writing s then Some (s, cx)
         else if ss_flood s \<or> ss_writes_queued s > 0 then do_write cfg (mo_clock mo) (mo_now mo) s cx
         else Some (s, cx))"

definition tcp_connected ::
  "session_config \<Rightarrow> moment \<Rightarrow> int \<Rightarrow> bool \<Rightarrow> tcp_session \<Rightarrow> 'h shard_context \<Rightarrow> 'h tcp_result" where
  "tcp_connected cfg mo conn_start ec s cx =
     (let s = s\<lparr>tcp_connecting := False\<rparr>
      in if ec then Some (close_session s, on_metrics record_connection_fail cx)
         else tcp_on_connect cfg mo s
                (on_metrics record_connection_success
                  (on_metrics (record_connection_latency (latency_us conn_start (mo_stop mo))) cx)))"

text \<open>The callback given to the message handler posts each response to the strand.\<close>

definition tcp_handle_message ::
  "'h handler_ops \<Rightarrow> tcp_session \<Rightarrow> 'h shard_context \<Rightarrow> 'h tcp_result" where
  "tcp_handle_message ops s cx =
     (case hd_parse_message ops (tcp_incoming_header s) (take (tcp_next_payload_size s) (tcp_body s)) (cx_handler cx) of
        None \<Rightarrow> None
      | Some (rs, h) \<Rightarrow> Some (fold (\<lambda>r s. start_op (Response_Post r) s) rs s, cx\<lparr>cx_handler := h\<rparr>))"

definition tcp_do_read_body :: "'h handler_ops \<Rightarrow> tcp_session \<Rightarrow> 'h shard_context \<Rightarrow> 'h tcp_result" where
  "tcp_do_read_body ops s cx =
     (if tcp_next_payload_size s = 0 then tcp_handle_message ops s cx
      else Some (start_op (Read_Body_Op (tcp_next_payload_size s)) s, cx))"

definition tcp_header_read ::
  "session_config \<Rightarrow> 'h handler_ops \<Rightarrow> moment \<Rightarrow> bool \<Rightarrow> u8 list \<Rightarrow> tcp_session \<Rightarrow> 'h shard_context \<Rightarrow> 'h tcp_result" where
  "tcp_header_read cfg ops mo ec bytes s cx =
     (if ec then Some (close_session s, cx)
      else
        let cx = on_metrics (record_bytes_read (of_nat (length bytes))) cx;
            s = s\<lparr>tcp_incoming_header := bytes\<rparr>
        in case hd_parse_header ops bytes (cx_handler cx) of
             None \<Rightarrow> None
           | Some (res, h) \<Rightarrow>
               let cx = cx\<lparr>cx_handler := h\<rparr> in
               if hr_status res \<noteq> Header_OK
               then Some (tcp_do_read_header cfg (mo_now mo) (s\<lparr>tcp_next_payload_size := 0\<rparr>), cx)
               else
                 let s = s\<lparr>tcp_next_payload_size := hr_length res\<rparr>
                 in if tcp_next_payload_size s > unat (cfg_payload_size_limit cfg)
                    then Some (close_session s, cx)
                    else tcp_do_read_body ops s cx)"

definition tcp_body_read ::
  "session_config \<Rightarrow> 'h handler_ops \<Rightarrow> moment \<Rightarrow> bool \<Rightarrow> u8 list \<Rightarrow> tcp_session \<Rightarrow> 'h shard_context \<Rightarrow> 'h tcp_result" where
  "tcp_body_read cfg ops mo ec bytes s cx =
     (if ec then Some (close_session s, cx)
      else
        let (s, cx) = sample_read_end cfg (mo_stop mo)
              (s\<lparr>tcp_body := bytes\<rparr>, on_metrics (record_bytes_read (of_nat (length bytes))) cx)
        in tcp_handle_message ops s cx)"

text \<open>The posted handler of a response: queue it unless it is empty, then read the next header.\<close>

definition tcp_response_posted ::
  "session_config \<Rightarrow> moment \<Rightarrow> u8 list \<Rightarrow> tcp_session \<Rightarrow> 'h shard_context \<Rightarrow> 'h tcp_result" where
  "tcp_response_posted cfg mo packet s cx =
     (if length packet > 0
      then map_option (\<lambda>(s, cx). (tcp_do_read_header cfg (mo_now mo) s, cx))
             (try_start_write cfg (mo_clock mo) (mo_now mo) (s\<lparr>ss_responses := ss_responses s @ [packet]\<rparr>) cx)
      else Some (tcp_do_read_header cfg (mo_now mo) s, cx))"

definition tcp_ready :: "tcp_session \<Rightarrow> bool" where
  "tcp_ready s \<longleftrightarrow> ss_live s \<and> \<not> tcp_connecting s"

definition tcp_flood :: "session_config \<Rightarrow> moment \<Rightarrow> tcp_session \<Rightarrow> 'h shard_context \<Rightarrow> 'h tcp_result" where
  "tcp_flood cfg mo s cx = session_flood (tcp_ready s) cfg (mo_clock mo) (mo_now mo) s cx"

definition tcp_send :: "session_config \<Rightarrow> moment \<Rightarrow> u64 \<Rightarrow> tcp_session \<Rightarrow> 'h shard_context \<Rightarrow> 'h tcp_result" where
  "tcp_send cfg mo N s cx = session_send (tcp_ready s) cfg (mo_clock mo) (mo_now mo) N s cx"

section \<open>Events and runs\<close>

datatype tcp_event =
  Tcp_Start int
| Tcp_Connected int bool
| Tcp_Header_Read bool "u8 list"
| Tcp_Body_Read nat bool "u8 list"
| Tcp_Response "u8 list"
| Tcp_Write_Done write_data bool u64
| Tcp_Flood
| Tcp_Send u64
| Tcp_Drain
| Tcp_Stop

text \<open>The operation an event completes, if any.\<close>

fun completes :: "tcp_event \<Rightarrow> socket_op option" where
  "completes (Tcp_Connected t ec) = Some (Connect_Op t)"
| "completes (Tcp_Header_Read ec bytes) = Some Read_Header_Op"
| "completes (Tcp_Body_Read n ec bytes) = Some (Read_Body_Op n)"
| "completes (Tcp_Response packet) = Some (Response_Post packet)"
| "completes (Tcp_Write_Done d ec count) = Some (Write_Op d)"
| "completes _ = None"

definition complete_op :: "tcp_event \<Rightarrow> tcp_session \<Rightarrow> tcp_session" where
  "complete_op ev s =
     (case completes ev of None \<Rightarrow> s | Some op \<Rightarrow> s\<lparr>ss_pending := remove1 op (ss_pending s)\<rparr>)"

definition tcp_handle ::
  "session_config \<Rightarrow> 'h handler_ops \<Rightarrow> moment \<Rightarrow> tcp_event \<Rightarrow> tcp_session \<Rightarrow> 'h shard_context \<Rightarrow> 'h tcp_result" where
  "tcp_handle cfg ops mo ev s cx =
     (let s = complete_op ev s in
      case ev of
        Tcp_Start t \<Rightarrow> tcp_start t s cx
      | Tcp_Connected t ec \<Rightarrow> tcp_connected cfg mo t ec s cx
      | Tcp_Header_Read ec bytes \<Rightarrow> tcp_header_read cfg ops mo ec bytes s cx
      | Tcp_Body_Read n ec bytes \<Rightarrow> tcp_body_read cfg ops mo ec bytes s cx
      | Tcp_Response packet \<Rightarrow> tcp_response_posted cfg mo packet s cx
      | Tcp_Write_Done d ec count \<Rightarrow> write_done cfg (mo_clock mo) (mo_stop mo) (mo_now mo) ec count s cx
      | Tcp_Flood \<Rightarrow> tcp_flood cfg mo s cx
      | Tcp_Send N \<Rightarrow> tcp_send cfg mo N s cx
      | Tcp_Drain \<Rightarrow> Some (session_drain s, cx)
      | Tcp_Stop \<Rightarrow> Some (session_stop s, cx))"

text \<open>
  A completion needs its operation in flight. A read completes with the number of bytes it
  asked for.
\<close>

definition tcp_enabled :: "session_config \<Rightarrow> tcp_event \<Rightarrow> tcp_session \<Rightarrow> bool" where
  "tcp_enabled cfg ev s \<longleftrightarrow>
     (case completes ev of None \<Rightarrow> True | Some op \<Rightarrow> op \<in> set (ss_pending s))
     \<and> (case ev of
          Tcp_Header_Read ec bytes \<Rightarrow> ec \<or> length bytes = unat (cfg_header_size cfg)
        | Tcp_Body_Read n ec bytes \<Rightarrow> ec \<or> length bytes = n
        | _ \<Rightarrow> True)"

inductive tcp_run ::
  "session_config \<Rightarrow> 'h handler_ops \<Rightarrow> payload_descriptor list \<Rightarrow> tcp_session \<times> 'h shard_context
    \<Rightarrow> tcp_event list \<Rightarrow> tcp_session \<times> 'h shard_context \<Rightarrow> bool" for cfg ops ps where
  begins: "context_ok ps cx \<Longrightarrow> tcp_run cfg ops ps (new_tcp_session cfg, cx) [] (new_tcp_session cfg, cx)"
| handles: "tcp_run cfg ops ps w evs (s, cx) \<Longrightarrow> tcp_enabled cfg ev s \<Longrightarrow>
    tcp_handle cfg ops mo ev s cx = Some (s', cx') \<Longrightarrow> tcp_run cfg ops ps w (evs @ [ev]) (s', cx')"
| others: "tcp_run cfg ops ps w evs (s, cx) \<Longrightarrow> counters_later (cx_manager cx) (cx_manager cx') \<Longrightarrow>
    tcp_run cfg ops ps w evs (s, cx')"

fun starts_of :: "tcp_event \<Rightarrow> nat" where
  "starts_of (Tcp_Start t) = 1"
| "starts_of _ = 0"

fun sends_of :: "tcp_event \<Rightarrow> u64" where
  "sends_of (Tcp_Send N) = N"
| "sends_of _ = 0"

definition tcp_starts :: "tcp_event list \<Rightarrow> nat" where
  "tcp_starts evs = sum_list (map starts_of evs)"

definition tcp_sends :: "tcp_event list \<Rightarrow> u64" where
  "tcp_sends evs = sum_list (map sends_of evs)"

section \<open>The invariant of a TCP session\<close>

lemma session_inv_tcp_update [simp]:
  "session_inv ps st asked (s\<lparr>tcp_connecting := b\<rparr>) = session_inv ps st asked s"
  "session_inv ps st asked (s\<lparr>tcp_incoming_header := xs\<rparr>) = session_inv ps st asked s"
  "session_inv ps st asked (s\<lparr>tcp_next_payload_size := k\<rparr>) = session_inv ps st asked s"
  "session_inv ps st asked (s\<lparr>tcp_body := xs\<rparr>) = session_inv ps st asked s"
  by (simp_all add: session_inv_defs)

lemma session_inv_new_tcp: "session_inv ps 0 0 (new_tcp_session cfg)"
  by (simp add: new_tcp_session_def session.defs new_session_def session_inv_defs)

lemma tcp_do_read_header_inv:
  "session_inv ps st asked s \<Longrightarrow> session_inv ps st asked (tcp_do_read_header cfg now s)"
  by (simp add: tcp_do_read_header_def start_op_inv)

lemma tcp_on_connect_keeps:
  assumes "session_inv ps st asked s" "context_ok ps cx"
  shows "keeps_inv ps st asked (tcp_on_connect cfg mo s cx)"
proof -
  define t where "t = (if cfg_read_messages cfg then tcp_do_read_header cfg (mo_now mo) s else s)"
  have inv: "session_inv ps st asked t" using assms(1) by (simp add: t_def tcp_do_read_header_inv)
  have "tcp_on_connect cfg mo s cx =
      (if ss_writing t then Some (t, cx)
       else if ss_flood t \<or> ss_writes_queued t > 0 then do_write cfg (mo_clock mo) (mo_now mo) t cx
       else Some (t, cx))"
    by (simp add: tcp_on_connect_def t_def Let_def)
  then show ?thesis
    using inv assms(2) by (simp add: do_write_keeps one_writer_idle)
qed

lemma tcp_handle_message_keeps:
  "session_inv ps st asked s \<Longrightarrow> context_ok ps cx \<Longrightarrow> keeps_inv ps st asked (tcp_handle_message ops s cx)"
  by (auto simp: tcp_handle_message_def fold_responses_inv split: option.split)

lemma tcp_do_read_body_keeps:
  "session_inv ps st asked s \<Longrightarrow> context_ok ps cx \<Longrightarrow> keeps_inv ps st asked (tcp_do_read_body ops s cx)"
  by (auto simp: tcp_do_read_body_def tcp_handle_message_keeps start_op_inv)

lemma tcp_header_read_keeps:
  "session_inv ps st asked s \<Longrightarrow> context_ok ps cx \<Longrightarrow> keeps_inv ps st asked (tcp_header_read cfg ops mo ec bytes s cx)"
  by (auto simp: tcp_header_read_def Let_def tcp_do_read_header_inv close_session_inv
      intro!: tcp_do_read_body_keeps split: option.split)

lemma tcp_body_read_keeps:
  assumes "session_inv ps st asked s" "context_ok ps cx"
  shows "keeps_inv ps st asked (tcp_body_read cfg ops mo ec bytes s cx)"
proof -
  let ?w = "(s\<lparr>tcp_body := bytes\<rparr>, on_metrics (record_bytes_read (of_nat (length bytes))) cx)"
  obtain t cy where e: "sample_read_end cfg (mo_stop mo) ?w = (t, cy)" by (cases "sample_read_end cfg (mo_stop mo) ?w")
  then show ?thesis
    using assms sample_read_end_inv [OF e, of ps st asked]
    by (auto simp: tcp_body_read_def close_session_inv intro!: tcp_handle_message_keeps)
qed

lemma tcp_response_posted_keeps:
  assumes "session_inv ps st asked s" "context_ok ps cx"
  shows "keeps_inv ps st asked (tcp_response_posted cfg mo packet s cx)"
proof -
  have "keeps_inv ps st asked (try_start_write cfg (mo_clock mo) (mo_now mo)
      (s\<lparr>ss_responses := ss_responses s @ [packet]\<rparr>) cx)"
    using assms by (intro try_start_write_keeps) simp_all
  then show ?thesis
    using assms by (auto simp: tcp_response_posted_def keeps_inv_def tcp_do_read_header_inv)
qed

lemma complete_op_inv:
  "session_inv ps st asked s \<Longrightarrow> session_inv ps st asked (complete_op ev s)"
  by (simp add: complete_op_def remove_op_inv split: option.split)

lemma complete_write_count:
  assumes "session_inv ps st asked s" "completes ev = Some (Write_Op d)" "Write_Op d \<in> set (ss_pending s)"
  shows "write_count (ss_pending (complete_op ev s)) = 0"
  using assms(2) remove_write_count [OF assms(1,3)] by (simp add: complete_op_def)

lemma tcp_handle_inv:
  assumes "tcp_enabled cfg ev s" "tcp_handle cfg ops mo ev s cx = Some (s', cx')"
    and "session_inv ps st asked s" "context_ok ps cx"
  shows "session_inv ps (st + starts_of ev) (asked + sends_of ev) s' \<and> context_ok ps cx'"
proof -
  let ?s = "complete_op ev s"
  have inv: "session_inv ps st asked ?s" by (rule complete_op_inv [OF assms(3)])
  have "keeps_inv ps (st + starts_of ev) (asked + sends_of ev) (tcp_handle cfg ops mo ev s cx)"
  proof (cases ev)
    case (Tcp_Start t)
    then show ?thesis
      using assms(1,3,4) by (simp add: tcp_handle_def tcp_start_def complete_op_def start_op_def tcp_enabled_def session_inv_defs)
  next
    case (Tcp_Write_Done d ec count)
    then have "write_count (ss_pending ?s) = 0"
      using assms(1) by (intro complete_write_count [OF assms(3), of ev d]) (simp_all add: tcp_enabled_def)
    then show ?thesis
      using Tcp_Write_Done inv assms(4) by (simp add: tcp_handle_def Let_def write_done_keeps)
  next
    case (Tcp_Send N)
    then show ?thesis
      using inv assms(4) by (simp add: tcp_handle_def tcp_send_def Let_def session_send_keeps)
  next
    case Tcp_Flood
    then show ?thesis
      using inv assms(4) by (simp add: tcp_handle_def tcp_flood_def Let_def session_flood_keeps)
  next
    case (Tcp_Connected t ec)
    then show ?thesis
      using inv assms(4) by (auto simp: tcp_handle_def tcp_connected_def Let_def close_session_inv
          intro!: tcp_on_connect_keeps)
  qed (use inv assms(4) in \<open>simp_all add: tcp_handle_def Let_def tcp_header_read_keeps tcp_body_read_keeps
        tcp_response_posted_keeps session_drain_inv session_stop_def close_session_inv\<close>)
  then show ?thesis using assms(2) by simp
qed

lemma tcp_run_inv:
  assumes "tcp_run cfg ops ps w evs v"
  shows "session_inv ps (tcp_starts evs) (tcp_sends evs) (fst v) \<and> context_ok ps (snd v)"
  using assms
proof induction
  case (handles w evs s cx ev mo s' cx')
  then show ?case
    using tcp_handle_inv [OF handles.hyps(2,3), of ps "tcp_starts evs" "tcp_sends evs"]
    by (simp add: tcp_starts_def tcp_sends_def)
qed (auto simp: session_inv_new_tcp tcp_starts_def tcp_sends_def intro: counters_later_ok)

end
