(* ===== verification/UDP_Session.thy ===== *)
theory UDP_Session
  imports Session_Invariant
begin

text \<open>
  \<^verbatim>\<open>transports/udp-session.{h,cpp}\<close>: the handlers of a UDP session, its events and runs. There
  is no handshake: opening and connecting the socket only set it up, so a start is one handler.
  A receive completes with at most as many bytes as the buffer holds.
\<close>

section \<open>State and handlers\<close>

record udp_session = session +
  udp_packet_buffer :: "u8 list"
  udp_packet_size :: nat

definition udp_buffer_size :: "session_config \<Rightarrow> nat" where
  "udp_buffer_size cfg =
     (if unat (cfg_payload_size_limit cfg) < MAX_DATAGRAM_SIZE
      then unat (cfg_payload_size_limit cfg) else MAX_DATAGRAM_SIZE)"

definition new_udp_session :: "session_config \<Rightarrow> udp_session" where
  "new_udp_session cfg =
     session.extend (new_session cfg)
       \<lparr>udp_packet_buffer = replicate (udp_buffer_size cfg) 0, udp_packet_size = 0\<rparr>"

type_synonym 'h udp_result = "(udp_session \<times> 'h shard_context) option"

definition udp_do_read :: "session_config \<Rightarrow> int \<Rightarrow> udp_session \<Rightarrow> udp_session" where
  "udp_do_read cfg now s = start_op Receive_Op (sample_read_start cfg now s)"

definition udp_on_connect :: "session_config \<Rightarrow> moment \<Rightarrow> udp_session \<Rightarrow> 'h shard_context \<Rightarrow> 'h udp_result" where
  "udp_on_connect cfg mo s cx =
     (let s = (if cfg_read_messages cfg then udp_do_read cfg (mo_now mo) s else s)
      in if ss_writing s then Some (s, cx)
         else if ss_flood s \<or> ss_writes_queued s > 0 then do_write cfg (mo_clock mo) (mo_now mo) s cx
         else Some (s, cx))"

definition udp_start ::
  "session_config \<Rightarrow> moment \<Rightarrow> bool \<Rightarrow> bool \<Rightarrow> udp_session \<Rightarrow> 'h shard_context \<Rightarrow> 'h udp_result" where
  "udp_start cfg mo open_ec connect_ec s cx =
     (let s = s\<lparr>ss_live := True\<rparr>; cx = on_metrics record_connection_attempt cx
      in if open_ec then Some (close_session s, on_metrics record_connection_fail cx)
         else if connect_ec then Some (close_session s, on_metrics record_connection_fail cx)
         else udp_on_connect cfg mo s (on_metrics record_connection_success cx))"

definition udp_handle_message :: "'h handler_ops \<Rightarrow> udp_session \<Rightarrow> 'h shard_context \<Rightarrow> 'h udp_result" where
  "udp_handle_message ops s cx =
     (case hd_parse_message ops [] (take (udp_packet_size s) (udp_packet_buffer s)) (cx_handler cx) of
        None \<Rightarrow> None
      | Some (rs, h) \<Rightarrow> Some (fold (\<lambda>r s. start_op (Response_Post r) s) rs s, cx\<lparr>cx_handler := h\<rparr>))"

definition udp_received ::
  "session_config \<Rightarrow> 'h handler_ops \<Rightarrow> moment \<Rightarrow> bool \<Rightarrow> u8 list \<Rightarrow> udp_session \<Rightarrow> 'h shard_context \<Rightarrow> 'h udp_result" where
  "udp_received cfg ops mo ec bytes s cx =
     (if ec then Some (close_session s, cx)
      else
        let s = s\<lparr>udp_packet_buffer := bytes @ drop (length bytes) (udp_packet_buffer s),
                  udp_packet_size := length bytes\<rparr>;
            cx = on_metrics (record_bytes_read (of_nat (length bytes))) cx
        in if udp_packet_size s > unat (cfg_payload_size_limit cfg) then Some (close_session s, cx)
           else let (s, cx) = sample_read_end cfg (mo_stop mo) (s, cx)
                in udp_handle_message ops s cx)"

definition udp_response_posted ::
  "session_config \<Rightarrow> moment \<Rightarrow> u8 list \<Rightarrow> udp_session \<Rightarrow> 'h shard_context \<Rightarrow> 'h udp_result" where
  "udp_response_posted cfg mo packet s cx =
     (if length packet > 0
      then map_option (\<lambda>(s, cx). (udp_do_read cfg (mo_now mo) s, cx))
             (try_start_write cfg (mo_clock mo) (mo_now mo) (s\<lparr>ss_responses := ss_responses s @ [packet]\<rparr>) cx)
      else Some (udp_do_read cfg (mo_now mo) s, cx))"

definition udp_flood :: "session_config \<Rightarrow> moment \<Rightarrow> udp_session \<Rightarrow> 'h shard_context \<Rightarrow> 'h udp_result" where
  "udp_flood cfg mo s cx = session_flood (ss_live s) cfg (mo_clock mo) (mo_now mo) s cx"

definition udp_send :: "session_config \<Rightarrow> moment \<Rightarrow> u64 \<Rightarrow> udp_session \<Rightarrow> 'h shard_context \<Rightarrow> 'h udp_result" where
  "udp_send cfg mo N s cx = session_send (ss_live s) cfg (mo_clock mo) (mo_now mo) N s cx"

text \<open>Draining, stopping, writing and closing differ from TCP only in the socket calls.\<close>

definition udp_drain :: "udp_session \<Rightarrow> udp_session" where
  "udp_drain s = session_drain s"

definition udp_stop :: "udp_session \<Rightarrow> udp_session" where
  "udp_stop s = session_stop s"

definition udp_try_start_write ::
  "session_config \<Rightarrow> moment \<Rightarrow> udp_session \<Rightarrow> 'h shard_context \<Rightarrow> 'h udp_result" where
  "udp_try_start_write cfg mo s cx = try_start_write cfg (mo_clock mo) (mo_now mo) s cx"

definition udp_do_write ::
  "session_config \<Rightarrow> moment \<Rightarrow> udp_session \<Rightarrow> 'h shard_context \<Rightarrow> 'h udp_result" where
  "udp_do_write cfg mo s cx = do_write cfg (mo_clock mo) (mo_now mo) s cx"

definition udp_write_done ::
  "session_config \<Rightarrow> moment \<Rightarrow> bool \<Rightarrow> u64 \<Rightarrow> udp_session \<Rightarrow> 'h shard_context \<Rightarrow> 'h udp_result" where
  "udp_write_done cfg mo ec count s cx =
     write_done cfg (mo_clock mo) (mo_stop mo) (mo_now mo) ec count s cx"

definition udp_close_session :: "udp_session \<Rightarrow> udp_session" where
  "udp_close_session s = close_session s"

section \<open>Events and runs\<close>

datatype udp_event =
  Udp_Start bool bool
| Udp_Received bool "u8 list"
| Udp_Response "u8 list"
| Udp_Write_Done write_data bool u64
| Udp_Flood
| Udp_Send u64
| Udp_Drain
| Udp_Stop

fun udp_completes :: "udp_event \<Rightarrow> socket_op option" where
  "udp_completes (Udp_Received ec bytes) = Some Receive_Op"
| "udp_completes (Udp_Response packet) = Some (Response_Post packet)"
| "udp_completes (Udp_Write_Done d ec count) = Some (Write_Op d)"
| "udp_completes _ = None"

definition udp_complete_op :: "udp_event \<Rightarrow> udp_session \<Rightarrow> udp_session" where
  "udp_complete_op ev s =
     (case udp_completes ev of None \<Rightarrow> s | Some op \<Rightarrow> s\<lparr>ss_pending := remove1 op (ss_pending s)\<rparr>)"

definition udp_handle ::
  "session_config \<Rightarrow> 'h handler_ops \<Rightarrow> moment \<Rightarrow> udp_event \<Rightarrow> udp_session \<Rightarrow> 'h shard_context \<Rightarrow> 'h udp_result" where
  "udp_handle cfg ops mo ev s cx =
     (let s = udp_complete_op ev s in
      case ev of
        Udp_Start open_ec connect_ec \<Rightarrow> udp_start cfg mo open_ec connect_ec s cx
      | Udp_Received ec bytes \<Rightarrow> udp_received cfg ops mo ec bytes s cx
      | Udp_Response packet \<Rightarrow> udp_response_posted cfg mo packet s cx
      | Udp_Write_Done d ec count \<Rightarrow> udp_write_done cfg mo ec count s cx
      | Udp_Flood \<Rightarrow> udp_flood cfg mo s cx
      | Udp_Send N \<Rightarrow> udp_send cfg mo N s cx
      | Udp_Drain \<Rightarrow> Some (udp_drain s, cx)
      | Udp_Stop \<Rightarrow> Some (udp_stop s, cx))"

definition udp_enabled :: "session_config \<Rightarrow> udp_event \<Rightarrow> udp_session \<Rightarrow> bool" where
  "udp_enabled cfg ev s \<longleftrightarrow>
     (case udp_completes ev of None \<Rightarrow> True | Some op \<Rightarrow> op \<in> set (ss_pending s))
     \<and> (case ev of
          Udp_Received ec bytes \<Rightarrow> ec \<or> length bytes \<le> length (udp_packet_buffer s)
        | _ \<Rightarrow> True)"

inductive udp_run ::
  "session_config \<Rightarrow> 'h handler_ops \<Rightarrow> payload_descriptor list \<Rightarrow> udp_session \<times> 'h shard_context
    \<Rightarrow> udp_event list \<Rightarrow> udp_session \<times> 'h shard_context \<Rightarrow> bool" for cfg ops ps where
  udp_begins: "context_ok ps cx \<Longrightarrow> udp_run cfg ops ps (new_udp_session cfg, cx) [] (new_udp_session cfg, cx)"
| udp_handles: "udp_run cfg ops ps w evs (s, cx) \<Longrightarrow> udp_enabled cfg ev s \<Longrightarrow>
    udp_handle cfg ops mo ev s cx = Some (s', cx') \<Longrightarrow> udp_run cfg ops ps w (evs @ [ev]) (s', cx')"
| udp_others: "udp_run cfg ops ps w evs (s, cx) \<Longrightarrow> counters_later (cx_manager cx) (cx_manager cx') \<Longrightarrow>
    udp_run cfg ops ps w evs (s, cx')"

fun udp_starts_of :: "udp_event \<Rightarrow> nat" where
  "udp_starts_of (Udp_Start open_ec connect_ec) = 1"
| "udp_starts_of _ = 0"

fun udp_sends_of :: "udp_event \<Rightarrow> u64" where
  "udp_sends_of (Udp_Send N) = N"
| "udp_sends_of _ = 0"

definition udp_starts :: "udp_event list \<Rightarrow> nat" where
  "udp_starts evs = sum_list (map udp_starts_of evs)"

definition udp_sends :: "udp_event list \<Rightarrow> u64" where
  "udp_sends evs = sum_list (map udp_sends_of evs)"

section \<open>The invariant of a UDP session\<close>

lemmas udp_wrapper_defs =
  udp_drain_def udp_stop_def udp_try_start_write_def udp_do_write_def udp_write_done_def udp_close_session_def

lemma session_inv_udp_update [simp]:
  "session_inv ps st asked (s\<lparr>udp_packet_buffer := xs\<rparr>) = session_inv ps st asked s"
  "session_inv ps st asked (s\<lparr>udp_packet_size := k\<rparr>) = session_inv ps st asked s"
  by (simp_all add: session_inv_defs)

lemma session_inv_new_udp: "session_inv ps 0 0 (new_udp_session cfg)"
  by (simp add: new_udp_session_def session.defs new_session_def session_inv_defs)

lemma udp_do_read_inv: "session_inv ps st asked s \<Longrightarrow> session_inv ps st asked (udp_do_read cfg now s)"
  by (simp add: udp_do_read_def start_op_inv)

lemma udp_on_connect_keeps:
  assumes "session_inv ps st asked s" "context_ok ps cx"
  shows "keeps_inv ps st asked (udp_on_connect cfg mo s cx)"
proof -
  define t where "t = (if cfg_read_messages cfg then udp_do_read cfg (mo_now mo) s else s)"
  have inv: "session_inv ps st asked t" using assms(1) by (simp add: t_def udp_do_read_inv)
  have "udp_on_connect cfg mo s cx =
      (if ss_writing t then Some (t, cx)
       else if ss_flood t \<or> ss_writes_queued t > 0 then do_write cfg (mo_clock mo) (mo_now mo) t cx
       else Some (t, cx))"
    by (simp add: udp_on_connect_def t_def Let_def)
  then show ?thesis
    using inv assms(2) by (simp add: do_write_keeps one_writer_idle)
qed

lemma udp_start_keeps:
  assumes "session_inv ps st asked s" "context_ok ps cx"
  shows "keeps_inv ps (Suc st) asked (udp_start cfg mo open_ec connect_ec s cx)"
proof -
  have "session_inv ps (Suc st) asked (s\<lparr>ss_live := True\<rparr>)"
    using assms(1) by (simp add: session_inv_defs Let_def split: if_splits)
  then show ?thesis
    using assms(2) by (simp add: udp_start_def Let_def close_session_inv udp_on_connect_keeps)
qed

lemma udp_handle_message_keeps:
  "session_inv ps st asked s \<Longrightarrow> context_ok ps cx \<Longrightarrow> keeps_inv ps st asked (udp_handle_message ops s cx)"
  by (auto simp: udp_handle_message_def fold_responses_inv split: option.split)

lemma udp_received_keeps:
  assumes "session_inv ps st asked s" "context_ok ps cx"
  shows "keeps_inv ps st asked (udp_received cfg ops mo ec bytes s cx)"
proof -
  let ?w = "(s\<lparr>udp_packet_buffer := bytes @ drop (length bytes) (udp_packet_buffer s),
      udp_packet_size := length bytes\<rparr>, on_metrics (record_bytes_read (of_nat (length bytes))) cx)"
  obtain t cy where e: "sample_read_end cfg (mo_stop mo) ?w = (t, cy)" by (cases "sample_read_end cfg (mo_stop mo) ?w")
  then show ?thesis
    using assms sample_read_end_inv [OF e, of ps st asked]
    by (auto simp: udp_received_def Let_def close_session_inv intro!: udp_handle_message_keeps)
qed

lemma udp_response_posted_keeps:
  assumes "session_inv ps st asked s" "context_ok ps cx"
  shows "keeps_inv ps st asked (udp_response_posted cfg mo packet s cx)"
proof -
  have "keeps_inv ps st asked (try_start_write cfg (mo_clock mo) (mo_now mo)
      (s\<lparr>ss_responses := ss_responses s @ [packet]\<rparr>) cx)"
    using assms by (intro try_start_write_keeps) simp_all
  then show ?thesis
    using assms by (auto simp: udp_response_posted_def keeps_inv_def udp_do_read_inv)
qed

lemma udp_complete_op_inv:
  "session_inv ps st asked s \<Longrightarrow> session_inv ps st asked (udp_complete_op ev s)"
  by (simp add: udp_complete_op_def remove_op_inv split: option.split)

lemma udp_handle_inv:
  assumes "udp_enabled cfg ev s" "udp_handle cfg ops mo ev s cx = Some (s', cx')"
    and "session_inv ps st asked s" "context_ok ps cx"
  shows "session_inv ps (st + udp_starts_of ev) (asked + udp_sends_of ev) s' \<and> context_ok ps cx'"
proof -
  let ?s = "udp_complete_op ev s"
  have inv: "session_inv ps st asked ?s" by (rule udp_complete_op_inv [OF assms(3)])
  have "keeps_inv ps (st + udp_starts_of ev) (asked + udp_sends_of ev) (udp_handle cfg ops mo ev s cx)"
  proof (cases ev)
    case (Udp_Start open_ec connect_ec)
    then show ?thesis
      using inv assms(1,4) by (simp add: udp_handle_def Let_def udp_start_keeps udp_enabled_def udp_complete_op_def)
  next
    case (Udp_Write_Done d ec count)
    then have "write_count (ss_pending ?s) = 0"
      using assms(1) remove_write_count [OF assms(3)] by (simp add: udp_enabled_def udp_complete_op_def)
    then show ?thesis
      using Udp_Write_Done inv assms(4) by (simp add: udp_handle_def Let_def udp_wrapper_defs write_done_keeps)
  next
    case (Udp_Send N)
    then show ?thesis
      using inv assms(4) by (simp add: udp_handle_def udp_send_def Let_def session_send_keeps)
  next
    case Udp_Flood
    then show ?thesis
      using inv assms(4) by (simp add: udp_handle_def udp_flood_def Let_def session_flood_keeps)
  qed (use inv assms(4) in \<open>simp_all add: udp_handle_def Let_def udp_wrapper_defs udp_received_keeps
        udp_response_posted_keeps session_drain_inv session_stop_def close_session_inv\<close>)
  then show ?thesis using assms(2) by simp
qed

lemma udp_run_inv:
  assumes "udp_run cfg ops ps w evs v"
  shows "session_inv ps (udp_starts evs) (udp_sends evs) (fst v) \<and> context_ok ps (snd v)"
  using assms
proof induction
  case (udp_handles w evs s cx ev mo s' cx')
  then show ?case
    using udp_handle_inv [OF udp_handles.hyps(2,3), of ps "udp_starts evs" "udp_sends evs"]
    by (simp add: udp_starts_def udp_sends_def)
qed (auto simp: session_inv_new_udp udp_starts_def udp_sends_def intro: counters_later_ok)

end
