(* ===== verification/Session_Reads.thy ===== *)
theory Session_Reads
  imports TCP_Session UDP_Session
begin

text \<open>
  The read side of a session and the progress of its handlers. Reading goes in a circle:
  connect, header, body, the posted response, and the next header. A message handler that
  answers every message with one callback keeps one operation of the circle in flight for each
  start, and the buffers it is given have the sizes the configuration sets.
\<close>

section \<open>Operations of the read circle\<close>

definition readers :: "'a session_scheme \<Rightarrow> nat" where
  "readers s = length (filter (\<lambda>op. \<not> is_write op) (ss_pending s))"

lemma readers_start_op: "readers (start_op op s) = (if is_write op then readers s else Suc (readers s))"
  by (simp add: readers_def start_op_def)

lemma readers_cong: "ss_pending t = ss_pending s \<Longrightarrow> readers t = readers s"
  by (simp add: readers_def)

lemma readers_remove:
  assumes "op \<in> set (ss_pending s)" "\<not> is_write op"
  shows "Suc (readers (s\<lparr>ss_pending := remove1 op (ss_pending s)\<rparr>)) = readers s"
proof -
  have "filter (\<lambda>op. \<not> is_write op) (remove1 op ops) = remove1 op (filter (\<lambda>op. \<not> is_write op) ops)" for ops
    using assms(2) by (induction ops) auto
  then have "readers (s\<lparr>ss_pending := remove1 op (ss_pending s)\<rparr>) = readers s - 1"
    using assms by (simp add: readers_def length_remove1)
  moreover have "0 < readers s"
    using assms by (auto simp: readers_def filter_empty_conv)
  ultimately show ?thesis by simp
qed

lemma readers_remove_le: "readers (s\<lparr>ss_pending := remove1 op (ss_pending s)\<rparr>) \<le> readers s"
proof -
  have "length (filter P (remove1 op ops)) \<le> length (filter P ops)" for P and ops :: "socket_op list"
    by (induction ops) auto
  then show ?thesis by (simp add: readers_def)
qed

text \<open>A step that only writes leaves the rest of the session alone.\<close>

definition writes_only :: "'a session_scheme \<Rightarrow> 'a session_scheme \<Rightarrow> bool" where
  "writes_only s t \<longleftrightarrow>
     session.more t = session.more s \<and> (\<exists>ws. ss_pending t = ss_pending s @ map Write_Op ws)"

lemma writes_only_same: "session.more t = session.more s \<Longrightarrow> ss_pending t = ss_pending s \<Longrightarrow> writes_only s t"
  by (simp add: writes_only_def)

lemma writes_only_trans: "writes_only s t \<Longrightarrow> writes_only t u \<Longrightarrow> writes_only s u"
  by (auto simp: writes_only_def) (metis map_append)

lemma more_sample [simp]:
  "session.more (sample_write_start cfg now s) = session.more s"
  "session.more (sample_read_start cfg now s) = session.more s"
  "session.more (close_session s) = session.more s"
  "ss_pending (sample_read_start cfg now s) = ss_pending s"
  by (simp_all add: sample_write_start_def sample_read_start_def close_session_def Let_def)

lemma write_step_only: "write_step cfg clk now s cx s' cx' \<Longrightarrow> writes_only s s'"
proof (cases rule: write_step.cases)
  assume "write_step cfg clk now s cx s' cx'"
  show ?thesis if "s' = idle_step s"
    using that by (auto simp: idle_step_def Let_def writes_only_def)
  show ?thesis if "s' = response_step cfg now s"
    using that by (auto simp: response_step_def issue_write_def start_op_def writes_only_def intro!: exI [of _ "[_]"])
  show ?thesis if "s' = payload_step cfg now k m p s" for k m p
    using that by (auto simp: payload_step_def issue_write_def start_op_def writes_only_def intro!: exI [of _ "[_]"])
qed

lemma do_write_only: "do_write cfg clk now s cx = Some (s', cx') \<Longrightarrow> writes_only s s'"
  using do_write_step write_step_only by fastforce

lemma try_start_write_only: "try_start_write cfg clk now s cx = Some (s', cx') \<Longrightarrow> writes_only s s'"
  by (auto simp: try_start_write_def do_write_only writes_only_same split: if_splits)

lemma sample_end_only:
  "sample_write_end cfg now (s, cx) = (s', cx') \<Longrightarrow> writes_only s s'"
  "sample_read_end cfg now (s, cx) = (s', cx') \<Longrightarrow> writes_only s s'"
  by (auto simp: sample_write_end_def sample_read_end_def writes_only_same split: if_splits)

lemma write_done_only:
  assumes "write_done cfg clk stop now ec count s cx = Some (s', cx')" shows "writes_only s s'"
proof -
  obtain t cy where e: "sample_write_end cfg stop (s, on_metrics (record_bytes_sent count) cx) = (t, cy)"
    by (cases "sample_write_end cfg stop (s, on_metrics (record_bytes_sent count) cx)")
  then show ?thesis
    using assms sample_end_only(1) [OF e] do_write_only [of cfg clk now t cy s' cx']
    by (auto simp: write_done_def writes_only_same intro: writes_only_trans split: if_splits)
qed

lemma session_flood_only:
  assumes "session_flood ready cfg clk now s cx = Some (s', cx')" shows "writes_only s s'"
proof -
  have flood: "writes_only s (s\<lparr>ss_flood := True\<rparr>)" by (simp add: writes_only_same)
  show ?thesis
    using assms writes_only_trans [OF flood try_start_write_only] flood writes_only_same [of s s]
    by (auto simp: session_flood_def Let_def split: if_splits)
qed

lemma session_send_only:
  assumes "session_send ready cfg clk now N s cx = Some (s', cx')" shows "writes_only s s'"
proof -
  have send: "writes_only s (s\<lparr>ss_writes_queued := ss_writes_queued s + N\<rparr>)" by (simp add: writes_only_same)
  show ?thesis
    using assms writes_only_trans [OF send try_start_write_only] send
    by (auto simp: session_send_def Let_def split: if_splits)
qed

lemma session_drain_only: "writes_only s (session_drain s)"
  by (auto simp: session_drain_def Let_def writes_only_same)

lemma close_only: "writes_only s (close_session s)"
  by (simp add: writes_only_same)

section \<open>The read side of TCP\<close>

definition tcp_reads :: "session_config \<Rightarrow> nat \<Rightarrow> tcp_session \<Rightarrow> bool" where
  "tcp_reads cfg k s \<longleftrightarrow>
     readers s \<le> k \<and> length (tcp_incoming_header s) = unat (cfg_header_size cfg)
     \<and> (\<forall>n. Read_Body_Op n \<in> set (ss_pending s) \<longrightarrow> n \<le> unat (cfg_payload_size_limit cfg))"

definition tcp_reads_to :: "session_config \<Rightarrow> nat \<Rightarrow> 'h tcp_result \<Rightarrow> bool" where
  "tcp_reads_to cfg k r \<longleftrightarrow> (\<forall>s cx. r = Some (s, cx) \<longrightarrow> tcp_reads cfg k s)"

lemma tcp_reads_to_simps [simp]:
  "tcp_reads_to cfg k None"
  "tcp_reads_to cfg k (Some (s, cx)) \<longleftrightarrow> tcp_reads cfg k s"
  by (simp_all add: tcp_reads_to_def)

lemma more_header: "session.more t = session.more s \<Longrightarrow> tcp_incoming_header t = tcp_incoming_header s"
  by (cases s; cases t) simp

lemma tcp_reads_writes_only:
  assumes "writes_only s t" "tcp_reads cfg k s" shows "tcp_reads cfg k t"
proof -
  obtain ws where ws: "ss_pending t = ss_pending s @ map Write_Op ws" "session.more t = session.more s"
    using assms(1) by (auto simp: writes_only_def)
  have "filter (\<lambda>op. \<not> is_write op) (map Write_Op ws) = []" by (induction ws) simp_all
  then have "readers t = readers s" by (simp add: readers_def ws(1))
  then show ?thesis
    using assms(2) more_header [OF ws(2)] by (auto simp: tcp_reads_def ws(1))
qed

lemma tcp_reads_update [simp]:
  "tcp_reads cfg k (s\<lparr>tcp_connecting := b\<rparr>) = tcp_reads cfg k s"
  "tcp_reads cfg k (s\<lparr>tcp_next_payload_size := n\<rparr>) = tcp_reads cfg k s"
  "tcp_reads cfg k (s\<lparr>tcp_body := bs\<rparr>) = tcp_reads cfg k s"
  "tcp_reads cfg k (s\<lparr>ss_responses := rs\<rparr>) = tcp_reads cfg k s"
  by (simp_all add: tcp_reads_def readers_def)

lemma tcp_reads_mono: "tcp_reads cfg k s \<Longrightarrow> k \<le> k' \<Longrightarrow> tcp_reads cfg k' s"
  by (auto simp: tcp_reads_def)

lemma close_reads: "tcp_reads cfg k s \<Longrightarrow> tcp_reads cfg (Suc k) (close_session s)"
  by (rule tcp_reads_mono [of cfg k]) (auto intro: tcp_reads_writes_only close_only)

lemma tcp_reads_start_op:
  assumes "tcp_reads cfg k s" "\<not> is_write op"
    and "\<And>n. op = Read_Body_Op n \<Longrightarrow> n \<le> unat (cfg_payload_size_limit cfg)"
  shows "tcp_reads cfg (Suc k) (start_op op s)"
proof -
  have "readers (start_op op s) = Suc (readers s)" using assms(2) by (simp add: readers_start_op)
  moreover have "ss_pending (start_op op s) = ss_pending s @ [op]" "tcp_incoming_header (start_op op s) = tcp_incoming_header s"
    by (simp_all add: start_op_def)
  ultimately show ?thesis using assms(1,3) by (auto simp: tcp_reads_def)
qed

lemma tcp_do_read_header_reads:
  "tcp_reads cfg k s \<Longrightarrow> tcp_reads cfg (Suc k) (tcp_do_read_header cfg now s)"
  unfolding tcp_do_read_header_def
  by (rule tcp_reads_start_op [OF tcp_reads_writes_only [OF writes_only_same]]) simp_all

lemma tcp_on_connect_reads:
  assumes "tcp_reads cfg k s"
  shows "tcp_reads_to cfg (Suc k) (tcp_on_connect cfg mo s cx)"
proof -
  define t where "t = (if cfg_read_messages cfg then tcp_do_read_header cfg (mo_now mo) s else s)"
  have "tcp_reads cfg (Suc k) t"
    using assms by (auto simp: t_def tcp_do_read_header_reads intro: tcp_reads_mono)
  moreover have "tcp_on_connect cfg mo s cx =
      (if ss_writing t then Some (t, cx)
       else if ss_flood t \<or> ss_writes_queued t > 0 then do_write cfg (mo_clock mo) (mo_now mo) t cx
       else Some (t, cx))"
    by (simp add: tcp_on_connect_def t_def Let_def)
  ultimately show ?thesis
    by (auto simp: tcp_reads_to_def intro: tcp_reads_writes_only dest: do_write_only)
qed

text \<open>A message handler that keeps its contract adds one response to the strand.\<close>

context message_handler
begin

lemma tcp_handle_message_returns:
  assumes "length (tcp_incoming_header s) + min (length (tcp_body s)) (tcp_next_payload_size s) < 2 ^ 32"
  shows "\<exists>r h. tcp_handle_message ops s cx = Some (start_op (Response_Post r) s, cx\<lparr>cx_handler := h\<rparr>)"
proof -
  obtain r h where "hd_parse_message ops (tcp_incoming_header s) (take (tcp_next_payload_size s) (tcp_body s)) (cx_handler cx)
      = Some ([r], h)"
    using message_total [of "tcp_incoming_header s" "take (tcp_next_payload_size s) (tcp_body s)" "cx_handler cx"] assms
    by auto
  then show ?thesis by (auto simp: tcp_handle_message_def)
qed

lemma tcp_handle_message_reads:
  assumes "tcp_reads cfg k s" "length (tcp_incoming_header s) + min (length (tcp_body s)) (tcp_next_payload_size s) < 2 ^ 32"
  shows "\<exists>s' cx'. tcp_handle_message ops s cx = Some (s', cx') \<and> tcp_reads cfg (Suc k) s'"
  using tcp_handle_message_returns [OF assms(2), of cx] tcp_reads_start_op [OF assms(1)] by fastforce

lemma tcp_do_read_body_reads:
  assumes "tcp_reads cfg k s" "unat (cfg_header_size cfg) + unat (cfg_payload_size_limit cfg) < 2 ^ 32"
    and "tcp_next_payload_size s \<le> unat (cfg_payload_size_limit cfg)"
  shows "\<exists>s' cx'. tcp_do_read_body ops s cx = Some (s', cx') \<and> tcp_reads cfg (Suc k) s'"
proof (cases "tcp_next_payload_size s = 0")
  case True
  then show ?thesis
    using tcp_handle_message_reads [OF assms(1)] assms(1,2) by (simp add: tcp_do_read_body_def tcp_reads_def)
next
  case False
  then show ?thesis
    using tcp_reads_start_op [OF assms(1), of "Read_Body_Op (tcp_next_payload_size s)"] assms(3)
    by (simp add: tcp_do_read_body_def)
qed

lemma tcp_header_read_reads:
  assumes "tcp_reads cfg k s" "unat (cfg_header_size cfg) + unat (cfg_payload_size_limit cfg) < 2 ^ 32"
    and "ec \<or> length bytes = unat (cfg_header_size cfg)"
  shows "\<exists>s' cx'. tcp_header_read cfg ops mo ec bytes s cx = Some (s', cx') \<and> tcp_reads cfg (Suc k) s'"
proof (cases ec)
  case True
  then show ?thesis
    using assms(1) close_reads by (auto simp: tcp_header_read_def)
next
  case False
  let ?s = "s\<lparr>tcp_incoming_header := bytes\<rparr>" and ?cx = "on_metrics (record_bytes_read (of_nat (length bytes))) cx"
  have s: "tcp_reads cfg k ?s" using assms False by (simp add: tcp_reads_def readers_def)
  obtain r h where r: "hd_parse_header ops bytes (cx_handler ?cx) = Some (r, h)"
    using header_total [of bytes "cx_handler ?cx"] assms(2,3) False by auto
  have body: "\<exists>s' cx'. tcp_do_read_body ops (?s\<lparr>tcp_next_payload_size := hr_length r\<rparr>) (?cx\<lparr>cx_handler := h\<rparr>) = Some (s', cx')
      \<and> tcp_reads cfg (Suc k) s'" if "\<not> hr_length r > unat (cfg_payload_size_limit cfg)"
    using that s assms(2) by (intro tcp_do_read_body_reads) simp_all
  have close: "tcp_reads cfg (Suc k) (close_session (?s\<lparr>tcp_next_payload_size := hr_length r\<rparr>))"
    by (rule close_reads) (use s in simp)
  show ?thesis
    using False r body close tcp_do_read_header_reads [of cfg k "?s\<lparr>tcp_next_payload_size := 0\<rparr>" "mo_now mo"] s
    by (simp add: tcp_header_read_def Let_def)
qed

lemma tcp_body_read_reads:
  assumes "tcp_reads cfg k s" "unat (cfg_header_size cfg) + unat (cfg_payload_size_limit cfg) < 2 ^ 32"
    and "ec \<or> length bytes \<le> unat (cfg_payload_size_limit cfg)"
  shows "\<exists>s' cx'. tcp_body_read cfg ops mo ec bytes s cx = Some (s', cx') \<and> tcp_reads cfg (Suc k) s'"
proof (cases ec)
  case True
  then show ?thesis
    using assms(1) close_reads by (auto simp: tcp_body_read_def)
next
  case False
  let ?s = "s\<lparr>tcp_body := bytes\<rparr>" and ?cx = "on_metrics (record_bytes_read (of_nat (length bytes))) cx"
  obtain t cy where e: "sample_read_end cfg (mo_stop mo) (?s, ?cx) = (t, cy)"
    by (cases "sample_read_end cfg (mo_stop mo) (?s, ?cx)")
  have t: "tcp_reads cfg k t" "tcp_body t = bytes"
    using tcp_reads_writes_only [OF sample_end_only(2) [OF e]] assms(1) e
    by (auto simp: sample_read_end_def split: if_splits)
  have "length (tcp_incoming_header t) + min (length (tcp_body t)) (tcp_next_payload_size t) < 2 ^ 32"
    using t assms(2,3) False by (auto simp: tcp_reads_def)
  then show ?thesis
    using False e tcp_handle_message_reads [OF t(1)] by (simp add: tcp_body_read_def)
qed

lemma tcp_response_posted_reads:
  assumes "tcp_reads cfg k s" "tcp_response_posted cfg mo packet s cx = Some (s', cx')"
  shows "tcp_reads cfg (Suc k) s'"
proof (cases "length packet > 0")
  case True
  then obtain t where t: "try_start_write cfg (mo_clock mo) (mo_now mo) (s\<lparr>ss_responses := ss_responses s @ [packet]\<rparr>) cx
      = Some (t, cx')" "s' = tcp_do_read_header cfg (mo_now mo) t"
    using assms(2) by (auto simp: tcp_response_posted_def)
  then show ?thesis
    using tcp_reads_writes_only [OF try_start_write_only [OF t(1)]] assms(1) by (simp add: tcp_do_read_header_reads)
next
  case False
  then show ?thesis
    using assms by (auto simp: tcp_response_posted_def tcp_do_read_header_reads)
qed

text \<open>Taking an operation of the circle out of flight makes room for the next one.\<close>

lemma tcp_reads_complete:
  assumes "tcp_reads cfg k s" "completes ev = Some op" "op \<in> set (ss_pending s)"
  shows "tcp_reads cfg k (complete_op ev s)"
    and "\<not> is_write op \<Longrightarrow> \<exists>k'. k = Suc k' \<and> tcp_reads cfg k' (complete_op ev s)"
proof -
  have sub: "set (remove1 op (ss_pending s)) \<subseteq> set (ss_pending s)" by (rule set_remove1_subset)
  show "tcp_reads cfg k (complete_op ev s)"
    using assms readers_remove_le [of op s] sub by (auto simp: complete_op_def tcp_reads_def)
  show "\<exists>k'. k = Suc k' \<and> tcp_reads cfg k' (complete_op ev s)" if "\<not> is_write op"
    using assms readers_remove [OF assms(3) that] sub
    by (intro exI [of _ "k - 1"]) (auto simp: complete_op_def tcp_reads_def)
qed

lemma tcp_handle_reads:
  assumes "tcp_enabled cfg ev s" "tcp_handle cfg ops mo ev s cx = Some (s', cx')" "tcp_reads cfg k s"
    and "unat (cfg_header_size cfg) + unat (cfg_payload_size_limit cfg) < 2 ^ 32"
  shows "tcp_reads cfg (k + starts_of ev) s'"
proof (cases "completes ev")
  case None
  then have same: "complete_op ev s = s" by (simp add: complete_op_def)
  show ?thesis
  proof (cases ev)
    case (Tcp_Start t)
    have "tcp_reads cfg k (s\<lparr>ss_live := True, tcp_connecting := True\<rparr>)"
      using assms(3) by (simp add: tcp_reads_def readers_def)
    then have "tcp_reads cfg (Suc k) (start_op (Connect_Op t) (s\<lparr>ss_live := True, tcp_connecting := True\<rparr>))"
      by (rule tcp_reads_start_op) simp_all
    then show ?thesis using assms(2) Tcp_Start same by (simp add: tcp_handle_def tcp_start_def)
  qed (use assms(2,3) None same in \<open>auto simp: tcp_handle_def tcp_flood_def tcp_send_def session_stop_def
      intro: tcp_reads_writes_only close_only session_drain_only dest!: session_flood_only session_send_only\<close>)
next
  case (Some op)
  have pending: "op \<in> set (ss_pending s)" using assms(1) Some by (simp add: tcp_enabled_def)
  let ?s = "complete_op ev s"
  have le: "tcp_reads cfg k ?s" by (rule tcp_reads_complete(1) [OF assms(3) Some pending])
  show ?thesis
  proof (cases "is_write op")
    case True
    then obtain d ec count where ev: "ev = Tcp_Write_Done d ec count" using Some by (cases ev) auto
    then have "writes_only ?s s'" using assms(2) by (auto simp: tcp_handle_def Let_def dest: write_done_only)
    then show ?thesis using le ev by (simp add: tcp_reads_writes_only)
  next
    case False
    then obtain k' where k: "k = Suc k'" "tcp_reads cfg k' ?s"
      using tcp_reads_complete(2) [OF assms(3) Some pending] by auto
    show ?thesis
    proof (cases ev)
      case (Tcp_Connected t ec)
      show ?thesis
      proof (cases ec)
        case True
        then show ?thesis
          using assms(2) k close_reads [of cfg k' "?s\<lparr>tcp_connecting := False\<rparr>"] Tcp_Connected
          by (auto simp: tcp_handle_def tcp_connected_def Let_def)
      next
        case False
        then show ?thesis
          using assms(2) k tcp_on_connect_reads [of cfg k' "?s\<lparr>tcp_connecting := False\<rparr>" mo] Tcp_Connected
          by (auto simp: tcp_handle_def tcp_connected_def Let_def tcp_reads_to_def)
      qed
    next
      case (Tcp_Header_Read ec bytes)
      then have "ec \<or> length bytes = unat (cfg_header_size cfg)" using assms(1) by (simp add: tcp_enabled_def)
      then show ?thesis
        using tcp_header_read_reads [OF k(2) assms(4), of ec bytes mo cx] assms(2) Tcp_Header_Read k(1)
        by (auto simp: tcp_handle_def Let_def)
    next
      case (Tcp_Body_Read n ec bytes)
      then have "ec \<or> length bytes \<le> unat (cfg_payload_size_limit cfg)"
        using assms(1,3) pending Some by (auto simp: tcp_enabled_def tcp_reads_def)
      then show ?thesis
        using tcp_body_read_reads [OF k(2) assms(4), of ec bytes mo cx] assms(2) Tcp_Body_Read k(1)
        by (auto simp: tcp_handle_def Let_def)
    next
      case (Tcp_Response packet)
      then show ?thesis
        using tcp_response_posted_reads [OF k(2), of mo packet cx s' cx'] assms(2) k(1)
        by (simp add: tcp_handle_def Let_def)
    qed (use Some False in auto)
  qed
qed

lemma tcp_run_reads:
  assumes "tcp_run cfg ops ps w evs v"
    and "unat (cfg_header_size cfg) + unat (cfg_payload_size_limit cfg) < 2 ^ 32"
  shows "tcp_reads cfg (tcp_starts evs) (fst v)"
  using assms(1)
proof induction
  case (begins cx)
  then show ?case
    by (simp add: tcp_reads_def readers_def new_tcp_session_def session.defs new_session_def tcp_starts_def)
next
  case (handles w evs s cx ev mo s' cx')
  then show ?case
    using tcp_handle_reads [OF handles.hyps(2,3) _ assms(2), of "tcp_starts evs"] by (simp add: tcp_starts_def)
qed simp

end

section \<open>The buffer of UDP\<close>

lemma more_buffer:
  fixes s t :: udp_session
  shows "session.more t = session.more s \<Longrightarrow> udp_packet_buffer t = udp_packet_buffer s"
  by (cases s; cases t) simp

lemma buffer_writes_only:
  fixes s t :: udp_session
  assumes "writes_only s t" shows "udp_packet_buffer t = udp_packet_buffer s"
  using assms unfolding writes_only_def by (intro more_buffer) blast

lemma close_buffer [simp]: "udp_packet_buffer (close_session s) = udp_packet_buffer s" for s :: udp_session
  by (rule buffer_writes_only [OF close_only])

lemma drain_buffer [simp]: "udp_packet_buffer (session_drain s) = udp_packet_buffer s" for s :: udp_session
  by (rule buffer_writes_only [OF session_drain_only])

lemma udp_do_read_buffer [simp]: "udp_packet_buffer (udp_do_read cfg now s) = udp_packet_buffer s"
proof -
  have "udp_packet_buffer (sample_read_start cfg now s) = udp_packet_buffer s" by (rule more_buffer) simp
  then show ?thesis by (simp add: udp_do_read_def start_op_def)
qed

lemma udp_on_connect_buffer:
  assumes "udp_on_connect cfg mo s cx = Some (s', cx')"
  shows "udp_packet_buffer s' = udp_packet_buffer s"
proof -
  define t where "t = (if cfg_read_messages cfg then udp_do_read cfg (mo_now mo) s else s)"
  have "udp_on_connect cfg mo s cx =
      (if ss_writing t then Some (t, cx)
       else if ss_flood t \<or> ss_writes_queued t > 0 then do_write cfg (mo_clock mo) (mo_now mo) t cx
       else Some (t, cx))"
    by (simp add: udp_on_connect_def t_def Let_def)
  then have "writes_only t s'" using assms by (auto simp: writes_only_same dest!: do_write_only [OF sym] split: if_splits)
  then show ?thesis using buffer_writes_only [of t s'] by (simp add: t_def split: if_splits)
qed

lemma udp_handle_message_buffer:
  assumes "udp_handle_message ops s cx = Some (s', cx')"
  shows "udp_packet_buffer s' = udp_packet_buffer s"
proof -
  have "udp_packet_buffer (fold (\<lambda>r s. start_op (Response_Post r) s) rs t) = udp_packet_buffer t" for rs t
    by (induction rs arbitrary: t) (simp_all add: start_op_def)
  then show ?thesis using assms by (auto simp: udp_handle_message_def split: option.splits)
qed

lemma udp_received_buffer:
  assumes "udp_received cfg ops mo ec bytes s cx = Some (s', cx')" "ec \<or> length bytes \<le> length (udp_packet_buffer s)"
  shows "length (udp_packet_buffer s') = length (udp_packet_buffer s)"
proof (cases ec)
  case True
  then show ?thesis using assms(1) by (auto simp: udp_received_def)
next
  case False
  let ?s = "s\<lparr>udp_packet_buffer := bytes @ drop (length bytes) (udp_packet_buffer s), udp_packet_size := length bytes\<rparr>"
  let ?cx = "on_metrics (record_bytes_read (of_nat (length bytes))) cx"
  obtain t cy where e: "sample_read_end cfg (mo_stop mo) (?s, ?cx) = (t, cy)"
    by (cases "sample_read_end cfg (mo_stop mo) (?s, ?cx)")
  have "length (udp_packet_buffer ?s) = length (udp_packet_buffer s)" using False assms(2) by simp
  moreover have "udp_packet_buffer t = udp_packet_buffer ?s" by (rule buffer_writes_only [OF sample_end_only(2) [OF e]])
  moreover have "udp_packet_buffer s' = udp_packet_buffer ?s \<or> udp_packet_buffer s' = udp_packet_buffer t"
    using assms(1) False e
    by (auto simp: udp_received_def Let_def dest: udp_handle_message_buffer split: if_splits)
  ultimately show ?thesis by metis
qed

lemma udp_response_posted_buffer:
  assumes "udp_response_posted cfg mo packet s cx = Some (s', cx')"
  shows "udp_packet_buffer s' = udp_packet_buffer s"
  using assms
  by (auto simp: udp_response_posted_def dest!: try_start_write_only buffer_writes_only split: if_splits)

lemma udp_complete_buffer [simp]: "udp_packet_buffer (udp_complete_op ev s) = udp_packet_buffer s"
  by (simp add: udp_complete_op_def split: option.split)

lemma udp_handle_buffer:
  assumes "udp_enabled cfg ev s" "udp_handle cfg ops mo ev s cx = Some (s', cx')"
  shows "length (udp_packet_buffer s') = length (udp_packet_buffer s)"
proof (cases ev)
  case (Udp_Start open_ec connect_ec)
  then show ?thesis
    using assms(2) by (auto simp: udp_handle_def udp_start_def Let_def dest: udp_on_connect_buffer split: if_splits)
next
  case (Udp_Received ec bytes)
  then show ?thesis
    using assms udp_received_buffer [of cfg ops mo ec bytes "udp_complete_op ev s" cx s' cx']
    by (simp add: udp_handle_def udp_enabled_def Let_def)
next
  case (Udp_Response packet)
  then show ?thesis using assms(2) by (auto simp: udp_handle_def Let_def dest: udp_response_posted_buffer)
qed (use assms(2) in
      \<open>auto simp: udp_handle_def udp_wrapper_defs udp_flood_def udp_send_def session_stop_def Let_def
        dest!: write_done_only session_flood_only session_send_only buffer_writes_only\<close>)

lemma udp_run_buffer:
  assumes "udp_run cfg ops ps w evs v"
  shows "length (udp_packet_buffer (fst v)) = udp_buffer_size cfg"
  using assms
proof induction
  case (udp_begins cx)
  then show ?case by (simp add: new_udp_session_def session.defs)
next
  case (udp_handles w evs s cx ev mo s' cx')
  then show ?case using udp_handle_buffer [OF udp_handles.hyps(2,3)] by simp
qed simp

section \<open>Every handler returns\<close>

text \<open>The writer always returns when there is a payload or the payloads are not looped.\<close>

definition writer_returns :: "session_config \<Rightarrow> payload_descriptor list \<Rightarrow> bool" where
  "writer_returns cfg ps \<longleftrightarrow> ps \<noteq> [] \<or> \<not> cfg_loop_payloads cfg"

lemma do_write_total:
  assumes "writer_returns cfg ps" "context_ok ps cx"
  shows "\<exists>t cy. do_write cfg clk now s cx = Some (t, cy)"
  using do_write_returns [of cx cfg s clk now] assms
  by (auto simp: writer_returns_def context_ok_def write_diverges_def)

lemma try_start_write_total:
  assumes "writer_returns cfg ps" "context_ok ps cx"
  shows "\<exists>t cy. try_start_write cfg clk now s cx = Some (t, cy)"
  using do_write_total [OF assms, of clk now s] by (simp add: try_start_write_def)

lemma write_done_total:
  assumes "writer_returns cfg ps" "context_ok ps cx"
  shows "\<exists>t cy. write_done cfg clk stop now ec count s cx = Some (t, cy)"
proof -
  obtain t cy where e: "sample_write_end cfg stop (s, on_metrics (record_bytes_sent count) cx) = (t, cy)"
    by (cases "sample_write_end cfg stop (s, on_metrics (record_bytes_sent count) cx)")
  then have "context_ok ps cy" using assms(2) by (auto simp: sample_write_end_def split: if_splits)
  then show ?thesis using do_write_total [OF assms(1), of cy clk now t] e by (simp add: write_done_def)
qed

lemma session_flood_total:
  assumes "writer_returns cfg ps" "context_ok ps cx"
  shows "\<exists>t cy. session_flood ready cfg clk now s cx = Some (t, cy)"
  using try_start_write_total [OF assms, of clk now "s\<lparr>ss_flood := True\<rparr>"] by (simp add: session_flood_def Let_def)

lemma session_send_total:
  assumes "writer_returns cfg ps" "context_ok ps cx"
  shows "\<exists>t cy. session_send ready cfg clk now N s cx = Some (t, cy)"
  using try_start_write_total [OF assms, of clk now "s\<lparr>ss_writes_queued := ss_writes_queued s + N\<rparr>"]
  by (simp add: session_send_def Let_def)

lemmas write_totals = write_done_total session_flood_total session_send_total

context message_handler
begin

lemma tcp_handle_total:
  assumes "tcp_enabled cfg ev s" "tcp_reads cfg k s"
    and "unat (cfg_header_size cfg) + unat (cfg_payload_size_limit cfg) < 2 ^ 32"
    and "writer_returns cfg ps" "context_ok ps cx"
  shows "tcp_handle cfg ops mo ev s cx \<noteq> None"
proof -
  have reads: "tcp_reads cfg k (complete_op ev s)"
  proof (cases "completes ev")
    case None
    then show ?thesis using assms(2) by (simp add: complete_op_def)
  next
    case (Some op)
    then show ?thesis
      using tcp_reads_complete(1) [OF assms(2) Some] assms(1) by (simp add: tcp_enabled_def)
  qed
  show ?thesis
  proof (cases ev)
    case (Tcp_Connected t ec)
    have "\<exists>t cy. tcp_on_connect cfg mo s' (on_metrics f (on_metrics g cx)) = Some (t, cy)" for s' f g
    proof -
      have "context_ok ps (on_metrics f (on_metrics g cx))" using assms(5) by simp
      note total = do_write_total [OF assms(4) this, of "mo_clock mo" "mo_now mo" "s' :: tcp_session" for s']
      show ?thesis by (simp add: tcp_on_connect_def Let_def total)
    qed
    then show ?thesis using Tcp_Connected by (auto simp: tcp_handle_def tcp_connected_def Let_def)
  next
    case (Tcp_Header_Read ec bytes)
    then have "ec \<or> length bytes = unat (cfg_header_size cfg)" using assms(1) by (simp add: tcp_enabled_def)
    then show ?thesis
      using tcp_header_read_reads [OF reads assms(3), of ec bytes mo cx] Tcp_Header_Read
      by (auto simp: tcp_handle_def Let_def)
  next
    case (Tcp_Body_Read n ec bytes)
    then have "ec \<or> length bytes \<le> unat (cfg_payload_size_limit cfg)"
      using assms(1,2) by (auto simp: tcp_enabled_def tcp_reads_def)
    then show ?thesis
      using tcp_body_read_reads [OF reads assms(3), of ec bytes mo cx] Tcp_Body_Read
      by (auto simp: tcp_handle_def Let_def)
  next
    case (Tcp_Response packet)
    then show ?thesis
      using try_start_write_total [OF assms(4,5), of "mo_clock mo" "mo_now mo"
          "complete_op ev s\<lparr>ss_responses := ss_responses (complete_op ev s) @ [packet]\<rparr>"]
      by (auto simp: tcp_handle_def tcp_response_posted_def Let_def)
  next
    case (Tcp_Write_Done d ec count)
    then show ?thesis
      using write_done_total [OF assms(4,5), of "mo_clock mo" "mo_stop mo" "mo_now mo" ec count "complete_op ev s"]
      by (auto simp: tcp_handle_def Let_def)
  next
    case Tcp_Flood
    then show ?thesis
      using session_flood_total [OF assms(4,5), of "tcp_ready (complete_op ev s)" "mo_clock mo" "mo_now mo" "complete_op ev s"]
      by (auto simp: tcp_handle_def tcp_flood_def Let_def)
  next
    case (Tcp_Send N)
    then show ?thesis
      using session_send_total [OF assms(4,5), of "tcp_ready (complete_op ev s)" "mo_clock mo" "mo_now mo" N "complete_op ev s"]
      by (auto simp: tcp_handle_def tcp_send_def Let_def)
  qed (simp_all add: tcp_handle_def tcp_start_def Let_def)
qed

end

section \<open>Flooding\<close>

text \<open>Only a FLOOD makes a session flood, and nothing ends it.\<close>

lemma flood_sampled [simp]:
  "ss_flood (sample_write_start cfg now s) = ss_flood s" "ss_flood (sample_read_start cfg now s) = ss_flood s"
  by (simp_all add: sample_write_start_def sample_read_start_def Let_def)

lemma flood_start_op [simp]: "ss_flood (start_op op s) = ss_flood s"
  by (simp add: start_op_def)

lemma flood_drain [simp]: "ss_flood (session_drain s) = ss_flood s"
  by (simp add: session_drain_def Let_def)

lemma do_write_flood: "do_write cfg clk now s cx = Some (s', cx') \<Longrightarrow> ss_flood s' = ss_flood s"
proof -
  assume "do_write cfg clk now s cx = Some (s', cx')"
  from do_write_step [OF this] have "write_step cfg clk now s cx s' cx'" by simp
  then show ?thesis
    by cases (simp_all add: response_step_def payload_step_def idle_step_def issue_write_def Let_def)
qed

lemma try_start_write_flood: "try_start_write cfg clk now s cx = Some (s', cx') \<Longrightarrow> ss_flood s' = ss_flood s"
  by (auto simp: try_start_write_def dest: do_write_flood split: if_splits)

lemma sample_end_flood:
  "sample_write_end cfg now (s, cx) = (s', cx') \<Longrightarrow> ss_flood s' = ss_flood s"
  "sample_read_end cfg now (s, cx) = (s', cx') \<Longrightarrow> ss_flood s' = ss_flood s"
  by (auto simp: sample_write_end_def sample_read_end_def split: if_splits)

lemma write_done_flood: "write_done cfg clk stop now ec count s cx = Some (s', cx') \<Longrightarrow> ss_flood s' = ss_flood s"
  by (auto simp: write_done_def dest!: do_write_flood dest: sample_end_flood split: if_splits prod.splits)

lemma session_send_flood: "session_send ready cfg clk now N s cx = Some (s', cx') \<Longrightarrow> ss_flood s' = ss_flood s"
  by (auto simp: session_send_def Let_def dest: try_start_write_flood split: if_splits)

lemma fold_start_op_flood [simp]: "ss_flood (fold (\<lambda>r s. start_op (Response_Post r) s) rs s) = ss_flood s"
  by (induction rs arbitrary: s) simp_all

lemma tcp_do_read_header_flood [simp]: "ss_flood (tcp_do_read_header cfg now s) = ss_flood s"
  by (simp add: tcp_do_read_header_def)

lemma tcp_handle_message_flood: "tcp_handle_message ops s cx = Some (s', cx') \<Longrightarrow> ss_flood s' = ss_flood s"
  by (auto simp: tcp_handle_message_def split: option.splits)

lemma tcp_connected_flood: "tcp_connected cfg mo t ec s cx = Some (s', cx') \<Longrightarrow> ss_flood s' = ss_flood s"
  by (auto simp: tcp_connected_def tcp_on_connect_def Let_def dest: do_write_flood split: if_splits)

lemma tcp_header_read_flood: "tcp_header_read cfg ops mo ec bytes s cx = Some (s', cx') \<Longrightarrow> ss_flood s' = ss_flood s"
  by (auto simp: tcp_header_read_def tcp_do_read_body_def Let_def dest!: tcp_handle_message_flood
      split: if_splits option.splits)

lemma tcp_body_read_flood: "tcp_body_read cfg ops mo ec bytes s cx = Some (s', cx') \<Longrightarrow> ss_flood s' = ss_flood s"
  by (auto simp: tcp_body_read_def dest!: tcp_handle_message_flood dest: sample_end_flood split: if_splits prod.splits)

lemma tcp_response_posted_flood: "tcp_response_posted cfg mo r s cx = Some (s', cx') \<Longrightarrow> ss_flood s' = ss_flood s"
  by (auto simp: tcp_response_posted_def dest!: try_start_write_flood split: if_splits)

lemma complete_op_flood [simp]: "ss_flood (complete_op ev s) = ss_flood s"
  by (simp add: complete_op_def split: option.split)

lemma tcp_handle_flood:
  assumes "tcp_handle cfg ops mo ev s cx = Some (s', cx')" "ev \<noteq> Tcp_Flood"
  shows "ss_flood s' = ss_flood s"
  using assms
  by (cases ev) (auto simp: tcp_handle_def tcp_start_def tcp_send_def session_stop_def Let_def
      dest!: tcp_connected_flood tcp_header_read_flood tcp_body_read_flood tcp_response_posted_flood
        write_done_flood session_send_flood)

lemma tcp_run_flood:
  assumes "tcp_run cfg ops ps w evs v"
  shows "ss_flood (fst v) \<longrightarrow> Tcp_Flood \<in> set evs"
  using assms
proof induction
  case (begins cx)
  then show ?case by (simp add: new_tcp_session_def session.defs new_session_def)
next
  case (handles w evs s cx ev mo s' cx')
  then show ?case using tcp_handle_flood [OF handles.hyps(3)] by auto
qed simp

lemma udp_do_read_flood [simp]: "ss_flood (udp_do_read cfg now s) = ss_flood s"
  by (simp add: udp_do_read_def)

lemma udp_start_flood: "udp_start cfg mo ec ec' s cx = Some (s', cx') \<Longrightarrow> ss_flood s' = ss_flood s"
  by (auto simp: udp_start_def udp_on_connect_def Let_def dest: do_write_flood split: if_splits)

lemma udp_received_flood: "udp_received cfg ops mo ec bytes s cx = Some (s', cx') \<Longrightarrow> ss_flood s' = ss_flood s"
  by (auto simp: udp_received_def udp_handle_message_def Let_def dest!: sample_end_flood(2) split: if_splits option.splits prod.splits)

lemma udp_response_posted_flood: "udp_response_posted cfg mo r s cx = Some (s', cx') \<Longrightarrow> ss_flood s' = ss_flood s"
  by (auto simp: udp_response_posted_def dest!: try_start_write_flood split: if_splits)

lemma udp_complete_op_flood [simp]: "ss_flood (udp_complete_op ev s) = ss_flood s"
  by (simp add: udp_complete_op_def split: option.split)

lemma udp_handle_flood:
  assumes "udp_handle cfg ops mo ev s cx = Some (s', cx')" "ev \<noteq> Udp_Flood"
  shows "ss_flood s' = ss_flood s"
  using assms
  by (cases ev) (auto simp: udp_handle_def udp_send_def udp_wrapper_defs session_stop_def Let_def
      dest!: udp_start_flood udp_received_flood udp_response_posted_flood write_done_flood session_send_flood)

lemma udp_run_flood:
  assumes "udp_run cfg ops ps w evs v"
  shows "ss_flood (fst v) \<longrightarrow> Udp_Flood \<in> set evs"
  using assms
proof induction
  case (udp_begins cx)
  then show ?case by (simp add: new_udp_session_def session.defs new_session_def)
next
  case (udp_handles w evs s cx ev mo s' cx')
  then show ?case using udp_handle_flood [OF udp_handles.hyps(3)] by auto
qed simp

end
