(* ===== verification/Session_Bytes.thy ===== *)
theory Session_Bytes
  imports TCP_Session UDP_Session Plan_Run
begin

text \<open>
  The bytes a session writes. Every handler either leaves the payloads written so far and the
  shared counters alone or fills one payload and writes it; so the payloads written carry the
  values the shared counters had, and those grow from one write of a payload to the next.
\<close>

section \<open>What a handler adds to the payloads written\<close>

fun is_payload :: "write_data \<Rightarrow> bool" where
  "is_payload (Payload_Write k bs) = True"
| "is_payload (Response_Write bs) = False"

definition payload_writes :: "'a session_scheme \<Rightarrow> write_data list" where
  "payload_writes s = filter is_payload (ss_log s)"

inductive fills :: "write_data list \<Rightarrow> payload_manager \<Rightarrow> write_data list \<Rightarrow> payload_manager \<Rightarrow> bool" for ws m where
  none: "fills ws m ws m"
| one: "fill_payload clk k m p = Some (True, m', p') \<Longrightarrow>
    fills ws m (ws @ [Payload_Write k (payload_bytes m' k p')]) m'"

text \<open>The times a session was live: those that are over and the present one.\<close>

definition times_live :: "'a session_scheme \<Rightarrow> nat" where
  "times_live s = ss_disconnects s + (if ss_live s then 1 else 0)"

text \<open>A handler that does not start the session: it may fill a payload, and it may close it.\<close>

definition advances ::
  "'a session_scheme \<Rightarrow> 'h shard_context \<Rightarrow> ('b session_scheme \<times> 'h shard_context) option \<Rightarrow> bool" where
  "advances s cx r \<longleftrightarrow>
     (\<forall>s' cx'. r = Some (s', cx') \<longrightarrow>
        fills (payload_writes s) (cx_manager cx) (payload_writes s') (cx_manager cx')
        \<and> ss_disconnects s \<le> ss_disconnects s' \<and> times_live s' = times_live s)"

lemma advances_simps [simp]:
  "advances s cx None"
  "advances s cx (Some (s', cx')) \<longleftrightarrow>
     fills (payload_writes s) (cx_manager cx) (payload_writes s') (cx_manager cx')
     \<and> ss_disconnects s \<le> ss_disconnects s' \<and> times_live s' = times_live s"
  by (simp_all add: advances_def)

lemma advances_cong:
  assumes "advances t cy r" "payload_writes t = payload_writes s" "cx_manager cy = cx_manager cx"
    and "ss_disconnects s \<le> ss_disconnects t" "times_live t = times_live s"
  shows "advances s cx r"
  using assms by (auto simp: advances_def)

lemma manager_on_metrics [simp]: "cx_manager (on_metrics f cx) = cx_manager cx"
  by (simp add: on_metrics_def)

lemma payload_writes_kept [simp]:
  "payload_writes (start_op op s) = payload_writes s"
  "payload_writes (close_session s) = payload_writes s"
  "payload_writes (session_drain s) = payload_writes s"
  "payload_writes (sample_write_start cfg now s) = payload_writes s"
  "payload_writes (sample_read_start cfg now s) = payload_writes s"
  "payload_writes (s\<lparr>ss_pending := ops\<rparr>) = payload_writes s"
  "payload_writes (s\<lparr>ss_responses := rs\<rparr>) = payload_writes s"
  "payload_writes (s\<lparr>ss_flood := b\<rparr>) = payload_writes s"
  "payload_writes (s\<lparr>ss_live := b\<rparr>) = payload_writes s"
  "payload_writes (s\<lparr>ss_writes_queued := n\<rparr>) = payload_writes s"
  by (simp_all add: payload_writes_def start_op_def close_session_def session_drain_def sample_write_start_def
      sample_read_start_def Let_def)

lemma disconnects_kept [simp]:
  "ss_disconnects (start_op op s) = ss_disconnects s"
  "ss_disconnects (close_session s) = ss_disconnects s + (if ss_live s then 1 else 0)"
  "ss_disconnects t \<le> ss_disconnects s \<Longrightarrow> ss_disconnects t \<le> ss_disconnects (session_drain s)"
  "ss_disconnects (sample_read_start cfg now s) = ss_disconnects s"
  by (simp_all add: start_op_def close_session_def session_drain_def sample_read_start_def Let_def)

lemma times_live_kept [simp]:
  "times_live (start_op op s) = times_live s"
  "times_live (close_session s) = times_live s"
  "times_live (session_drain s) = times_live s"
  "times_live (sample_write_start cfg now s) = times_live s"
  "times_live (sample_read_start cfg now s) = times_live s"
  "times_live (s\<lparr>ss_pending := ops\<rparr>) = times_live s"
  "times_live (s\<lparr>ss_responses := rs\<rparr>) = times_live s"
  "times_live (s\<lparr>ss_flood := b\<rparr>) = times_live s"
  "times_live (s\<lparr>ss_writing := b\<rparr>) = times_live s"
  "times_live (s\<lparr>ss_log := ds\<rparr>) = times_live s"
  "times_live (s\<lparr>ss_writes_queued := n\<rparr>) = times_live s"
  "times_live (s\<lparr>ss_live := True\<rparr>) = Suc (ss_disconnects s)"
  by (simp_all add: times_live_def start_op_def close_session_def session_drain_def sample_write_start_def
      sample_read_start_def Let_def)

lemma fold_posts_kept [simp]:
  "payload_writes (fold (\<lambda>r s. start_op (Response_Post r) s) rs s) = payload_writes s"
  "ss_disconnects (fold (\<lambda>r s. start_op (Response_Post r) s) rs s) = ss_disconnects s"
  "times_live (fold (\<lambda>r s. start_op (Response_Post r) s) rs s) = times_live s"
  by (induction rs arbitrary: s) simp_all

lemma sample_end_kept:
  "sample_write_end cfg now (s, cx) = (t, cy) \<Longrightarrow> payload_writes t = payload_writes s \<and> cx_manager cy = cx_manager cx
     \<and> ss_disconnects t = ss_disconnects s \<and> times_live t = times_live s"
  "sample_read_end cfg now (s, cx) = (t, cy) \<Longrightarrow> payload_writes t = payload_writes s \<and> cx_manager cy = cx_manager cx
     \<and> ss_disconnects t = ss_disconnects s \<and> times_live t = times_live s"
  by (auto simp: sample_write_end_def sample_read_end_def payload_writes_def times_live_def split: if_splits)

lemma write_step_advances:
  assumes "write_step cfg clk now s cx s' cx'"
  shows "advances s cx (Some (s', cx'))"
  using assms
proof (cases rule: write_step.cases)
  case response
  then show ?thesis
    by (simp add: response_step_def issue_write_def payload_writes_def start_op_def times_live_def fills.none)
next
  case (payload k m p)
  have "payload_writes s' = payload_writes s @ [Payload_Write k (payload_bytes m k p)]"
    "ss_disconnects s' = ss_disconnects s" "times_live s' = times_live s"
    using payload by (simp_all add: payload_step_def issue_write_def payload_writes_def start_op_def times_live_def)
  then show ?thesis using payload fills.one by simp
next
  case idle
  then show ?thesis
    by (simp add: idle_step_def Let_def payload_writes_def close_session_def times_live_def fills.none)
qed

lemma do_write_advances: "advances s cx (do_write cfg clk now s cx)"
proof (cases "do_write cfg clk now s cx")
  case (Some y)
  then show ?thesis using write_step_advances [OF do_write_step [OF Some]] by simp
qed simp

lemma try_start_write_advances: "advances s cx (try_start_write cfg clk now s cx)"
  by (simp add: try_start_write_def do_write_advances fills.none)

lemma write_done_advances: "advances s cx (write_done cfg clk stop now ec count s cx)"
proof -
  obtain t cy where e: "sample_write_end cfg stop (s, on_metrics (record_bytes_sent count) cx) = (t, cy)"
    by (cases "sample_write_end cfg stop (s, on_metrics (record_bytes_sent count) cx)")
  have "advances s cx (do_write cfg clk now t cy)"
    by (rule advances_cong [OF do_write_advances]) (use sample_end_kept(1) [OF e] in simp_all)
  then show ?thesis by (simp add: write_done_def e fills.none)
qed

lemma session_calls_advance:
  "advances s cx (session_flood ready cfg clk now s cx)"
  "advances s cx (session_send ready cfg clk now n s cx)"
  by (auto simp: session_flood_def session_send_def Let_def fills.none intro: advances_cong [OF try_start_write_advances])

section \<open>The handlers of TCP\<close>

lemma tcp_members_kept [simp]:
  fixes s :: tcp_session
  shows "payload_writes (s\<lparr>tcp_connecting := b\<rparr>) = payload_writes s"
    "payload_writes (s\<lparr>tcp_incoming_header := bs\<rparr>) = payload_writes s"
    "payload_writes (s\<lparr>tcp_next_payload_size := n\<rparr>) = payload_writes s"
    "payload_writes (s\<lparr>tcp_body := bs\<rparr>) = payload_writes s"
    "times_live (s\<lparr>tcp_connecting := b\<rparr>) = times_live s"
    "times_live (s\<lparr>tcp_incoming_header := bs\<rparr>) = times_live s"
    "times_live (s\<lparr>tcp_next_payload_size := n\<rparr>) = times_live s"
    "times_live (s\<lparr>tcp_body := bs\<rparr>) = times_live s"
  by (simp_all add: payload_writes_def times_live_def)

lemma tcp_do_read_header_kept [simp]:
  "payload_writes (tcp_do_read_header cfg now s) = payload_writes s"
  "ss_disconnects (tcp_do_read_header cfg now s) = ss_disconnects s"
  "times_live (tcp_do_read_header cfg now s) = times_live s"
  by (simp_all add: tcp_do_read_header_def)

lemma complete_op_kept [simp]:
  "payload_writes (complete_op ev s) = payload_writes s"
  "ss_disconnects (complete_op ev s) = ss_disconnects s"
  "times_live (complete_op ev s) = times_live s"
  by (simp_all add: complete_op_def split: option.split)

lemma tcp_on_connect_advances: "advances s cx (tcp_on_connect cfg mo s cx)"
  by (auto simp: tcp_on_connect_def Let_def fills.none intro: advances_cong [OF do_write_advances])

lemma tcp_handle_message_advances: "advances s cx (tcp_handle_message ops s cx)"
  by (auto simp: tcp_handle_message_def fills.none split: option.split)

lemma tcp_do_read_body_advances: "advances s cx (tcp_do_read_body ops s cx)"
  by (simp add: tcp_do_read_body_def tcp_handle_message_advances fills.none)

lemma tcp_header_read_advances: "advances s cx (tcp_header_read cfg ops mo ec bytes s cx)"
  by (auto simp: tcp_header_read_def Let_def fills.none split: option.split
      intro: advances_cong [OF tcp_do_read_body_advances])

lemma tcp_body_read_advances: "advances s cx (tcp_body_read cfg ops mo ec bytes s cx)"
proof -
  let ?w = "(s\<lparr>tcp_body := bytes\<rparr>, on_metrics (record_bytes_read (of_nat (length bytes))) cx)"
  obtain t cy where e: "sample_read_end cfg (mo_stop mo) ?w = (t, cy)" by (cases "sample_read_end cfg (mo_stop mo) ?w")
  have "advances s cx (tcp_handle_message ops t cy)"
    by (rule advances_cong [OF tcp_handle_message_advances]) (use sample_end_kept(2) [OF e] in simp_all)
  then show ?thesis by (simp add: tcp_body_read_def e fills.none)
qed

lemma tcp_response_posted_advances: "advances s cx (tcp_response_posted cfg mo packet s cx)"
proof -
  have "advances s cx (try_start_write cfg (mo_clock mo) (mo_now mo) (s\<lparr>ss_responses := ss_responses s @ [packet]\<rparr>) cx)"
    by (rule advances_cong [OF try_start_write_advances]) simp_all
  then show ?thesis by (auto simp: tcp_response_posted_def advances_def fills.none)
qed

text \<open>A start makes the session live; what follows it in the same handler goes on from there.\<close>

lemma tcp_handle_advances:
  "advances (if starts_of ev = 0 then s else s\<lparr>ss_live := True\<rparr>) cx (tcp_handle cfg ops mo ev s cx)"
proof (cases "starts_of ev = 0")
  case False
  then obtain t where "ev = Tcp_Start t" by (cases ev) simp_all
  then show ?thesis by (simp add: tcp_handle_def tcp_start_def complete_op_def fills.none)
next
  case True
  let ?s = "complete_op ev s"
  have "advances ?s cx (tcp_handle cfg ops mo ev s cx)"
  proof (cases ev)
    case (Tcp_Connected t ec)
    then show ?thesis
      by (auto simp: tcp_handle_def tcp_connected_def Let_def fills.none intro: advances_cong [OF tcp_on_connect_advances])
  qed (use True in \<open>simp_all add: tcp_handle_def Let_def tcp_header_read_advances tcp_body_read_advances
      tcp_response_posted_advances write_done_advances tcp_flood_def tcp_send_def session_calls_advance session_stop_def
      fills.none\<close>)
  then have "advances s cx (tcp_handle cfg ops mo ev s cx)" by (rule advances_cong) simp_all
  then show ?thesis using True by simp
qed

section \<open>The handlers of UDP\<close>

lemma udp_members_kept [simp]:
  fixes s :: udp_session
  shows "payload_writes (s\<lparr>udp_packet_buffer := bs\<rparr>) = payload_writes s"
    "payload_writes (s\<lparr>udp_packet_size := n\<rparr>) = payload_writes s"
    "times_live (s\<lparr>udp_packet_buffer := bs\<rparr>) = times_live s"
    "times_live (s\<lparr>udp_packet_size := n\<rparr>) = times_live s"
  by (simp_all add: payload_writes_def times_live_def)

lemma udp_do_read_kept [simp]:
  "payload_writes (udp_do_read cfg now s) = payload_writes s"
  "ss_disconnects (udp_do_read cfg now s) = ss_disconnects s"
  "times_live (udp_do_read cfg now s) = times_live s"
  by (simp_all add: udp_do_read_def)

lemma udp_complete_op_kept [simp]:
  "payload_writes (udp_complete_op ev s) = payload_writes s"
  "ss_disconnects (udp_complete_op ev s) = ss_disconnects s"
  "times_live (udp_complete_op ev s) = times_live s"
  by (simp_all add: udp_complete_op_def split: option.split)

lemma udp_on_connect_advances: "advances s cx (udp_on_connect cfg mo s cx)"
  by (auto simp: udp_on_connect_def Let_def fills.none intro: advances_cong [OF do_write_advances])

lemma udp_start_advances: "advances (s\<lparr>ss_live := True\<rparr>) cx (udp_start cfg mo open_ec connect_ec s cx)"
  by (auto simp: udp_start_def Let_def fills.none intro: advances_cong [OF udp_on_connect_advances])

lemma udp_handle_message_advances: "advances s cx (udp_handle_message ops s cx)"
  by (auto simp: udp_handle_message_def fills.none split: option.split)

lemma udp_received_advances: "advances s cx (udp_received cfg ops mo ec bytes s cx)"
proof -
  let ?w = "(s\<lparr>udp_packet_buffer := bytes @ drop (length bytes) (udp_packet_buffer s),
      udp_packet_size := length bytes\<rparr>, on_metrics (record_bytes_read (of_nat (length bytes))) cx)"
  obtain t cy where e: "sample_read_end cfg (mo_stop mo) ?w = (t, cy)" by (cases "sample_read_end cfg (mo_stop mo) ?w")
  have "advances s cx (udp_handle_message ops t cy)"
    by (rule advances_cong [OF udp_handle_message_advances]) (use sample_end_kept(2) [OF e] in simp_all)
  then show ?thesis by (simp add: udp_received_def Let_def e fills.none)
qed

lemma udp_response_posted_advances: "advances s cx (udp_response_posted cfg mo packet s cx)"
proof -
  have "advances s cx (try_start_write cfg (mo_clock mo) (mo_now mo) (s\<lparr>ss_responses := ss_responses s @ [packet]\<rparr>) cx)"
    by (rule advances_cong [OF try_start_write_advances]) simp_all
  then show ?thesis by (auto simp: udp_response_posted_def advances_def fills.none)
qed

lemma udp_handle_advances:
  "advances (if udp_starts_of ev = 0 then s else s\<lparr>ss_live := True\<rparr>) cx (udp_handle cfg ops mo ev s cx)"
proof (cases "udp_starts_of ev = 0")
  case False
  then obtain open_ec connect_ec where "ev = Udp_Start open_ec connect_ec" by (cases ev) simp_all
  then show ?thesis using udp_start_advances [of s cx cfg mo open_ec connect_ec]
    by (simp add: udp_handle_def udp_complete_op_def)
next
  case True
  let ?s = "udp_complete_op ev s"
  have "advances ?s cx (udp_handle cfg ops mo ev s cx)"
    by (cases ev) (use True in \<open>simp_all add: udp_handle_def Let_def udp_wrapper_defs udp_received_advances
        udp_response_posted_advances write_done_advances udp_flood_def udp_send_def session_calls_advance
        session_stop_def fills.none\<close>)
  then have "advances s cx (udp_handle cfg ops mo ev s cx)" by (rule advances_cong) simp_all
  then show ?thesis using True by simp
qed

section \<open>The counters behind the writes\<close>

text \<open>The counters of a payload after the given numbers of fetches, and a manager in that state.\<close>

definition counters_at :: "u16 list \<Rightarrow> nat list \<Rightarrow> payload_counter list" where
  "counters_at steps ns = map2 (\<lambda>s n. \<lparr>pc_counter = of_nat n * ucast s, pc_step = s\<rparr>) steps ns"

definition manager_at :: "u16 list list \<Rightarrow> nat list list \<Rightarrow> payload_manager \<Rightarrow> bool" where
  "manager_at steps cur m \<longleftrightarrow>
     list_all2 (\<lambda>ss ns. length ns = length ss) steps cur \<and> pm_counters m = map2 counters_at steps cur"

lemma counters_at_nth:
  "i < length steps \<Longrightarrow> length ns = length steps \<Longrightarrow>
   counters_at steps ns ! i = \<lparr>pc_counter = of_nat (ns ! i) * ucast (steps ! i), pc_step = steps ! i\<rparr>"
  by (simp add: counters_at_def)

lemma length_counters_at [simp]: "length (counters_at steps ns) = min (length steps) (length ns)"
  by (simp add: counters_at_def)

lemma advance_counters_at:
  "length ns = length steps \<Longrightarrow> advance_first (length steps) (counters_at steps ns) = counters_at steps (map Suc ns)"
  by (rule nth_equalityI)
    (simp_all add: advance_first_nth counters_at_nth advance_counter_def fetch_add_def algebra_simps)

lemma counters_at_0: "counters_at steps (replicate (length steps) 0) = fresh_counters steps"
  by (rule nth_equalityI) (simp_all add: counters_at_nth fresh_counters_def)

lemma counters_at_later:
  assumes "list_all2 (\<lambda>c c'. \<exists>n. c' = (advance_counter ^^ n) c) (counters_at steps ns) cs" "length ns = length steps"
  shows "\<exists>ns'. length ns' = length steps \<and> cs = counters_at steps ns' \<and> list_all2 (\<le>) ns ns'"
proof -
  have "\<exists>n. cs ! i = (advance_counter ^^ n) (counters_at steps ns ! i)" if "i < length steps" for i
    using assms that by (simp add: list_all2_conv_all_nth)
  then obtain f where f: "\<And>i. i < length steps \<Longrightarrow> cs ! i = (advance_counter ^^ f i) (counters_at steps ns ! i)"
    by metis
  have len: "length cs = length steps" using assms by (simp add: list_all2_conv_all_nth)
  let ?ns = "map (\<lambda>i. ns ! i + f i) [0..<length steps]"
  have "cs = counters_at steps ?ns"
    by (rule nth_equalityI)
      (simp_all add: len counters_at_nth f assms(2) advance_counter_funpow algebra_simps)
  then show ?thesis using assms(2) by (intro exI [of _ ?ns]) (simp add: list_all2_conv_all_nth)
qed

lemma manager_at_later:
  assumes "manager_at steps cur m" "counters_later m m'"
  shows "\<exists>cur'. manager_at steps cur' m' \<and> list_all2 (list_all2 (\<le>)) cur cur'"
proof -
  let ?ok = "\<lambda>i ns. length ns = length (steps ! i) \<and> pm_counters m' ! i = counters_at (steps ! i) ns
      \<and> list_all2 (\<le>) (cur ! i) ns"
  have m: "pm_counters m = map2 counters_at steps cur" "length cur = length steps"
    "\<And>i. i < length steps \<Longrightarrow> length (cur ! i) = length (steps ! i)"
    using assms(1) by (auto simp: manager_at_def list_all2_conv_all_nth)
  have later: "list_all2 (list_all2 (\<lambda>c c'. \<exists>n. c' = (advance_counter ^^ n) c)) (pm_counters m) (pm_counters m')"
    using assms(2) by (simp add: counters_later_def)
  have len: "length (pm_counters m') = length steps" using list_all2_lengthD [OF later] m by simp
  have "\<exists>ns. ?ok i ns" if i: "i < length steps" for i
  proof -
    have "list_all2 (\<lambda>c c'. \<exists>n. c' = (advance_counter ^^ n) c) (counters_at (steps ! i) (cur ! i)) (pm_counters m' ! i)"
      using list_all2_nthD [OF later, of i] m i by simp
    from counters_at_later [OF this] m i show ?thesis by simp
  qed
  then obtain f where f: "\<And>i. i < length steps \<Longrightarrow> ?ok i (f i)" by metis
  let ?cur = "map f [0..<length steps]"
  have "pm_counters m' = map2 counters_at steps ?cur"
    by (rule nth_equalityI) (simp_all add: len f)
  then show ?thesis
    using f m(2) by (intro exI [of _ ?cur]) (simp add: manager_at_def list_all2_conv_all_nth)
qed

lemma counter_moved: "c' = c \<or> c' = advance_counter c \<Longrightarrow> \<exists>n. c' = (advance_counter ^^ n) c"
  by (elim disjE) (rule exI [of _ 0] exI [of _ 1], simp)+

lemma advance_first_moved:
  "list_all2 (\<lambda>c c'. \<exists>n. c' = (advance_counter ^^ n) c) cs (advance_first n cs)"
  by (auto simp: list_all2_conv_all_nth advance_first_nth intro!: counter_moved)

lemma counters_same: "list_all2 (\<lambda>c c'. \<exists>n. c' = (advance_counter ^^ n) c) cs cs"
  using advance_first_moved [of cs 0] by simp

lemma fills_later:
  assumes "fills ws m ws' m'" "manager_ok m"
  shows "counters_later m m'"
  using assms(1)
proof cases
  case none
  then show ?thesis by (simp add: counters_later_def list_all2_conv_all_nth [of "list_all2 _"] counters_same)
next
  case (one clk k p p')
  have k: "k < length (pm_payloads m)" using fill_payload_flag(1) [OF one(2)] by simp
  let ?n = "counter_ops (pd_ops (pm_payloads m ! k))"
  obtain q where "fill_payload clk k m p =
      Some (True, m\<lparr>pm_counters := (pm_counters m)[k := advance_first ?n (pm_counters m ! k)]\<rparr>, q)"
    using fill_payload_manager [OF assms(2) k] by blast
  then have m': "m' = m\<lparr>pm_counters := (pm_counters m)[k := advance_first ?n (pm_counters m ! k)]\<rparr>"
    using one(2) by simp
  have "list_all2 (\<lambda>c c'. \<exists>n. c' = (advance_counter ^^ n) c) (pm_counters m ! i) (pm_counters m' ! i)"
    if "i < length (pm_counters m)" for i
    using that by (cases "i = k") (simp_all add: m' advance_first_moved counters_same)
  then show ?thesis by (simp add: counters_later_def m' list_all2_conv_all_nth [of "list_all2 _"])
qed

text \<open>Every counter belongs to an operation of its payload.\<close>

definition counters_used :: "payload_descriptor list \<Rightarrow> u16 list list \<Rightarrow> bool" where
  "counters_used ps steps \<longleftrightarrow> list_all2 (\<lambda>ss d. counter_ops (pd_ops d) = length ss) steps ps"

text \<open>One payload written: its index, the numbers of earlier fetches of its counters, the clock.\<close>

definition as_written ::
  "payload_descriptor list \<Rightarrow> u16 list list \<Rightarrow> nat \<times> nat list \<times> clock \<Rightarrow> write_data" where
  "as_written ps steps g =
     (case g of (k, ns, clk) \<Rightarrow>
        Payload_Write k (Some (render_ops (pd_packet_data (ps ! k)) clk 0 0 (counters_at (steps ! k) ns) (pd_ops (ps ! k)))))"

definition grows :: "nat \<times> nat list \<times> clock \<Rightarrow> nat \<times> nat list \<times> clock \<Rightarrow> bool" where
  "grows g g' \<longleftrightarrow> (fst g = fst g' \<longrightarrow> list_all2 (<) (fst (snd g)) (fst (snd g')))"

definition written_with ::
  "payload_descriptor list \<Rightarrow> u16 list list \<Rightarrow> write_data list \<Rightarrow> payload_manager \<Rightarrow> bool" where
  "written_with ps steps ws m \<longleftrightarrow>
     (\<exists>cur gs. manager_at steps cur m \<and> ws = map (as_written ps steps) gs
        \<and> (\<forall>g \<in> set gs. fst g < length ps \<and> length (fst (snd g)) = length (steps ! fst g)
             \<and> list_all2 (<) (fst (snd g)) (cur ! fst g))
        \<and> sorted_wrt grows gs)"

lemma list_all2_less_le: "list_all2 (<) xs ys \<Longrightarrow> list_all2 (\<le>) ys zs \<Longrightarrow> list_all2 (<) xs (zs :: nat list)"
  by (simp add: list_all2_conv_all_nth) (metis order_less_le_trans)

lemma written_with_later:
  assumes "written_with ps steps ws m" "counters_later m m'" "length steps = length ps"
  shows "written_with ps steps ws m'"
proof -
  obtain cur gs where g: "manager_at steps cur m" "ws = map (as_written ps steps) gs" "sorted_wrt grows gs"
    "\<forall>g \<in> set gs. fst g < length ps \<and> length (fst (snd g)) = length (steps ! fst g)
       \<and> list_all2 (<) (fst (snd g)) (cur ! fst g)"
    using assms(1) by (auto simp: written_with_def)
  obtain cur' where c: "manager_at steps cur' m'" "list_all2 (list_all2 (\<le>)) cur cur'"
    using manager_at_later [OF g(1) assms(2)] by blast
  have "length cur = length ps" using g(1) assms(3) by (auto simp: manager_at_def dest: list_all2_lengthD)
  then have "\<forall>g \<in> set gs. fst g < length ps \<and> length (fst (snd g)) = length (steps ! fst g)
       \<and> list_all2 (<) (fst (snd g)) (cur' ! fst g)"
    using g(4) by (metis c(2) list_all2_less_le list_all2_nthD)
  then show ?thesis using c(1) g(2,3) unfolding written_with_def by blast
qed

lemma fill_counters:
  assumes "fill_payload clk k m p = Some (True, m', p')" "manager_ok m" "pm_payloads m = ps"
    and "manager_at steps cur m" "counters_used ps steps"
  shows "k < length ps" "manager_at steps (cur[k := map Suc (cur ! k)]) m'"
    and "payload_bytes m' k p' = Some (render_ops (pd_packet_data (ps ! k)) clk 0 0
           (counters_at (steps ! k) (cur ! k)) (pd_ops (ps ! k)))"
proof -
  show k: "k < length ps" using fill_payload_flag(1) [OF assms(1)] assms(3) by simp
  have len: "length steps = length ps" "length cur = length steps" "length (cur ! k) = length (steps ! k)"
    "counter_ops (pd_ops (ps ! k)) = length (steps ! k)"
    using assms(4,5) k by (auto simp: manager_at_def counters_used_def list_all2_conv_all_nth)
  have counters: "pm_counters m = map2 counters_at steps cur" using assms(4) by (simp add: manager_at_def)
  then have c: "pm_counters m ! k = counters_at (steps ! k) (cur ! k)" using len k by simp
  have "fillable (length (pm_counters m ! k)) (ps ! k)" using assms(2,3) k by (auto simp: manager_ok_def)
  then obtain q where "fill_payload clk k m p =
       Some (True, m\<lparr>pm_counters := (pm_counters m)[k := advance_first (counter_ops (pd_ops (ps ! k))) (pm_counters m ! k)]\<rparr>, q)"
     "gather (pd_packet_data (ps ! k)) q = Some (render_ops (pd_packet_data (ps ! k)) clk 0 0 (pm_counters m ! k) (pd_ops (ps ! k)))"
    using fill_payload_render [of k m "ps ! k" "pm_counters m ! k" clk p] k assms(3) by auto
  then have m': "m' = m\<lparr>pm_counters := (pm_counters m)[k := counters_at (steps ! k) (map Suc (cur ! k))]\<rparr>"
    and q: "gather (pd_packet_data (ps ! k)) p' =
      Some (render_ops (pd_packet_data (ps ! k)) clk 0 0 (counters_at (steps ! k) (cur ! k)) (pd_ops (ps ! k)))"
    using assms(1) c len by (simp_all add: advance_counters_at)
  show "payload_bytes m' k p' = Some (render_ops (pd_packet_data (ps ! k)) clk 0 0
           (counters_at (steps ! k) (cur ! k)) (pd_ops (ps ! k)))"
    using q k assms(3) by (simp add: payload_bytes_def m')
  have "pm_counters m' = map2 counters_at steps (cur[k := map Suc (cur ! k)])"
    by (rule nth_equalityI) (use k in \<open>auto simp: m' counters len nth_list_update\<close>)
  moreover have "list_all2 (\<lambda>ss ns. length ns = length ss) steps (cur[k := map Suc (cur ! k)])"
    using assms(4) len k by (auto simp: manager_at_def list_all2_conv_all_nth nth_list_update)
  ultimately show "manager_at steps (cur[k := map Suc (cur ! k)]) m'" by (simp add: manager_at_def)
qed

lemma written_with_fills:
  assumes "fills ws m ws' m'" "written_with ps steps ws m"
    and "manager_ok m" "pm_payloads m = ps" "counters_used ps steps"
  shows "written_with ps steps ws' m'"
  using assms(1)
proof (cases rule: fills.cases)
  case none
  then show ?thesis using assms(2) by simp
next
  case (one clk k p p')
  obtain cur gs where g: "manager_at steps cur m" "ws = map (as_written ps steps) gs" "sorted_wrt grows gs"
    "\<forall>g \<in> set gs. fst g < length ps \<and> length (fst (snd g)) = length (steps ! fst g)
       \<and> list_all2 (<) (fst (snd g)) (cur ! fst g)"
    using assms(2) by (auto simp: written_with_def)
  note f = fill_counters [OF one(2) assms(3,4) g(1) assms(5)]
  let ?cur = "cur[k := map Suc (cur ! k)]" and ?gs = "gs @ [(k, cur ! k, clk)]"
  have len: "length cur = length ps" "length (cur ! k) = length (steps ! k)"
    using assms(5) g(1) f(1) by (auto simp: manager_at_def counters_used_def list_all2_conv_all_nth)
  have grow: "list_all2 (<) ns (?cur ! i)" if "list_all2 (<) ns (cur ! i)" "i < length ps" for ns i
    using that f(1) len by (cases "i = k") (auto simp: list_all2_conv_all_nth intro: less_SucI)
  have "ws' = map (as_written ps steps) ?gs"
    using one(1) f(3) g(2) by (simp add: as_written_def)
  moreover have "\<forall>g \<in> set ?gs. fst g < length ps \<and> length (fst (snd g)) = length (steps ! fst g)
       \<and> list_all2 (<) (fst (snd g)) (?cur ! fst g)"
  proof -
    have "list_all2 (<) (cur ! k) (?cur ! k)" using f(1) len by (simp add: list_all2_conv_all_nth)
    then show ?thesis using g(4) grow f(1) len(2) by auto
  qed
  moreover have "sorted_wrt grows ?gs"
    using g(3,4) by (auto simp: sorted_wrt_append grows_def)
  ultimately show ?thesis using f(2) unfolding written_with_def by blast
qed

lemma written_with_new:
  assumes "length steps = length ps"
  shows "written_with ps steps [] (new_payload_manager ps steps)"
proof -
  let ?cur = "map (\<lambda>ss. replicate (length ss) 0) steps :: nat list list"
  have "pm_counters (new_payload_manager ps steps) = map2 counters_at steps ?cur"
    by (rule nth_equalityI) (simp_all add: new_payload_manager_counters assms counters_at_0)
  then have "manager_at steps ?cur (new_payload_manager ps steps)"
    by (simp add: manager_at_def list_all2_conv_all_nth)
  then show ?thesis unfolding written_with_def by (intro exI [of _ ?cur] exI [of _ "[]"]) simp
qed

lemma tcp_run_written:
  assumes "tcp_run cfg ops ps w evs v" "cx_manager (snd w) = new_payload_manager ps steps" "counters_used ps steps"
  shows "written_with ps steps (payload_writes (fst v)) (cx_manager (snd v))"
  using assms
proof induction
  case (begins cx)
  have "length steps = length ps" using begins.prems by (simp add: counters_used_def list_all2_lengthD)
  then show ?case
    using written_with_new [of steps ps] begins.prems
    by (simp add: payload_writes_def new_tcp_session_def session.defs new_session_def)
next
  case (handles w evs s cx ev mo s' cx')
  have "context_ok ps cx" using tcp_run_inv [OF handles.hyps(1)] by simp
  moreover have "fills (payload_writes s) (cx_manager cx) (payload_writes s') (cx_manager cx')"
    using tcp_handle_advances [of ev s cx cfg ops mo] handles.hyps(3) by (simp split: if_splits)
  ultimately show ?case
    using handles.IH handles.prems by (auto simp: context_ok_def intro: written_with_fills)
next
  case (others w evs s cx cx')
  have "length steps = length ps" using others.prems by (simp add: counters_used_def list_all2_lengthD)
  then show ?case using others by (auto intro: written_with_later)
qed

lemma udp_run_written:
  assumes "udp_run cfg ops ps w evs v" "cx_manager (snd w) = new_payload_manager ps steps" "counters_used ps steps"
  shows "written_with ps steps (payload_writes (fst v)) (cx_manager (snd v))"
  using assms
proof induction
  case (udp_begins cx)
  have "length steps = length ps" using udp_begins.prems by (simp add: counters_used_def list_all2_lengthD)
  then show ?case
    using written_with_new [of steps ps] udp_begins.prems
    by (simp add: payload_writes_def new_udp_session_def session.defs new_session_def)
next
  case (udp_handles w evs s cx ev mo s' cx')
  have "context_ok ps cx" using udp_run_inv [OF udp_handles.hyps(1)] by simp
  moreover have "fills (payload_writes s) (cx_manager cx) (payload_writes s') (cx_manager cx')"
    using udp_handle_advances [of ev s cx cfg ops mo] udp_handles.hyps(3) by (simp split: if_splits)
  ultimately show ?case
    using udp_handles.IH udp_handles.prems by (auto simp: context_ok_def intro: written_with_fills)
next
  case (udp_others w evs s cx cx')
  have "length steps = length ps" using udp_others.prems by (simp add: counters_used_def list_all2_lengthD)
  then show ?case using udp_others by (auto intro: written_with_later)
qed

section \<open>The writes of a plan\<close>

lemma payload_indices_writes:
  assumes "filter is_payload ds = map (as_written ps steps) gs"
  shows "payload_indices ds = map fst gs"
proof -
  have "concat (map payload_index ds) = concat (map payload_index (filter is_payload ds))"
  proof (induction ds)
    case (Cons d ds)
    then show ?case by (cases d) simp_all
  qed simp
  also have "\<dots> = map fst gs"
    unfolding assms by (induction gs) (simp_all add: as_written_def split_beta)
  finally show ?thesis by (simp add: payload_indices_def)
qed

lemma payload_indices_length: "length (payload_indices ds) = length (filter is_payload ds)"
proof (induction ds)
  case (Cons d ds)
  then show ?case by (cases d) (simp_all add: payload_indices_def)
qed (simp add: payload_indices_def)

lemma send_copies_split:
  assumes "k < send_copies as"
  shows "\<exists>pre a post c. as = pre @ a # post \<and> act_type a = SEND \<and> c < unat (act_count a) \<and> k = send_copies pre + c"
  using assms
proof (induction as arbitrary: k)
  case (Cons b as)
  let ?n = "if act_type b = SEND then unat (act_count b) else 0"
  show ?case
  proof (cases "k < ?n")
    case True
    then show ?thesis by (intro exI [of _ "[]"] exI [of _ b] exI [of _ as] exI [of _ k]) (simp split: if_splits)
  next
    case False
    then have "k - ?n < send_copies as" using Cons.prems by simp
    from Cons.IH [OF this] obtain pre a post c where "as = pre @ a # post" "act_type a = SEND"
      "c < unat (act_count a)" "k - ?n = send_copies pre + c" by blast
    then show ?thesis using False by (intro exI [of _ "b # pre"] exI [of _ a] exI [of _ post] exI [of _ c]) auto
  qed
qed simp

lemma planned_counters_used:
  assumes "generate_plan_common env opts ok uninit script factory host = Inr plan"
    and "well_formed_sends env opts script"
  shows "counters_used (pl_payloads plan) (pl_counter_steps plan)"
    "length (pl_payloads plan) = send_copies (or_actions (ds_orchestrator script))"
proof -
  obtain st pb where st: "load_packets env opts ok (st_packet_identifiers (ds_settings script)) = Inr st"
    and pb: "foldE (plan_action uninit st) (or_actions (ds_orchestrator script)) empty_plan_builder = Inr pb"
    and pl: "pl_payloads plan = pb_payloads pb" "pl_counter_steps plan = pb_counter_steps pb"
    using plan_common_Inr [OF assms(1)] by metis
  show "counters_used (pl_payloads plan) (pl_counter_steps plan)"
    unfolding pl counters_used_def by (rule plan_actions_all [OF st assms(2) pb])
      (simp add: send_descriptor_def send_steps_def counter_ops_layout)
  show "length (pl_payloads plan) = send_copies (or_actions (ds_orchestrator script))"
    using plan_actions_ok [OF pb] by (simp add: pl builder_ok_def)
qed

lemma planned_steps:
  assumes "generate_plan_common env opts ok uninit script factory host = Inr plan"
    and "or_actions (ds_orchestrator script) = pre @ a # post" "act_type a = SEND" "c < unat (act_count a)"
    and "well_formed_sends env opts script" "well_formed_send env opts script a packet"
  defines "k \<equiv> send_copies pre + c"
  shows "pl_payloads plan ! k = send_descriptor a packet" "pl_counter_steps plan ! k = send_steps a"
proof -
  let ?m = "new_payload_manager (pl_payloads plan) (pl_counter_steps plan)"
  have d: "distinct_packets env opts script" using assms(5) by (simp add: well_formed_sends_def)
  note at = planned_payload [OF assms(1-4) d assms(6), folded k_def]
  have "length (pl_payloads plan) = length (pl_counter_steps plan)"
    using planned_counters_used(1) [OF assms(1,5)] by (simp add: counters_used_def list_all2_lengthD)
  then have m: "pm_payloads ?m = pl_payloads plan"
    "pm_counters ?m = map (\<lambda>i. fresh_counters (pl_counter_steps plan ! i)) [0..<length (pl_payloads plan)]"
    by (simp_all add: new_payload_manager_counters)
  then show "pl_payloads plan ! k = send_descriptor a packet" using at(2) by simp
  have "map pc_step (fresh_counters (pl_counter_steps plan ! k)) = map pc_step (fresh_counters (send_steps a))"
    using at(1,3) m by simp
  then show "pl_counter_steps plan ! k = send_steps a" by (simp add: fresh_counters_def comp_def)
qed

text \<open>What the payloads written so far are, for a session whose writes go in rotation.\<close>

lemma planned_writes:
  assumes plan: "generate_plan_common env opts ok uninit script factory host = Inr plan"
    and wf: "well_formed_sends env opts script"
    and "written_with (pl_payloads plan) (pl_counter_steps plan) (payload_writes s) m"
    and "in_rotation (length (pl_payloads plan)) s"
  defines "ws \<equiv> filter is_payload (ss_log s)" and "n \<equiv> length (pl_payloads plan)"
  shows "\<exists>ns clk.
     (\<forall>i < length ws. \<exists>pre a post c packet.
        or_actions (ds_orchestrator script) = pre @ a # post \<and> act_type a = SEND \<and> c < unat (act_count a)
        \<and> well_formed_send env opts script a packet \<and> i mod n = send_copies pre + c
        \<and> ws ! i = Payload_Write (i mod n)
            (Some (patched (clk i) 0 (counters_at (send_steps a) (ns i)) (send_fields a) packet)))
     \<and> (\<forall>i j. i < j \<longrightarrow> j < length ws \<longrightarrow> i mod n = j mod n \<longrightarrow> list_all2 (<) (ns i) (ns j))"
proof -
  let ?ps = "pl_payloads plan" and ?steps = "pl_counter_steps plan"
  obtain gs where gs: "ws = map (as_written ?ps ?steps) gs" "sorted_wrt grows gs"
    "\<forall>g \<in> set gs. fst g < n \<and> length (fst (snd g)) = length (?steps ! fst g)"
    using assms(3) by (auto simp: written_with_def payload_writes_def ws_def n_def)
  have len: "length ws = length gs" by (simp add: gs(1))
  have "map fst gs = map (\<lambda>i. i mod n) [0..<length gs]"
    using assms(4) payload_indices_writes [of "ss_log s" ?ps ?steps gs] gs(1)
    by (simp add: in_rotation_def Let_def ws_def n_def)
  then have idx: "fst (gs ! i) = i mod n" if "i < length gs" for i
    using that by (metis (no_types, lifting) add_0 length_map nth_map nth_upt)
  let ?ns = "\<lambda>i. fst (snd (gs ! i))" and ?clk = "\<lambda>i. snd (snd (gs ! i))"
  have "\<exists>pre a post c packet.
        or_actions (ds_orchestrator script) = pre @ a # post \<and> act_type a = SEND \<and> c < unat (act_count a)
        \<and> well_formed_send env opts script a packet \<and> i mod n = send_copies pre + c
        \<and> ws ! i = Payload_Write (i mod n)
            (Some (patched (?clk i) 0 (counters_at (send_steps a) (?ns i)) (send_fields a) packet))" if i: "i < length ws" for i
  proof -
    have g: "fst (gs ! i) < n" "length (?ns i) = length (?steps ! (i mod n))"
      using bspec [OF gs(3) nth_mem, of i] i idx [of i] len by simp_all
    have "i mod n < send_copies (or_actions (ds_orchestrator script))"
      using g(1) idx [of i] i len planned_counters_used(2) [OF plan wf] by (simp add: n_def)
    then obtain pre a post c where a: "or_actions (ds_orchestrator script) = pre @ a # post" "act_type a = SEND"
      "c < unat (act_count a)" "i mod n = send_copies pre + c"
      using send_copies_split by blast
    then obtain packet where p: "well_formed_send env opts script a packet"
      using wf by (auto simp: well_formed_sends_def)
    note at = planned_steps [OF plan a(1-3) wf p]
    have "ws ! i = Payload_Write (i mod n) (Some (render_ops packet (?clk i) 0 0
        (counters_at (send_steps a) (?ns i)) (layout_ops 0 (length packet) (send_fields a))))"
      using i len idx [of i] at a(4) by (simp add: gs(1) as_written_def split_beta send_descriptor_def)
    also have "render_ops packet (?clk i) 0 0 (counters_at (send_steps a) (?ns i)) (layout_ops 0 (length packet) (send_fields a))
        = patched (?clk i) 0 (counters_at (send_steps a) (?ns i)) (send_fields a) packet"
      using render_layout [of 0 packet "send_fields a" "?clk i" 0 "counters_at (send_steps a) (?ns i)"] p g(2) at(2) a(4)
      by (simp add: well_formed_send_def send_steps_def)
    finally show ?thesis using a p by blast
  qed
  moreover have "list_all2 (<) (?ns i) (?ns j)" if "i < j" "j < length ws" "i mod n = j mod n" for i j
    using sorted_wrt_nth_less [OF gs(2), of i j] that idx [of i] idx [of j] len by (simp add: grows_def)
  ultimately show ?thesis by (intro exI [of _ ?ns] exI [of _ ?clk]) blast
qed

end
