(* ===== verification/Session_Properties.thy ===== *)
theory Session_Properties
  imports Session_Reads Session_Bytes Sample_Script
begin

text \<open>
  The properties of a session under any schedule of its events: what it has in flight, which
  payloads it writes, how requests and disconnects are accounted for, and when its handlers
  return.
\<close>

section \<open>A session of the sample plan\<close>

definition sample_config :: session_config where
  "sample_config = new_session_config 4 100 True True 100"

definition sample_manager :: payload_manager where
  "sample_manager = new_payload_manager (pl_payloads sample_plan) (pl_counter_steps sample_plan)"

definition sample_context :: "unit shard_context" where
  "sample_context = \<lparr>cx_metrics = new_shard_metrics, cx_manager = sample_manager, cx_handler = ()\<rparr>"

definition sample_moment :: moment where
  "sample_moment = \<lparr>mo_clock = (\<lambda>_. 0), mo_stop = 0, mo_now = 0\<rparr>"

lemma sample_config_simps [simp]:
  "cfg_read_messages sample_config" "cfg_loop_payloads sample_config" "cfg_header_size sample_config = 4"
  "cfg_payload_size_limit sample_config = 100" "cfg_packet_sample_rate sample_config = 100"
  by (simp_all add: sample_config_def new_session_config_def)

lemma sample_moment_simps [simp]:
  "mo_clock sample_moment = (\<lambda>_. 0)" "mo_stop sample_moment = 0" "mo_now sample_moment = 0"
  by (simp_all add: sample_moment_def)

lemma sample_manager_ok: "manager_ok sample_manager"
  unfolding sample_manager_def by (rule planned_manager_ok [OF sample_plan_generated sample_well_formed])

lemma sample_context_ok: "context_ok (pm_payloads sample_manager) sample_context"
  by (simp add: context_ok_def sample_context_def sample_manager_ok)

lemma sample_payloads: "pm_payloads sample_manager \<noteq> []"
proof -
  note planned_payload(1) [OF sample_plan_generated sample_actions _ _ sample_distinct sample_send_well_formed, of 0]
  then show ?thesis by (auto simp: sample_manager_def)
qed

lemma nop_contract: "message_handler nop_handler"
  by (rule nop.message_handler_axioms)

text \<open>A start, the connection, a request for two payloads and the completion of the first write.\<close>

lemma sample_tcp_run:
  "\<exists>s cx d. tcp_run sample_config nop_handler (pm_payloads sample_manager)
      (new_tcp_session sample_config, sample_context)
      [Tcp_Start 0, Tcp_Connected 0 False, Tcp_Send 2] (s, cx)
    \<and> ss_pending s = [Read_Header_Op, Write_Op d] \<and> ss_log s = [d] \<and> is_payload d"
proof -
  let ?run = "tcp_run sample_config nop_handler (pm_payloads sample_manager)
      (new_tcp_session sample_config, sample_context)"
  let ?s0 = "new_tcp_session sample_config"
  let ?s1 = "start_op (Connect_Op 0) (?s0\<lparr>ss_live := True, tcp_connecting := True\<rparr>)"
  have init: "ss_pending ?s0 = []" "\<not> ss_live ?s0" "\<not> ss_flood ?s0" "\<not> ss_writing ?s0" "ss_writes_queued ?s0 = 0"
    "ss_responses ?s0 = []" "\<not> ss_draining ?s0" "ss_next_payload_index ?s0 = 0" "ss_log ?s0 = []"
    by (simp_all add: new_tcp_session_def session.defs new_session_def)
  have r0: "?run [] (?s0, sample_context)" by (rule tcp_run.begins [OF sample_context_ok])
  have r1: "?run [Tcp_Start 0] (?s1, on_metrics record_connection_attempt sample_context)"
    using tcp_run.handles [OF r0, of "Tcp_Start 0" sample_moment]
    by (simp add: tcp_enabled_def init tcp_handle_def complete_op_def tcp_start_def)
  have pend1: "ss_pending ?s1 = [Connect_Op 0]" by (simp add: start_op_def init)
  let ?t = "(complete_op (Tcp_Connected 0 False) ?s1)\<lparr>tcp_connecting := False\<rparr>"
  let ?s2 = "tcp_do_read_header sample_config 0 ?t"
  have s2: "ss_pending ?s2 = [Read_Header_Op]" "ss_live ?s2" "\<not> ss_flood ?s2" "\<not> ss_writing ?s2"
    "ss_writes_queued ?s2 = 0" "ss_responses ?s2 = []" "\<not> tcp_connecting ?s2" "ss_next_payload_index ?s2 = 0"
    "ss_log ?s2 = []"
    by (simp_all add: tcp_do_read_header_def start_op_def sample_read_start_def Let_def complete_op_def init)
  obtain cx2 where r2: "?run [Tcp_Start 0, Tcp_Connected 0 False] (?s2, cx2)"
    using tcp_run.handles [OF r1, of "Tcp_Connected 0 False" sample_moment]
      s2 by (auto simp: tcp_enabled_def tcp_handle_def tcp_connected_def tcp_on_connect_def Let_def pend1)
  let ?s3 = "?s2\<lparr>ss_writes_queued := ss_writes_queued ?s2 + 2\<rparr>"
  have ok: "manager_ok (cx_manager cx2)" "0 < length (pm_payloads (cx_manager cx2))"
    using tcp_run_inv [OF r2] sample_payloads by (simp_all add: context_ok_def)
  obtain p where p: "fill_payload (\<lambda>_. 0) 0 (cx_manager cx2) (ss_current_payload ?s3) = Some (True, p)"
    using fill_payload_manager [OF ok] by metis
  then have w: "\<exists>s cx d. do_write sample_config (\<lambda>_. 0) 0 ?s3 cx2 = Some (s, cx)
      \<and> ss_pending s = [Read_Header_Op, Write_Op d] \<and> ss_log s = [d] \<and> is_payload d"
    using s2 by (subst do_write.simps) (cases p, simp add: issue_write_def start_op_def Let_def)
  then obtain s cx d where "do_write sample_config (\<lambda>_. 0) 0 ?s3 cx2 = Some (s, cx)"
    "ss_pending s = [Read_Header_Op, Write_Op d]" "ss_log s = [d]" "is_payload d" by blast
  then show ?thesis
    using tcp_run.handles [OF r2, of "Tcp_Send 2" sample_moment s cx] s2
    by (auto simp: tcp_enabled_def tcp_handle_def complete_op_def tcp_send_def session_send_def tcp_ready_def
        try_start_write_def)
qed

section \<open>The bytes of a session\<close>

text \<open>C4: what a session writes, for the plan of a script whose SENDs are all well formed: each
  names a non-empty packet below 4 GiB and lists its fields inside it in the order of their
  positions without overlap, and no two packets are one file. The validator does not ensure the
  order, and a SEND without it has a payload whose buffers reach past its packet. In any run of a
  TCP session on such a plan, with the other sessions moving the shared counters at any time,
  the \<open>i\<close>-th payload it writes is the copy \<open>i\<close> falls on when the copies of all SENDs of the script
  are taken in rotation, whatever sessions those SENDs name, and its bytes are the file of that
  SEND's packet with exactly the listed fields overwritten: counters with a number of earlier
  fetches times their step, timestamps with a reading of the clock. The numbers of fetches grow
  in every field from one write of a copy to its next.\<close>

theorem session_writes_match_script:
  assumes "generate_plan_common env opts ok uninit script factory host = Inr plan"
    and "well_formed_sends env opts script"
    and "tcp_run cfg ops (pl_payloads plan) w evs (s, cx)"
    and "cx_manager (snd w) = new_payload_manager (pl_payloads plan) (pl_counter_steps plan)"
  defines "ws \<equiv> filter is_payload (ss_log s)" and "n \<equiv> length (pl_payloads plan)"
  shows "\<exists>ns clk.
     (\<forall>i < length ws. \<exists>pre a post c packet.
        or_actions (ds_orchestrator script) = pre @ a # post \<and> act_type a = SEND \<and> c < unat (act_count a)
        \<and> well_formed_send env opts script a packet \<and> i mod n = send_copies pre + c
        \<and> ws ! i = Payload_Write (i mod n)
            (Some (patched (clk i) 0 (counters_at (send_steps a) (ns i)) (send_fields a) packet)))
     \<and> (\<forall>i j. i < j \<longrightarrow> j < length ws \<longrightarrow> i mod n = j mod n \<longrightarrow> list_all2 (<) (ns i) (ns j))"
proof -
  have "written_with (pl_payloads plan) (pl_counter_steps plan) (payload_writes s) (cx_manager cx)"
    using tcp_run_written [OF assms(3,4) planned_counters_used(1) [OF assms(1,2)]] by simp
  moreover have "in_rotation (length (pl_payloads plan)) s"
    using tcp_run_inv [OF assms(3)] by (simp add: session_inv_def)
  ultimately show ?thesis unfolding ws_def n_def by (rule planned_writes [OF assms(1,2)])
qed

lemma sample_packet: "well_formed_send sample_os sample_options sample_script sample_send packet \<Longrightarrow> packet = sample_file"
  by (auto simp: well_formed_send_def sample_defs packet_of_def resolve_file_def expand_tilde_def get_file_size_def
      read_bytes_def)

theorem session_writes_match_script_witness:
  "\<exists>s cx clk n. tcp_run sample_config nop_handler (pl_payloads sample_plan)
        (new_tcp_session sample_config, sample_context) [Tcp_Start 0, Tcp_Connected 0 False, Tcp_Send 2] (s, cx)
     \<and> ss_log s = [Payload_Write 0
          (Some (patched clk 0 (counters_at [3] n) (send_fields sample_send) sample_file))]"
proof -
  have manager: "pm_payloads sample_manager = pl_payloads sample_plan"
    by (simp add: sample_manager_def new_payload_manager_def Let_def)
  obtain s cx d where r: "tcp_run sample_config nop_handler (pl_payloads sample_plan)
      (new_tcp_session sample_config, sample_context) [Tcp_Start 0, Tcp_Connected 0 False, Tcp_Send 2] (s, cx)"
    and d: "ss_log s = [d]" "is_payload d"
    using sample_tcp_run unfolding manager by blast
  have "cx_manager (snd (new_tcp_session sample_config, sample_context)) =
      new_payload_manager (pl_payloads sample_plan) (pl_counter_steps sample_plan)"
    by (simp add: sample_context_def sample_manager_def)
  from session_writes_match_script [OF sample_plan_generated sample_well_formed r this]
  obtain ns clk pre a post packet where "act_type a = SEND"
    "well_formed_send sample_os sample_options sample_script a packet"
    "or_actions (ds_orchestrator sample_script) = pre @ a # post"
    "d = Payload_Write 0 (Some (patched (clk 0) 0 (counters_at (send_steps a) (ns (0::nat))) (send_fields a) packet))"
    using d by auto
  moreover from this have "a = sample_send" using sample_only_send by blast
  moreover have "send_steps sample_send = [3]" by (simp add: send_steps_def send_fields_def sample_defs counter_fields_def)
  ultimately show ?thesis using r d(1) sample_packet by metis
qed

text \<open>The same for UDP.\<close>

lemma udp_writes_match_script:
  assumes "generate_plan_common env opts ok uninit script factory host = Inr plan"
    and "well_formed_sends env opts script"
    and "udp_run cfg ops (pl_payloads plan) w evs (s, cx)"
    and "cx_manager (snd w) = new_payload_manager (pl_payloads plan) (pl_counter_steps plan)"
  defines "ws \<equiv> filter is_payload (ss_log s)" and "n \<equiv> length (pl_payloads plan)"
  shows "\<exists>ns clk.
     (\<forall>i < length ws. \<exists>pre a post c packet.
        or_actions (ds_orchestrator script) = pre @ a # post \<and> act_type a = SEND \<and> c < unat (act_count a)
        \<and> well_formed_send env opts script a packet \<and> i mod n = send_copies pre + c
        \<and> ws ! i = Payload_Write (i mod n)
            (Some (patched (clk i) 0 (counters_at (send_steps a) (ns i)) (send_fields a) packet)))
     \<and> (\<forall>i j. i < j \<longrightarrow> j < length ws \<longrightarrow> i mod n = j mod n \<longrightarrow> list_all2 (<) (ns i) (ns j))"
proof -
  have "written_with (pl_payloads plan) (pl_counter_steps plan) (payload_writes s) (cx_manager cx)"
    using udp_run_written [OF assms(3,4) planned_counters_used(1) [OF assms(1,2)]] by simp
  moreover have "in_rotation (length (pl_payloads plan)) s"
    using udp_run_inv [OF assms(3)] by (simp add: session_inv_def)
  ultimately show ?thesis unfolding ws_def n_def by (rule planned_writes [OF assms(1,2)])
qed

section \<open>Termination of the writer\<close>

text \<open>C19: \<^verbatim>\<open>do_write\<close> calls itself when the payloads are exhausted and looped over. With a
  payload manager that can fill its payloads it returns in every state but one, and in that
  one it never returns: no response queued, a payload wanted, looping on, not draining, and no
  payload at all.\<close>

theorem do_write_returns_iff:
  assumes "manager_ok (cx_manager cx)"
  shows "do_write cfg clk now s cx = None \<longleftrightarrow> write_diverges cfg s cx"
  using do_write_returns [OF assms, of cfg s clk now] do_write_diverges [of cfg s cx clk now] by blast

theorem do_write_returns_iff_witness:
  "do_write sample_config (\<lambda>_. 0) 0 ((new_session sample_config)\<lparr>ss_flood := True\<rparr>)
     \<lparr>cx_metrics = new_shard_metrics, cx_manager = new_payload_manager [] [], cx_handler = ()\<rparr> = None"
proof -
  let ?cx = "\<lparr>cx_metrics = new_shard_metrics, cx_manager = new_payload_manager [] [], cx_handler = ()\<rparr>"
  have "manager_ok (cx_manager ?cx)" by (simp add: manager_ok_def new_payload_manager_def)
  from do_write_returns_iff [OF this, of sample_config "\<lambda>_. 0" 0 "(new_session sample_config)\<lparr>ss_flood := True\<rparr>"]
  show ?thesis
    by (simp add: write_diverges_def wants_payload_def new_session_def new_payload_manager_def)
qed

text \<open>C20: progress. In a run of a TCP session whose message handler keeps its contract and
  whose header and body together stay below 4 GiB, the handler of every event that can happen
  returns, with any clock, provided there is a payload or the payloads are not looped over.\<close>

theorem tcp_handlers_return:
  assumes "tcp_run cfg ops ps w evs (s, cx)" "tcp_enabled cfg ev s" "message_handler ops"
    and "unat (cfg_header_size cfg) + unat (cfg_payload_size_limit cfg) < 2 ^ 32"
    and "ps \<noteq> [] \<or> \<not> cfg_loop_payloads cfg"
  shows "\<exists>s' cx'. tcp_handle cfg ops mo ev s cx = Some (s', cx')"
proof -
  have "tcp_reads cfg (tcp_starts evs) s" using message_handler.tcp_run_reads [OF assms(3,1,4)] by simp
  moreover have "context_ok ps cx" using tcp_run_inv [OF assms(1)] by simp
  ultimately show ?thesis
    using message_handler.tcp_handle_total [OF assms(3,2) _ assms(4), of "tcp_starts evs" ps cx mo] assms(5)
    by (auto simp: writer_returns_def)
qed

theorem tcp_handlers_return_witness:
  "\<exists>s cx s' cx'. tcp_run sample_config nop_handler (pm_payloads sample_manager)
        (new_tcp_session sample_config, sample_context) [Tcp_Start 0, Tcp_Connected 0 False, Tcp_Send 2] (s, cx)
      \<and> tcp_handle sample_config nop_handler sample_moment (Tcp_Header_Read False [1, 2, 3, 4]) s cx = Some (s', cx')"
proof -
  obtain s cx d where r: "tcp_run sample_config nop_handler (pm_payloads sample_manager)
      (new_tcp_session sample_config, sample_context) [Tcp_Start 0, Tcp_Connected 0 False, Tcp_Send 2] (s, cx)"
    "ss_pending s = [Read_Header_Op, Write_Op d]"
    using sample_tcp_run by blast
  have "tcp_enabled sample_config (Tcp_Header_Read False [1, 2, 3, 4]) s"
    by (simp add: tcp_enabled_def r(2))
  from tcp_handlers_return [OF r(1) this nop_contract, of sample_moment]
  show ?thesis using r(1) sample_payloads by auto
qed

section \<open>Writes\<close>

text \<open>C9: whatever happens to a TCP session, at most one write is in flight, and while a payload
  is being written its buffers are untouched: gathering them still gives the bytes the write
  was started with.\<close>

theorem tcp_one_write_in_flight:
  assumes "tcp_run cfg ops ps w evs (s, cx)"
  shows "length (filter is_write (ss_pending s)) \<le> 1
     \<and> (\<forall>k bs. Write_Op (Payload_Write k bs) \<in> set (ss_pending s) \<longrightarrow>
          bs \<noteq> None \<and> gather (pd_packet_data (ps ! k)) (ss_current_payload s) = bs)"
  using tcp_run_inv [OF assms] by (simp add: session_inv_def one_writer_def buffers_valid_def write_count_def)

theorem tcp_one_write_in_flight_witness:
  "\<exists>s cx. tcp_run sample_config nop_handler (pm_payloads sample_manager)
        (new_tcp_session sample_config, sample_context) [Tcp_Start 0, Tcp_Connected 0 False, Tcp_Send 2] (s, cx)
      \<and> length (filter is_write (ss_pending s)) = 1"
proof -
  obtain s cx d where r: "tcp_run sample_config nop_handler (pm_payloads sample_manager)
      (new_tcp_session sample_config, sample_context) [Tcp_Start 0, Tcp_Connected 0 False, Tcp_Send 2] (s, cx)"
    "ss_pending s = [Read_Header_Op, Write_Op d]"
    using sample_tcp_run by blast
  then have "length (filter is_write (ss_pending s)) \<ge> 1" by simp
  then show ?thesis using tcp_one_write_in_flight [OF r(1)] r(1) by fastforce
qed

text \<open>C10: the payloads a TCP session writes are those of the plan in order, starting again at
  the first after the last, and every request is accounted for: those still queued and those a
  written payload has taken are together the sum of the requests, modulo \<open>2 ^ 64\<close>. Every
  payload a session writes takes one, unless the session floods; the payloads it writes while it
  floods take none, so then at most as many have been taken as payloads written. Only a FLOOD
  call makes it flood.\<close>

theorem tcp_payloads_in_rotation:
  assumes "tcp_run cfg ops ps w evs (s, cx)"
  defines "written \<equiv> concat (map payload_index (ss_log s))"
  shows "(\<forall>i < length written. written ! i = i mod length ps)
     \<and> (\<exists>taken \<le> length written. ss_writes_queued s + of_nat taken = tcp_sends evs
          \<and> (\<not> ss_flood s \<longrightarrow> taken = length written))
     \<and> (ss_flood s \<longrightarrow> Tcp_Flood \<in> set evs)"
proof -
  have "in_rotation (length ps) s" "accounted (tcp_sends evs) s"
    using tcp_run_inv [OF assms(1)] by (simp_all add: session_inv_def)
  then have "written = map (\<lambda>i. i mod length ps) [0..<length written]"
    "\<exists>taken \<le> length written. ss_writes_queued s + of_nat taken = tcp_sends evs
        \<and> (\<not> ss_flood s \<longrightarrow> taken = length written)"
    by (auto simp: in_rotation_def accounted_def requests_taken_def Let_def payload_indices_def written_def)
  moreover have "written ! i = i mod length ps" if "i < length written" for i
    using arg_cong [OF calculation(1), of "\<lambda>l. l ! i"] that by simp
  ultimately show ?thesis using tcp_run_flood [OF assms(1)] by simp
qed

theorem tcp_payloads_in_rotation_witness:
  "\<exists>s cx. tcp_run sample_config nop_handler (pm_payloads sample_manager)
        (new_tcp_session sample_config, sample_context) [Tcp_Start 0, Tcp_Connected 0 False, Tcp_Send 2] (s, cx)
      \<and> ss_writes_queued s + of_nat (length (concat (map payload_index (ss_log s)))) = 2"
proof -
  obtain s cx d where r: "tcp_run sample_config nop_handler (pm_payloads sample_manager)
      (new_tcp_session sample_config, sample_context) [Tcp_Start 0, Tcp_Connected 0 False, Tcp_Send 2] (s, cx)"
    using sample_tcp_run by blast
  have "tcp_sends [Tcp_Start 0, Tcp_Connected 0 False, Tcp_Send 2] = 2" by (simp add: tcp_sends_def)
  then show ?thesis
    using tcp_payloads_in_rotation [OF r] r by (intro exI [of _ s] exI [of _ cx]) auto
qed

text \<open>C21: a TCP session calls the disconnect callback at most once for every start, and for one
  that has been started once exactly when it is over: disconnects plus one if the session is
  live never exceed the starts, and are not zero once it has been started. At most one
  operation of the read circle (connect, header, body, posted response) is in flight per start, so a message
  is never read into a buffer another read uses, and a body never exceeds the limit.\<close>

theorem tcp_closed_once_and_one_reader:
  assumes "tcp_run cfg ops ps w evs (s, cx)" "message_handler ops"
    and "unat (cfg_header_size cfg) + unat (cfg_payload_size_limit cfg) < 2 ^ 32"
  shows "ss_disconnects s + (if ss_live s then 1 else 0) \<le> tcp_starts evs
     \<and> (0 < tcp_starts evs \<longrightarrow> 0 < ss_disconnects s + (if ss_live s then 1 else 0))
     \<and> length (filter (\<lambda>op. \<not> is_write op) (ss_pending s)) \<le> tcp_starts evs
     \<and> (\<forall>n. Read_Body_Op n \<in> set (ss_pending s) \<longrightarrow> n \<le> unat (cfg_payload_size_limit cfg))"
  using tcp_run_inv [OF assms(1)] message_handler.tcp_run_reads [OF assms(2,1,3)]
  by (simp add: session_inv_def closed_once_def tcp_reads_def readers_def Let_def)

theorem tcp_closed_once_and_one_reader_witness:
  "\<exists>s cx. tcp_run sample_config nop_handler (pm_payloads sample_manager)
        (new_tcp_session sample_config, sample_context) [Tcp_Start 0, Tcp_Connected 0 False, Tcp_Send 2] (s, cx)
      \<and> ss_disconnects s + (if ss_live s then 1 else 0) = 1"
proof -
  obtain s cx d where r: "tcp_run sample_config nop_handler (pm_payloads sample_manager)
      (new_tcp_session sample_config, sample_context) [Tcp_Start 0, Tcp_Connected 0 False, Tcp_Send 2] (s, cx)"
    using sample_tcp_run by blast
  have "tcp_starts [Tcp_Start 0, Tcp_Connected 0 False, Tcp_Send 2] = 1" by (simp add: tcp_starts_def)
  then show ?thesis
    using tcp_closed_once_and_one_reader [OF r nop_contract] r
    by (intro exI [of _ s] exI [of _ cx]) (simp split: if_splits)
qed

section \<open>UDP\<close>

text \<open>C22: a UDP session under any schedule has at most one write in flight, whose buffers stay
  valid, writes its payloads in rotation, accounts for every request (those queued and those
  taken are all there were; every written payload takes one, but for those a flooding session
  writes, which has got a FLOOD call), and calls the disconnect callback at most once for each start, for the first one
  exactly when it is over.\<close>

theorem udp_session_invariants:
  assumes "udp_run cfg ops ps w evs (s, cx)"
  defines "written \<equiv> concat (map payload_index (ss_log s))"
  shows "length (filter is_write (ss_pending s)) \<le> 1
     \<and> (\<forall>k bs. Write_Op (Payload_Write k bs) \<in> set (ss_pending s) \<longrightarrow>
          bs \<noteq> None \<and> gather (pd_packet_data (ps ! k)) (ss_current_payload s) = bs)
     \<and> written = map (\<lambda>i. i mod length ps) [0..<length written]
     \<and> (\<exists>taken \<le> length written. ss_writes_queued s + of_nat taken = udp_sends evs
          \<and> (\<not> ss_flood s \<longrightarrow> taken = length written))
     \<and> (ss_flood s \<longrightarrow> Udp_Flood \<in> set evs)
     \<and> ss_disconnects s + (if ss_live s then 1 else 0) \<le> udp_starts evs
     \<and> (0 < udp_starts evs \<longrightarrow> 0 < ss_disconnects s + (if ss_live s then 1 else 0))"
proof -
  have "accounted (udp_sends evs) s" using udp_run_inv [OF assms(1)] by (simp add: session_inv_def)
  then have "\<exists>taken \<le> length written. ss_writes_queued s + of_nat taken = udp_sends evs
      \<and> (\<not> ss_flood s \<longrightarrow> taken = length written)"
    by (auto simp: accounted_def requests_taken_def payload_indices_def written_def)
  then show ?thesis
    using udp_run_inv [OF assms(1)] udp_run_flood [OF assms(1)]
    unfolding session_inv_def one_writer_def in_rotation_def closed_once_def buffers_valid_def
      write_count_def payload_indices_def Let_def written_def
    by simp
qed

lemma sample_udp_run:
  "\<exists>s cx d. udp_run sample_config nop_handler (pm_payloads sample_manager)
      (new_udp_session sample_config, sample_context) [Udp_Start False False, Udp_Send 1] (s, cx)
    \<and> ss_pending s = [Receive_Op, Write_Op d]"
proof -
  let ?run = "udp_run sample_config nop_handler (pm_payloads sample_manager)
      (new_udp_session sample_config, sample_context)"
  let ?s0 = "new_udp_session sample_config"
  have init: "ss_pending ?s0 = []" "\<not> ss_live ?s0" "\<not> ss_flood ?s0" "\<not> ss_writing ?s0" "ss_writes_queued ?s0 = 0"
    "ss_responses ?s0 = []" "\<not> ss_draining ?s0" "ss_next_payload_index ?s0 = 0" "ss_log ?s0 = []"
    by (simp_all add: new_udp_session_def session.defs new_session_def)
  have r0: "?run [] (?s0, sample_context)" by (rule udp_run.udp_begins [OF sample_context_ok])
  let ?s1 = "udp_do_read sample_config 0 (?s0\<lparr>ss_live := True\<rparr>)"
  have s1: "ss_pending ?s1 = [Receive_Op]" "ss_live ?s1" "\<not> ss_flood ?s1" "\<not> ss_writing ?s1"
    "ss_writes_queued ?s1 = 0" "ss_responses ?s1 = []" "ss_next_payload_index ?s1 = 0"
    by (simp_all add: udp_do_read_def start_op_def sample_read_start_def Let_def init)
  obtain cx1 where r1: "?run [Udp_Start False False] (?s1, cx1)"
    using udp_run.udp_handles [OF r0, of "Udp_Start False False" sample_moment] s1
    by (auto simp: udp_enabled_def udp_handle_def udp_complete_op_def udp_start_def udp_on_connect_def Let_def init)
  let ?s2 = "?s1\<lparr>ss_writes_queued := ss_writes_queued ?s1 + 1\<rparr>"
  have ok: "manager_ok (cx_manager cx1)" "0 < length (pm_payloads (cx_manager cx1))"
    using udp_run_inv [OF r1] sample_payloads by (simp_all add: context_ok_def)
  obtain p where p: "fill_payload (\<lambda>_. 0) 0 (cx_manager cx1) (ss_current_payload ?s2) = Some (True, p)"
    using fill_payload_manager [OF ok] by metis
  have "\<exists>s cx d. do_write sample_config (\<lambda>_. 0) 0 ?s2 cx1 = Some (s, cx) \<and> ss_pending s = [Receive_Op, Write_Op d]"
    using s1 p by (subst do_write.simps) (cases p, simp add: issue_write_def start_op_def Let_def)
  then obtain s cx d where "do_write sample_config (\<lambda>_. 0) 0 ?s2 cx1 = Some (s, cx)"
    "ss_pending s = [Receive_Op, Write_Op d]" by blast
  then show ?thesis
    using udp_run.udp_handles [OF r1, of "Udp_Send 1" sample_moment s cx] s1
    by (auto simp: udp_enabled_def udp_handle_def udp_complete_op_def udp_send_def session_send_def try_start_write_def)
qed

theorem udp_session_invariants_witness:
  "\<exists>s cx. udp_run sample_config nop_handler (pm_payloads sample_manager)
        (new_udp_session sample_config, sample_context) [Udp_Start False False, Udp_Send 1] (s, cx)
      \<and> length (filter is_write (ss_pending s)) = 1 \<and> 1 = ss_disconnects s + (if ss_live s then 1 else 0)"
proof -
  obtain s cx d where r: "udp_run sample_config nop_handler (pm_payloads sample_manager)
      (new_udp_session sample_config, sample_context) [Udp_Start False False, Udp_Send 1] (s, cx)"
    "ss_pending s = [Receive_Op, Write_Op d]"
    using sample_udp_run by blast
  have "udp_starts [Udp_Start False False, Udp_Send 1] = 1" by (simp add: udp_starts_def)
  then show ?thesis
    using udp_session_invariants [OF r(1)] r by (intro exI [of _ s] exI [of _ cx]) (simp split: if_splits)
qed

text \<open>The buffer of a UDP session is no longer than the limit, so the check that closes a
  session whose datagram exceeds the limit never fires: a longer datagram arrives cut, and is
  handled as if it were whole.\<close>

lemma udp_limit_check_never_fires:
  assumes "udp_run cfg ops ps w evs (s, cx)" "udp_enabled cfg (Udp_Received False bytes) s"
  shows "\<not> length bytes > unat (cfg_payload_size_limit cfg)
     \<and> length (udp_packet_buffer s) = min (unat (cfg_payload_size_limit cfg)) MAX_DATAGRAM_SIZE"
proof -
  have "length (udp_packet_buffer s) = udp_buffer_size cfg" using udp_run_buffer [OF assms(1)] by simp
  then show ?thesis using assms(2) by (auto simp: udp_enabled_def udp_buffer_size_def split: if_splits)
qed

end
