(* ===== verification/Session_Pool.thy ===== *)
theory Session_Pool
  imports TCP_Session UDP_Session
begin

text \<open>
  \<^verbatim>\<open>orchestrator/session-pool.h\<close>: the sessions of a shard, the calls made on ranges of them,
  the count of active sessions and the notification when the last one is gone.

  A call of a session only posts work to the session's strand. The pool therefore keeps, for
  each session, the calls posted to it so far; the transports run them later. An index past
  the end of the vector of sessions is undefined behaviour: the result is \<open>None\<close>.
\<close>

section \<open>The pool\<close>

datatype pool_call = Call_Start | Call_Send u64 | Call_Flood | Call_Drain | Call_Stop

text \<open>The payloads a list of calls asks for.\<close>

definition calls_sends :: "pool_call list \<Rightarrow> u64" where
  "calls_sends cs = sum_list (map (\<lambda>c. case c of Call_Send N \<Rightarrow> N | _ \<Rightarrow> 0) cs)"

record session_pool =
  po_sessions :: "pool_call list list"
  po_active :: u64
  po_closed :: bool
  po_notified :: nat

definition new_session_pool :: session_pool where
  "new_session_pool = \<lparr>po_sessions = [], po_active = 0, po_closed = False, po_notified = 0\<rparr>"

definition create_sessions :: "u64 \<Rightarrow> session_pool \<Rightarrow> bool \<times> session_pool" where
  "create_sessions session_count p =
     (if po_sessions p \<noteq> [] then (False, p)
      else (True, p\<lparr>po_sessions := replicate (unat session_count) []\<rparr>))"

text \<open>The loop over \<open>[start, stop)\<close> all the range calls share.\<close>

primrec post_calls :: "pool_call \<Rightarrow> nat list \<Rightarrow> session_pool \<Rightarrow> session_pool option" where
  "post_calls c [] p = Some p"
| "post_calls c (i # is) p =
     (if i < length (po_sessions p)
      then post_calls c is (p\<lparr>po_sessions := (po_sessions p)[i := po_sessions p ! i @ [c]]\<rparr>)
      else None)"

definition start_sessions_range :: "u64 \<Rightarrow> u64 \<Rightarrow> session_pool \<Rightarrow> session_pool option" where
  "start_sessions_range start stop p =
     (if po_closed p then Some p
      else post_calls Call_Start [unat start..<unat stop] (p\<lparr>po_active := po_active p + (stop - start)\<rparr>))"

definition send_sessions_range :: "u64 \<Rightarrow> u64 \<Rightarrow> u64 \<Rightarrow> session_pool \<Rightarrow> session_pool option" where
  "send_sessions_range start stop N p =
     (if po_closed p then Some p else post_calls (Call_Send N) [unat start..<unat stop] p)"

definition flood_sessions_range :: "u64 \<Rightarrow> u64 \<Rightarrow> session_pool \<Rightarrow> session_pool option" where
  "flood_sessions_range start stop p =
     (if po_closed p then Some p else post_calls Call_Flood [unat start..<unat stop] p)"

definition drain_sessions_range :: "u64 \<Rightarrow> u64 \<Rightarrow> session_pool \<Rightarrow> session_pool option" where
  "drain_sessions_range start stop p =
     (if po_closed p then Some p else post_calls Call_Drain [unat start..<unat stop] p)"

definition stop_sessions_range :: "u64 \<Rightarrow> u64 \<Rightarrow> session_pool \<Rightarrow> session_pool option" where
  "stop_sessions_range start stop p =
     (if po_closed p then Some p else post_calls Call_Stop [unat start..<unat stop] p)"

definition stop_all_sessions :: "session_pool \<Rightarrow> session_pool option" where
  "stop_all_sessions p = stop_sessions_range 0 (of_nat (length (po_sessions p))) p"

definition notify_closed :: "session_pool \<Rightarrow> session_pool" where
  "notify_closed p = p\<lparr>po_notified := Suc (po_notified p)\<rparr>"

definition shutdown :: "session_pool \<Rightarrow> session_pool option" where
  "shutdown p =
     (if po_closed p then Some p
      else map_option (\<lambda>p. if po_active p = 0 then notify_closed p else p)
             (stop_all_sessions (p\<lparr>po_closed := True\<rparr>)))"

definition disconnect_callback :: "session_pool \<Rightarrow> session_pool" where
  "disconnect_callback p =
     (let p = p\<lparr>po_active := po_active p - 1\<rparr>
      in if po_active p = 0 \<and> po_closed p then notify_closed p else p)"

section \<open>What a range call posts\<close>

lemma post_calls_Some_iff:
  "(\<exists>q. post_calls c is p = Some q) \<longleftrightarrow> (\<forall>i \<in> set is. i < length (po_sessions p))"
  by (induction "is" arbitrary: p) auto

lemma post_calls_result:
  assumes "post_calls c is p = Some q" "distinct is"
  shows "q = p\<lparr>po_sessions := map (\<lambda>i. po_sessions p ! i @ (if i \<in> set is then [c] else [])) [0..<length (po_sessions p)]\<rparr>"
  using assms
proof (induction "is" arbitrary: p)
  case Nil
  then show ?case by (simp add: map_nth)
next
  case (Cons i "is")
  let ?p = "p\<lparr>po_sessions := (po_sessions p)[i := po_sessions p ! i @ [c]]\<rparr>"
  have i: "i < length (po_sessions p)" and r: "post_calls c is ?p = Some q"
    using Cons.prems(1) by (simp_all split: if_splits)
  have "q = ?p\<lparr>po_sessions := map (\<lambda>j. po_sessions ?p ! j @ (if j \<in> set is then [c] else []))
      [0..<length (po_sessions ?p)]\<rparr>"
    using Cons.IH [OF r] Cons.prems(2) by simp
  also have "\<dots> = p\<lparr>po_sessions := map (\<lambda>j. po_sessions p ! j @ (if j \<in> set (i # is) then [c] else []))
      [0..<length (po_sessions p)]\<rparr>"
    using i Cons.prems(2) by (auto simp: nth_list_update intro!: map_cong)
  finally show ?case .
qed

lemma post_calls_inbox:
  assumes "post_calls c [a..<b] p = Some q" "j < length (po_sessions p)"
  shows "po_sessions q ! j = po_sessions p ! j @ (if a \<le> j \<and> j < b then [c] else [])"
    and "length (po_sessions q) = length (po_sessions p)"
  using post_calls_result [OF assms(1)] assms(2) by auto

lemma post_calls_other:
  "post_calls c is p = Some q \<Longrightarrow>
   po_active q = po_active p \<and> po_closed q = po_closed p \<and> po_notified q = po_notified p
   \<and> length (po_sessions q) = length (po_sessions p)"
  by (induction "is" arbitrary: p) (auto split: if_splits)

text \<open>
  \<^verbatim>\<open>shutdown\<close> closes the pool before it stops the sessions, and a closed pool posts nothing.
\<close>

lemma shutdown_posts_nothing:
  "\<exists>q. shutdown p = Some q \<and> po_sessions q = po_sessions p \<and> po_closed q"
  by (simp add: shutdown_def stop_all_sessions_def stop_sessions_range_def notify_closed_def)

section \<open>One notification\<close>

text \<open>
  The life of a pool: range calls, disconnects of active sessions, shutdown. The count of
  active sessions is assumed not to wrap: it is below \<open>2 ^ 64\<close> after every start.
\<close>

inductive range_call :: "session_pool \<Rightarrow> session_pool \<Rightarrow> bool" where
  start: "a \<le> b \<Longrightarrow> unat (po_active p) + unat (b - a) < 2 ^ 64 \<Longrightarrow>
    start_sessions_range a b p = Some q \<Longrightarrow> range_call p q"
| send: "send_sessions_range a b N p = Some q \<Longrightarrow> range_call p q"
| flood: "flood_sessions_range a b p = Some q \<Longrightarrow> range_call p q"
| drain: "drain_sessions_range a b p = Some q \<Longrightarrow> range_call p q"
| stop: "stop_sessions_range a b p = Some q \<Longrightarrow> range_call p q"
| shut: "shutdown p = Some q \<Longrightarrow> range_call p q"

inductive pool_step :: "session_pool \<Rightarrow> session_pool \<Rightarrow> bool" where
  create: "pool_step p (snd (create_sessions n p))"
| call: "range_call p q \<Longrightarrow> pool_step p q"
| disconnect: "po_active p \<noteq> 0 \<Longrightarrow> pool_step p (disconnect_callback p)"

inductive pool_reachable :: "session_pool \<Rightarrow> bool" where
  initial: "pool_reachable new_session_pool"
| step: "pool_reachable p \<Longrightarrow> pool_step p q \<Longrightarrow> pool_reachable q"

definition notified_once :: "session_pool \<Rightarrow> bool" where
  "notified_once p \<longleftrightarrow> po_notified p = (if po_closed p \<and> po_active p = 0 then 1 else 0)"

lemma range_call_notified:
  assumes "range_call p q" "notified_once p"
  shows "notified_once q"
  using assms
proof (induction rule: range_call.induct)
  case (start a b p q)
  then show ?case
    by (auto simp: start_sessions_range_def notified_once_def dest!: post_calls_other split: if_splits)
next
  case (shut p q)
  then show ?case
    by (auto simp: shutdown_def stop_all_sessions_def stop_sessions_range_def notify_closed_def notified_once_def
        split: if_splits)
qed (auto simp: send_sessions_range_def flood_sessions_range_def drain_sessions_range_def
      stop_sessions_range_def notified_once_def dest!: post_calls_other split: if_splits)

lemma disconnect_notified: "po_active p \<noteq> 0 \<Longrightarrow> notified_once p \<Longrightarrow> notified_once (disconnect_callback p)"
  by (auto simp: disconnect_callback_def notify_closed_def notified_once_def Let_def)

lemma pool_step_notified:
  assumes "pool_step p q" "notified_once p"
  shows "notified_once q"
  using assms
proof (induction rule: pool_step.induct)
  case (create p n)
  then show ?case by (simp add: create_sessions_def notified_once_def)
qed (simp_all add: range_call_notified disconnect_notified)

lemma pool_notified_once: "pool_reachable p \<Longrightarrow> notified_once p"
proof (induction rule: pool_reachable.induct)
  case initial
  then show ?case by (simp add: notified_once_def new_session_pool_def)
qed (rule pool_step_notified)

section \<open>The session types behind a pool\<close>

text \<open>
  The contract the pool asserts of a session class. Some of the events of a session are the
  calls of the pool: only a start makes the session live, once, and only a send asks for
  payloads, for as many as it says.
\<close>

locale session_type =
  fixes call_of_event :: "'ev \<Rightarrow> pool_call option"
    and starts :: "'ev \<Rightarrow> nat" and sends :: "'ev \<Rightarrow> u64"
  assumes starts_call: "starts e = (if call_of_event e = Some Call_Start then 1 else 0)"
    and sends_call: "sends e = (case call_of_event e of Some (Call_Send N) \<Rightarrow> N | _ \<Rightarrow> 0)"
begin

lemma starts_of_calls: "sum_list (map starts es) = count_list (List.map_filter call_of_event es) Call_Start"
  by (induction es) (auto simp: starts_call map_filter_simps split: option.split)

lemma sends_of_calls: "sum_list (map sends es) = calls_sends (List.map_filter call_of_event es)"
  by (induction es) (auto simp: sends_call map_filter_simps calls_sends_def split: option.split pool_call.split)

end

fun tcp_call_of :: "tcp_event \<Rightarrow> pool_call option" where
  "tcp_call_of (Tcp_Start t) = Some Call_Start"
| "tcp_call_of (Tcp_Send N) = Some (Call_Send N)"
| "tcp_call_of Tcp_Flood = Some Call_Flood"
| "tcp_call_of Tcp_Drain = Some Call_Drain"
| "tcp_call_of Tcp_Stop = Some Call_Stop"
| "tcp_call_of _ = None"

text \<open>For UDP the outcome of opening and connecting the socket is part of the event.\<close>

fun udp_call_of :: "udp_event \<Rightarrow> pool_call option" where
  "udp_call_of (Udp_Start open_ec connect_ec) = Some Call_Start"
| "udp_call_of (Udp_Send N) = Some (Call_Send N)"
| "udp_call_of Udp_Flood = Some Call_Flood"
| "udp_call_of Udp_Drain = Some Call_Drain"
| "udp_call_of Udp_Stop = Some Call_Stop"
| "udp_call_of _ = None"

interpretation tcp_type: session_type tcp_call_of starts_of sends_of
proof
  show "starts_of e = (if tcp_call_of e = Some Call_Start then 1 else 0)" for e by (cases e) simp_all
  show "sends_of e = (case tcp_call_of e of Some (Call_Send N) \<Rightarrow> N | _ \<Rightarrow> 0)" for e by (cases e) simp_all
qed

interpretation udp_type: session_type udp_call_of udp_starts_of udp_sends_of
proof
  show "udp_starts_of e = (if udp_call_of e = Some Call_Start then 1 else 0)" for e by (cases e) simp_all
  show "udp_sends_of e = (case udp_call_of e of Some (Call_Send N) \<Rightarrow> N | _ \<Rightarrow> 0)" for e by (cases e) simp_all
qed

end
