(* ===== verification/Pool_Sessions.thy ===== *)
theory Pool_Sessions
  imports Session_Pool Session_Bytes
begin

text \<open>
  A pool together with its sessions: the sessions handle the calls the pool has posted to them
  in the order they were posted, between completions of their own operations, and every
  closing session runs the pool's disconnect callback inside its handler. All of it is on the
  shard's thread; sessions of other shards move the shared counters in between.
\<close>

section \<open>The system\<close>

text \<open>
  The pool, each session with the events it has handled, and the context. \<open>calls\<close>, \<open>fresh\<close> and
  \<open>step\<close> are the session class.
\<close>

type_synonym ('ev, 'm, 'h) pool_state =
  "session_pool \<times> ('ev list \<times> 'm session_scheme) list \<times> 'h shard_context"

inductive system_step ::
  "('ev \<Rightarrow> pool_call option) \<Rightarrow> 'm session_scheme
    \<Rightarrow> ('ev \<Rightarrow> 'm session_scheme \<Rightarrow> 'h shard_context \<Rightarrow> 'm session_scheme \<Rightarrow> 'h shard_context \<Rightarrow> bool)
    \<Rightarrow> ('ev, 'm, 'h) pool_state \<Rightarrow> ('ev, 'm, 'h) pool_state \<Rightarrow> bool"
  for calls fresh step where
  sy_create: "create_sessions n p = (created, p') \<Longrightarrow>
    system_step calls fresh step (p, ss, cx) (p', if created then replicate (unat n) ([], fresh) else ss, cx)"
| sy_call: "range_call p p' \<Longrightarrow> system_step calls fresh step (p, ss, cx) (p', ss, cx)"
| sy_handle: "l < length ss \<Longrightarrow> ss ! l = (evs, s) \<Longrightarrow>
    prefix (List.map_filter calls (evs @ [ev])) (po_sessions p ! l) \<Longrightarrow> step ev s cx s' cx' \<Longrightarrow>
    system_step calls fresh step (p, ss, cx)
      ((disconnect_callback ^^ (ss_disconnects s' - ss_disconnects s)) p, ss[l := (evs @ [ev], s')], cx')"
| sy_others: "counters_later (cx_manager cx) (cx_manager cx') \<Longrightarrow>
    system_step calls fresh step (p, ss, cx) (p, ss, cx')"

definition pool_system ::
  "('ev \<Rightarrow> pool_call option) \<Rightarrow> 'm session_scheme
    \<Rightarrow> ('ev \<Rightarrow> 'm session_scheme \<Rightarrow> 'h shard_context \<Rightarrow> 'm session_scheme \<Rightarrow> 'h shard_context \<Rightarrow> bool)
    \<Rightarrow> payload_descriptor list \<Rightarrow> ('ev, 'm, 'h) pool_state \<Rightarrow> bool" where
  "pool_system calls fresh step ps st \<longleftrightarrow>
     (\<exists>cx. context_ok ps cx \<and> (system_step calls fresh step)\<^sup>*\<^sup>* (new_session_pool, [], cx) st)"

definition tcp_step ::
  "session_config \<Rightarrow> 'h handler_ops \<Rightarrow> tcp_event \<Rightarrow> tcp_session \<Rightarrow> 'h shard_context \<Rightarrow> tcp_session \<Rightarrow> 'h shard_context \<Rightarrow> bool" where
  "tcp_step cfg ops ev s cx s' cx' \<longleftrightarrow> tcp_enabled cfg ev s \<and> (\<exists>mo. tcp_handle cfg ops mo ev s cx = Some (s', cx'))"

definition udp_step ::
  "session_config \<Rightarrow> 'h handler_ops \<Rightarrow> udp_event \<Rightarrow> udp_session \<Rightarrow> 'h shard_context \<Rightarrow> udp_session \<Rightarrow> 'h shard_context \<Rightarrow> bool" where
  "udp_step cfg ops ev s cx s' cx' \<longleftrightarrow> udp_enabled cfg ev s \<and> (\<exists>mo. udp_handle cfg ops mo ev s cx = Some (s', cx'))"

section \<open>What the pool posts\<close>

definition starts_posted :: "session_pool \<Rightarrow> nat" where
  "starts_posted p = sum_list (map (\<lambda>cs. count_list cs Call_Start) (po_sessions p))"

lemma post_calls_starts:
  "post_calls c is p = Some q \<Longrightarrow> starts_posted q = starts_posted p + (if c = Call_Start then length is else 0)"
proof (induction "is" arbitrary: p)
  case (Cons i "is")
  let ?cs = "po_sessions p ! i" and ?p = "p\<lparr>po_sessions := (po_sessions p)[i := po_sessions p ! i @ [c]]\<rparr>"
  have i: "i < length (po_sessions p)" "post_calls c is ?p = Some q" using Cons.prems by (simp_all split: if_splits)
  have "count_list ?cs Call_Start \<le> starts_posted p"
    unfolding starts_posted_def using i(1) elem_le_sum_list [of i "map (\<lambda>cs. count_list cs Call_Start) (po_sessions p)"]
    by simp
  then have "starts_posted ?p = starts_posted p + (if c = Call_Start then 1 else 0)"
    using i(1) by (simp add: starts_posted_def map_update sum_list_update)
  then show ?case using Cons.IH [OF i(2)] by simp
qed simp

lemma post_calls_prefix:
  "post_calls c is p = Some q \<Longrightarrow>
   length (po_sessions q) = length (po_sessions p)
   \<and> (\<forall>l < length (po_sessions p). prefix (po_sessions p ! l) (po_sessions q ! l))"
proof (induction "is" arbitrary: p)
  case (Cons i "is")
  let ?p = "p\<lparr>po_sessions := (po_sessions p)[i := po_sessions p ! i @ [c]]\<rparr>"
  have i: "i < length (po_sessions p)" "post_calls c is ?p = Some q" using Cons.prems by (simp_all split: if_splits)
  have "prefix (po_sessions p ! l) (po_sessions ?p ! l)" if "l < length (po_sessions p)" for l
    using that by (cases "l = i") simp_all
  then show ?case using Cons.IH [OF i(2)] by (auto intro: prefix_order.trans)
qed simp

lemma range_call_posts:
  assumes "range_call p q"
  shows "length (po_sessions q) = length (po_sessions p)"
    and "l < length (po_sessions p) \<Longrightarrow> prefix (po_sessions p ! l) (po_sessions q ! l)"
    and "unat (po_active q) + starts_posted p = unat (po_active p) + starts_posted q"
proof -
  have other: "post_calls c is p = Some q \<Longrightarrow> c \<noteq> Call_Start \<Longrightarrow> length (po_sessions q) = length (po_sessions p)
     \<and> (\<forall>l < length (po_sessions p). prefix (po_sessions p ! l) (po_sessions q ! l))
     \<and> unat (po_active q) + starts_posted p = unat (po_active p) + starts_posted q" for c "is"
    using post_calls_prefix [of c "is" p q] post_calls_starts [of c "is" p q] post_calls_other [of c "is" p q] by simp
  have "length (po_sessions q) = length (po_sessions p)
     \<and> (\<forall>l < length (po_sessions p). prefix (po_sessions p ! l) (po_sessions q ! l))
     \<and> unat (po_active q) + starts_posted p = unat (po_active p) + starts_posted q"
    using assms
  proof cases
    case (start a b)
    show ?thesis
    proof (cases "po_closed p")
      case True
      then show ?thesis using start by (simp add: start_sessions_range_def)
    next
      case False
      let ?p = "p\<lparr>po_active := po_active p + (b - a)\<rparr>"
      have q: "post_calls Call_Start [unat a..<unat b] ?p = Some q"
        using start(3) False by (simp add: start_sessions_range_def)
      have "unat (b - a) = unat b - unat a" using start(1) by (simp add: unat_sub)
      moreover have "unat (po_active p + (b - a)) = unat (po_active p) + unat (b - a)"
        using start(2) by (simp add: unat_add_lem [THEN iffD1])
      ultimately show ?thesis
        using post_calls_prefix [OF q] post_calls_starts [OF q] post_calls_other [OF q]
        by (simp add: starts_posted_def)
    qed
  next
    case shut
    then have "po_sessions q = po_sessions p" "po_active q = po_active p"
      by (auto simp: shutdown_def stop_all_sessions_def stop_sessions_range_def notify_closed_def split: if_splits)
    then show ?thesis by (simp add: starts_posted_def)
  qed (auto simp: send_sessions_range_def flood_sessions_range_def drain_sessions_range_def stop_sessions_range_def
      dest!: other split: if_splits)
  then show "length (po_sessions q) = length (po_sessions p)"
    "l < length (po_sessions p) \<Longrightarrow> prefix (po_sessions p ! l) (po_sessions q ! l)"
    "unat (po_active q) + starts_posted p = unat (po_active p) + starts_posted q" by simp_all
qed

lemma disconnect_callback_simps [simp]:
  "po_active (disconnect_callback p) = po_active p - 1" "po_sessions (disconnect_callback p) = po_sessions p"
  "po_closed (disconnect_callback p) = po_closed p"
  by (simp_all add: disconnect_callback_def notify_closed_def Let_def)

lemma disconnects_of_pool:
  assumes "d \<le> unat (po_active p)" "notified_once p"
  shows "unat (po_active ((disconnect_callback ^^ d) p)) = unat (po_active p) - d
     \<and> po_sessions ((disconnect_callback ^^ d) p) = po_sessions p
     \<and> po_closed ((disconnect_callback ^^ d) p) = po_closed p \<and> notified_once ((disconnect_callback ^^ d) p)"
  using assms(1)
proof (induction d)
  case (Suc d)
  let ?q = "(disconnect_callback ^^ d) p"
  have q: "unat (po_active ?q) = unat (po_active p) - d" "po_sessions ?q = po_sessions p"
    "po_closed ?q = po_closed p" "notified_once ?q"
    using Suc by simp_all
  then have "po_active ?q \<noteq> 0" using Suc.prems by (auto simp: unat_eq_0 [symmetric])
  moreover from this have "unat (po_active ?q - 1) = unat (po_active ?q) - 1" by (simp add: unat_minus_one)
  ultimately show ?case
    using q disconnect_notified [of ?q] by simp
qed (simp add: assms(2))

section \<open>The contract of a session class\<close>

text \<open>
  What the pool relies on: only a start makes a session live, and every other end of its being
  live is one more disconnect.
\<close>

locale pooled_session = session_type calls starts sends
  for calls :: "'ev \<Rightarrow> pool_call option" and starts :: "'ev \<Rightarrow> nat" and sends :: "'ev \<Rightarrow> u64" +
  fixes ps :: "payload_descriptor list" and fresh :: "'m session_scheme"
    and step :: "'ev \<Rightarrow> 'm session_scheme \<Rightarrow> 'h shard_context \<Rightarrow> 'm session_scheme \<Rightarrow> 'h shard_context \<Rightarrow> bool"
  assumes fresh: "times_live fresh = 0"
    and step_live: "step ev s cx s' cx' \<Longrightarrow>
      times_live s' = (if starts ev = 0 then times_live s else Suc (ss_disconnects s))"
    and step_disconnects: "step ev s cx s' cx' \<Longrightarrow> ss_disconnects s \<le> ss_disconnects s'"
    and step_later: "step ev s cx s' cx' \<Longrightarrow> context_ok ps cx \<Longrightarrow> counters_later (cx_manager cx) (cx_manager cx')"
begin

definition session_ok :: "pool_call list \<Rightarrow> 'ev list \<times> 'm session_scheme \<Rightarrow> bool" where
  "session_ok inbox e \<longleftrightarrow>
     prefix (List.map_filter calls (fst e)) inbox
     \<and> times_live (snd e) \<le> sum_list (map starts (fst e)) \<and> (0 < sum_list (map starts (fst e)) \<longrightarrow> 0 < times_live (snd e))"

definition system_ok :: "('ev, 'm, 'h) pool_state \<Rightarrow> bool" where
  "system_ok st \<longleftrightarrow>
     (case st of (p, ss, cx) \<Rightarrow>
        list_all2 session_ok (po_sessions p) ss
        \<and> unat (po_active p) + sum_list (map (\<lambda>e. ss_disconnects (snd e)) ss) = starts_posted p
        \<and> notified_once p \<and> context_ok ps cx)"

lemma starts_in_inbox: "session_ok inbox e \<Longrightarrow> sum_list (map starts (fst e)) \<le> count_list inbox Call_Start"
  unfolding session_ok_def prefix_def by (auto simp: starts_of_calls)

lemma disconnects_in_inbox: "session_ok inbox e \<Longrightarrow> ss_disconnects (snd e) \<le> count_list inbox Call_Start"
  using starts_in_inbox [of inbox e] by (auto simp: session_ok_def times_live_def)

lemma session_ok_more: "session_ok inbox e \<Longrightarrow> prefix inbox inbox' \<Longrightarrow> session_ok inbox' e"
  by (auto simp: session_ok_def intro: prefix_order.trans)

lemma session_ok_step:
  assumes "session_ok inbox (evs, s)" "step ev s cx s' cx'" "prefix (List.map_filter calls (evs @ [ev])) inbox"
  shows "session_ok inbox (evs @ [ev], s')"
  using assms step_live [OF assms(2)] by (auto simp: session_ok_def times_live_def starts_call split: if_splits)

lemma disconnects_le_starts:
  "list_all2 session_ok inboxes ss \<Longrightarrow>
   sum_list (map (\<lambda>e. ss_disconnects (snd e)) ss) \<le> sum_list (map (\<lambda>cs. count_list cs Call_Start) inboxes)"
  by (induction rule: list_all2_induct) (auto dest: disconnects_in_inbox intro: add_mono)

lemma system_ok_handle:
  assumes "system_ok (p, ss, cx)" "l < length ss" "ss ! l = (evs, s)"
    and "prefix (List.map_filter calls (evs @ [ev])) (po_sessions p ! l)" "step ev s cx s' cx'"
  shows "system_ok ((disconnect_callback ^^ (ss_disconnects s' - ss_disconnects s)) p, ss[l := (evs @ [ev], s')], cx')"
proof -
  let ?d = "ss_disconnects s' - ss_disconnects s" and ?ss = "ss[l := (evs @ [ev], s')]"
  let ?sum = "\<lambda>ss. sum_list (map (\<lambda>e. ss_disconnects (snd e)) ss)"
  have inv: "list_all2 session_ok (po_sessions p) ss" "unat (po_active p) + ?sum ss = starts_posted p"
    "notified_once p" "context_ok ps cx"
    using assms(1) by (simp_all add: system_ok_def)
  have "session_ok (po_sessions p ! l) (evs, s)" using list_all2_nthD2 [OF inv(1) assms(2)] assms(3) by simp
  then have "session_ok (po_sessions p ! l) (evs @ [ev], s')" using session_ok_step assms(4,5) by blast
  then have ok: "list_all2 session_ok (po_sessions p) ?ss"
    using inv(1) assms(2) by (auto simp: list_all2_conv_all_nth nth_list_update)
  have "ss_disconnects s \<le> ?sum ss"
    using elem_le_sum_list [of l "map (\<lambda>e. ss_disconnects (snd e)) ss"] assms(2,3) by simp
  then have sum: "?sum ?ss = ?sum ss + ?d"
    using step_disconnects [OF assms(5)] assms(2,3) by (simp add: map_update sum_list_update)
  have "?d \<le> unat (po_active p)"
    using disconnects_le_starts [OF ok] sum inv(2) by (simp add: starts_posted_def)
  note q = disconnects_of_pool [OF this inv(3)]
  have "counters_later (cx_manager cx) (cx_manager cx')" using step_later assms(5) inv(4) by blast
  then have "context_ok ps cx'" by (rule counters_later_ok [OF inv(4)])
  moreover have "unat (po_active p) - ?d + ?sum ?ss = starts_posted p"
    using sum inv(2) \<open>?d \<le> unat (po_active p)\<close> by simp
  ultimately show ?thesis using ok q by (simp add: system_ok_def starts_posted_def)
qed

lemma system_step_ok:
  assumes "system_step calls fresh step st st'" "system_ok st"
  shows "system_ok st'"
  using assms
proof (induction rule: system_step.induct)
  case (sy_create n p created p' ss cx)
  have new: "session_ok [] ([], fresh)" "ss_disconnects fresh = 0"
    using fresh by (simp_all add: session_ok_def map_filter_simps times_live_def)
  moreover have "ss = []" if "po_sessions p = []" using sy_create.prems that by (simp add: system_ok_def)
  ultimately show ?case
    using sy_create by (auto simp: create_sessions_def system_ok_def starts_posted_def notified_once_def
        list_all2_conv_all_nth sum_list_replicate split: if_splits)
next
  case (sy_call p p' ss cx)
  note posts = range_call_posts [OF sy_call.hyps]
  have "list_all2 session_ok (po_sessions p') ss"
    using sy_call.prems posts(1) session_ok_more [OF _ posts(2)] by (simp add: system_ok_def list_all2_conv_all_nth)
  then show ?case
    using sy_call.prems posts(3) range_call_notified [OF sy_call.hyps] by (simp add: system_ok_def)
next
  case (sy_handle l ss evs s ev p cx s' cx')
  then show ?case by (intro system_ok_handle)
next
  case (sy_others cx cx' p ss)
  then show ?case by (auto simp: system_ok_def intro: counters_later_ok)
qed

lemma system_steps_ok: "(system_step calls fresh step)\<^sup>*\<^sup>* st st' \<Longrightarrow> system_ok st \<Longrightarrow> system_ok st'"
  by (induction rule: rtranclp_induct) (auto intro: system_step_ok)

lemma pool_system_ok: "pool_system calls fresh step ps st \<Longrightarrow> system_ok st"
  by (auto simp: pool_system_def elim!: system_steps_ok)
    (simp add: system_ok_def new_session_pool_def starts_posted_def notified_once_def)

lemma pool_system_steps:
  "pool_system calls fresh step ps st \<Longrightarrow> (system_step calls fresh step)\<^sup>*\<^sup>* st st' \<Longrightarrow> pool_system calls fresh step ps st'"
  unfolding pool_system_def by (meson rtranclp_trans)

text \<open>The pool's count is the number of starts posted and not answered by a disconnect.\<close>

lemma active_count:
  assumes "pool_system calls fresh step ps (p, ss, cx)"
  defines "posted \<equiv> \<lambda>l. count_list (po_sessions p ! l) Call_Start" and "ended \<equiv> \<lambda>l. ss_disconnects (snd (ss ! l))"
  shows "length ss = length (po_sessions p)"
    and "l < length ss \<Longrightarrow> times_live (snd (ss ! l)) \<le> posted l"
    and "unat (po_active p) = (\<Sum>l < length ss. posted l - ended l)"
    and "po_notified p = (if po_closed p \<and> (\<forall>l < length ss. ended l = posted l) then 1 else 0)"
proof -
  have ok: "list_all2 session_ok (po_sessions p) ss"
    "unat (po_active p) + sum_list (map (\<lambda>e. ss_disconnects (snd e)) ss) = starts_posted p" "notified_once p"
    using pool_system_ok [OF assms(1)] by (simp_all add: system_ok_def)
  show len: "length ss = length (po_sessions p)" using ok(1) by (simp add: list_all2_lengthD)
  have each: "session_ok (po_sessions p ! l) (ss ! l)" if "l < length ss" for l
    using list_all2_nthD2 [OF ok(1) that] .
  show "times_live (snd (ss ! l)) \<le> posted l" if "l < length ss" for l
    using each [OF that] starts_in_inbox [OF each [OF that]] by (simp add: session_ok_def posted_def)
  have le: "ended l \<le> posted l" if "l < length ss" for l
    using disconnects_in_inbox [OF each [OF that]] by (simp add: ended_def posted_def)
  have "sum_list (map (\<lambda>e. ss_disconnects (snd e)) ss) = (\<Sum>l < length ss. ended l)"
    by (simp add: sum_list_sum_nth atLeast0LessThan ended_def)
  moreover have "starts_posted p = (\<Sum>l < length ss. posted l)"
    by (simp add: starts_posted_def sum_list_sum_nth atLeast0LessThan len posted_def)
  ultimately show sum: "unat (po_active p) = (\<Sum>l < length ss. posted l - ended l)"
    using ok(2) le by (subst sum_subtractf_nat) simp_all
  have "po_active p = 0 \<longleftrightarrow> unat (po_active p) = 0" by (simp add: unat_eq_0)
  also have "\<dots> \<longleftrightarrow> (\<forall>l < length ss. ended l = posted l)"
    unfolding sum using le by (auto simp: le_antisym)
  finally show "po_notified p = (if po_closed p \<and> (\<forall>l < length ss. ended l = posted l) then 1 else 0)"
    using ok(3) by (simp add: notified_once_def)
qed

text \<open>A session that has been started more often than it was live, and stays so.\<close>

definition leaks :: "'ev list \<times> 'm session_scheme \<Rightarrow> bool" where
  "leaks e \<longleftrightarrow> times_live (snd e) < sum_list (map starts (fst e))"

lemma leaks_step: "leaks (evs, s) \<Longrightarrow> step ev s cx s' cx' \<Longrightarrow> leaks (evs @ [ev], s')"
  by (drule step_live) (auto simp: leaks_def times_live_def split: if_splits)

lemma leaks_restart:
  assumes "times_live s \<le> sum_list (map starts evs)" "ss_live s" "starts ev \<noteq> 0" "step ev s cx s' cx'"
  shows "leaks (evs @ [ev], s')"
  using assms step_live [OF assms(4)] by (simp add: leaks_def times_live_def)

lemma leaks_stays:
  assumes "(system_step calls fresh step)\<^sup>*\<^sup>* (p, ss, cx) (p', ss', cx')" "po_sessions p \<noteq> []"
    and "l < length ss" "leaks (ss ! l)"
  shows "po_sessions p' \<noteq> [] \<and> l < length ss' \<and> leaks (ss' ! l)"
  using assms(1)
proof (induction "(p', ss', cx')" arbitrary: p' ss' cx' rule: rtranclp_induct)
  case base
  then show ?case using assms(2-4) by simp
next
  case (step st)
  obtain q ts cy where st: "st = (q, ts, cy)" by (cases st)
  have ih: "po_sessions q \<noteq> [] \<and> l < length ts \<and> leaks (ts ! l)" using step.hyps(3) [OF st] .
  from step.hyps(2) [unfolded st] show ?case
  proof cases
    case (sy_create n created)
    then show ?thesis using ih by (simp add: create_sessions_def)
  next
    case sy_call
    then show ?thesis using ih range_call_posts(1) [OF sy_call(3)] by auto
  next
    case (sy_handle k evs s ev s')
    have "po_sessions ((disconnect_callback ^^ d) q) = po_sessions q" for d by (induction d) simp_all
    then show ?thesis using ih sy_handle leaks_step by (cases "k = l") auto
  qed (use ih in simp_all)
qed

lemma leak_never_closes:
  assumes "pool_system calls fresh step ps (p, ss, cx)" "l < length ss" "leaks (ss ! l)"
  shows "po_active p \<noteq> 0" "po_notified p = 0"
proof -
  have ok: "list_all2 session_ok (po_sessions p) ss" using pool_system_ok [OF assms(1)] by (simp add: system_ok_def)
  have "ss_disconnects (snd (ss ! l)) < count_list (po_sessions p ! l) Call_Start"
    using starts_in_inbox [OF list_all2_nthD2 [OF ok assms(2)]] assms(3) by (simp add: leaks_def times_live_def)
  moreover from this have "0 < (\<Sum>l < length ss. count_list (po_sessions p ! l) Call_Start - ss_disconnects (snd (ss ! l)))"
    using assms(2) by (intro sum_pos2 [of _ l]) simp_all
  ultimately show "po_active p \<noteq> 0" "po_notified p = 0"
    using active_count(3,4) [OF assms(1)] assms(2) by (force simp: unat_eq_0 [symmetric])+
qed

end

section \<open>Both transports\<close>

lemma advances_fills:
  "advances s cx (Some (s', cx')) \<Longrightarrow> manager_ok (cx_manager cx) \<Longrightarrow> counters_later (cx_manager cx) (cx_manager cx')"
  by (auto intro: fills_later)

interpretation tcp_pool: pooled_session tcp_call_of starts_of sends_of ps "new_tcp_session cfg" "tcp_step cfg ops"
  for ps cfg ops
proof
  show "times_live (new_tcp_session cfg) = 0"
    by (simp add: times_live_def new_tcp_session_def session.defs new_session_def)
  fix ev s s' and cx cx' :: "'a shard_context"
  assume "tcp_step cfg ops ev s cx s' cx'"
  then obtain mo where "tcp_handle cfg ops mo ev s cx = Some (s', cx')" by (auto simp: tcp_step_def)
  then have adv: "advances (if starts_of ev = 0 then s else s\<lparr>ss_live := True\<rparr>) cx (Some (s', cx'))"
    using tcp_handle_advances [of ev s cx cfg ops mo] by simp
  then show "times_live s' = (if starts_of ev = 0 then times_live s else Suc (ss_disconnects s))"
    "ss_disconnects s \<le> ss_disconnects s'" by (simp_all split: if_splits)
  show "context_ok ps cx \<Longrightarrow> counters_later (cx_manager cx) (cx_manager cx')"
    using advances_fills [OF adv] by (simp add: context_ok_def)
qed

interpretation udp_pool: pooled_session udp_call_of udp_starts_of udp_sends_of ps "new_udp_session cfg" "udp_step cfg ops"
  for ps cfg ops
proof
  show "times_live (new_udp_session cfg) = 0"
    by (simp add: times_live_def new_udp_session_def session.defs new_session_def)
  fix ev s s' and cx cx' :: "'a shard_context"
  assume "udp_step cfg ops ev s cx s' cx'"
  then obtain mo where "udp_handle cfg ops mo ev s cx = Some (s', cx')" by (auto simp: udp_step_def)
  then have adv: "advances (if udp_starts_of ev = 0 then s else s\<lparr>ss_live := True\<rparr>) cx (Some (s', cx'))"
    using udp_handle_advances [of ev s cx cfg ops mo] by simp
  then show "times_live s' = (if udp_starts_of ev = 0 then times_live s else Suc (ss_disconnects s))"
    "ss_disconnects s \<le> ss_disconnects s'" by (simp_all split: if_splits)
  show "context_ok ps cx \<Longrightarrow> counters_later (cx_manager cx) (cx_manager cx')"
    using advances_fills [OF adv] by (simp add: context_ok_def)
qed

end
