(* ===== verification/Pool_Properties.thy ===== *)
theory Pool_Properties
  imports Pool_Sessions Session_Properties
begin

text \<open>
  The properties of a pool together with its sessions: when the shard is told that the pool is
  closed, and when it never is.
\<close>

text \<open>C15: a pool and its sessions agree. However the calls of the pool, the events of its TCP
  sessions and the work of other shards interleave, the pool's count of active sessions is the
  sum over its sessions of the starts posted to each that no disconnect has answered; no
  session was live more often than it has been started; and the shard is notified exactly once,
  when the pool is closed and every start has been answered, so that no session is live then.\<close>

theorem pool_closes_after_its_sessions:
  assumes "pool_system tcp_call_of (new_tcp_session cfg) (tcp_step cfg ops) ps (p, ss, cx)"
  defines "posted \<equiv> \<lambda>l. count_list (po_sessions p ! l) Call_Start" and "ended \<equiv> \<lambda>l. ss_disconnects (snd (ss ! l))"
  shows "unat (po_active p) = (\<Sum>l < length ss. posted l - ended l)
     \<and> (\<forall>l < length ss. ended l + (if ss_live (snd (ss ! l)) then 1 else 0) \<le> posted l)
     \<and> po_notified p = (if po_closed p \<and> (\<forall>l < length ss. ended l = posted l) then 1 else 0)"
  using tcp_pool.active_count [OF assms(1)] by (simp add: times_live_def posted_def ended_def)

text \<open>A pool of one session, which is started, and started again while it is live.\<close>

definition one_start :: "session_pool" where
  "one_start = \<lparr>po_sessions = [[Call_Start]], po_active = 1, po_closed = False, po_notified = 0\<rparr>"

definition two_starts :: "session_pool" where
  "two_starts = \<lparr>po_sessions = [[Call_Start, Call_Start]], po_active = 2, po_closed = False, po_notified = 0\<rparr>"

definition started_session :: "tcp_session \<Rightarrow> tcp_session" where
  "started_session s = start_op (Connect_Op 0) (s\<lparr>ss_live := True, tcp_connecting := True\<rparr>)"

lemma start_one: "start_sessions_range 0 1 (new_session_pool\<lparr>po_sessions := [[]]\<rparr>) = Some one_start"
  by (simp add: start_sessions_range_def new_session_pool_def one_start_def)

lemma start_two: "start_sessions_range 0 1 one_start = Some two_starts"
  by (simp add: start_sessions_range_def one_start_def two_starts_def)

lemma start_step:
  "tcp_step sample_config nop_handler (Tcp_Start 0) s cx (started_session s) (on_metrics record_connection_attempt cx)"
  by (simp add: tcp_step_def tcp_enabled_def tcp_handle_def complete_op_def tcp_start_def started_session_def)

lemma one_started:
  "pool_system tcp_call_of (new_tcp_session sample_config) (tcp_step sample_config nop_handler) (pm_payloads sample_manager)
     (one_start, [([Tcp_Start 0], started_session (new_tcp_session sample_config))],
      on_metrics record_connection_attempt sample_context)"
proof -
  let ?step = "system_step tcp_call_of (new_tcp_session sample_config) (tcp_step sample_config nop_handler)"
  let ?s = "new_tcp_session sample_config"
  have "?step (new_session_pool, [], sample_context)
      (new_session_pool\<lparr>po_sessions := [[]]\<rparr>, [([], ?s)], sample_context)"
    using system_step.sy_create [of 1 new_session_pool True "new_session_pool\<lparr>po_sessions := [[]]\<rparr>" tcp_call_of ?s
        "tcp_step sample_config nop_handler" "[]" sample_context]
    by (simp add: create_sessions_def new_session_pool_def)
  moreover have "?step (new_session_pool\<lparr>po_sessions := [[]]\<rparr>, [([], ?s)], sample_context) (one_start, [([], ?s)], sample_context)"
    by (intro system_step.sy_call range_call.start [OF _ _ start_one]) (simp_all add: new_session_pool_def)
  moreover have "?step (one_start, [([], ?s)], sample_context)
      (one_start, [([Tcp_Start 0], started_session ?s)], on_metrics record_connection_attempt sample_context)"
    using system_step.sy_handle [where step = "tcp_step sample_config nop_handler" and fresh = ?s and calls = tcp_call_of
        and p = one_start and ss = "[([], ?s)]" and l = 0, OF _ _ _ start_step, of "[]" ?s sample_context]
    by (simp add: one_start_def map_filter_simps started_session_def start_op_def)
  ultimately show ?thesis
    unfolding pool_system_def using sample_context_ok by (meson converse_rtranclp_into_rtranclp rtranclp.rtrancl_refl)
qed

theorem pool_closes_after_its_sessions_witness:
  "pool_system tcp_call_of (new_tcp_session sample_config) (tcp_step sample_config nop_handler) (pm_payloads sample_manager)
     (one_start, [([Tcp_Start 0], started_session (new_tcp_session sample_config))],
      on_metrics record_connection_attempt sample_context)
   \<and> unat (po_active one_start) = 1 - ss_disconnects (started_session (new_tcp_session sample_config))"
  using pool_closes_after_its_sessions [OF one_started] one_started by (simp add: one_start_def)

text \<open>A script the validator accepts, in which a session is connected again after a DRAIN.\<close>

definition restart_script :: dsl_data where
  "restart_script =
     sample_script\<lparr>ds_orchestrator := (ds_orchestrator sample_script)\<lparr>or_actions :=
       [sample_create, sample_connect, sample_send, (new_action DRAIN 0)\<lparr>act_range := sample_range 0 1\<rparr>, sample_connect]\<rparr>\<rparr>"

lemma restart_script_accepted: "verify_script sample_os sample_options restart_script = Inr ()"
proof -
  have "isl (verify_script sample_os sample_options restart_script) = False" by code_simp
  then show ?thesis by (cases "verify_script sample_os sample_options restart_script") simp_all
qed

text \<open>C17: a TCP session that is started again while it is live keeps its shard from ending. The
  pool counts both starts but the session calls back once, so whatever happens afterwards the
  count never returns to zero, the pool never notifies the shard, and only the force-stop timer
  ends it. The validator accepts scripts that do so (\<open>restart_script_accepted\<close>): a CONNECT may name
  sessions that a DRAIN has named, and nothing waits for the draining to end.\<close>

theorem restart_of_live_session_never_closes:
  assumes "pool_system tcp_call_of (new_tcp_session cfg) (tcp_step cfg ops) ps (p, ss, cx)"
    and "l < length ss" "ss ! l = (evs, s)" "ss_live s"
    and "prefix (List.map_filter tcp_call_of (evs @ [Tcp_Start t])) (po_sessions p ! l)"
    and "tcp_step cfg ops (Tcp_Start t) s cx s' cx'"
    and "(system_step tcp_call_of (new_tcp_session cfg) (tcp_step cfg ops))\<^sup>*\<^sup>*
           (p, ss[l := (evs @ [Tcp_Start t], s')], cx') (q, ts, cy)"
  shows "po_active q \<noteq> 0 \<and> po_notified q = 0"
proof -
  let ?step = "system_step tcp_call_of (new_tcp_session cfg) (tcp_step cfg ops)"
  have same: "ss_disconnects s' = ss_disconnects s"
    using assms(6) by (auto simp: tcp_step_def tcp_handle_def tcp_start_def complete_op_def)
  have "?step (p, ss, cx) (p, ss[l := (evs @ [Tcp_Start t], s')], cx')"
    using system_step.sy_handle [where step = "tcp_step cfg ops", OF assms(2,3,5,6)] by (simp add: same)
  then have later: "pool_system tcp_call_of (new_tcp_session cfg) (tcp_step cfg ops) ps (q, ts, cy)"
    using assms(1,7) by (meson converse_rtranclp_into_rtranclp tcp_pool.pool_system_steps)
  have "tcp_pool.session_ok (po_sessions p ! l) (ss ! l)"
    using tcp_pool.pool_system_ok [OF assms(1)] assms(2) by (auto simp: tcp_pool.system_ok_def list_all2_conv_all_nth)
  then have "tcp_pool.leaks (evs @ [Tcp_Start t], s')"
    using tcp_pool.leaks_restart [OF _ assms(4) _ assms(6)] assms(3) by (simp add: tcp_pool.session_ok_def)
  moreover have "po_sessions p \<noteq> []" using tcp_pool.active_count(1) [OF assms(1)] assms(2) by auto
  ultimately have "l < length ts \<and> tcp_pool.leaks (ts ! l)"
    using tcp_pool.leaks_stays [OF assms(7)] assms(2) by simp
  then show ?thesis using tcp_pool.leak_never_closes [OF later] by blast
qed

text \<open>Started twice, the session fails to connect; then the pool is shut down, and nothing is left.\<close>

definition failed_session :: tcp_session where
  "failed_session =
     (let s = started_session (started_session (new_tcp_session sample_config))
      in close_session ((complete_op (Tcp_Connected 0 True) s)\<lparr>tcp_connecting := False\<rparr>))"

lemma fail_step:
  "tcp_step sample_config nop_handler (Tcp_Connected 0 True) (started_session (started_session (new_tcp_session sample_config)))
     cx failed_session (on_metrics record_connection_fail cx)"
  by (simp add: tcp_step_def tcp_enabled_def tcp_handle_def tcp_connected_def failed_session_def started_session_def
      start_op_def Let_def)

theorem restart_of_live_session_never_closes_witness:
  "\<exists>q ts cy. (system_step tcp_call_of (new_tcp_session sample_config) (tcp_step sample_config nop_handler))\<^sup>*\<^sup>*
      (two_starts, [([Tcp_Start 0, Tcp_Start 0], started_session (started_session (new_tcp_session sample_config)))],
       sample_context) (q, ts, cy)
     \<and> po_closed q \<and> \<not> ss_live (snd (ts ! 0)) \<and> po_notified q = 0"
proof -
  let ?s0 = "new_tcp_session sample_config"
  let ?s1 = "started_session ?s0" and ?s2 = "started_session (started_session ?s0)"
  let ?step = "system_step tcp_call_of ?s0 (tcp_step sample_config nop_handler)"
  let ?cx = "on_metrics record_connection_attempt sample_context"
  let ?q = "disconnect_callback two_starts" and ?ts = "[([Tcp_Start 0, Tcp_Start 0, Tcp_Connected 0 True], failed_session)]"
  have "?step (one_start, [([Tcp_Start 0], ?s1)], ?cx) (two_starts, [([Tcp_Start 0], ?s1)], ?cx)"
    by (intro system_step.sy_call range_call.start [OF _ _ start_two]) (simp_all add: one_start_def)
  then have live: "pool_system tcp_call_of ?s0 (tcp_step sample_config nop_handler) (pm_payloads sample_manager)
      (two_starts, [([Tcp_Start 0], ?s1)], ?cx)"
    by (rule tcp_pool.pool_system_steps [OF one_started r_into_rtranclp])
  have ended: "ss_disconnects failed_session = 1" "ss_disconnects ?s2 = 0" "\<not> ss_live failed_session" "ss_live ?s1"
    by (simp_all add: failed_session_def started_session_def start_op_def complete_op_def close_session_def Let_def
        new_tcp_session_def session.defs new_session_def)
  have fail: "?step (two_starts, [([Tcp_Start 0, Tcp_Start 0], ?s2)], cx) (?q, ?ts, on_metrics record_connection_fail cx)" for cx
    using system_step.sy_handle [where step = "tcp_step sample_config nop_handler" and fresh = ?s0 and calls = tcp_call_of
        and p = two_starts and ss = "[([Tcp_Start 0, Tcp_Start 0], ?s2)]" and l = 0, OF _ _ _ fail_step,
        of "[Tcp_Start 0, Tcp_Start 0]" cx]
    by (simp add: ended two_starts_def map_filter_simps)
  have shut: "?step (?q, ?ts, cy) (?q\<lparr>po_closed := True\<rparr>, ?ts, cy)" for cy
    by (intro system_step.sy_call range_call.shut)
      (simp add: shutdown_def stop_all_sessions_def stop_sessions_range_def two_starts_def disconnect_callback_def Let_def)
  have after: "?step\<^sup>*\<^sup>* (two_starts, [([Tcp_Start 0, Tcp_Start 0], ?s2)], cx)
      (?q\<lparr>po_closed := True\<rparr>, ?ts, on_metrics record_connection_fail cx)" for cx
    using fail shut by (meson converse_rtranclp_into_rtranclp r_into_rtranclp)
  have "po_notified (?q\<lparr>po_closed := True\<rparr>) = 0"
    using restart_of_live_session_never_closes [where l = 0 and evs = "[Tcp_Start 0]" and s = ?s1
        and q = "?q\<lparr>po_closed := True\<rparr>" and ts = ?ts
        and cy = "on_metrics record_connection_fail (on_metrics record_connection_attempt ?cx)", OF live _ _ _ _ start_step]
      after [of "on_metrics record_connection_attempt ?cx"] ended(4) by (simp add: two_starts_def map_filter_simps)
  then show ?thesis
    using after [of sample_context] ended(3)
    by (intro exI [of _ "?q\<lparr>po_closed := True\<rparr>"] exI [of _ ?ts]
        exI [of _ "on_metrics record_connection_fail sample_context"]) simp
qed

end
