(* ===== verification/Shard.thy ===== *)
theory Shard
  imports Session_Pool
begin

text \<open>
  \<^verbatim>\<open>orchestrator/shard.h\<close>: a thread with its own work queue, session pool and metrics. Work is
  posted to the queue and run in order on the shard's thread. The thread ends when nothing
  is posted and the work guard is released, or when the force-stop timer stops the queue.
\<close>

datatype shard_task = Task_Action action_descriptor | Task_Metrics | Task_Stop

record shard =
  sh_running :: bool
  sh_posted :: "shard_task list"
  sh_pool :: session_pool
  sh_metrics :: shard_metrics
  sh_work_guard :: bool
  sh_stop_timer :: bool
  sh_stopped :: bool
  sh_history :: "metrics_snapshot list"
  sh_metric_callbacks :: nat
  sh_closed :: bool

definition new_shard :: shard where
  "new_shard =
     \<lparr>sh_running = False, sh_posted = [], sh_pool = new_session_pool, sh_metrics = new_shard_metrics,
      sh_work_guard = True, sh_stop_timer = False, sh_stopped = False, sh_history = [],
      sh_metric_callbacks = 0, sh_closed = False\<rparr>"

section \<open>Calls from the orchestrator\<close>

definition shard_start :: "shard \<Rightarrow> shard" where
  "shard_start sh = (if sh_running sh then sh else sh\<lparr>sh_running := True\<rparr>)"

definition submit_work :: "action_descriptor \<Rightarrow> shard \<Rightarrow> bool \<times> shard" where
  "submit_work a sh =
     (if \<not> sh_running sh then (False, sh)
      else (True, sh\<lparr>sh_posted := sh_posted sh @ [Task_Action a]\<rparr>))"

definition schedule_metrics_pull :: "shard \<Rightarrow> shard" where
  "schedule_metrics_pull sh = sh\<lparr>sh_posted := sh_posted sh @ [Task_Metrics]\<rparr>"

definition shard_stop :: "shard \<Rightarrow> shard" where
  "shard_stop sh =
     (if \<not> sh_running sh then sh
      else sh\<lparr>sh_running := False, sh_posted := sh_posted sh @ [Task_Stop]\<rparr>)"

section \<open>Work on the shard's thread\<close>

definition on_pool_closed :: "shard \<Rightarrow> shard" where
  "on_pool_closed sh = sh\<lparr>sh_stop_timer := False, sh_work_guard := False\<rparr>"

text \<open>The pool's notification runs inside the call of the pool that raises it.\<close>

definition set_pool :: "session_pool \<Rightarrow> shard \<Rightarrow> shard" where
  "set_pool q sh =
     (let notified = po_notified q > po_notified (sh_pool sh); sh = sh\<lparr>sh_pool := q\<rparr>
      in if notified then on_pool_closed sh else sh)"

definition handle_action :: "action_descriptor \<Rightarrow> session_pool \<Rightarrow> session_pool option" where
  "handle_action a p =
     (let start = ucast (ad_start a); stop = ucast (ad_end a)
      in case ad_type a of
           CREATE \<Rightarrow> Some (snd (create_sessions (ucast (ad_end a - ad_start a)) p))
         | CONNECT \<Rightarrow> start_sessions_range start stop p
         | SEND \<Rightarrow> send_sessions_range start stop (ucast (ad_count a)) p
         | FLOOD \<Rightarrow> flood_sessions_range start stop p
         | DRAIN \<Rightarrow> drain_sessions_range start stop p
         | DISCONNECT \<Rightarrow> stop_sessions_range start stop p)"

definition record_metrics :: "shard \<Rightarrow> shard" where
  "record_metrics sh =
     sh\<lparr>sh_history := sh_history sh @
          [(fetch_snapshot (sh_metrics sh))\<lparr>ms_connected_sessions := po_active (sh_pool sh)\<rparr>]\<rparr>"

definition start_force_stop_timer :: "shard \<Rightarrow> shard" where
  "start_force_stop_timer sh = sh\<lparr>sh_stop_timer := True\<rparr>"

definition run_task :: "shard_task \<Rightarrow> shard \<Rightarrow> shard option" where
  "run_task t sh =
     (case t of
        Task_Action a \<Rightarrow> map_option (\<lambda>q. set_pool q sh) (handle_action a (sh_pool sh))
      | Task_Metrics \<Rightarrow>
          Some ((record_metrics sh)\<lparr>sh_metric_callbacks := Suc (sh_metric_callbacks sh)\<rparr>)
      | Task_Stop \<Rightarrow>
          let sh = start_force_stop_timer sh
          in map_option (\<lambda>q. set_pool q sh) (shutdown (sh_pool sh)))"

definition run_next :: "shard \<Rightarrow> shard option" where
  "run_next sh =
     (case sh_posted sh of [] \<Rightarrow> None | t # ts \<Rightarrow> run_task t (sh\<lparr>sh_posted := ts\<rparr>))"

text \<open>
  A session of the shard disconnects; it has recorded something in the shard's metrics; the
  force-stop timer fires.
\<close>

definition session_disconnected :: "shard \<Rightarrow> shard" where
  "session_disconnected sh = set_pool (disconnect_callback (sh_pool sh)) sh"

definition session_recorded :: "shard_metrics \<Rightarrow> shard \<Rightarrow> shard" where
  "session_recorded m sh = sh\<lparr>sh_metrics := m\<rparr>"

definition force_stop_fired :: "shard \<Rightarrow> shard" where
  "force_stop_fired sh = (if sh_stop_timer sh \<and> \<not> sh_stopped sh then sh\<lparr>sh_stopped := True\<rparr> else sh)"

text \<open>
  The thread: an exception that leaves the handler factory or a task stops its queue; when
  \<^verbatim>\<open>cntx_.run()\<close> has returned, or after the exception, it calls the orchestrator and ends.
\<close>

definition thread_fails :: "shard \<Rightarrow> shard" where
  "thread_fails sh = sh\<lparr>sh_work_guard := False, sh_stopped := True\<rparr>"

definition thread_closes :: "shard \<Rightarrow> shard" where
  "thread_closes sh = sh\<lparr>sh_closed := True\<rparr>"

text \<open>When \<^verbatim>\<open>cntx_.run()\<close> returns.\<close>

definition shard_thread_ends :: "shard \<Rightarrow> bool" where
  "shard_thread_ends sh \<longleftrightarrow> sh_stopped sh \<or> \<not> sh_work_guard sh \<and> sh_posted sh = []"

section \<open>Steps of a shard\<close>

inductive shard_step :: "shard \<Rightarrow> shard \<Rightarrow> bool" where
  sh_submit: "shard_step sh (snd (submit_work a sh))"
| sh_pull: "shard_step sh (schedule_metrics_pull sh)"
| sh_stop: "shard_step sh (shard_stop sh)"
| sh_run: "run_next sh = Some sh' \<Longrightarrow> shard_step sh sh'"
| sh_disconnect: "shard_step sh (session_disconnected sh)"
| sh_record: "shard_step sh (session_recorded m sh)"
| sh_timer: "shard_step sh (force_stop_fired sh)"

text \<open>The orchestrator starts each shard once, before it gives it work.\<close>

inductive shard_reachable :: "shard \<Rightarrow> bool" where
  sh_initial: "shard_reachable (shard_start new_shard)"
| sh_step: "shard_reachable sh \<Longrightarrow> shard_step sh sh' \<Longrightarrow> shard_reachable sh'"

text \<open>
  The guard is released exactly when the pool has notified, and then the timer is off. A
  closed pool that has not notified has the timer running: either way the thread can end.
\<close>

definition shard_inv :: "shard \<Rightarrow> bool" where
  "shard_inv sh \<longleftrightarrow>
     (sh_work_guard sh \<longleftrightarrow> po_notified (sh_pool sh) = 0)
     \<and> (sh_stop_timer sh \<longleftrightarrow> po_closed (sh_pool sh) \<and> po_notified (sh_pool sh) = 0)
     \<and> (po_notified (sh_pool sh) > 0 \<longrightarrow> po_closed (sh_pool sh))"

lemma handle_action_closed:
  assumes "handle_action a p = Some q"
  shows "po_closed q = po_closed p" "po_notified q = po_notified p"
proof -
  have "po_closed q = po_closed p \<and> po_notified q = po_notified p"
    using assms
    by (cases "ad_type a")
      (auto simp: handle_action_def Let_def create_sessions_def start_sessions_range_def send_sessions_range_def
        flood_sessions_range_def drain_sessions_range_def stop_sessions_range_def
        dest!: post_calls_other split: if_splits)
  then show "po_closed q = po_closed p" "po_notified q = po_notified p" by simp_all
qed

lemma shutdown_cases:
  assumes "shutdown p = Some q"
  shows "po_closed q" and "po_closed p \<Longrightarrow> q = p"
    and "\<not> po_closed p \<Longrightarrow> po_notified q = po_notified p + (if po_active p = 0 then 1 else 0)"
  using assms
  by (auto simp: shutdown_def stop_all_sessions_def stop_sessions_range_def notify_closed_def split: if_splits)

lemma run_task_inv:
  assumes "run_task t sh = Some sh'" "shard_inv sh"
    and "t = Task_Stop \<Longrightarrow> \<not> po_closed (sh_pool sh)"
  shows "shard_inv sh'"
proof (cases t)
  case (Task_Action a)
  then obtain q where q: "handle_action a (sh_pool sh) = Some q" "sh' = set_pool q sh"
    using assms(1) by (auto simp: run_task_def)
  show ?thesis
    using assms(2) handle_action_closed [OF q(1)] q(2) by (simp add: shard_inv_def set_pool_def Let_def)
next
  case Task_Metrics
  then show ?thesis using assms(1,2) by (auto simp: run_task_def shard_inv_def record_metrics_def)
next
  case Task_Stop
  then obtain q where q: "shutdown (sh_pool sh) = Some q" "sh' = set_pool q (start_force_stop_timer sh)"
    using assms(1) by (auto simp: run_task_def start_force_stop_timer_def Let_def)
  show ?thesis
    using assms(2) assms(3) [OF Task_Stop] shutdown_cases [OF q(1)] q(2)
    by (auto simp: shard_inv_def set_pool_def start_force_stop_timer_def on_pool_closed_def Let_def)
qed

text \<open>\<^verbatim>\<open>stop\<close> posts at most one shutdown between two starts; the orchestrator starts a shard once.\<close>

definition stop_posted_once :: "shard \<Rightarrow> bool" where
  "stop_posted_once sh \<longleftrightarrow>
     count_list (sh_posted sh) Task_Stop + (if po_closed (sh_pool sh) then 1 else 0)
       + (if sh_running sh then 1 else 0) \<le> 1"

lemma handle_action_stop_once:
  "stop_posted_once sh \<Longrightarrow> handle_action a (sh_pool sh) = Some q \<Longrightarrow> stop_posted_once (set_pool q sh)"
  by (auto simp: stop_posted_once_def set_pool_def on_pool_closed_def Let_def dest: handle_action_closed)

lemma count_tasks_simps [simp]:
  "count_list (ts @ [Task_Action a]) Task_Stop = count_list ts Task_Stop"
  "count_list (ts @ [Task_Metrics]) Task_Stop = count_list ts Task_Stop"
  by simp_all

lemma run_next_stop_once:
  assumes "run_next sh = Some sh'" "stop_posted_once sh"
  shows "stop_posted_once sh'"
proof -
  obtain t ts where ts: "sh_posted sh = t # ts" "run_task t (sh\<lparr>sh_posted := ts\<rparr>) = Some sh'"
    using assms(1) by (auto simp: run_next_def split: list.splits)
  show ?thesis
  proof (cases t)
    case (Task_Action a)
    then obtain q where "handle_action a (sh_pool (sh\<lparr>sh_posted := ts\<rparr>)) = Some q"
      "sh' = set_pool q (sh\<lparr>sh_posted := ts\<rparr>)"
      using ts(2) by (auto simp: run_task_def)
    moreover have "stop_posted_once (sh\<lparr>sh_posted := ts\<rparr>)"
      using assms(2) ts(1) Task_Action by (simp add: stop_posted_once_def)
    ultimately show ?thesis using handle_action_stop_once by blast
  next
    case Task_Metrics
    then show ?thesis
      using ts assms(2) by (auto simp: run_task_def stop_posted_once_def record_metrics_def)
  next
    case Task_Stop
    then show ?thesis
      using ts assms(2) by (auto simp: run_task_def stop_posted_once_def set_pool_def on_pool_closed_def
          start_force_stop_timer_def Let_def dest!: shutdown_cases(1) split: if_splits)
  qed
qed

lemma run_next_inv:
  assumes "run_next sh = Some sh'" "stop_posted_once sh" "shard_inv sh"
  shows "shard_inv sh'"
proof -
  obtain t ts where ts: "sh_posted sh = t # ts" "run_task t (sh\<lparr>sh_posted := ts\<rparr>) = Some sh'"
    using assms(1) by (auto simp: run_next_def split: list.splits)
  show ?thesis
    using ts assms(2,3)
    by (intro run_task_inv [OF ts(2)]) (auto simp: shard_inv_def stop_posted_once_def split: if_splits)
qed

lemma shard_step_inv:
  assumes "shard_step sh sh'" "stop_posted_once sh \<and> shard_inv sh"
  shows "stop_posted_once sh' \<and> shard_inv sh'"
  using assms
proof (induction rule: shard_step.induct)
  case (sh_run sh sh')
  then show ?case using run_next_stop_once run_next_inv by blast
next
  case (sh_disconnect sh)
  then show ?case
    by (auto simp: session_disconnected_def disconnect_callback_def notify_closed_def set_pool_def
        on_pool_closed_def stop_posted_once_def shard_inv_def Let_def)
qed (auto simp: submit_work_def schedule_metrics_pull_def shard_stop_def force_stop_fired_def session_recorded_def
      stop_posted_once_def shard_inv_def)

lemma shard_reachable_inv: "shard_reachable sh \<Longrightarrow> stop_posted_once sh \<and> shard_inv sh"
proof (induction rule: shard_reachable.induct)
  case sh_initial
  then show ?case
    by (simp add: shard_start_def new_shard_def new_session_pool_def stop_posted_once_def shard_inv_def)
qed (rule shard_step_inv)

end
