(* ===== verification/Orchestrator.thy ===== *)
theory Orchestrator
  imports Shard
begin

text \<open>
  \<^verbatim>\<open>orchestrator/orchestrator.h\<close>: the division of the sessions among the shards, the
  distribution of an action to the shards it concerns, the dispatch loop, the rounds of
  metrics and the shutdown.

  Times are nanoseconds of the steady clock; an action's offset is in milliseconds. A
  division by a shard count of zero and a range read past the end of \<^verbatim>\<open>shard_ranges_\<close> are
  undefined behaviour: the result is \<open>None\<close>.
\<close>

section \<open>Dividing the sessions\<close>

text \<open>The loop of CREATE from shard \<open>i\<close> on, with \<open>n\<close> shards left, and the index where it ends.\<close>

fun split_loop :: "u32 \<Rightarrow> u32 \<Rightarrow> u32 \<Rightarrow> nat \<Rightarrow> u32 \<Rightarrow> (u32 \<times> u32) list \<times> u32" where
  "split_loop base rem i 0 start = ([], start)"
| "split_loop base rem i (Suc n) start =
     (let rem_distributed = (if i < rem then 1 else 0);
          cnt = base + rem_distributed;
          stop = start + cnt;
          (ranges, final) = split_loop base rem (i + 1) n stop
      in ((start, stop) # ranges, final))"

definition compute_shard_ranges :: "u32 \<Rightarrow> u32 \<Rightarrow> ((u32 \<times> u32) list \<times> u32) option" where
  "compute_shard_ranges N K =
     (if K = 0 then None else Some (split_loop (N div K) (N mod K) 0 (unat K) 0))"

text \<open>The action a shard gets, if its range meets the action's.\<close>

definition shard_action :: "action_descriptor \<Rightarrow> u32 \<times> u32 \<Rightarrow> action_descriptor option" where
  "shard_action action rng =
     (let lower = max (ad_start action) (fst rng);
          upper = min (ad_end action) (snd rng)
      in if lower \<ge> upper then None
         else
           let local_start = lower - fst rng; session_count = upper - lower
           in Some (action\<lparr>ad_start := local_start, ad_end := local_start + session_count\<rparr>))"

section \<open>The orchestrator's state\<close>

text \<open>The handlers that run on the orchestrator's thread, posted by itself, by a timer or by a shard.\<close>

datatype orc_task = Dispatch_Actions | Shutdown | Request_Metrics | Round_Complete | Last_Shard_Closed

record orchestrator =
  orc_actions :: "action_descriptor list"
  orc_current :: nat
  orc_startup :: int
  orc_shards :: "shard list"
  orc_ranges :: "(u32 \<times> u32) list"
  orc_shutdown :: bool
  orc_dispatch_timer :: "int option"
  orc_metrics_timer :: bool
  orc_active_shards :: u64
  orc_pending_pulls :: u64
  orc_rounds :: "metrics_aggregate list"
  orc_work_guard :: bool
  orc_log :: "string list"
  orc_posted :: "orc_task list"

definition post_task :: "orc_task \<Rightarrow> orchestrator \<Rightarrow> orchestrator" where
  "post_task t st = st\<lparr>orc_posted := orc_posted st @ [t]\<rparr>"

definition log_line :: "string \<Rightarrow> orchestrator \<Rightarrow> orchestrator" where
  "log_line msg st = st\<lparr>orc_log := orc_log st @ [msg]\<rparr>"

text \<open>The constructor reads the last action, which an empty list does not have.\<close>

definition new_orchestrator :: "action_descriptor list \<Rightarrow> nat \<Rightarrow> orchestrator option" where
  "new_orchestrator actions shard_count =
     (if actions = [] then None else Some
     \<lparr>orc_actions = actions, orc_current = 0, orc_startup = 0, orc_shards = replicate shard_count new_shard,
      orc_ranges = [], orc_shutdown = False, orc_dispatch_timer = None, orc_metrics_timer = False,
      orc_active_shards = of_nat shard_count, orc_pending_pulls = 0, orc_rounds = [], orc_work_guard = True,
      orc_log = [], orc_posted = []\<rparr>)"

definition schedule_metrics_snapshot :: "orchestrator \<Rightarrow> orchestrator" where
  "schedule_metrics_snapshot st = st\<lparr>orc_metrics_timer := True\<rparr>"

definition start_shards :: "int \<Rightarrow> orchestrator \<Rightarrow> orchestrator" where
  "start_shards now st =
     (let st = st\<lparr>orc_shards := map shard_start (orc_shards st), orc_startup := now\<rparr>;
          st = post_task Dispatch_Actions st
      in schedule_metrics_snapshot st)"

section \<open>Distributing an action\<close>

definition submit_to :: "nat \<Rightarrow> action_descriptor \<Rightarrow> orchestrator \<Rightarrow> orchestrator" where
  "submit_to k a st =
     (let (success, sh) = submit_work a (orc_shards st ! k);
          st = st\<lparr>orc_shards := (orc_shards st)[k := sh]\<rparr>
      in if \<not> success then log_line (''Tried to submit work to shard '' @ to_string k @ '' and failed!'') st
         else st)"

primrec distribute_loop :: "action_descriptor \<Rightarrow> nat list \<Rightarrow> orchestrator \<Rightarrow> orchestrator option" where
  "distribute_loop a [] st = Some st"
| "distribute_loop a (k # ks) st =
     (if k < length (orc_ranges st) then
        case shard_action a (orc_ranges st ! k) of
          None \<Rightarrow> distribute_loop a ks st
        | Some sa \<Rightarrow> distribute_loop a ks (submit_to k sa st)
      else None)"

definition distribute_action_to_shards :: "action_descriptor \<Rightarrow> orchestrator \<Rightarrow> orchestrator option" where
  "distribute_action_to_shards action st =
     (let ready =
        (if ad_type action = CREATE then
           case compute_shard_ranges (ad_count action) (of_nat (length (orc_shards st))) of
             None \<Rightarrow> None
           | Some (ranges, start) \<Rightarrow>
               let st = st\<lparr>orc_ranges := ranges\<rparr>
               in Some (if start \<noteq> ad_count action
                        then log_line (''Not all session index values were distributed! start: ''
                               @ to_string (unat start) @ '' count: '' @ to_string (unat (ad_count action))) st
                        else st)
         else Some st)
      in case ready of
           None \<Rightarrow> None
         | Some st \<Rightarrow> distribute_loop action [0..<length (orc_shards st)] st)"

section \<open>Shutdown\<close>

definition do_shutdown :: "orchestrator \<Rightarrow> orchestrator" where
  "do_shutdown st =
     (if orc_shutdown st then st
      else
        let st = st\<lparr>orc_shutdown := True, orc_dispatch_timer := None, orc_metrics_timer := False\<rparr>;
            st = log_line ''All actions executed, program will spin down.'' st
        in st\<lparr>orc_shards := map shard_stop (orc_shards st)\<rparr>)"

definition early_stop :: "orchestrator \<Rightarrow> orchestrator" where
  "early_stop st = post_task Shutdown st"

text \<open>Called on a shard's thread; the handler it posts for the last shard.\<close>

definition shard_exit_callback :: "orchestrator \<Rightarrow> orchestrator" where
  "shard_exit_callback st =
     (let remaining = orc_active_shards st - 1;
          st = st\<lparr>orc_active_shards := remaining\<rparr>
      in if remaining = 0 then post_task Last_Shard_Closed st else st)"

definition last_shard_closed :: "orchestrator \<Rightarrow> orchestrator" where
  "last_shard_closed st = st\<lparr>orc_work_guard := False, orc_dispatch_timer := None\<rparr>"

section \<open>The dispatch loop\<close>

definition target_time :: "orchestrator \<Rightarrow> action_descriptor \<Rightarrow> int" where
  "target_time st a = orc_startup st + ad_offset a * 1000000"

definition schedule_next_action :: "int \<Rightarrow> orchestrator \<Rightarrow> orchestrator" where
  "schedule_next_action deadline st = st\<lparr>orc_dispatch_timer := Some deadline\<rparr>"

text \<open>\<open>fuel\<close> bounds the loop: it runs at most once for each action not dispatched yet.\<close>

fun dispatch_loop :: "nat \<Rightarrow> int \<Rightarrow> orchestrator \<Rightarrow> orchestrator option" where
  "dispatch_loop 0 now st = None"
| "dispatch_loop (Suc fuel) now st =
     (if orc_current st < length (orc_actions st) then
        let action = orc_actions st ! orc_current st in
        if target_time st action > now then Some (schedule_next_action (target_time st action) st)
        else
          case distribute_action_to_shards action st of
            None \<Rightarrow> None
          | Some st \<Rightarrow> dispatch_loop fuel now (st\<lparr>orc_current := Suc (orc_current st)\<rparr>)
      else Some (do_shutdown st))"

definition dispatch_pending_actions :: "int \<Rightarrow> orchestrator \<Rightarrow> orchestrator option" where
  "dispatch_pending_actions now st =
     dispatch_loop (Suc (length (orc_actions st) - orc_current st)) now st"

section \<open>Rounds of metrics\<close>

definition do_request_metrics :: "orchestrator \<Rightarrow> orchestrator" where
  "do_request_metrics st =
     st\<lparr>orc_pending_pulls := of_nat (length (orc_shards st)),
        orc_shards := map schedule_metrics_pull (orc_shards st)\<rparr>"

definition on_metrics_round_complete :: "orchestrator \<Rightarrow> orchestrator" where
  "on_metrics_round_complete st =
     (let st = st\<lparr>orc_rounds := orc_rounds st @ [get_aggregate_delta (map sh_history (orc_shards st))]\<rparr>
      in schedule_metrics_snapshot st)"

text \<open>Called on a shard's thread after it has written its snapshot.\<close>

definition shard_metrics_callback :: "orchestrator \<Rightarrow> orchestrator" where
  "shard_metrics_callback st =
     (let remaining = orc_pending_pulls st - 1;
          st = st\<lparr>orc_pending_pulls := remaining\<rparr>
      in if remaining = 0 then post_task Round_Complete st else st)"

section \<open>The orchestrator's thread\<close>

text \<open>
  A timer that expires queues its handler; cancelling it later does not take the handler back.
  The handlers of cancelled waits return at once and are not represented.
\<close>

definition dispatch_timer_expired :: "orchestrator \<Rightarrow> orchestrator" where
  "dispatch_timer_expired st = post_task Dispatch_Actions (st\<lparr>orc_dispatch_timer := None\<rparr>)"

definition metrics_timer_expired :: "orchestrator \<Rightarrow> orchestrator" where
  "metrics_timer_expired st = post_task Request_Metrics (st\<lparr>orc_metrics_timer := False\<rparr>)"

definition run_orc_task :: "int \<Rightarrow> orc_task \<Rightarrow> orchestrator \<Rightarrow> orchestrator option" where
  "run_orc_task now t st =
     (case t of
        Dispatch_Actions \<Rightarrow> dispatch_pending_actions now st
      | Shutdown \<Rightarrow> Some (do_shutdown st)
      | Request_Metrics \<Rightarrow> Some (do_request_metrics st)
      | Round_Complete \<Rightarrow> Some (on_metrics_round_complete st)
      | Last_Shard_Closed \<Rightarrow> Some (last_shard_closed st))"

definition run_orc_next :: "int \<Rightarrow> orchestrator \<Rightarrow> orchestrator option" where
  "run_orc_next now st =
     (case orc_posted st of [] \<Rightarrow> None | t # ts \<Rightarrow> run_orc_task now t (st\<lparr>orc_posted := ts\<rparr>))"

text \<open>When \<^verbatim>\<open>cntx_.run()\<close> returns, and \<^verbatim>\<open>start\<close> after it has joined every shard.\<close>

definition orc_thread_idle :: "orchestrator \<Rightarrow> bool" where
  "orc_thread_idle st \<longleftrightarrow>
     \<not> orc_work_guard st \<and> orc_posted st = [] \<and> orc_dispatch_timer st = None \<and> \<not> orc_metrics_timer st"

definition start_returns :: "orchestrator \<Rightarrow> bool" where
  "start_returns st \<longleftrightarrow> orc_thread_idle st \<and> (\<forall>sh \<in> set (orc_shards st). sh_closed sh)"

section \<open>The ranges partition the sessions\<close>

text \<open>Where the range of shard \<open>k\<close> starts.\<close>

definition cut :: "nat \<Rightarrow> nat \<Rightarrow> nat \<Rightarrow> nat" where
  "cut N K k = k * (N div K) + min k (N mod K)"

lemma cut_0 [simp]: "cut N K 0 = 0"
  by (simp add: cut_def)

lemma cut_K: "0 < K \<Longrightarrow> cut N K K = N"
proof -
  assume "0 < K"
  then have "min K (N mod K) = N mod K" by (simp add: min.absorb2 less_imp_le)
  then show ?thesis by (simp add: cut_def)
qed

lemma cut_Suc: "cut N K (Suc k) = cut N K k + N div K + (if k < N mod K then 1 else 0)"
  by (simp add: cut_def)

lemma cut_mono: "j \<le> k \<Longrightarrow> cut N K j \<le> cut N K k"
  unfolding cut_def by (intro add_mono mult_le_mono1 min.mono) simp_all

lemma cut_le: "0 < K \<Longrightarrow> k \<le> K \<Longrightarrow> cut N K k \<le> N"
  using cut_mono [of k K N K] cut_K [of K N] by simp

lemma split_loop_cut:
  assumes "k + n = unat K" "K \<noteq> 0"
  shows "split_loop (N div K) (N mod K) (of_nat k) n (of_nat (cut (unat N) (unat K) k)) =
    (map (\<lambda>j. (of_nat (cut (unat N) (unat K) j), of_nat (cut (unat N) (unat K) (Suc j)))) [k..<k + n],
     of_nat (cut (unat N) (unat K) (k + n)))"
  using assms
proof (induction n arbitrary: k)
  case (Suc n)
  let ?c = "\<lambda>k. cut (unat N) (unat K) k"
  have k: "k < unat K" using Suc.prems by simp
  then have "unat (of_nat k :: u32) = k"
    using order_less_trans [OF k unat_u32_less] by (simp add: unat_of_nat)
  then have lt: "(of_nat k :: u32) < N mod K \<longleftrightarrow> k < unat N mod unat K"
    by (simp add: word_less_nat_alt unat_mod)
  have "(of_nat (?c k) :: u32) + (N div K + (if (of_nat k :: u32) < N mod K then 1 else 0)) = of_nat (?c (Suc k))"
    unfolding lt cut_Suc by (simp flip: word_arith_nat_div)
  moreover have "(of_nat k :: u32) + 1 = of_nat (Suc k)" by simp
  moreover have "[k..<Suc k + n] = k # [Suc k..<Suc k + n]"
    by (simp add: upt_conv_Cons del: upt_Suc)
  moreover have "Suc k + n = unat K" using Suc.prems(1) by simp
  note Suc.IH [OF this Suc.prems(2)]
  moreover have "k + Suc n = Suc k + n" by simp
  ultimately show ?case
    unfolding \<open>k + Suc n = Suc k + n\<close> by (simp add: Let_def del: upt_Suc of_nat_Suc add_Suc add_Suc_right)
qed simp

lemma compute_shard_ranges_cut:
  assumes "K \<noteq> 0"
  shows "compute_shard_ranges N K =
    Some (map (\<lambda>j. (of_nat (cut (unat N) (unat K) j), of_nat (cut (unat N) (unat K) (Suc j)))) [0..<unat K], N)"
proof -
  have "0 < unat K" using assms by (simp add: unat_gt_0)
  then show ?thesis
    using split_loop_cut [of 0 "unat K" K N] assms by (simp add: compute_shard_ranges_def cut_K)
qed

text \<open>The part of an action a shard gets, read back as global indices.\<close>

lemma shard_action_bounds:
  assumes "a \<le> b" "b < 2 ^ 32"
  shows "shard_action action (of_nat a, of_nat b) =
    (if max (unat (ad_start action)) a < min (unat (ad_end action)) b
     then Some (action\<lparr>ad_start := of_nat (max (unat (ad_start action)) a - a),
                       ad_end := of_nat (min (unat (ad_end action)) b - a)\<rparr>)
     else None)"
proof -
  let ?lo = "max (unat (ad_start action)) a" and ?hi = "min (unat (ad_end action)) b"
  have nat_ab: "unat (of_nat a :: u32) = a" "unat (of_nat b :: u32) = b"
    using assms by (simp_all add: unat_of_nat)
  have lo: "max (ad_start action) (of_nat a) = of_nat ?lo"
    using nat_ab by (auto simp: max_def word_le_nat_alt)
  have hi: "min (ad_end action) (of_nat b) = of_nat ?hi"
    using nat_ab by (auto simp: min_def word_le_nat_alt)
  have "?lo < 2 ^ 32" "?hi < 2 ^ 32" using assms by (auto simp: max_def min_def)
  then have lt: "(of_nat ?lo :: u32) \<ge> of_nat ?hi \<longleftrightarrow> \<not> ?lo < ?hi"
    by (simp add: word_le_nat_alt unat_of_nat not_less del: min_less_iff_conj max_less_iff_conj
        min_le_iff_disj le_max_iff_disj min.bounded_iff max.bounded_iff)
  have "(of_nat ?lo :: u32) - of_nat a = of_nat (?lo - a)" by (simp add: of_nat_diff)
  moreover have "(of_nat (?lo - a) :: u32) + (of_nat ?hi - of_nat ?lo) = of_nat (?hi - a)" if "?lo < ?hi"
  proof -
    have "?hi - a = (?lo - a) + (?hi - ?lo)" using that by simp
    then show ?thesis using that by (simp only: of_nat_add of_nat_diff [OF less_imp_le])
  qed
  ultimately show ?thesis
    by (simp only: shard_action_def Let_def fst_conv snd_conv lo hi lt) simp
qed

definition shard_serves :: "action_descriptor \<Rightarrow> (u32 \<times> u32) list \<Rightarrow> nat \<Rightarrow> nat \<Rightarrow> bool" where
  "shard_serves action ranges k j \<longleftrightarrow>
     (case shard_action action (ranges ! k) of
        None \<Rightarrow> False
      | Some sa \<Rightarrow>
          unat (fst (ranges ! k)) + unat (ad_start sa) \<le> j \<and> j < unat (fst (ranges ! k)) + unat (ad_end sa))"

lemma shard_serves_iff:
  assumes "compute_shard_ranges N K = Some (ranges, final)" "k < unat K"
  shows "shard_serves action ranges k j \<longleftrightarrow>
     unat (ad_start action) \<le> j \<and> j < unat (ad_end action)
     \<and> cut (unat N) (unat K) k \<le> j \<and> j < cut (unat N) (unat K) (Suc k)"
proof -
  let ?a = "cut (unat N) (unat K) k" and ?b = "cut (unat N) (unat K) (Suc k)"
  have K: "K \<noteq> 0" using assms(2) by auto
  then have "ranges = map (\<lambda>j. (of_nat (cut (unat N) (unat K) j), of_nat (cut (unat N) (unat K) (Suc j)))) [0..<unat K]"
    using compute_shard_ranges_cut [OF K, of N] assms(1) by simp
  then have r: "ranges ! k = (of_nat ?a, of_nat ?b)" using assms(2) by simp
  have ab: "?a \<le> ?b" "?b \<le> unat N"
    using cut_mono [of k "Suc k"] cut_le [of "unat K" "Suc k"] assms(2) by auto
  then have b: "?b < 2 ^ 32" using order_le_less_trans [OF ab(2) unat_u32_less] by simp
  then have "unat (of_nat ?a :: u32) = ?a"
    using ab(1) by (simp add: unat_of_nat)
  moreover have "unat (of_nat (x - ?a) :: u32) = x - ?a" if "x \<le> ?b" for x
    using that b by (simp add: unat_of_nat del: of_nat_diff)
  moreover have "unat (of_nat (max (unat (ad_start action)) ?a - ?a) :: u32) = max (unat (ad_start action)) ?a - ?a"
    using b ab(1) unat_u32_less [of "ad_start action"] by (simp add: unat_of_nat max_def less_imp_diff_less del: of_nat_diff)
  ultimately show ?thesis
    unfolding shard_serves_def r using shard_action_bounds [OF ab(1) b, of action]
    by (auto simp: less_diff_conv2 simp del: of_nat_diff)
qed

lemma cut_cover:
  assumes "j < cut N K n"
  shows "\<exists>k < n. cut N K k \<le> j \<and> j < cut N K (Suc k)"
  using assms
proof (induction n)
  case (Suc n)
  then show ?case by (cases "j < cut N K n") (auto intro: less_SucI simp: not_less)
qed simp

lemma cut_disjoint:
  assumes "cut N K k \<le> j" "j < cut N K (Suc k)" "cut N K k' \<le> j" "j < cut N K (Suc k')"
  shows "k = k'"
proof (rule ccontr)
  assume "k \<noteq> k'"
  then consider "Suc k \<le> k'" | "Suc k' \<le> k" by linarith
  then show False
    using assms cut_mono [of "Suc k" k' N K] cut_mono [of "Suc k'" k N K] by cases auto
qed

lemma one_shard_serves:
  assumes "compute_shard_ranges N K = Some (ranges, final)"
    and "unat (ad_start action) \<le> j" "j < unat (ad_end action)" "ad_end action \<le> N"
  shows "\<exists>!k. k < unat K \<and> shard_serves action ranges k j"
proof -
  have K: "K \<noteq> 0" using assms(1) by (auto simp: compute_shard_ranges_def split: if_splits)
  then have "cut (unat N) (unat K) (unat K) = unat N" by (simp add: cut_K unat_gt_0)
  moreover have "j < unat N" using assms(3,4) by (simp add: word_le_nat_alt)
  ultimately obtain k where k: "k < unat K" "cut (unat N) (unat K) k \<le> j" "j < cut (unat N) (unat K) (Suc k)"
    using cut_cover [of j "unat N" "unat K" "unat K"] by auto
  show ?thesis
  proof (rule ex1I [of _ k])
    show "k < unat K \<and> shard_serves action ranges k j"
      using shard_serves_iff [OF assms(1) k(1)] k assms(2,3) by simp
    show "k' = k" if "k' < unat K \<and> shard_serves action ranges k' j" for k'
      using shard_serves_iff [OF assms(1), of k'] that k cut_disjoint by blast
  qed
qed

end
