(* ===== verification/Dispatch.thy ===== *)
theory Dispatch
  imports Orchestrator
begin

text \<open>
  What the dispatch loop does. The specification is a function from the actions to the work
  each shard gets: the loop hands out the actions that are due, in order and each once, and
  then waits for the next one or shuts down.
\<close>

section \<open>The work of one action\<close>

definition action_work :: "action_descriptor \<Rightarrow> u32 \<times> u32 \<Rightarrow> shard_task list" where
  "action_work a rng = (case shard_action a rng of None \<Rightarrow> [] | Some sa \<Rightarrow> [Task_Action sa])"

definition ranges_after :: "nat \<Rightarrow> action_descriptor \<Rightarrow> (u32 \<times> u32) list \<Rightarrow> (u32 \<times> u32) list" where
  "ranges_after K a rs =
     (if ad_type a = CREATE then fst (the (compute_shard_ranges (ad_count a) (of_nat K))) else rs)"

fun shard_work :: "nat \<Rightarrow> nat \<Rightarrow> action_descriptor list \<Rightarrow> (u32 \<times> u32) list \<Rightarrow> shard_task list" where
  "shard_work K k [] rs = []"
| "shard_work K k (a # as) rs =
     action_work a (ranges_after K a rs ! k) @ shard_work K k as (ranges_after K a rs)"

definition give_work :: "shard_task list \<Rightarrow> shard \<Rightarrow> shard" where
  "give_work ts sh = sh\<lparr>sh_posted := sh_posted sh @ ts\<rparr>"

lemma give_work_simps [simp]:
  "sh_running (give_work ts sh) = sh_running sh" "give_work [] sh = sh"
  "give_work us (give_work ts sh) = give_work (ts @ us) sh"
  by (simp_all add: give_work_def)

text \<open>The shards after each has got its part of the work.\<close>

definition give_all :: "(nat \<Rightarrow> shard_task list) \<Rightarrow> shard list \<Rightarrow> shard list" where
  "give_all f shs = map (\<lambda>k. give_work (f k) (shs ! k)) [0..<length shs]"

lemma give_all_simps [simp]:
  "length (give_all f shs) = length shs"
  "k < length shs \<Longrightarrow> give_all f shs ! k = give_work (f k) (shs ! k)"
  by (simp_all add: give_all_def)

lemma give_all_twice: "give_all g (give_all f shs) = give_all (\<lambda>k. f k @ g k) shs"
  by (rule nth_equalityI) simp_all

lemma give_all_Nil: "give_all (\<lambda>k. []) shs = shs"
  by (rule nth_equalityI) simp_all

lemma give_all_cong: "(\<And>k. k < length shs \<Longrightarrow> f k = g k) \<Longrightarrow> give_all f shs = give_all g shs"
  by (simp add: give_all_def)

section \<open>Distributing one action\<close>

text \<open>A shard that is no longer running refuses its part, and the orchestrator logs it.\<close>

definition accepted :: "shard \<Rightarrow> shard_task list \<Rightarrow> shard_task list" where
  "accepted sh ts = (if sh_running sh then ts else [])"

lemma accepted_simps [simp]:
  "accepted sh [] = []" "accepted (give_work us sh) ts = accepted sh ts"
  "accepted sh (ts @ us) = accepted sh ts @ accepted sh us"
  by (simp_all add: accepted_def)

lemma submit_to_gives:
  "\<exists>lg. submit_to k sa st =
    st\<lparr>orc_shards := (orc_shards st)[k := give_work (accepted (orc_shards st ! k) [Task_Action sa]) (orc_shards st ! k)],
       orc_log := lg\<rparr>"
proof (cases "sh_running (orc_shards st ! k)")
  case True
  then show ?thesis
    by (intro exI [of _ "orc_log st"]) (simp add: submit_to_def submit_work_def give_work_def accepted_def)
next
  case False
  then have "submit_to k sa st = st\<lparr>orc_log := orc_log st @ [''Tried to submit work to shard '' @ to_string k @ '' and failed!'']\<rparr>"
    by (simp add: submit_to_def submit_work_def log_line_def)
  then show ?thesis using False by (simp add: accepted_def, blast)
qed

lemma give_all_update:
  assumes "k < length shs" "k \<notin> set ks"
  shows "give_all (\<lambda>j. if j \<in> set ks then f j else []) (shs[k := give_work (f k) (shs ! k)])
    = give_all (\<lambda>j. if j \<in> set (k # ks) then f j else []) shs"
  using assms by (intro nth_equalityI) (auto simp: nth_list_update)

definition part_given :: "orchestrator \<Rightarrow> action_descriptor \<Rightarrow> nat \<Rightarrow> shard_task list" where
  "part_given st a k = accepted (orc_shards st ! k) (action_work a (orc_ranges st ! k))"

lemma distribute_loop_gives:
  assumes "\<forall>k \<in> set ks. k < length (orc_ranges st) \<and> k < length (orc_shards st)" "distinct ks"
  shows "\<exists>lg. distribute_loop a ks st =
    Some (st\<lparr>orc_shards := give_all (\<lambda>k. if k \<in> set ks then part_given st a k else []) (orc_shards st), orc_log := lg\<rparr>)"
  using assms
proof (induction ks arbitrary: st)
  case Nil
  then show ?case by (intro exI [of _ "orc_log st"]) (simp add: give_all_Nil)
next
  case (Cons k ks)
  have k: "k < length (orc_shards st)" "k < length (orc_ranges st)" "k \<notin> set ks" using Cons.prems by auto
  let ?shards = "(orc_shards st)[k := give_work (part_given st a k) (orc_shards st ! k)]"
  have "\<exists>lg. distribute_loop a (k # ks) st = distribute_loop a ks (st\<lparr>orc_shards := ?shards, orc_log := lg\<rparr>)"
  proof (cases "shard_action a (orc_ranges st ! k)")
    case None
    then show ?thesis using k by (intro exI [of _ "orc_log st"]) (simp add: part_given_def action_work_def)
  next
    case (Some sa)
    then show ?thesis using k submit_to_gives [of k sa st] by (auto simp: part_given_def action_work_def)
  qed
  then obtain lg where step: "distribute_loop a (k # ks) st = distribute_loop a ks (st\<lparr>orc_shards := ?shards, orc_log := lg\<rparr>)"
    by blast
  have same: "part_given (st\<lparr>orc_shards := ?shards, orc_log := lg\<rparr>) a j = part_given st a j" for j
    using k(1) by (cases "j = k") (simp_all add: part_given_def)
  have "\<exists>lg'. distribute_loop a ks (st\<lparr>orc_shards := ?shards, orc_log := lg\<rparr>) =
      Some (st\<lparr>orc_shards := give_all (\<lambda>j. if j \<in> set ks then part_given st a j else []) ?shards, orc_log := lg'\<rparr>)"
    using Cons.IH [of "st\<lparr>orc_shards := ?shards, orc_log := lg\<rparr>"] Cons.prems by (simp add: same cong: if_cong)
  then show ?case using step give_all_update [OF k(1,3), of "part_given st a"] by (simp cong: if_cong)
qed

lemma compute_shard_ranges_total:
  assumes "0 < K" "K < 2 ^ 32"
  obtains rs where "compute_shard_ranges N (of_nat K) = Some (rs, N)" "length rs = K"
proof -
  have "(of_nat K :: u32) \<noteq> 0" "unat (of_nat K :: u32) = K"
    using assms by (simp_all add: unat_of_nat word_unat_eq_iff)
  then show thesis using compute_shard_ranges_cut [of "of_nat K" N] that by simp
qed

text \<open>The ranges a shard's part is computed from exist: by then, or by the action itself.\<close>

definition ranges_ready :: "orchestrator \<Rightarrow> action_descriptor \<Rightarrow> bool" where
  "ranges_ready st a \<longleftrightarrow> ad_type a = CREATE \<or> length (orc_ranges st) = length (orc_shards st)"

text \<open>The shards after a sequence of actions has been handed out.\<close>

definition work_given :: "action_descriptor list \<Rightarrow> orchestrator \<Rightarrow> shard list" where
  "work_given acts st =
     give_all (\<lambda>k. accepted (orc_shards st ! k) (shard_work (length (orc_shards st)) k acts (orc_ranges st))) (orc_shards st)"

lemma distribute_action_gives:
  assumes "0 < length (orc_shards st)" "length (orc_shards st) < 2 ^ 32" "ranges_ready st a"
  defines "rs \<equiv> ranges_after (length (orc_shards st)) a (orc_ranges st)"
  shows "\<exists>lg. distribute_action_to_shards a st =
      Some (st\<lparr>orc_ranges := rs,
              orc_shards := give_all (\<lambda>k. accepted (orc_shards st ! k) (action_work a (rs ! k))) (orc_shards st),
              orc_log := lg\<rparr>)"
    and "length rs = length (orc_shards st)"
proof -
  let ?K = "length (orc_shards st)"
  obtain rs' where rs': "compute_shard_ranges (ad_count a) (of_nat ?K) = Some (rs', ad_count a)" "length rs' = ?K"
    using compute_shard_ranges_total [OF assms(1,2)] by metis
  have rs: "rs = (if ad_type a = CREATE then rs' else orc_ranges st)"
    by (simp add: rs_def ranges_after_def rs')
  show len: "length rs = ?K" using assms(3) rs'(2) by (auto simp: rs ranges_ready_def)
  have start: "distribute_action_to_shards a st = distribute_loop a [0..<?K] (st\<lparr>orc_ranges := rs\<rparr>)"
    by (simp add: distribute_action_to_shards_def Let_def rs' rs)
  have "\<forall>k \<in> set [0..<?K]. k < length (orc_ranges (st\<lparr>orc_ranges := rs\<rparr>)) \<and> k < length (orc_shards (st\<lparr>orc_ranges := rs\<rparr>))"
    using len by simp
  then obtain lg where "distribute_loop a [0..<?K] (st\<lparr>orc_ranges := rs\<rparr>) = Some ((st\<lparr>orc_ranges := rs\<rparr>)
      \<lparr>orc_shards := give_all (\<lambda>k. if k \<in> set [0..<?K] then part_given (st\<lparr>orc_ranges := rs\<rparr>) a k else []) (orc_shards st),
       orc_log := lg\<rparr>)"
    using distribute_loop_gives [of "[0..<?K]" "st\<lparr>orc_ranges := rs\<rparr>" a] by auto
  moreover have "give_all (\<lambda>k. if k \<in> set [0..<?K] then part_given (st\<lparr>orc_ranges := rs\<rparr>) a k else []) (orc_shards st) =
      give_all (\<lambda>k. accepted (orc_shards st ! k) (action_work a (rs ! k))) (orc_shards st)"
    by (rule give_all_cong) (simp add: part_given_def)
  ultimately show "\<exists>lg. distribute_action_to_shards a st =
      Some (st\<lparr>orc_ranges := rs,
              orc_shards := give_all (\<lambda>k. accepted (orc_shards st ! k) (action_work a (rs ! k))) (orc_shards st),
              orc_log := lg\<rparr>)"
    unfolding start by auto
qed

lemma work_given_simps [simp]:
  "length (work_given acts st) = length (orc_shards st)"
  "k < length (orc_shards st) \<Longrightarrow> work_given acts st ! k = give_work (accepted (orc_shards st ! k)
     (shard_work (length (orc_shards st)) k acts (orc_ranges st))) (orc_shards st ! k)"
  "work_given [] st = orc_shards st"
  by (simp_all add: work_given_def give_all_Nil)

lemma work_given_Cons:
  assumes "rs = ranges_after (length (orc_shards st)) a (orc_ranges st)"
    and "shs = give_all (\<lambda>k. accepted (orc_shards st ! k) (action_work a (rs ! k))) (orc_shards st)"
  shows "work_given acts (st\<lparr>orc_ranges := rs, orc_shards := shs, orc_log := lg, orc_current := c\<rparr>) =
    work_given (a # acts) st"
  using assms by (intro nth_equalityI) simp_all

section \<open>The loop\<close>

text \<open>
  The outcome of a dispatch at \<open>now\<close>: \<open>m\<close> more actions have been handed out, each due, and
  the loop waits for the next one, which is not, or has shut the shards down.
\<close>

definition dispatched :: "int \<Rightarrow> nat \<Rightarrow> orchestrator \<Rightarrow> orchestrator \<Rightarrow> bool" where
  "dispatched now m st st' \<longleftrightarrow>
     (let acts = take m (drop (orc_current st) (orc_actions st)); c = orc_current st + m;
          K = length (orc_shards st)
      in (\<forall>a \<in> set acts. target_time st a \<le> now) \<and> c \<le> length (orc_actions st)
         \<and> (\<exists>lg. let st1 = st\<lparr>orc_ranges := fold (ranges_after K) acts (orc_ranges st),
                          orc_shards := work_given acts st, orc_log := lg, orc_current := c\<rparr>
             in (c < length (orc_actions st) \<longrightarrow> target_time st (orc_actions st ! c) > now
                  \<and> st' = schedule_next_action (target_time st (orc_actions st ! c)) st1)
              \<and> (c = length (orc_actions st) \<longrightarrow> st' = do_shutdown st1)))"

lemma dispatchedE:
  assumes "dispatched now m st st'"
  obtains acts c lg st1 where "acts = take m (drop (orc_current st) (orc_actions st))" "c = orc_current st + m"
    "c \<le> length (orc_actions st)" "\<forall>a \<in> set acts. target_time st a \<le> now"
    "st1 = st\<lparr>orc_ranges := fold (ranges_after (length (orc_shards st))) acts (orc_ranges st),
               orc_shards := work_given acts st, orc_log := lg, orc_current := c\<rparr>"
    "c < length (orc_actions st) \<Longrightarrow> target_time st (orc_actions st ! c) > now"
    "c < length (orc_actions st) \<Longrightarrow> st' = schedule_next_action (target_time st (orc_actions st ! c)) st1"
    "c = length (orc_actions st) \<Longrightarrow> st' = do_shutdown st1"
  using assms unfolding dispatched_def Let_def by blast

lemma dispatch_loop_dispatches:
  assumes "0 < length (orc_shards st)" "length (orc_shards st) < 2 ^ 32" "orc_current st \<le> length (orc_actions st)"
    and "orc_current st < length (orc_actions st) \<Longrightarrow> ranges_ready st (orc_actions st ! orc_current st)"
    and "length (orc_actions st) - orc_current st < fuel"
  shows "\<exists>m st'. dispatch_loop fuel now st = Some st' \<and> dispatched now m st st'"
  using assms
proof (induction fuel arbitrary: st)
  case (Suc fuel)
  let ?acts = "orc_actions st" and ?c = "orc_current st" and ?K = "length (orc_shards st)"
  show ?case
  proof (cases "?c < length ?acts")
    case False
    then have "length ?acts = ?c" using Suc.prems(3) by simp
    then have "dispatched now 0 st (do_shutdown st)"
      by (auto simp: dispatched_def Let_def intro!: exI [of _ "orc_log st"])
    then show ?thesis using False by auto
  next
    case c: True
    let ?a = "?acts ! ?c"
    show ?thesis
    proof (cases "target_time st ?a > now")
      case True
      then have "dispatched now 0 st (schedule_next_action (target_time st ?a) st)"
        using c by (auto simp: dispatched_def Let_def intro!: exI [of _ "orc_log st"])
      then show ?thesis using c True by (auto simp: Let_def)
    next
      case False
      define rs where "rs = ranges_after ?K ?a (orc_ranges st)"
      define shs where "shs = give_all (\<lambda>k. accepted (orc_shards st ! k) (action_work ?a (rs ! k))) (orc_shards st)"
      obtain lg where one: "distribute_action_to_shards ?a st = Some (st\<lparr>orc_ranges := rs, orc_shards := shs, orc_log := lg\<rparr>)"
        and len: "length rs = ?K"
        using distribute_action_gives [OF Suc.prems(1,2) Suc.prems(4) [OF c]] unfolding shs_def rs_def by blast
      let ?st = "st\<lparr>orc_ranges := rs, orc_shards := shs, orc_log := lg, orc_current := Suc ?c\<rparr>"
      have step: "dispatch_loop (Suc fuel) now st = dispatch_loop fuel now ?st"
        using c False one by (simp add: Let_def)
      have shs: "length shs = ?K" by (simp add: shs_def)
      have "\<exists>m st'. dispatch_loop fuel now ?st = Some st' \<and> dispatched now m ?st st'"
        using Suc.prems c len shs by (intro Suc.IH) (auto simp: ranges_ready_def)
      then obtain m st' where m: "dispatch_loop fuel now ?st = Some st'" "dispatched now m ?st st'" by blast
      have acts: "take (Suc m) (drop ?c ?acts) = ?a # take m (drop (Suc ?c) ?acts)"
        using c by (simp flip: Cons_nth_drop_Suc)
      define later where "later = take m (drop (Suc ?c) ?acts)"
      have given: "work_given later ?st = work_given (?a # later) st"
        by (rule work_given_Cons) (simp_all add: rs_def shs_def)
      obtain lg' st1 where m': "?c + Suc m \<le> length ?acts" "\<forall>a \<in> set later. target_time st a \<le> now"
          "st1 = ?st\<lparr>orc_ranges := fold (ranges_after ?K) later rs, orc_shards := work_given (?a # later) st,
                 orc_log := lg', orc_current := ?c + Suc m\<rparr>"
          "?c + Suc m < length ?acts \<Longrightarrow> target_time st (?acts ! (?c + Suc m)) > now"
          "?c + Suc m < length ?acts \<Longrightarrow> st' = schedule_next_action (target_time st (?acts ! (?c + Suc m))) st1"
          "?c + Suc m = length ?acts \<Longrightarrow> st' = do_shutdown st1"
        using dispatchedE [OF m(2)] by (simp add: later_def [symmetric] given shs target_time_def) metis
      have "dispatched now (Suc m) st st'"
        using m' False unfolding dispatched_def Let_def acts later_def [symmetric]
        by (intro conjI exI [of _ lg']) (simp_all add: rs_def)
      then show ?thesis using step m(1) by metis
    qed
  qed
qed simp

end
