(* ===== verification/Calls.thy ===== *)
theory Calls
  imports Dispatch
begin

text \<open>
  What becomes of the work of a shard: the calls each session of its pool gets. The
  specification reads them off the plan's actions: a session gets one call for every action
  whose range holds its global index, in the order of the actions.
\<close>

section \<open>The calls of one action\<close>

text \<open>The call an action makes of a session.\<close>

fun call_of :: "action_descriptor \<Rightarrow> pool_call" where
  "call_of a = (case ad_type a of
     SEND \<Rightarrow> Call_Send (ucast (ad_count a)) | FLOOD \<Rightarrow> Call_Flood | DRAIN \<Rightarrow> Call_Drain
   | DISCONNECT \<Rightarrow> Call_Stop | _ \<Rightarrow> Call_Start)"

lemma unat_ucast_u32_u64: "unat (ucast (w :: u32) :: u64) = unat w"
  by transfer (simp add: take_bit_nat_eq_self_iff nat_take_bit_eq take_bit_take_bit)

lemma handle_action_posts:
  assumes "ad_type a \<noteq> CREATE" "\<not> po_closed p"
  shows "\<exists>x. handle_action a p = post_calls (call_of a) [unat (ad_start a)..<unat (ad_end a)] (p\<lparr>po_active := x\<rparr>)"
proof (cases "ad_type a = CONNECT")
  case True
  then show ?thesis
    using assms by (auto simp: handle_action_def start_sessions_range_def unat_ucast_u32_u64)
next
  case False
  have "handle_action a p = post_calls (call_of a) [unat (ad_start a)..<unat (ad_end a)] (p\<lparr>po_active := po_active p\<rparr>)"
    using assms False
    by (cases "ad_type a") (simp_all add: handle_action_def send_sessions_range_def flood_sessions_range_def
        drain_sessions_range_def stop_sessions_range_def unat_ucast_u32_u64)
  then show ?thesis by blast
qed

text \<open>The inboxes of a pool after an action, and the condition that it stays inside them.\<close>

definition post_part :: "action_descriptor \<Rightarrow> pool_call list list \<Rightarrow> pool_call list list" where
  "post_part a xs =
     (if ad_type a = CREATE
      then if xs \<noteq> [] then xs else replicate (unat (ad_end a - ad_start a)) []
      else map (\<lambda>i. xs ! i @ (if unat (ad_start a) \<le> i \<and> i < unat (ad_end a) then [call_of a] else [])) [0..<length xs])"

definition part_fits :: "action_descriptor \<Rightarrow> pool_call list list \<Rightarrow> bool" where
  "part_fits a xs \<longleftrightarrow> ad_type a = CREATE \<or> unat (ad_end a) \<le> length xs"

lemma handle_action_part:
  assumes "\<not> po_closed p" "part_fits a (po_sessions p)"
  shows "\<exists>q. handle_action a p = Some q \<and> po_sessions q = post_part a (po_sessions p) \<and> \<not> po_closed q
    \<and> po_notified q = po_notified p"
proof (cases "ad_type a = CREATE")
  case True
  then show ?thesis
    using assms(1) by (auto simp: handle_action_def create_sessions_def post_part_def unat_ucast_u32_u64)
next
  case False
  obtain x where x: "handle_action a p =
      post_calls (call_of a) [unat (ad_start a)..<unat (ad_end a)] (p\<lparr>po_active := x\<rparr>)"
    using handle_action_posts [OF False assms(1)] by blast
  obtain q where q: "post_calls (call_of a) [unat (ad_start a)..<unat (ad_end a)] (p\<lparr>po_active := x\<rparr>) = Some q"
    using post_calls_Some_iff [of "call_of a" "[unat (ad_start a)..<unat (ad_end a)]" "p\<lparr>po_active := x\<rparr>"] assms(2) False
    by (auto simp: part_fits_def)
  then show ?thesis
    using x post_calls_result [OF q] post_calls_other [OF q] assms(1) False by (auto simp: post_part_def)
qed

section \<open>The work of a shard, read as inboxes\<close>

text \<open>Does an action name the session of a global index?\<close>

definition names_session :: "nat \<Rightarrow> action_descriptor \<Rightarrow> bool" where
  "names_session j a \<longleftrightarrow> unat (ad_start a) \<le> j \<and> j < unat (ad_end a)"

definition parts_of :: "u32 \<times> u32 \<Rightarrow> action_descriptor list \<Rightarrow> action_descriptor list" where
  "parts_of rng acts = List.map_filter (\<lambda>a. shard_action a rng) acts"

lemma shard_work_no_create:
  assumes "\<forall>a \<in> set acts. ad_type a \<noteq> CREATE"
  shows "shard_work K k acts rs = map Task_Action (parts_of (rs ! k) acts)"
  using assms
  by (induction acts)
    (auto simp: ranges_after_def action_work_def parts_of_def map_filter_simps split: option.split)

text \<open>The part of one action, for a shard of the sessions from \<open>lo\<close> to below \<open>hi\<close>.\<close>

lemma part_of_action:
  assumes "lo \<le> hi" "hi < 2 ^ 32" "shard_action a (of_nat lo, of_nat hi) = Some part"
  shows "ad_type part = ad_type a" "unat (ad_end part) \<le> hi - lo" "call_of part = call_of a"
    and "l < hi - lo \<Longrightarrow> unat (ad_start part) \<le> l \<and> l < unat (ad_end part) \<longleftrightarrow> names_session (lo + l) a"
proof -
  let ?lo = "max (unat (ad_start a)) lo" and ?hi = "min (unat (ad_end a)) hi"
  have part: "?lo < ?hi" "part = a\<lparr>ad_start := of_nat (?lo - lo), ad_end := of_nat (?hi - lo)\<rparr>"
    using shard_action_bounds [OF assms(1,2), of a] assms(3)
    by (simp_all del: of_nat_diff min_less_iff_conj max_less_iff_conj split: if_splits)
  have bounds: "?lo - lo < 2 ^ 32" "?hi - lo < 2 ^ 32" using part(1) assms(2) by linarith+
  then have ends: "unat (ad_start part) = ?lo - lo" "unat (ad_end part) = ?hi - lo" "ad_count part = ad_count a"
    using part(2) by (simp_all add: unat_of_nat del: of_nat_diff)
  show type: "ad_type part = ad_type a" using part(2) by simp
  show "unat (ad_end part) \<le> hi - lo" using ends by simp
  show "call_of part = call_of a" by (simp add: ends type cong: action_type.case_cong)
  show "unat (ad_start part) \<le> l \<and> l < unat (ad_end part) \<longleftrightarrow> names_session (lo + l) a" if "l < hi - lo"
    using that ends unfolding names_session_def by auto
qed

lemma no_part_of_action:
  assumes "lo \<le> hi" "hi < 2 ^ 32" "shard_action a (of_nat lo, of_nat hi) = None" "l < hi - lo"
  shows "\<not> names_session (lo + l) a"
  using shard_action_bounds [OF assms(1,2), of a] assms(3,4)
  by (auto simp: names_session_def simp del: of_nat_diff min_less_iff_conj max_less_iff_conj split: if_splits)

lemma post_part_other:
  assumes "ad_type part \<noteq> CREATE" "length xs = n"
  shows "length (post_part part xs) = n"
    and "l < n \<Longrightarrow> post_part part xs ! l =
      xs ! l @ (if unat (ad_start part) \<le> l \<and> l < unat (ad_end part) then [call_of part] else [])"
  using assms by (simp_all add: post_part_def)

lemma fold_parts:
  assumes "lo \<le> hi" "hi < 2 ^ 32" "\<forall>a \<in> set acts. ad_type a \<noteq> CREATE" "length xs = hi - lo"
  shows "fold post_part (parts_of (of_nat lo, of_nat hi) acts) xs =
    map (\<lambda>l. xs ! l @ map call_of (filter (names_session (lo + l)) acts)) [0..<hi - lo]"
  using assms(3,4)
proof (induction acts arbitrary: xs)
  case Nil
  then show ?case by (simp add: parts_of_def map_filter_simps map_nth flip: Nil(2))
next
  case (Cons a acts)
  show ?case
  proof (cases "shard_action a (of_nat lo, of_nat hi)")
    case None
    then have "parts_of (of_nat lo, of_nat hi) (a # acts) = parts_of (of_nat lo, of_nat hi) acts"
      by (simp add: parts_of_def map_filter_simps)
    moreover have "filter (names_session (lo + l)) (a # acts) = filter (names_session (lo + l)) acts"
      if "l < hi - lo" for l
      using no_part_of_action [OF assms(1,2) None that] by simp
    ultimately show ?thesis using Cons by simp
  next
    case (Some part)
    note p = part_of_action [OF assms(1,2) Some]
    have other: "ad_type part \<noteq> CREATE" using Cons.prems(1) p(1) by simp
    have "fold post_part (parts_of (of_nat lo, of_nat hi) (a # acts)) xs =
        fold post_part (parts_of (of_nat lo, of_nat hi) acts) (post_part part xs)"
      using Some by (simp add: parts_of_def map_filter_simps)
    also have "\<dots> = map (\<lambda>l. post_part part xs ! l @ map call_of (filter (names_session (lo + l)) acts)) [0..<hi - lo]"
      using Cons post_part_other(1) [OF other Cons.prems(2)] by simp
    also have "\<dots> = map (\<lambda>l. xs ! l @ map call_of (filter (names_session (lo + l)) (a # acts))) [0..<hi - lo]"
      using post_part_other(2) [OF other Cons.prems(2)] p(3,4) by auto
    finally show ?thesis .
  qed
qed

section \<open>A shard at work\<close>

text \<open>
  The life of a shard with its history: the tasks posted to it and the tasks it has run. The
  orchestrator submits actions, asks for metrics and stops the shard; the shard's thread runs
  what is posted, in order; sessions disconnect, the timer fires and the thread fails at any time.
\<close>

inductive serves :: "shard_task list \<Rightarrow> shard_task list \<Rightarrow> shard \<Rightarrow> bool" where
  s_start: "serves [] [] (shard_start new_shard)"
| s_submit: "serves ps rs sh \<Longrightarrow>
    serves (if sh_running sh then ps @ [Task_Action a] else ps) rs (snd (submit_work a sh))"
| s_pull: "serves ps rs sh \<Longrightarrow> serves (ps @ [Task_Metrics]) rs (schedule_metrics_pull sh)"
| s_stop: "serves ps rs sh \<Longrightarrow> serves (if sh_running sh then ps @ [Task_Stop] else ps) rs (shard_stop sh)"
| s_run: "serves ps rs sh \<Longrightarrow> run_next sh = Some sh' \<Longrightarrow> serves ps (rs @ [hd (sh_posted sh)]) sh'"
| s_disconnect: "serves ps rs sh \<Longrightarrow> serves ps rs (session_disconnected sh)"
| s_record: "serves ps rs sh \<Longrightarrow> serves ps rs (session_recorded m sh)"
| s_timer: "serves ps rs sh \<Longrightarrow> serves ps rs (force_stop_fired sh)"
| s_fail: "serves ps rs sh \<Longrightarrow> serves ps rs (thread_fails sh)"
| s_close: "serves ps rs sh \<Longrightarrow> serves ps rs (thread_closes sh)"

fun action_in :: "shard_task \<Rightarrow> action_descriptor option" where
  "action_in (Task_Action a) = Some a"
| "action_in _ = None"

definition actions_in :: "shard_task list \<Rightarrow> action_descriptor list" where
  "actions_in ts = List.map_filter action_in ts"

lemma actions_in_simps [simp]:
  "actions_in [] = []" "actions_in (Task_Action a # ts) = a # actions_in ts"
  "actions_in (Task_Metrics # ts) = actions_in ts" "actions_in (Task_Stop # ts) = actions_in ts"
  "actions_in (ts @ us) = actions_in ts @ actions_in us" "actions_in (map Task_Action as) = as"
proof -
  show "actions_in (ts @ us) = actions_in ts @ actions_in us"
    by (induction ts) (auto simp: actions_in_def map_filter_simps split: option.split)
  show "actions_in (map Task_Action as) = as"
    by (induction as) (auto simp: actions_in_def map_filter_simps)
qed (simp_all add: actions_in_def map_filter_simps)

definition parts_fit :: "action_descriptor list \<Rightarrow> bool" where
  "parts_fit as \<longleftrightarrow> (\<forall>k < length as. part_fits (as ! k) (fold post_part (take k as) []))"

lemma parts_fit_append:
  assumes "parts_fit (as @ bs)"
  shows "parts_fit as"
  unfolding parts_fit_def
proof (intro allI impI)
  fix k
  assume "k < length as"
  then show "part_fits (as ! k) (fold post_part (take k as) [])"
    using assms unfolding parts_fit_def by (auto simp: nth_append dest!: spec [of _ k])
qed

lemma parts_fit_next: "parts_fit (as @ a # bs) \<Longrightarrow> part_fits a (fold post_part as [])"
  unfolding parts_fit_def by (drule spec [of _ "length as"]) simp

text \<open>What holds between the history and the state.\<close>

definition serving :: "shard_task list \<Rightarrow> shard_task list \<Rightarrow> shard \<Rightarrow> bool" where
  "serving ps rs sh \<longleftrightarrow>
     ps = rs @ sh_posted sh
     \<and> (sh_running sh \<longleftrightarrow> Task_Stop \<notin> set ps)
     \<and> (po_closed (sh_pool sh) \<longleftrightarrow> Task_Stop \<in> set rs)
     \<and> (\<forall>xs ys. ps = xs @ Task_Stop # ys \<longrightarrow> actions_in ys = [])
     \<and> po_sessions (sh_pool sh) = fold post_part (actions_in rs) []"

lemma serving_open:
  assumes "serving ps rs sh" "sh_posted sh = Task_Action a # ts"
  shows "\<not> po_closed (sh_pool sh)"
proof
  assume "po_closed (sh_pool sh)"
  then have "Task_Stop \<in> set rs" using assms(1) by (simp add: serving_def)
  then obtain xs ys where "rs = xs @ Task_Stop # ys" by (metis split_list)
  then have "ps = xs @ Task_Stop # (ys @ Task_Action a # ts)" using assms by (simp add: serving_def)
  then have "actions_in (ys @ Task_Action a # ts) = []" using assms(1) unfolding serving_def by blast
  then show False by simp
qed

lemma set_pool_simps [simp]:
  "sh_pool (set_pool q sh) = q" "sh_posted (set_pool q sh) = sh_posted sh" "sh_running (set_pool q sh) = sh_running sh"
  by (simp_all add: set_pool_def Let_def on_pool_closed_def)

text \<open>Running a task always succeeds, and keeps the history and the state in step.\<close>

lemma serving_run:
  assumes "serving ps rs sh" "parts_fit (actions_in ps)" "sh_posted sh = t # ts"
  shows "\<exists>sh'. run_next sh = Some sh' \<and> serving ps (rs @ [t]) sh'"
proof (cases t)
  case (Task_Action a)
  have open_pool: "\<not> po_closed (sh_pool sh)" using serving_open assms(1,3) Task_Action by metis
  have "actions_in ps = actions_in rs @ a # actions_in ts" using assms(1,3) Task_Action by (simp add: serving_def)
  then have "part_fits a (po_sessions (sh_pool sh))"
    using parts_fit_next [of "actions_in rs" a "actions_in ts"] assms(1,2) by (simp add: serving_def)
  then obtain q where q: "handle_action a (sh_pool sh) = Some q"
    "po_sessions q = post_part a (po_sessions (sh_pool sh))" "\<not> po_closed q"
    using handle_action_part [OF open_pool] by blast
  then show ?thesis
    using assms(1,3) open_pool Task_Action by (auto simp: run_next_def run_task_def serving_def)
next
  case Task_Metrics
  then show ?thesis using assms by (auto simp: run_next_def run_task_def serving_def record_metrics_def)
next
  case Task_Stop
  then show ?thesis
    using assms shutdown_posts_nothing [of "sh_pool sh"]
    by (auto simp: run_next_def run_task_def serving_def start_force_stop_timer_def Let_def)
qed

lemma last_stop:
  assumes "Task_Stop \<notin> set ps"
  shows "ps @ [t] = xs @ Task_Stop # ys \<Longrightarrow> ys = []"
  using assms by (cases ys rule: rev_cases) auto

lemma serves_serving:
  assumes "serves ps rs sh" "parts_fit (actions_in ps)"
  shows "serving ps rs sh"
  using assms
proof (induction rule: serves.induct)
  case s_start
  then show ?case by (simp add: serving_def shard_start_def new_shard_def new_session_pool_def)
next
  case (s_submit ps rs sh a)
  then have "serving ps rs sh" by (auto split: if_splits dest: parts_fit_append)
  then show ?case by (auto simp: serving_def submit_work_def dest: last_stop)
next
  case (s_pull ps rs sh)
  then have s: "serving ps rs sh" by simp
  have "actions_in ys = []" if e: "ps @ [Task_Metrics] = xs @ Task_Stop # ys" for xs ys
  proof (cases ys rule: rev_cases)
    case (snoc zs z)
    then show ?thesis using e s by (auto simp: serving_def)
  qed simp
  then show ?case using s by (auto simp: serving_def schedule_metrics_pull_def)
next
  case (s_stop ps rs sh)
  then have "serving ps rs sh" by (auto split: if_splits)
  then show ?case by (auto simp: serving_def shard_stop_def dest: last_stop)
next
  case (s_run ps rs sh sh')
  then have "sh_posted sh \<noteq> []" by (auto simp: run_next_def)
  then show ?case using serving_run [of ps rs sh "hd (sh_posted sh)" "tl (sh_posted sh)"] s_run by auto
next
  case (s_disconnect ps rs sh)
  then show ?case
    by (auto simp: serving_def session_disconnected_def disconnect_callback_def notify_closed_def Let_def)
next
  case (s_record ps rs sh m)
  then show ?case by (simp add: serving_def session_recorded_def)
next
  case (s_timer ps rs sh)
  then show ?case by (auto simp: serving_def force_stop_fired_def)
next
  case (s_fail ps rs sh)
  then show ?case by (simp add: serving_def thread_fails_def)
next
  case (s_close ps rs sh)
  then show ?case by (simp add: serving_def thread_closes_def)
qed

lemma serves_all:
  assumes "serves ps rs sh" "parts_fit (actions_in ps)"
  shows "\<exists>sh'. serves ps ps sh'"
  using assms(1)
proof (induction "sh_posted sh" arbitrary: rs sh)
  case Nil
  then show ?case using serves_serving [OF Nil(2) assms(2)] by (auto simp: serving_def)
next
  case (Cons t ts)
  have s: "serving ps rs sh" by (rule serves_serving [OF Cons.prems assms(2)])
  obtain sh' where sh': "run_next sh = Some sh'" "serving ps (rs @ [t]) sh'"
    using serving_run [OF s assms(2)] Cons.hyps(2) by metis
  have "serves ps (rs @ [t]) sh'" using serves.s_run [OF Cons.prems sh'(1)] Cons.hyps(2) by (metis list.sel(1))
  moreover have "ts = sh_posted sh'" using s sh'(2) Cons.hyps(2) by (auto simp: serving_def)
  ultimately show ?case using Cons.hyps(1) by blast
qed

section \<open>The work of a plan\<close>

lemma fold_post_part_length:
  "\<forall>a \<in> set as. ad_type a \<noteq> CREATE \<Longrightarrow> length (fold post_part as xs) = length xs"
proof (induction as arbitrary: xs)
  case (Cons a as)
  then show ?case using post_part_other(1) [of a xs "length xs"] by simp
qed simp

lemma parts_of_mem: "p \<in> set (parts_of rng acts) \<Longrightarrow> \<exists>a \<in> set acts. shard_action a rng = Some p"
  by (induction acts) (auto simp: parts_of_def map_filter_simps split: option.splits)

text \<open>
  The parts a shard of the sessions \<open>lo\<close> to \<open>hi\<close> gets of a plan that creates \<open>N\<close> sessions
  once, first: they stay inside its pool, and its inboxes are what the plan says.
\<close>

lemma plan_parts:
  assumes "lo \<le> hi" "hi \<le> unat N" "ad_type a = CREATE" "ad_start a = 0" "ad_end a = N"
    and "\<forall>a \<in> set acts. ad_type a \<noteq> CREATE"
  defines "parts \<equiv> parts_of (of_nat lo, of_nat hi) (a # acts)"
  shows "parts_fit parts"
    and "fold post_part parts [] = map (\<lambda>l. map call_of (filter (names_session (lo + l)) acts)) [0..<hi - lo]"
proof -
  have hi: "hi < 2 ^ 32" using assms(2) by (rule order_le_less_trans) simp
  have part: "shard_action a (of_nat lo, of_nat hi) =
      (if lo < hi then Some (a\<lparr>ad_start := 0, ad_end := of_nat (hi - lo)\<rparr>) else None)"
    using shard_action_bounds [OF assms(1) hi, of a] assms(2,4,5) by (simp add: max_def min_def)
  have "parts_fit parts \<and> fold post_part parts [] =
      map (\<lambda>l. map call_of (filter (names_session (lo + l)) acts)) [0..<hi - lo]"
  proof (cases "lo < hi")
    case False
    then have "lo = hi" using assms(1) by simp
    then have "shard_action b (of_nat lo, of_nat hi) = None" for b
      by (simp add: shard_action_def Let_def min_le_iff_disj le_max_iff_disj)
    then have "p \<notin> set parts" for p using parts_of_mem unfolding parts_def by fastforce
    then have "parts = []" by (cases parts) auto
    then show ?thesis using \<open>lo = hi\<close> by (simp add: parts_fit_def)
  next
    case True
    let ?c = "a\<lparr>ad_start := 0, ad_end := of_nat (hi - lo)\<rparr>" and ?rest = "parts_of (of_nat lo, of_nat hi) acts"
    let ?xs = "replicate (hi - lo) [] :: pool_call list list"
    have parts: "parts = ?c # ?rest" using part True by (simp add: parts_def parts_of_def map_filter_simps)
    have size: "unat (of_nat (hi - lo) :: u32) = hi - lo"
      using hi by (simp add: unat_of_nat less_imp_diff_less del: of_nat_diff)
    have create: "post_part ?c [] = ?xs" using assms(3) size by (simp add: post_part_def del: of_nat_diff)
    have other: "ad_type p \<noteq> CREATE" "unat (ad_end p) \<le> hi - lo" if "p \<in> set ?rest" for p
      using parts_of_mem [OF that] part_of_action [OF assms(1) hi] assms(6) by auto
    have "part_fits (parts ! k) (fold post_part (take k parts) [])" if k: "k < length parts" for k
    proof (cases k)
      case 0
      then show ?thesis using assms(3) by (simp add: parts part_fits_def)
    next
      case (Suc i)
      then have i: "?rest ! i \<in> set ?rest" using k by (simp add: parts)
      have "\<forall>p \<in> set (take i ?rest). ad_type p \<noteq> CREATE" using other(1) in_set_takeD by fast
      then have "length (fold post_part (take i ?rest) ?xs) = hi - lo" by (simp add: fold_post_part_length)
      then show ?thesis using other(2) [OF i] Suc create by (simp add: parts part_fits_def)
    qed
    then show ?thesis
      using fold_parts [OF assms(1) hi assms(6), of ?xs] create by (simp add: parts parts_fit_def)
  qed
  then show "parts_fit parts"
    and "fold post_part parts [] = map (\<lambda>l. map call_of (filter (names_session (lo + l)) acts)) [0..<hi - lo]"
    by auto
qed

text \<open>The work the dispatch loop gives a shard of such a plan, and what becomes of it.\<close>

lemma shard_work_plan:
  assumes "compute_shard_ranges (ad_count a) K = Some (ranges, final)" "ad_type a = CREATE"
    and "\<forall>a \<in> set acts. ad_type a \<noteq> CREATE"
  shows "shard_work (unat K) k (a # acts) rs = map Task_Action (parts_of (ranges ! k) (a # acts))"
  using assms shard_work_no_create [OF assms(3), of "unat K" k ranges]
  by (simp add: ranges_after_def action_work_def parts_of_def map_filter_simps split: option.split)

text \<open>The range of a shard, as a part of all sessions.\<close>

lemma shard_range:
  assumes "compute_shard_ranges N K = Some (ranges, final)" "k < unat K"
  obtains lo hi where "ranges ! k = (of_nat lo, of_nat hi)" "unat (fst (ranges ! k)) = lo" "unat (snd (ranges ! k)) = hi"
    "lo \<le> hi" "hi \<le> unat N" "hi < 2 ^ 32"
proof -
  let ?lo = "cut (unat N) (unat K) k" and ?hi = "cut (unat N) (unat K) (Suc k)"
  have "K \<noteq> 0" using assms(2) by auto
  then have r: "ranges ! k = (of_nat ?lo, of_nat ?hi)"
    using compute_shard_ranges_cut [of K N] assms by auto
  have cuts: "?lo \<le> ?hi" "?hi \<le> unat N"
    using cut_mono [of k "Suc k"] cut_le [of "unat K" "Suc k"] assms(2) by auto
  have "?hi < 2 ^ 32" using cuts(2) by (rule order_le_less_trans) simp
  then show thesis using that [OF r] r cuts by (simp add: unat_of_nat)
qed

text \<open>A shard that has been given a first part of its work serves it.\<close>

lemma serves_plan_serving:
  assumes "serves ps rs sh" "compute_shard_ranges N K = Some (ranges, final)" "k < unat K"
    and "ad_type a = CREATE" "ad_start a = 0" "ad_end a = N" "ad_count a = N"
    and "\<forall>a \<in> set acts. ad_type a \<noteq> CREATE"
    and "prefix (map Task_Action (actions_in ps)) (shard_work (unat K) k (a # acts) [])"
  shows "serving ps rs sh" "parts_fit (actions_in ps)" "prefix (actions_in ps) (parts_of (ranges ! k) (a # acts))"
proof -
  let ?parts = "parts_of (ranges ! k) (a # acts)"
  have work: "shard_work (unat K) k (a # acts) [] = map Task_Action ?parts"
    using shard_work_plan [of a K ranges final acts k "[]"] assms by simp
  obtain lo hi where "ranges ! k = (of_nat lo, of_nat hi)" "lo \<le> hi" "hi \<le> unat N"
    using shard_range [OF assms(2,3)] by metis
  then have fit: "parts_fit ?parts" using plan_parts(1) [of lo hi N a acts] assms(4-6,8) by simp
  obtain zs where zs: "map Task_Action ?parts = map Task_Action (actions_in ps) @ zs"
    using assms(9) unfolding work by (rule prefixE)
  have parts: "?parts = actions_in ps @ actions_in zs" using arg_cong [OF zs, of actions_in] by simp
  then show "prefix (actions_in ps) ?parts" by (rule prefixI)
  show "parts_fit (actions_in ps)" using fit parts parts_fit_append by metis
  then show "serving ps rs sh" by (rule serves_serving [OF assms(1)])
qed

lemma serves_plan:
  assumes "serves ps rs sh" "compute_shard_ranges N K = Some (ranges, final)" "k < unat K"
    and "ad_type a = CREATE" "ad_start a = 0" "ad_end a = N" "ad_count a = N"
    and "\<forall>a \<in> set acts. ad_type a \<noteq> CREATE"
    and "prefix (map Task_Action (actions_in ps)) (shard_work (unat K) k (a # acts) [])"
  shows "sh_posted sh \<noteq> [] \<Longrightarrow> run_next sh \<noteq> None"
    and "map Task_Action (actions_in rs) = shard_work (unat K) k (a # acts) [] \<Longrightarrow>
      po_sessions (sh_pool sh) = map (\<lambda>l. map call_of (filter (names_session (unat (fst (ranges ! k)) + l)) acts))
        [0..<unat (snd (ranges ! k)) - unat (fst (ranges ! k))]"
proof -
  note s = serves_plan_serving [OF assms]
  show "sh_posted sh \<noteq> [] \<Longrightarrow> run_next sh \<noteq> None"
    using serving_run [OF s(1,2)] by (cases "sh_posted sh") fastforce+
  show "po_sessions (sh_pool sh) = map (\<lambda>l. map call_of (filter (names_session (unat (fst (ranges ! k)) + l)) acts))
        [0..<unat (snd (ranges ! k)) - unat (fst (ranges ! k))]"
    if "map Task_Action (actions_in rs) = shard_work (unat K) k (a # acts) []"
  proof -
    have "actions_in rs = parts_of (ranges ! k) (a # acts)"
      using that shard_work_plan [of a K ranges final acts k "[]"] assms by (metis actions_in_simps(6))
    moreover obtain lo hi where "ranges ! k = (of_nat lo, of_nat hi)" "unat (fst (ranges ! k)) = lo"
        "unat (snd (ranges ! k)) = hi" "lo \<le> hi" "hi \<le> unat N"
      using shard_range [OF assms(2,3)] by metis
    ultimately show ?thesis
      using s(1) plan_parts(2) [of lo hi N a acts] assms(4-6,8) by (simp add: serving_def)
  qed
qed

text \<open>At any time, what a session has got is the first part of what the plan says.\<close>

lemma fold_post_part_prefix:
  assumes "\<forall>p \<in> set ps. ad_type p \<noteq> CREATE" "l < length xs"
  shows "prefix (xs ! l) (fold post_part ps xs ! l)"
  using assms
proof (induction ps arbitrary: xs)
  case (Cons p ps)
  have p: "length (post_part p xs) = length xs" "prefix (xs ! l) (post_part p xs ! l)"
    using post_part_other [of p xs "length xs"] Cons.prems by simp_all
  then show ?case using Cons.IH [of "post_part p xs"] Cons.prems prefix_order.trans by fastforce
qed simp

lemma plan_parts_tail:
  assumes "q \<in> set (tl (parts_of (of_nat lo, of_nat hi) (a # acts)))" "lo \<le> hi" "hi < 2 ^ 32" "\<forall>a \<in> set acts. ad_type a \<noteq> CREATE"
  shows "ad_type q \<noteq> CREATE"
proof -
  have "q \<in> set (parts_of (of_nat lo, of_nat hi) acts)"
    using assms(1) subsetD [OF set_drop_subset [of 1]] by (cases "shard_action a (of_nat lo, of_nat hi)")
      (auto simp: parts_of_def map_filter_simps drop_Suc)
  then show ?thesis using parts_of_mem part_of_action(1) [OF assms(2,3)] assms(4) by metis
qed

lemma serves_plan_prefix:
  assumes "serves ps rs sh" "compute_shard_ranges N K = Some (ranges, final)" "k < unat K"
    and "ad_type a = CREATE" "ad_start a = 0" "ad_end a = N" "ad_count a = N"
    and "\<forall>a \<in> set acts. ad_type a \<noteq> CREATE"
    and "prefix (map Task_Action (actions_in ps)) (shard_work (unat K) k (a # acts) [])"
    and "l < length (po_sessions (sh_pool sh))"
  shows "prefix (po_sessions (sh_pool sh) ! l) (map call_of (filter (names_session (unat (fst (ranges ! k)) + l)) acts))"
proof -
  note s = serves_plan_serving [OF assms(1-9)]
  obtain lo hi where rng: "ranges ! k = (of_nat lo, of_nat hi)" "unat (fst (ranges ! k)) = lo" "lo \<le> hi" "hi \<le> unat N" "hi < 2 ^ 32"
    using shard_range [OF assms(2,3)] by metis
  let ?parts = "parts_of (of_nat lo, of_nat hi) (a # acts)"
  have sess: "po_sessions (sh_pool sh) = fold post_part (actions_in rs) []" using s(1) by (simp add: serving_def)
  have "ps = rs @ sh_posted sh" using s(1) by (simp add: serving_def)
  then obtain more where more: "?parts = actions_in rs @ more" using s(3) rng(1) by (auto simp: prefix_def)
  have ne: "actions_in rs \<noteq> []" using assms(10) sess by auto
  have tail: "\<forall>q \<in> set more. ad_type q \<noteq> CREATE"
    using plan_parts_tail [OF _ rng(3,5) assms(8), of _ a] ne more by (simp add: tl_append2)
  have len: "length (fold post_part (actions_in rs) []) = hi - lo"
    using plan_parts(2) [OF rng(3,4) assms(4-6,8)] fold_post_part_length [of more "fold post_part (actions_in rs) []"] tail more
    by (metis fold_append comp_apply length_map length_upt minus_nat.diff_0)
  have "prefix (fold post_part (actions_in rs) [] ! l) (fold post_part ?parts [] ! l)"
    using fold_post_part_prefix [of more l "fold post_part (actions_in rs) []"] tail assms(10) sess more by simp
  then show ?thesis
    using plan_parts(2) [OF rng(3,4) assms(4-6,8)] assms(10) len sess rng(2) by simp
qed

text \<open>What the calls of a session amount to.\<close>

lemma calls_of_actions:
  assumes "\<forall>a \<in> set acts. ad_type a \<noteq> CREATE"
  shows "calls_sends (map call_of acts) = (\<Sum>a \<leftarrow> filter (\<lambda>a. ad_type a = SEND) acts. ucast (ad_count a))"
    and "count_list (map call_of acts) Call_Start = length (filter (\<lambda>a. ad_type a = CONNECT) acts)"
  using assms by (induction acts) (auto simp: calls_sends_def split: action_type.splits)

end
