(* ===== verification/Orchestrator_Run.thy ===== *)
theory Orchestrator_Run
  imports Calls
begin

text \<open>
  A whole run of the orchestrator with its shards, each on its own thread. The orchestrator's
  thread runs the handlers posted to it and its two timers; a shard's thread runs its tasks,
  calls the orchestrator back after a metrics pull and when it ends; sessions disconnect, the
  force-stop timers fire and shards fail at any time. \<open>early\<close> says whether the run may be
  stopped from outside.
\<close>

section \<open>Steps\<close>

type_synonym timed = "int \<times> orchestrator"

text \<open>A step of a shard's thread that does not call the orchestrator.\<close>

inductive thread_step :: "shard \<Rightarrow> shard \<Rightarrow> bool" where
  t_work: "\<not> sh_stopped sh \<Longrightarrow> sh_posted sh = t # ts \<Longrightarrow> t \<noteq> Task_Metrics \<Longrightarrow> run_next sh = Some sh' \<Longrightarrow>
    thread_step sh sh'"
| t_disconnect: "\<not> sh_stopped sh \<Longrightarrow> thread_step sh (session_disconnected sh)"
| t_record: "\<not> sh_stopped sh \<Longrightarrow> thread_step sh (session_recorded m sh)"
| t_timer: "thread_step sh (force_stop_fired sh)"
| t_fail: "thread_step sh (thread_fails sh)"

definition set_shard :: "nat \<Rightarrow> shard \<Rightarrow> orchestrator \<Rightarrow> orchestrator" where
  "set_shard k sh st = st\<lparr>orc_shards := (orc_shards st)[k := sh]\<rparr>"

text \<open>Steps of the orchestrator's own thread.\<close>

inductive own_step :: "timed \<Rightarrow> timed \<Rightarrow> bool" where
  o_task: "now \<le> now' \<Longrightarrow> run_orc_next now' st = Some st' \<Longrightarrow> own_step (now, st) (now', st')"
| o_dispatch_timer: "now \<le> now' \<Longrightarrow> orc_dispatch_timer st = Some deadline \<Longrightarrow> deadline \<le> now' \<Longrightarrow>
    own_step (now, st) (now', dispatch_timer_expired st)"
| o_metrics_timer: "now \<le> now' \<Longrightarrow> orc_metrics_timer st \<Longrightarrow> own_step (now, st) (now', metrics_timer_expired st)"

inductive orc_step :: "bool \<Rightarrow> timed \<Rightarrow> timed \<Rightarrow> bool" for early :: bool where
  o_own: "own_step x y \<Longrightarrow> orc_step early x y"
| o_early: "early \<Longrightarrow> orc_step early (now, st) (now, early_stop st)"
| o_shard: "k < length (orc_shards st) \<Longrightarrow> \<not> sh_closed (orc_shards st ! k) \<Longrightarrow> thread_step (orc_shards st ! k) sh' \<Longrightarrow>
    orc_step early (now, st) (now, set_shard k sh' st)"
| o_pull: "k < length (orc_shards st) \<Longrightarrow> \<not> sh_closed (orc_shards st ! k) \<Longrightarrow> \<not> sh_stopped (orc_shards st ! k) \<Longrightarrow>
    sh_posted (orc_shards st ! k) = Task_Metrics # ts \<Longrightarrow> run_next (orc_shards st ! k) = Some sh' \<Longrightarrow>
    orc_step early (now, st) (now, shard_metrics_callback (set_shard k sh' st))"
| o_close: "k < length (orc_shards st) \<Longrightarrow> \<not> sh_closed (orc_shards st ! k) \<Longrightarrow> shard_thread_ends (orc_shards st ! k) \<Longrightarrow>
    orc_step early (now, st) (now, shard_exit_callback (set_shard k (thread_closes (orc_shards st ! k)) st))"

definition orchestrator_run :: "bool \<Rightarrow> action_descriptor list \<Rightarrow> nat \<Rightarrow> timed \<Rightarrow> bool" where
  "orchestrator_run early actions K y \<longleftrightarrow>
     (\<exists>t st. new_orchestrator actions K = Some st \<and> (orc_step early)\<^sup>*\<^sup>* (t, start_shards t st) y)"

section \<open>What the dispatch leaves alone\<close>

text \<open>What the rounds of metrics and the end of the run depend on in a shard.\<close>

definition pulls :: "shard \<Rightarrow> nat" where
  "pulls sh = count_list (sh_posted sh) Task_Metrics"

definition same_life :: "shard \<Rightarrow> shard \<Rightarrow> bool" where
  "same_life sh sh' \<longleftrightarrow> sh_history sh' = sh_history sh \<and> pulls sh' = pulls sh \<and> sh_closed sh' = sh_closed sh"

definition same_work :: "shard \<Rightarrow> shard \<Rightarrow> bool" where
  "same_work sh sh' \<longleftrightarrow> sh_history sh' = sh_history sh \<and> pulls sh' = pulls sh"

lemma same_life_refl [simp]: "same_life sh sh"
  by (simp add: same_life_def)

lemma same_life_trans: "same_life a b \<Longrightarrow> same_life b c \<Longrightarrow> same_life a c"
  by (simp add: same_life_def)

lemma shard_work_actions: "\<exists>as. shard_work K k acts rs = map Task_Action as"
proof (induction acts arbitrary: rs)
  case (Cons a acts)
  have "\<exists>as. action_work a r = map Task_Action as" for r
    by (cases "shard_action a r") (auto simp: action_work_def intro: exI [of _ "[x]" for x])
  then show ?case using Cons.IH by (metis map_append shard_work.simps(2))
qed simp

lemma same_life_give: "same_life sh (give_work (accepted sh (shard_work K k acts rs)) sh)"
proof -
  obtain as where "shard_work K k acts rs = map Task_Action as" using shard_work_actions by blast
  moreover have "count_list (map Task_Action as) Task_Metrics = 0" by (induction as) simp_all
  ultimately show ?thesis by (simp add: same_life_def give_work_def pulls_def accepted_def)
qed

lemma same_life_stop: "same_life sh (shard_stop sh)"
  by (simp add: same_life_def shard_stop_def pulls_def)

lemma same_life_thread: "thread_step sh sh' \<Longrightarrow> same_life sh sh'"
proof (induction rule: thread_step.induct)
  case (t_work sh t ts sh')
  then show ?case
    by (cases t) (auto simp: run_next_def run_task_def same_life_def pulls_def set_pool_def on_pool_closed_def
        start_force_stop_timer_def Let_def split: if_splits)
qed (simp_all add: same_life_def pulls_def session_disconnected_def set_pool_def on_pool_closed_def Let_def
      force_stop_fired_def thread_fails_def session_recorded_def)

definition same_lives :: "orchestrator \<Rightarrow> orchestrator \<Rightarrow> bool" where
  "same_lives st st' \<longleftrightarrow> list_all2 same_life (orc_shards st) (orc_shards st')"

lemma same_lives_work: "same_lives st st' \<Longrightarrow> list_all2 same_work (orc_shards st) (orc_shards st')"
  unfolding same_lives_def by (erule list_all2_mono) (simp add: same_life_def same_work_def)

lemma same_work_maps:
  assumes "list_all2 same_work shs shs'"
  shows "map sh_history shs' = map sh_history shs" "map pulls shs' = map pulls shs"
  using assms by (auto simp: same_work_def list_all2_conv_all_nth intro!: nth_equalityI)

lemma same_lives_closed: "same_lives st st' \<Longrightarrow> map sh_closed (orc_shards st') = map sh_closed (orc_shards st)"
  by (auto simp: same_lives_def same_life_def list_all2_conv_all_nth intro!: nth_equalityI)

lemma set_shard_lives:
  "k < length (orc_shards st) \<Longrightarrow> same_life (orc_shards st ! k) x \<Longrightarrow> same_lives st (set_shard k x st)"
  by (auto simp: same_lives_def set_shard_def list_all2_conv_all_nth nth_list_update)

text \<open>The part of the state that only the callbacks and the timers change.\<close>

definition same_callbacks :: "orchestrator \<Rightarrow> orchestrator \<Rightarrow> bool" where
  "same_callbacks st st' \<longleftrightarrow>
     orc_posted st' = orc_posted st \<and> orc_pending_pulls st' = orc_pending_pulls st \<and> orc_rounds st' = orc_rounds st
     \<and> orc_active_shards st' = orc_active_shards st \<and> orc_work_guard st' = orc_work_guard st
     \<and> (orc_metrics_timer st' \<longrightarrow> orc_metrics_timer st)"

lemma same_lives_trans: "same_lives a b \<Longrightarrow> same_lives b c \<Longrightarrow> same_lives a c"
  unfolding same_lives_def by (rule list_all2_trans [OF same_life_trans])

lemma same_callbacks_trans: "same_callbacks a b \<Longrightarrow> same_callbacks b c \<Longrightarrow> same_callbacks a c"
  by (auto simp: same_callbacks_def)

lemma do_shutdown_frame: "same_lives st (do_shutdown st)" "same_callbacks st (do_shutdown st)"
  by (auto simp: do_shutdown_def log_line_def Let_def same_lives_def same_callbacks_def same_life_stop
      list_all2_conv_all_nth)

lemma work_given_frame: "list_all2 same_life (orc_shards st) (work_given acts st)"
  by (auto simp: list_all2_conv_all_nth same_life_give)

lemma dispatched_frame:
  assumes "dispatched now m st st'"
  shows "same_lives st st'" "same_callbacks st st'"
proof -
  obtain acts c lg st1 where c: "c \<le> length (orc_actions st)"
      "c < length (orc_actions st) \<Longrightarrow> st' = schedule_next_action (target_time st (orc_actions st ! c)) st1"
      "c = length (orc_actions st) \<Longrightarrow> st' = do_shutdown st1"
    and st1: "st1 = st\<lparr>orc_ranges := fold (ranges_after (length (orc_shards st))) acts (orc_ranges st),
      orc_shards := work_given acts st, orc_log := lg, orc_current := c\<rparr>"
    using dispatchedE [OF assms] by metis
  have st': "st' = schedule_next_action (target_time st (orc_actions st ! c)) st1 \<or> st' = do_shutdown st1"
    using c by linarith
  have one: "same_lives st st1" "same_callbacks st st1"
    using work_given_frame [of st acts] by (simp_all add: st1 same_lives_def same_callbacks_def)
  have "same_lives st1 st' \<and> same_callbacks st1 st'"
    using st' do_shutdown_frame [of st1]
    by (auto simp: schedule_next_action_def same_lives_def same_callbacks_def list_all2_refl)
  then show "same_lives st st'" "same_callbacks st st'"
    using one same_lives_trans same_callbacks_trans by blast+
qed

section \<open>The dispatch in a run\<close>

text \<open>
  Where the dispatch stands: the ranges are those the actions handed out have made, every
  shard is running until the shutdown and none after it, and at most one dispatch is waiting,
  posted or on the timer, which is then set for the next action.
\<close>

definition dispatch_inv :: "action_descriptor list \<Rightarrow> nat \<Rightarrow> orchestrator \<Rightarrow> bool" where
  "dispatch_inv actions K st \<longleftrightarrow>
     orc_actions st = actions \<and> length (orc_shards st) = K \<and> orc_current st \<le> length actions
     \<and> orc_ranges st = fold (ranges_after K) (take (orc_current st) actions) []
     \<and> (\<forall>sh \<in> set (orc_shards st). sh_running sh \<longleftrightarrow> \<not> orc_shutdown st)
     \<and> count_list (orc_posted st) Dispatch_Actions + (if orc_dispatch_timer st = None then 0 else 1) \<le> 1
     \<and> (\<forall>d. orc_dispatch_timer st = Some d \<longrightarrow>
          orc_current st < length actions \<and> d = target_time st (actions ! orc_current st))"

text \<open>What a plan promises the orchestrator: shards to work with, and a CREATE first.\<close>

definition creates_first :: "action_descriptor list \<Rightarrow> nat \<Rightarrow> bool" where
  "creates_first actions K \<longleftrightarrow> 0 < K \<and> K < 2 ^ 32 \<and> actions \<noteq> [] \<and> ad_type (hd actions) = CREATE"

lemma ranges_after_length:
  assumes "0 < K" "K < 2 ^ 32" "ad_type a = CREATE \<or> length rs = K"
  shows "length (ranges_after K a rs) = K"
proof (cases "ad_type a = CREATE")
  case True
  obtain rs' where "compute_shard_ranges (ad_count a) (of_nat K) = Some (rs', ad_count a)" "length rs' = K"
    using compute_shard_ranges_total [OF assms(1,2)] by metis
  then show ?thesis using True by (simp add: ranges_after_def)
qed (use assms(3) in \<open>simp add: ranges_after_def\<close>)

lemma ranges_length:
  assumes "creates_first actions K" "0 < c" "c \<le> length actions"
  shows "length (fold (ranges_after K) (take c actions) []) = K"
proof -
  note K = assms(1) [unfolded creates_first_def]
  have keep: "length (fold (ranges_after K) as rs) = K" if "length rs = K" for as rs
    using that K by (induction as arbitrary: rs) (simp_all add: ranges_after_length)
  obtain a as where "take c actions = a # as" "ad_type a = CREATE"
    using K assms(2) by (cases actions; cases c) auto
  then show ?thesis using keep [OF ranges_after_length [of K a "[]"]] K by simp
qed

lemma dispatch_inv_ready:
  assumes "creates_first actions K" "dispatch_inv actions K st" "orc_current st < length (orc_actions st)"
  shows "ranges_ready st (orc_actions st ! orc_current st)"
proof (cases "orc_current st = 0")
  case True
  then show ?thesis using assms by (auto simp: creates_first_def dispatch_inv_def ranges_ready_def hd_conv_nth)
next
  case False
  then show ?thesis using assms ranges_length [OF assms(1), of "orc_current st"]
    by (auto simp: dispatch_inv_def ranges_ready_def)
qed

text \<open>So a dispatch always returns.\<close>

lemma dispatch_returns:
  assumes "creates_first actions K" "dispatch_inv actions K st"
  obtains m st' where "dispatch_pending_actions now st = Some st'" "dispatched now m st st'"
proof -
  have "\<exists>m st'. dispatch_pending_actions now st = Some st' \<and> dispatched now m st st'"
    unfolding dispatch_pending_actions_def
    by (rule dispatch_loop_dispatches)
      (use assms dispatch_inv_ready [OF assms] in \<open>auto simp: creates_first_def dispatch_inv_def\<close>)
  then show thesis using that by blast
qed

lemma running_keeps:
  "sh_running (give_work ts sh) = sh_running sh" "\<not> sh_running (shard_stop sh)"
  "sh_running (schedule_metrics_pull sh) = sh_running sh" "sh_running (thread_closes sh) = sh_running sh"
  by (simp_all add: shard_stop_def schedule_metrics_pull_def thread_closes_def)

lemma run_next_running: "run_next sh = Some sh' \<Longrightarrow> sh_running sh' = sh_running sh"
  by (auto simp: run_next_def run_task_def record_metrics_def start_force_stop_timer_def
      split: list.splits shard_task.splits)

lemma thread_step_running: "thread_step sh sh' \<Longrightarrow> sh_running sh' = sh_running sh"
  by (induction rule: thread_step.induct)
    (auto simp: run_next_running session_disconnected_def force_stop_fired_def thread_fails_def session_recorded_def)

lemma in_set_set_shard:
  "sh \<in> set (orc_shards (set_shard k x st)) \<Longrightarrow> k < length (orc_shards st) \<Longrightarrow> sh = x \<or> sh \<in> set (orc_shards st)"
  by (auto simp: set_shard_def dest: set_update_subset_insert [THEN subsetD])

lemma work_given_running: "sh \<in> set (work_given acts st) \<Longrightarrow> \<exists>sh' \<in> set (orc_shards st). sh_running sh = sh_running sh'"
  by (auto simp: work_given_def give_all_def running_keeps intro: nth_mem)

lemma dispatched_inv:
  assumes "dispatched now m st st'" "dispatch_inv actions K st" "Dispatch_Actions \<notin> set (orc_posted st)"
    and "orc_dispatch_timer st = None"
  shows "dispatch_inv actions K st'"
proof -
  obtain acts c lg st1 where c: "c \<le> length (orc_actions st)" "c = orc_current st + m"
      "c < length (orc_actions st) \<Longrightarrow> st' = schedule_next_action (target_time st (orc_actions st ! c)) st1"
      "c = length (orc_actions st) \<Longrightarrow> st' = do_shutdown st1"
    and acts: "acts = take m (drop (orc_current st) (orc_actions st))"
    and st1: "st1 = st\<lparr>orc_ranges := fold (ranges_after (length (orc_shards st))) acts (orc_ranges st),
      orc_shards := work_given acts st, orc_log := lg, orc_current := c\<rparr>"
    using dispatchedE [OF assms(1)] by metis
  have none: "count_list (orc_posted st) Dispatch_Actions = 0" using assms(3) by (simp add: count_list_0_iff)
  have "orc_ranges st1 = fold (ranges_after K) (take c actions) []"
    using assms(2) by (simp add: st1 acts c(2) dispatch_inv_def take_add)
  moreover have "\<forall>sh \<in> set (orc_shards st1). sh_running sh \<longleftrightarrow> \<not> orc_shutdown st1"
    using assms(2) work_given_running by (fastforce simp: st1 dispatch_inv_def)
  moreover have "length (orc_shards st1) = K" using assms(2) by (simp add: st1 dispatch_inv_def)
  ultimately show ?thesis
    using c none assms(2,4)
    by (cases "c < length (orc_actions st)")
      (auto simp: st1 dispatch_inv_def schedule_next_action_def target_time_def do_shutdown_def log_line_def Let_def
        running_keeps)
qed

lemma run_orc_nextE:
  assumes "run_orc_next now st = Some st'"
  obtains t ts where "orc_posted st = t # ts" "run_orc_task now t (st\<lparr>orc_posted := ts\<rparr>) = Some st'"
  using assms by (auto simp: run_orc_next_def split: list.splits)

lemma dispatch_task:
  assumes "creates_first actions K" "dispatch_inv actions K st" "orc_posted st = Dispatch_Actions # ts"
    and "run_orc_task now Dispatch_Actions (st\<lparr>orc_posted := ts\<rparr>) = Some st'"
  obtains m where "dispatched now m (st\<lparr>orc_posted := ts\<rparr>) st'" "dispatch_inv actions K (st\<lparr>orc_posted := ts\<rparr>)"
    "Dispatch_Actions \<notin> set ts" "orc_dispatch_timer st = None"
proof -
  have free: "count_list ts Dispatch_Actions = 0" "orc_dispatch_timer st = None"
    using assms(2,3) by (auto simp: dispatch_inv_def split: if_splits)
  have inv: "dispatch_inv actions K (st\<lparr>orc_posted := ts\<rparr>)"
    using assms(2) free by (simp add: dispatch_inv_def target_time_def)
  obtain m st'' where "dispatch_pending_actions now (st\<lparr>orc_posted := ts\<rparr>) = Some st''"
      "dispatched now m (st\<lparr>orc_posted := ts\<rparr>) st''"
    using dispatch_returns [OF assms(1) inv] by metis
  then show thesis using that [OF _ inv] assms(4) free by (simp add: run_orc_task_def count_list_0_iff)
qed

lemma callback_dispatch [simp]:
  "dispatch_inv actions K (shard_metrics_callback st) = dispatch_inv actions K st"
  "dispatch_inv actions K (shard_exit_callback st) = dispatch_inv actions K st"
  by (simp_all add: dispatch_inv_def shard_metrics_callback_def shard_exit_callback_def post_task_def Let_def
      target_time_def)

lemma dispatch_inv_set_shard:
  assumes "dispatch_inv actions K st" "k < length (orc_shards st)" "sh_running x = sh_running (orc_shards st ! k)"
  shows "dispatch_inv actions K (set_shard k x st)"
proof -
  have "\<forall>sh \<in> set (orc_shards (set_shard k x st)). sh_running sh \<longleftrightarrow> \<not> orc_shutdown st"
    using in_set_set_shard [OF _ assms(2)] assms by (auto simp: dispatch_inv_def)
  then show ?thesis using assms(1) by (simp add: dispatch_inv_def set_shard_def target_time_def)
qed

lemma do_shutdown_dispatch: "dispatch_inv actions K st \<Longrightarrow> dispatch_inv actions K (do_shutdown st)"
  by (auto simp: do_shutdown_def log_line_def Let_def dispatch_inv_def running_keeps split: if_splits)

lemma dispatch_inv_posted:
  "dispatch_inv actions K st \<Longrightarrow> orc_posted st = t # ts \<Longrightarrow> t \<noteq> Dispatch_Actions \<Longrightarrow>
   dispatch_inv actions K (st\<lparr>orc_posted := ts\<rparr>)"
  by (simp add: dispatch_inv_def target_time_def)

lemma own_step_dispatch:
  assumes "own_step (now, st) (now', st')" "creates_first actions K" "dispatch_inv actions K st"
  shows "dispatch_inv actions K st'"
  using assms(1)
proof cases
  case o_task
  from o_task(2) obtain t ts where t: "orc_posted st = t # ts" "run_orc_task now' t (st\<lparr>orc_posted := ts\<rparr>) = Some st'"
    by (rule run_orc_nextE)
  show ?thesis
  proof (cases t)
    case Dispatch_Actions
    then obtain m where "dispatched now' m (st\<lparr>orc_posted := ts\<rparr>) st'" "dispatch_inv actions K (st\<lparr>orc_posted := ts\<rparr>)"
        "Dispatch_Actions \<notin> set ts" "orc_dispatch_timer st = None"
      using dispatch_task [OF assms(2,3)] t by metis
    then show ?thesis using dispatched_inv [of now' m "st\<lparr>orc_posted := ts\<rparr>" st'] by simp
  next
    case Shutdown
    have "dispatch_inv actions K (st\<lparr>orc_posted := ts\<rparr>)" using assms(3) t(1) Shutdown by (simp add: dispatch_inv_posted)
    then show ?thesis using t(2) Shutdown do_shutdown_dispatch by (auto simp: run_orc_task_def)
  next
    case Request_Metrics
    then show ?thesis
      using t assms(3) by (auto simp: run_orc_task_def dispatch_inv_def target_time_def running_keeps do_request_metrics_def)
  next
    case Round_Complete
    then show ?thesis
      using t assms(3) by (auto simp: run_orc_task_def dispatch_inv_def target_time_def
          on_metrics_round_complete_def schedule_metrics_snapshot_def)
  next
    case Last_Shard_Closed
    then show ?thesis
      using t assms(3) by (auto simp: run_orc_task_def dispatch_inv_def target_time_def last_shard_closed_def split: if_splits)
  qed
next
  case (o_dispatch_timer d)
  then show ?thesis
    using assms(3) by (simp add: dispatch_inv_def dispatch_timer_expired_def post_task_def target_time_def)
next
  case o_metrics_timer
  then show ?thesis
    using assms(3) by (simp add: dispatch_inv_def metrics_timer_expired_def post_task_def target_time_def)
qed

lemma orc_step_dispatch:
  assumes "orc_step early (now, st) (now', st')" "creates_first actions K" "dispatch_inv actions K st"
  shows "dispatch_inv actions K st'"
  using assms(1)
proof cases
  case o_own
  then show ?thesis using own_step_dispatch assms(2,3) by blast
next
  case o_early
  then show ?thesis using assms(3) by (simp add: early_stop_def post_task_def dispatch_inv_def target_time_def)
next
  case (o_shard k sh')
  then show ?thesis using dispatch_inv_set_shard [OF assms(3)] thread_step_running by simp
next
  case (o_pull k ts sh')
  then show ?thesis using dispatch_inv_set_shard [OF assms(3)] run_next_running by simp
next
  case (o_close k)
  then show ?thesis using dispatch_inv_set_shard [OF assms(3)] running_keeps by simp
qed

section \<open>The rounds of metrics\<close>

text \<open>
  A round is in progress from its request until its aggregate has been computed. At most one
  of its stages holds; each shard has one snapshot more than there are complete rounds, or one
  pull waiting; and the aggregate of round \<open>i\<close> is that of the first \<open>i + 1\<close> snapshots of each.
\<close>

definition round_open :: "orchestrator \<Rightarrow> bool" where
  "round_open st \<longleftrightarrow> orc_pending_pulls st \<noteq> 0 \<or> Round_Complete \<in> set (orc_posted st)"

definition round_stages :: "orchestrator \<Rightarrow> nat" where
  "round_stages st =
     (if orc_metrics_timer st then 1 else 0) + count_list (orc_posted st) Request_Metrics
     + count_list (orc_posted st) Round_Complete + (if orc_pending_pulls st \<noteq> 0 then 1 else 0)"

definition round_of :: "nat \<Rightarrow> shard list \<Rightarrow> metrics_aggregate" where
  "round_of i shs = get_aggregate_delta (map (\<lambda>sh. take (Suc i) (sh_history sh)) shs)"

definition metrics_inv :: "orchestrator \<Rightarrow> bool" where
  "metrics_inv st \<longleftrightarrow>
     round_stages st \<le> 1 \<and> unat (orc_pending_pulls st) = sum_list (map pulls (orc_shards st))
     \<and> (\<forall>sh \<in> set (orc_shards st). pulls sh \<le> 1
          \<and> length (sh_history sh) + pulls sh = length (orc_rounds st) + (if round_open st then 1 else 0))
     \<and> (\<forall>i < length (orc_rounds st). orc_rounds st ! i = round_of i (orc_shards st))"

lemma metrics_invI:
  assumes "round_stages st \<le> 1" "unat (orc_pending_pulls st) = sum_list (map pulls (orc_shards st))"
    and "\<And>sh. sh \<in> set (orc_shards st) \<Longrightarrow> pulls sh \<le> 1
      \<and> length (sh_history sh) + pulls sh = length (orc_rounds st) + (if round_open st then 1 else 0)"
    and "\<And>i. i < length (orc_rounds st) \<Longrightarrow> orc_rounds st ! i = round_of i (orc_shards st)"
  shows "metrics_inv st"
  using assms by (simp add: metrics_inv_def)

lemma metrics_invD:
  assumes "metrics_inv st"
  shows "round_stages st \<le> 1" "unat (orc_pending_pulls st) = sum_list (map pulls (orc_shards st))"
    and "sh \<in> set (orc_shards st) \<Longrightarrow> pulls sh \<le> 1"
    and "sh \<in> set (orc_shards st) \<Longrightarrow>
      length (sh_history sh) + pulls sh = length (orc_rounds st) + (if round_open st then 1 else 0)"
    and "i < length (orc_rounds st) \<Longrightarrow> orc_rounds st ! i = round_of i (orc_shards st)"
  using assms unfolding metrics_inv_def by blast+

lemma metrics_inv_frame:
  assumes "metrics_inv st" "list_all2 same_work (orc_shards st) (orc_shards st')"
    and "orc_pending_pulls st' = orc_pending_pulls st" "orc_rounds st' = orc_rounds st"
    and "orc_metrics_timer st' \<Longrightarrow> orc_metrics_timer st"
    and "count_list (orc_posted st') Request_Metrics = count_list (orc_posted st) Request_Metrics"
    and "count_list (orc_posted st') Round_Complete = count_list (orc_posted st) Round_Complete"
  shows "metrics_inv st'"
proof -
  have "round_stages st' \<le> round_stages st" using assms(3,5-7) by (simp add: round_stages_def)
  moreover have "round_open st' = round_open st"
    using assms(3,7) count_list_0_iff [of "orc_posted st" Round_Complete] count_list_0_iff [of "orc_posted st'" Round_Complete]
    by (auto simp: round_open_def)
  moreover have "\<exists>sh' \<in> set (orc_shards st). same_work sh' sh" if mem: "sh \<in> set (orc_shards st')" for sh
  proof -
    obtain k where "k < length (orc_shards st')" "orc_shards st' ! k = sh" using mem unfolding in_set_conv_nth by blast
    then have "same_work (orc_shards st ! k) sh" "k < length (orc_shards st)"
      using assms(2) by (auto simp: list_all2_conv_all_nth)
    then show ?thesis using nth_mem by blast
  qed
  moreover have "round_of i (orc_shards st') = round_of i (orc_shards st)" for i
  proof -
    have "map (\<lambda>sh. take (Suc i) (sh_history sh)) (orc_shards st') = map (\<lambda>sh. take (Suc i) (sh_history sh)) (orc_shards st)"
      using arg_cong [OF same_work_maps(1) [OF assms(2)], of "map (take (Suc i))"] by (simp add: comp_def)
    then show ?thesis by (simp add: round_of_def)
  qed
  ultimately show ?thesis
    using assms(1,3,4) same_work_maps(2) [OF assms(2)] by (fastforce simp: metrics_inv_def same_work_def)
qed

text \<open>What opens and closes a round.\<close>

lemma sum_pulls_0: "sum_list (map pulls shs) = 0 \<longleftrightarrow> (\<forall>sh \<in> set shs. pulls sh = 0)"
  by (induction shs) auto

lemma metrics_request:
  assumes "metrics_inv st" "orc_posted st = Request_Metrics # ts" "length (orc_shards st) < 2 ^ 32"
  shows "metrics_inv (do_request_metrics (st\<lparr>orc_posted := ts\<rparr>))"
proof -
  let ?K = "length (orc_shards st)" and ?st = "do_request_metrics (st\<lparr>orc_posted := ts\<rparr>)"
  note inv = metrics_invD [OF assms(1)]
  have pre: "orc_pending_pulls st = 0" "\<not> orc_metrics_timer st" "count_list ts Request_Metrics = 0"
    "count_list ts Round_Complete = 0"
    using inv(1) assms(2) by (auto simp: round_stages_def split: if_splits)
  then have closed: "\<not> round_open st" and free: "Round_Complete \<notin> set ts"
    using assms(2) by (auto simp: round_open_def count_list_0_iff)
  have none: "\<forall>sh \<in> set (orc_shards st). pulls sh = 0"
    using inv(2) pre(1) sum_pulls_0 [of "orc_shards st"] by simp
  have one: "pulls (schedule_metrics_pull sh) = Suc (pulls sh)" "sh_history (schedule_metrics_pull sh) = sh_history sh" for sh
    by (simp_all add: pulls_def schedule_metrics_pull_def)
  have st: "orc_shards ?st = map schedule_metrics_pull (orc_shards st)" "orc_pending_pulls ?st = of_nat ?K"
    "orc_rounds ?st = orc_rounds st" "orc_posted ?st = ts" "orc_metrics_timer ?st = orc_metrics_timer st"
    by (simp_all add: do_request_metrics_def)
  have pending: "unat (of_nat ?K :: u64) = ?K" using assms(3) by (simp add: unat_of_nat)
  show ?thesis
  proof (rule metrics_invI)
    show "round_stages ?st \<le> 1" by (simp add: round_stages_def st pre)
    have "map (pulls \<circ> schedule_metrics_pull) (orc_shards st) = replicate ?K 1"
      using none by (intro nth_equalityI) (simp_all add: one)
    then show "unat (orc_pending_pulls ?st) = sum_list (map pulls (orc_shards ?st))"
      using pending by (simp add: st sum_list_replicate)
    fix sh
    assume "sh \<in> set (orc_shards ?st)"
    then obtain sh0 where sh: "sh0 \<in> set (orc_shards st)" "sh = schedule_metrics_pull sh0" by (auto simp: st)
    then have "?K \<noteq> 0" by auto
    then have "(of_nat ?K :: u64) \<noteq> 0" using pending by (metis unat_0)
    then have "round_open ?st" by (simp add: round_open_def st)
    then show "pulls sh \<le> 1 \<and> length (sh_history sh) + pulls sh = length (orc_rounds ?st) + (if round_open ?st then 1 else 0)"
      using none inv(4) [OF sh(1)] closed sh by (simp add: one st)
  next
    fix i
    assume "i < length (orc_rounds ?st)"
    then show "orc_rounds ?st ! i = round_of i (orc_shards ?st)"
      using inv(5) by (simp add: st round_of_def one comp_def)
  qed
qed

lemma metrics_complete:
  assumes "metrics_inv st" "orc_posted st = Round_Complete # ts"
  shows "metrics_inv (on_metrics_round_complete (st\<lparr>orc_posted := ts\<rparr>))"
proof -
  let ?st = "on_metrics_round_complete (st\<lparr>orc_posted := ts\<rparr>)"
  note inv = metrics_invD [OF assms(1)]
  have pre: "orc_pending_pulls st = 0" "\<not> orc_metrics_timer st" "count_list ts Request_Metrics = 0"
    "count_list ts Round_Complete = 0"
    using inv(1) assms(2) by (auto simp: round_stages_def split: if_splits)
  have open_round: "round_open st" using assms(2) by (simp add: round_open_def)
  have none: "\<forall>sh \<in> set (orc_shards st). pulls sh = 0"
    using inv(2) pre(1) sum_pulls_0 [of "orc_shards st"] by simp
  then have len: "\<forall>sh \<in> set (orc_shards st). length (sh_history sh) = Suc (length (orc_rounds st))"
    using inv(4) open_round by simp
  then have "map (\<lambda>sh. take (Suc (length (orc_rounds st))) (sh_history sh)) (orc_shards st) = map sh_history (orc_shards st)"
    by (intro map_cong) simp_all
  then have new: "round_of (length (orc_rounds st)) (orc_shards st) = get_aggregate_delta (map sh_history (orc_shards st))"
    by (simp only: round_of_def)
  have st: "orc_shards ?st = orc_shards st" "orc_pending_pulls ?st = 0" "orc_posted ?st = ts" "orc_metrics_timer ?st"
    "orc_rounds ?st = orc_rounds st @ [get_aggregate_delta (map sh_history (orc_shards st))]"
    using pre(1) by (simp_all add: on_metrics_round_complete_def schedule_metrics_snapshot_def)
  have closed: "\<not> round_open ?st" using pre(4) by (simp add: round_open_def st count_list_0_iff)
  show ?thesis
  proof (rule metrics_invI)
    show "round_stages ?st \<le> 1" by (simp add: round_stages_def st pre)
    show "unat (orc_pending_pulls ?st) = sum_list (map pulls (orc_shards ?st))" using inv(2) pre(1) by (simp add: st)
  next
    fix sh
    assume "sh \<in> set (orc_shards ?st)"
    then show "pulls sh \<le> 1 \<and> length (sh_history sh) + pulls sh = length (orc_rounds ?st) + (if round_open ?st then 1 else 0)"
      using none len closed by (simp add: st)
  next
    fix i
    assume "i < length (orc_rounds ?st)"
    then show "orc_rounds ?st ! i = round_of i (orc_shards ?st)"
      using inv(5) new by (cases "i = length (orc_rounds st)") (simp_all add: st nth_append)
  qed
qed

lemma metrics_pull:
  assumes "metrics_inv st" "k < length (orc_shards st)"
    and "sh_posted (orc_shards st ! k) = Task_Metrics # ts" "run_next (orc_shards st ! k) = Some sh'"
  shows "metrics_inv (shard_metrics_callback (set_shard k sh' st))"
proof -
  let ?sh = "orc_shards st ! k" and ?shs = "(orc_shards st)[k := sh']"
  obtain x where x: "sh_history sh' = sh_history ?sh @ [x]" and p: "pulls ?sh = Suc (pulls sh')"
    using assms(3,4) by (auto simp: run_next_def run_task_def record_metrics_def pulls_def)
  let ?st = "shard_metrics_callback (set_shard k sh' st)"
  note inv = metrics_invD [OF assms(1)]
  have mem: "?sh \<in> set (orc_shards st)" using assms(2) by simp
  have p': "pulls ?sh = 1" "pulls sh' = 0" using inv(3) [OF mem] p by simp_all
  have "sum_list (map pulls (orc_shards st)) \<noteq> 0" unfolding sum_pulls_0 using mem p'(1) by (metis one_neq_zero)
  then have ne: "orc_pending_pulls st \<noteq> 0" using inv(2) by auto
  then have pre: "\<not> orc_metrics_timer st" "count_list (orc_posted st) Request_Metrics = 0"
    "count_list (orc_posted st) Round_Complete = 0"
    using inv(1) by (auto simp: round_stages_def split: if_splits)
  have dec: "unat (orc_pending_pulls st - 1) = unat (orc_pending_pulls st) - 1" using ne by (simp add: unat_minus_one)
  have open_round: "round_open st" using ne by (simp add: round_open_def)
  have len: "length (sh_history ?sh) = length (orc_rounds st)"
    using inv(4) [OF mem] p'(1) open_round by simp
  have st: "orc_shards ?st = ?shs" "orc_pending_pulls ?st = orc_pending_pulls st - 1" "orc_rounds ?st = orc_rounds st"
    "orc_posted ?st = orc_posted st @ (if orc_pending_pulls st - 1 = 0 then [Round_Complete] else [])"
    "orc_metrics_timer ?st = orc_metrics_timer st"
    by (simp_all add: shard_metrics_callback_def set_shard_def post_task_def Let_def)
  have still: "round_open ?st" by (auto simp: round_open_def st)
  show ?thesis
  proof (rule metrics_invI)
    show "round_stages ?st \<le> 1" by (simp add: round_stages_def st pre)
    show "unat (orc_pending_pulls ?st) = sum_list (map pulls (orc_shards ?st))"
      using inv(2) assms(2) p' dec by (simp add: st map_update sum_list_update)
  next
    fix sh
    assume "sh \<in> set (orc_shards ?st)"
    then have "sh = sh' \<or> sh \<in> set (orc_shards st)" using set_update_subset_insert by (fastforce simp: st)
    then show "pulls sh \<le> 1 \<and> length (sh_history sh) + pulls sh = length (orc_rounds ?st) + (if round_open ?st then 1 else 0)"
      using inv(3,4) [of sh] open_round still x p' len by (auto simp: st)
  next
    fix i
    assume i: "i < length (orc_rounds ?st)"
    have "map (\<lambda>sh. take (Suc i) (sh_history sh)) ?shs = map (\<lambda>sh. take (Suc i) (sh_history sh)) (orc_shards st)"
      using i len x assms(2) by (intro nth_equalityI) (auto simp: nth_list_update st nth_append)
    then show "orc_rounds ?st ! i = round_of i (orc_shards ?st)"
      using inv(5) i by (simp add: st round_of_def)
  qed
qed

lemma own_step_metrics:
  assumes "own_step (now, st) (now', st')" "creates_first actions K" "dispatch_inv actions K st" "metrics_inv st"
  shows "metrics_inv st'"
  using assms(1)
proof cases
  case o_task
  from o_task(2) obtain t ts where t: "orc_posted st = t # ts" "run_orc_task now' t (st\<lparr>orc_posted := ts\<rparr>) = Some st'"
    by (rule run_orc_nextE)
  let ?st = "st\<lparr>orc_posted := ts\<rparr>"
  have frame: "metrics_inv st'" if "same_lives ?st st'" "same_callbacks ?st st'" "t \<noteq> Request_Metrics" "t \<noteq> Round_Complete"
    using that t(1) same_lives_work [OF that(1)] by (intro metrics_inv_frame [OF assms(4)]) (simp_all add: same_callbacks_def)
  show ?thesis
  proof (cases t)
    case Dispatch_Actions
    then obtain m where "dispatched now' m ?st st'"
      using dispatch_task [OF assms(2,3)] t by metis
    then show ?thesis using frame dispatched_frame Dispatch_Actions by blast
  next
    case Shutdown
    then show ?thesis using frame do_shutdown_frame [of ?st] t(2) by (auto simp: run_orc_task_def)
  next
    case Request_Metrics
    then show ?thesis
      using metrics_request [OF assms(4)] t assms(2,3) by (auto simp: run_orc_task_def dispatch_inv_def creates_first_def)
  next
    case Round_Complete
    then show ?thesis using metrics_complete [OF assms(4)] t by (auto simp: run_orc_task_def)
  next
    case Last_Shard_Closed
    then have "st' = last_shard_closed ?st" using t(2) by (simp add: run_orc_task_def)
    then show ?thesis
      using frame Last_Shard_Closed t(1)
      by (intro metrics_inv_frame [OF assms(4)]) (simp_all add: last_shard_closed_def list_all2_refl same_work_def)
  qed
next
  case (o_dispatch_timer d)
  then show ?thesis
    by (intro metrics_inv_frame [OF assms(4)])
      (simp_all add: dispatch_timer_expired_def post_task_def list_all2_refl same_work_def)
next
  case o_metrics_timer
  note inv = metrics_invD [OF assms(4)]
  have "round_stages st' \<le> 1" "round_open st' = round_open st"
    using inv(1) o_metrics_timer
    by (auto simp: round_stages_def round_open_def metrics_timer_expired_def post_task_def split: if_splits)
  then show ?thesis
    using inv(2-5) o_metrics_timer
    by (intro metrics_invI) (simp_all add: metrics_timer_expired_def post_task_def)
qed

lemma orc_step_metrics:
  assumes "orc_step early (now, st) (now', st')" "creates_first actions K" "dispatch_inv actions K st" "metrics_inv st"
  shows "metrics_inv st'"
  using assms(1)
proof cases
  case o_own
  then show ?thesis using own_step_metrics assms(2-4) by blast
next
  case o_early
  then show ?thesis
    by (intro metrics_inv_frame [OF assms(4)]) (simp_all add: early_stop_def post_task_def list_all2_refl same_work_def)
next
  case (o_shard k sh')
  then show ?thesis
    using same_lives_work [OF set_shard_lives [OF o_shard(3) same_life_thread [OF o_shard(5)]]]
    by (intro metrics_inv_frame [OF assms(4)]) (simp_all add: set_shard_def)
next
  case (o_pull k ts sh')
  then show ?thesis using metrics_pull [OF assms(4)] by simp
next
  case (o_close k)
  have "list_all2 same_work (orc_shards st) ((orc_shards st)[k := thread_closes (orc_shards st ! k)])"
    using o_close by (auto simp: list_all2_conv_all_nth nth_list_update same_work_def thread_closes_def pulls_def)
  then show ?thesis
    using o_close
    by (intro metrics_inv_frame [OF assms(4)]) (simp_all add: set_shard_def shard_exit_callback_def post_task_def Let_def split: if_splits)
qed

end
