(* ===== verification/Orchestrator_End.thy ===== *)
theory Orchestrator_End
  imports Orchestrator_Run
begin

text \<open>
  How a run of the orchestrator ends. Its work guard is held until the handler of the last
  shard's callback has run, so its thread outlives every shard; and its own steps always come
  to an end, since every dispatch hands out an action or is the last before a wait.
\<close>

section \<open>The invariant of a run\<close>

definition open_shards :: "shard list \<Rightarrow> nat" where
  "open_shards shs = sum_list (map (\<lambda>sh. if sh_closed sh then 0 else 1) shs)"

definition exit_inv :: "orchestrator \<Rightarrow> bool" where
  "exit_inv st \<longleftrightarrow>
     unat (orc_active_shards st) = open_shards (orc_shards st)
     \<and> count_list (orc_posted st) Last_Shard_Closed + (if orc_work_guard st then 0 else 1)
        = (if orc_active_shards st = 0 then 1 else 0)"

lemma open_shards_0: "open_shards shs = 0 \<longleftrightarrow> (\<forall>sh \<in> set shs. sh_closed sh)"
  by (induction shs) (auto simp: open_shards_def)

lemma open_shards_cong: "map sh_closed shs' = map sh_closed shs \<Longrightarrow> open_shards shs' = open_shards shs"
proof -
  assume "map sh_closed shs' = map sh_closed shs"
  from arg_cong [OF this, of "map (\<lambda>c. if c then 0 else (1 :: nat))"] show ?thesis
    by (simp add: open_shards_def comp_def)
qed

lemma exit_inv_frame:
  assumes "exit_inv st" "map sh_closed (orc_shards st') = map sh_closed (orc_shards st)"
    and "orc_active_shards st' = orc_active_shards st" "orc_work_guard st' = orc_work_guard st"
    and "count_list (orc_posted st') Last_Shard_Closed = count_list (orc_posted st) Last_Shard_Closed"
  shows "exit_inv st'"
  using assms open_shards_cong [OF assms(2)] by (simp add: exit_inv_def)

lemma own_step_exit:
  assumes "own_step (now, st) (now', st')" "creates_first actions K" "dispatch_inv actions K st" "exit_inv st"
  shows "exit_inv st' \<and> map sh_closed (orc_shards st') = map sh_closed (orc_shards st)"
  using assms(1)
proof cases
  case o_task
  from o_task(2) obtain t ts where t: "orc_posted st = t # ts" "run_orc_task now' t (st\<lparr>orc_posted := ts\<rparr>) = Some st'"
    by (rule run_orc_nextE)
  let ?st = "st\<lparr>orc_posted := ts\<rparr>"
  have frame: "exit_inv st' \<and> map sh_closed (orc_shards st') = map sh_closed (orc_shards st)"
    if "same_lives ?st st'" "same_callbacks ?st st'" "t \<noteq> Last_Shard_Closed"
    using that t(1) same_lives_closed [OF that(1)] exit_inv_frame [OF assms(4), of st'] by (simp add: same_callbacks_def)
  show ?thesis
  proof (cases t)
    case Dispatch_Actions
    then obtain m where "dispatched now' m ?st st'" using dispatch_task [OF assms(2,3)] t by metis
    then show ?thesis using frame dispatched_frame Dispatch_Actions by blast
  next
    case Shutdown
    then show ?thesis using frame do_shutdown_frame [of ?st] t(2) by (auto simp: run_orc_task_def)
  next
    case Request_Metrics
    then have st': "st' = do_request_metrics ?st" using t(2) by (simp add: run_orc_task_def)
    have "map sh_closed (orc_shards st') = map sh_closed (orc_shards st)"
      by (simp add: st' do_request_metrics_def schedule_metrics_pull_def)
    then show ?thesis
      using exit_inv_frame [OF assms(4), of st'] t(1) Request_Metrics by (simp add: st' do_request_metrics_def)
  next
    case Round_Complete
    then have st': "st' = on_metrics_round_complete ?st" using t(2) by (simp add: run_orc_task_def)
    then show ?thesis
      using exit_inv_frame [OF assms(4), of st'] t(1) Round_Complete
      by (simp add: on_metrics_round_complete_def schedule_metrics_snapshot_def)
  next
    case Last_Shard_Closed
    then have "st' = last_shard_closed ?st" using t(2) by (simp add: run_orc_task_def)
    then show ?thesis
      using assms(4) t(1) Last_Shard_Closed by (auto simp: exit_inv_def last_shard_closed_def split: if_splits)
  qed
next
  case (o_dispatch_timer d)
  then show ?thesis
    using exit_inv_frame [OF assms(4), of st'] by (simp add: dispatch_timer_expired_def post_task_def)
next
  case o_metrics_timer
  then show ?thesis
    using exit_inv_frame [OF assms(4), of st'] by (simp add: metrics_timer_expired_def post_task_def)
qed

lemma close_exit:
  assumes "exit_inv st" "k < length (orc_shards st)" "\<not> sh_closed (orc_shards st ! k)"
  shows "exit_inv (shard_exit_callback (set_shard k (thread_closes (orc_shards st ! k)) st))"
proof -
  let ?shs = "(orc_shards st)[k := thread_closes (orc_shards st ! k)]"
  have mem: "orc_shards st ! k \<in> set (orc_shards st)" using assms(2) by simp
  then have "open_shards (orc_shards st) \<noteq> 0" using assms(3) by (auto simp: open_shards_0)
  moreover have "open_shards ?shs = open_shards (orc_shards st) - 1"
    using assms(2,3) by (simp add: open_shards_def map_update sum_list_update thread_closes_def)
  moreover have active: "unat (orc_active_shards st) = open_shards (orc_shards st)" using assms(1) by (simp add: exit_inv_def)
  ultimately have ne: "orc_active_shards st \<noteq> 0" by auto
  have "unat (orc_active_shards st - 1) = open_shards ?shs"
    using \<open>open_shards ?shs = open_shards (orc_shards st) - 1\<close> active by (simp add: unat_minus_one [OF ne])
  moreover have "count_list (orc_posted st) Last_Shard_Closed + (if orc_work_guard st then 0 else 1) = 0"
    using assms(1) ne by (simp add: exit_inv_def)
  moreover have "open_shards ?shs = 0" if "orc_active_shards st = 1" using that calculation(1) by simp
  ultimately show ?thesis
    by (auto simp: exit_inv_def shard_exit_callback_def set_shard_def post_task_def Let_def split: if_splits)
qed

lemma orc_step_exit:
  assumes "orc_step early (now, st) (now', st')" "creates_first actions K" "dispatch_inv actions K st" "exit_inv st"
  shows "exit_inv st'"
  using assms(1)
proof cases
  case o_own
  then show ?thesis using own_step_exit assms(2-4) by blast
next
  case o_early
  then show ?thesis using exit_inv_frame [OF assms(4), of st'] by (simp add: early_stop_def post_task_def)
next
  case (o_shard k sh')
  then show ?thesis
    using same_lives_closed [OF set_shard_lives [OF o_shard(3) same_life_thread [OF o_shard(5)]]]
    by (intro exit_inv_frame [OF assms(4)]) (simp_all add: set_shard_def)
next
  case (o_pull k ts sh')
  have "sh_closed sh' = sh_closed (orc_shards st ! k)"
    using o_pull by (auto simp: run_next_def run_task_def record_metrics_def)
  then have "map sh_closed ((orc_shards st)[k := sh']) = map sh_closed (orc_shards st)"
    by (simp add: map_update) (metis list_update_id map_update)
  then show ?thesis
    using o_pull
    by (intro exit_inv_frame [OF assms(4)]) (simp_all add: set_shard_def shard_metrics_callback_def post_task_def Let_def)
next
  case (o_close k)
  then show ?thesis using close_exit [OF assms(4)] by simp
qed

text \<open>All invariants together, along a run.\<close>

definition run_inv :: "action_descriptor list \<Rightarrow> nat \<Rightarrow> orchestrator \<Rightarrow> bool" where
  "run_inv actions K st \<longleftrightarrow> dispatch_inv actions K st \<and> metrics_inv st \<and> exit_inv st"

lemma run_inv_start:
  assumes "creates_first actions K" "new_orchestrator actions K = Some st"
  shows "run_inv actions K (start_shards t st)"
proof -
  have st: "st = \<lparr>orc_actions = actions, orc_current = 0, orc_startup = 0, orc_shards = replicate K new_shard,
      orc_ranges = [], orc_shutdown = False, orc_dispatch_timer = None, orc_metrics_timer = False,
      orc_active_shards = of_nat K, orc_pending_pulls = 0, orc_rounds = [], orc_work_guard = True,
      orc_log = [], orc_posted = []\<rparr>"
    using assms(2) by (simp add: new_orchestrator_def split: if_splits)
  have K: "unat (of_nat K :: u64) = K" "0 < K" using assms(1) by (simp_all add: creates_first_def unat_of_nat)
  then have "(of_nat K :: u64) \<noteq> 0" by (metis less_numeral_extra(3) unat_0)
  moreover have "open_shards (map shard_start (replicate K new_shard)) = K"
    by (simp add: open_shards_def shard_start_def new_shard_def map_replicate_const sum_list_replicate)
  ultimately have "exit_inv (start_shards t st)"
    using K by (simp add: exit_inv_def st start_shards_def post_task_def schedule_metrics_snapshot_def)
  moreover have "metrics_inv (start_shards t st)"
    by (rule metrics_invI)
      (auto simp: st start_shards_def post_task_def schedule_metrics_snapshot_def round_stages_def round_open_def
        pulls_def shard_start_def new_shard_def sum_list_replicate)
  moreover have "dispatch_inv actions K (start_shards t st)"
    by (simp add: dispatch_inv_def st start_shards_def post_task_def schedule_metrics_snapshot_def shard_start_def new_shard_def)
  ultimately show ?thesis by (simp add: run_inv_def)
qed

lemma run_inv_step:
  "orc_step early x y \<Longrightarrow> creates_first actions K \<Longrightarrow> run_inv actions K (snd x) \<Longrightarrow> run_inv actions K (snd y)"
  using orc_step_dispatch orc_step_metrics orc_step_exit
  by (cases x; cases y) (fastforce simp: run_inv_def)

lemma run_inv_steps:
  "(orc_step early)\<^sup>*\<^sup>* x y \<Longrightarrow> creates_first actions K \<Longrightarrow> run_inv actions K (snd x) \<Longrightarrow> run_inv actions K (snd y)"
  by (induction rule: rtranclp_induct) (auto intro: run_inv_step)

lemma orchestrator_run_inv:
  "creates_first actions K \<Longrightarrow> orchestrator_run early actions K y \<Longrightarrow> run_inv actions K (snd y)"
  using run_inv_start run_inv_steps [of early _ y actions K] by (fastforce simp: orchestrator_run_def)

section \<open>The orchestrator's own steps come to an end\<close>

text \<open>
  The rank of a state. A dispatch that waits on the timer hands out an action when the timer
  has expired; one that is posted before its action is due only sets the timer. A round that
  is complete sets the metrics timer, which asks for the next round and then waits for the
  shards.
\<close>

definition dispatch_rank :: "int \<Rightarrow> orchestrator \<Rightarrow> nat" where
  "dispatch_rank now st =
     (let left = length (orc_actions st) - orc_current st
      in if orc_dispatch_timer st \<noteq> None then 2 * left + 2
         else if Dispatch_Actions \<notin> set (orc_posted st) then 0
         else if 0 < left \<and> target_time st (orc_actions st ! orc_current st) > now then 2 * left + 3
         else 2 * left + 1)"

definition task_rank :: "orc_task \<Rightarrow> nat" where
  "task_rank t = (case t of Dispatch_Actions \<Rightarrow> 0 | Shutdown \<Rightarrow> 1 | Request_Metrics \<Rightarrow> 1 | Round_Complete \<Rightarrow> 3
     | Last_Shard_Closed \<Rightarrow> 1)"

definition rank :: "timed \<Rightarrow> nat" where
  "rank x = (case x of (now, st) \<Rightarrow>
     dispatch_rank now st + sum_list (map task_rank (orc_posted st)) + (if orc_metrics_timer st then 2 else 0))"

lemma rank_le: "rank (now, st) \<le> 2 * (length (orc_actions st) - orc_current st) + 3 * length (orc_posted st) + 5"
proof -
  have "sum_list (map task_rank ts) \<le> 3 * length ts" for ts
    by (induction ts) (auto simp: task_rank_def split: orc_task.splits)
  moreover have "dispatch_rank now st \<le> 2 * (length (orc_actions st) - orc_current st) + 3"
    by (simp add: dispatch_rank_def Let_def)
  ultimately have "rank (now, st) \<le> 2 * (length (orc_actions st) - orc_current st) + 3 + 3 * length (orc_posted st) + 2"
    unfolding rank_def prod.case by (intro add_mono) simp_all
  then show ?thesis by simp
qed

lemma dispatch_rank_later: "now \<le> now' \<Longrightarrow> dispatch_rank now' st \<le> dispatch_rank now st"
  by (auto simp: dispatch_rank_def Let_def)

text \<open>A dispatch lowers the rank.\<close>

lemma dispatched_rank:
  assumes "dispatched now m st st'" "orc_dispatch_timer st = None" "orc_current st \<le> length (orc_actions st)"
    and "Dispatch_Actions \<notin> set (orc_posted st)"
  shows "dispatch_rank now st' < dispatch_rank now (st\<lparr>orc_posted := Dispatch_Actions # ts\<rparr>)"
proof -
  obtain acts c lg st1 where c: "c \<le> length (orc_actions st)" "c = orc_current st + m"
      "c < length (orc_actions st) \<Longrightarrow> target_time st (orc_actions st ! c) > now"
      "c < length (orc_actions st) \<Longrightarrow> st' = schedule_next_action (target_time st (orc_actions st ! c)) st1"
      "c = length (orc_actions st) \<Longrightarrow> st' = do_shutdown st1"
    and st1: "st1 = st\<lparr>orc_ranges := fold (ranges_after (length (orc_shards st))) acts (orc_ranges st),
      orc_shards := work_given acts st, orc_log := lg, orc_current := c\<rparr>"
    using dispatchedE [OF assms(1)] by metis
  show ?thesis
  proof (cases "c = length (orc_actions st)")
    case True
    then have "dispatch_rank now st' = 0"
      using c(5) assms(2,4) by (simp add: st1 dispatch_rank_def do_shutdown_def log_line_def Let_def)
    then show ?thesis using assms(2) by (simp add: dispatch_rank_def Let_def)
  next
    case False
    then have st': "st' = schedule_next_action (target_time st (orc_actions st ! c)) st1" and less: "c < length (orc_actions st)"
      using c by simp_all
    have "dispatch_rank now st' = 2 * (length (orc_actions st) - c) + 2"
      by (simp add: st' st1 dispatch_rank_def schedule_next_action_def Let_def)
    moreover have "target_time st (orc_actions st ! orc_current st) > now" if "m = 0" using c(2,3) less that by simp
    ultimately show ?thesis
      using c(2) less assms(2) by (cases m) (auto simp: dispatch_rank_def Let_def target_time_def)
  qed
qed

lemma own_step_rank:
  assumes "own_step (now, st) (now', st')" "creates_first actions K" "dispatch_inv actions K st"
  shows "rank (now', st') < rank (now, st)"
  using assms(1)
proof cases
  case o_task
  from o_task(2) obtain t ts where t: "orc_posted st = t # ts" "run_orc_task now' t (st\<lparr>orc_posted := ts\<rparr>) = Some st'"
    by (rule run_orc_nextE)
  have later: "dispatch_rank now' st \<le> dispatch_rank now st" using o_task(1) by (rule dispatch_rank_later)
  have frame: "rank (now', st') < rank (now, st)"
    if "dispatch_rank now' st' \<le> dispatch_rank now' st" "orc_posted st' = ts"
      "(if orc_metrics_timer st' then 2 else 0) < task_rank t + (if orc_metrics_timer st then 2 else 0)"
    using that later t(1) by (simp add: rank_def)
  have free: "orc_dispatch_timer st = None" if "Dispatch_Actions \<in> set (orc_posted st)"
    using assms(3) that count_list_0_iff [of "orc_posted st" Dispatch_Actions]
    by (auto simp: dispatch_inv_def split: if_splits)
  show ?thesis
  proof (cases t)
    case Dispatch_Actions
    then obtain m where m: "dispatched now' m (st\<lparr>orc_posted := ts\<rparr>) st'" "Dispatch_Actions \<notin> set ts" "orc_dispatch_timer st = None"
      using dispatch_task [OF assms(2,3)] t by metis
    have same: "st\<lparr>orc_posted := Dispatch_Actions # ts\<rparr> = st" using t(1) Dispatch_Actions by simp
    have "orc_current st \<le> length (orc_actions st)" using assms(3) by (simp add: dispatch_inv_def)
    then have "dispatch_rank now' st' < dispatch_rank now' st"
      using dispatched_rank [OF m(1), of ts] m(2,3) same by simp
    moreover have "orc_posted st' = ts" "orc_metrics_timer st' \<longrightarrow> orc_metrics_timer st"
      using dispatched_frame(2) [OF m(1)] by (simp_all add: same_callbacks_def)
    ultimately show ?thesis using later t(1) by (auto simp: rank_def)
  next
    case Shutdown
    then have st': "st' = do_shutdown (st\<lparr>orc_posted := ts\<rparr>)" using t(2) by (simp add: run_orc_task_def)
    have "dispatch_rank now' st' \<le> dispatch_rank now' st"
      using t(1) Shutdown free
      by (auto simp: st' dispatch_rank_def do_shutdown_def log_line_def Let_def target_time_def)
    then show ?thesis
      using Shutdown do_shutdown_frame(2) [of "st\<lparr>orc_posted := ts\<rparr>"]
      by (intro frame) (auto simp: st' same_callbacks_def task_rank_def)
  next
    case Request_Metrics
    then have st': "st' = do_request_metrics (st\<lparr>orc_posted := ts\<rparr>)" using t(2) by (simp add: run_orc_task_def)
    have "dispatch_rank now' st' \<le> dispatch_rank now' st"
      using t(1) Request_Metrics by (auto simp: st' dispatch_rank_def do_request_metrics_def Let_def target_time_def)
    then show ?thesis
      using Request_Metrics by (intro frame) (auto simp: st' do_request_metrics_def task_rank_def)
  next
    case Round_Complete
    then have st': "st' = on_metrics_round_complete (st\<lparr>orc_posted := ts\<rparr>)" using t(2) by (simp add: run_orc_task_def)
    have "dispatch_rank now' st' \<le> dispatch_rank now' st"
      using t(1) Round_Complete by (auto simp: st' dispatch_rank_def on_metrics_round_complete_def
          schedule_metrics_snapshot_def Let_def target_time_def)
    then show ?thesis
      using Round_Complete
      by (intro frame) (auto simp: st' on_metrics_round_complete_def schedule_metrics_snapshot_def task_rank_def)
  next
    case Last_Shard_Closed
    then have st': "st' = last_shard_closed (st\<lparr>orc_posted := ts\<rparr>)" using t(2) by (simp add: run_orc_task_def)
    have "dispatch_rank now' st' \<le> dispatch_rank now' st"
      using t(1) Last_Shard_Closed assms(3)
      by (auto simp: st' dispatch_rank_def last_shard_closed_def Let_def target_time_def dispatch_inv_def
          count_list_0_iff split: if_splits)
    then show ?thesis
      using Last_Shard_Closed by (intro frame) (auto simp: st' last_shard_closed_def task_rank_def)
  qed
next
  case (o_dispatch_timer d)
  have "dispatch_rank now' st' < dispatch_rank now st"
    using o_dispatch_timer assms(3)
    by (auto simp: dispatch_rank_def dispatch_timer_expired_def post_task_def Let_def target_time_def dispatch_inv_def)
  then show ?thesis
    using o_dispatch_timer by (simp add: rank_def dispatch_timer_expired_def post_task_def task_rank_def)
next
  case o_metrics_timer
  have "dispatch_rank now' st' \<le> dispatch_rank now' st"
    using o_metrics_timer
    by (auto simp: dispatch_rank_def metrics_timer_expired_def post_task_def Let_def target_time_def)
  then have "dispatch_rank now' st' \<le> dispatch_rank now st" using dispatch_rank_later [OF o_metrics_timer(2)] by (rule order_trans)
  then show ?thesis
    using o_metrics_timer by (simp add: rank_def metrics_timer_expired_def post_task_def task_rank_def)
qed

text \<open>So a run of own steps is bounded, and once every shard has ended it reaches the end.\<close>

lemma own_steps_rank:
  assumes "(own_step ^^ n) x y" "creates_first actions K" "run_inv actions K (snd x)"
  shows "n + rank y \<le> rank x \<and> run_inv actions K (snd y)
    \<and> map sh_closed (orc_shards (snd y)) = map sh_closed (orc_shards (snd x))"
  using assms(1)
proof (induction n arbitrary: y)
  case 0
  then show ?case using assms(3) by simp
next
  case (Suc n)
  then obtain z where z: "(own_step ^^ n) x z" "own_step z y" by auto
  have ih: "n + rank z \<le> rank x" "run_inv actions K (snd z)" "map sh_closed (orc_shards (snd z)) = map sh_closed (orc_shards (snd x))"
    using Suc.IH [OF z(1)] by simp_all
  obtain now st now' st' where pairs: "z = (now, st)" "y = (now', st')" by (cases z; cases y)
  have "rank y < rank z" "map sh_closed (orc_shards (snd y)) = map sh_closed (orc_shards (snd z))"
    using own_step_rank own_step_exit z(2) ih(2) assms(2) by (auto simp: pairs run_inv_def)
  moreover have "run_inv actions K (snd y)"
    using run_inv_step [OF orc_step.o_own [OF z(2), of False] assms(2) ih(2)] .
  ultimately show ?case using ih by simp
qed

lemma idle_after_shards: "exit_inv st \<Longrightarrow> orc_thread_idle st \<Longrightarrow> \<forall>sh \<in> set (orc_shards st). sh_closed sh"
  by (simp add: exit_inv_def orc_thread_idle_def flip: open_shards_0 split: if_splits)

lemma own_step_possible:
  assumes "creates_first actions K" "run_inv actions K st"
    and "orc_posted st \<noteq> [] \<or> orc_dispatch_timer st \<noteq> None \<or> orc_metrics_timer st"
  shows "\<exists>y. own_step (now, st) y"
proof -
  consider t ts where "orc_posted st = t # ts" | d where "orc_dispatch_timer st = Some d" | "orc_metrics_timer st"
    using assms(3) by (cases "orc_posted st"; cases "orc_dispatch_timer st") auto
  then show ?thesis
  proof cases
    case 1
    have "\<exists>st'. run_orc_next now st = Some st'"
    proof (cases "t = Dispatch_Actions")
      case True
      have "dispatch_inv actions K st" using assms(2) by (simp add: run_inv_def)
      then have "dispatch_inv actions K (st\<lparr>orc_posted := ts\<rparr>)"
        using 1 True by (simp add: dispatch_inv_def target_time_def split: if_splits)
      then obtain m st' where "dispatch_pending_actions now (st\<lparr>orc_posted := ts\<rparr>) = Some st'"
        using dispatch_returns [OF assms(1)] by metis
      then show ?thesis using 1 True by (simp add: run_orc_next_def run_orc_task_def)
    next
      case False
      then show ?thesis using 1 by (cases t) (simp_all add: run_orc_next_def run_orc_task_def)
    qed
    then show ?thesis using own_step.o_task [of now now] by blast
  next
    case 2
    then show ?thesis using own_step.o_dispatch_timer [of now "max now d" st d] by auto
  next
    case 3
    then show ?thesis using own_step.o_metrics_timer [of now now st] by auto
  qed
qed

lemma own_progress:
  assumes "creates_first actions K" "run_inv actions K st" "\<forall>sh \<in> set (orc_shards st). sh_closed sh" "\<not> orc_thread_idle st"
  shows "\<exists>y. own_step (now, st) y"
proof -
  have "orc_active_shards st = 0"
    using assms(2,3) open_shards_0 [of "orc_shards st"] by (simp add: run_inv_def exit_inv_def unat_eq_0)
  then have "count_list (orc_posted st) Last_Shard_Closed + (if orc_work_guard st then 0 else 1) = 1"
    using assms(2) by (simp add: run_inv_def exit_inv_def)
  then have "orc_posted st \<noteq> [] \<or> \<not> orc_work_guard st" by (cases "orc_posted st") (auto split: if_splits)
  then show ?thesis using assms(4) by (intro own_step_possible [OF assms(1,2)]) (auto simp: orc_thread_idle_def)
qed

lemma start_comes_to_return:
  assumes "creates_first actions K" "run_inv actions K (snd x)" "\<forall>sh \<in> set (orc_shards (snd x)). sh_closed sh"
  shows "\<exists>n y. (own_step ^^ n) x y \<and> start_returns (snd y)"
  using assms(2,3)
proof (induction "rank x" arbitrary: x rule: less_induct)
  case less
  show ?case
  proof (cases "orc_thread_idle (snd x)")
    case True
    then show ?thesis using less.prems(2) by (intro exI [of _ 0] exI [of _ x]) (simp add: start_returns_def)
  next
    case False
    obtain y where y: "own_step x y" using own_progress [OF assms(1) less.prems False, of "fst x"] by auto
    then have "(own_step ^^ 1) x y" by (simp only: relpowp_1)
    note one = own_steps_rank [OF this assms(1) less.prems(1)]
    have closed: "\<forall>sh \<in> set (orc_shards (snd y)). sh_closed sh"
      using less.prems(2) one arg_cong [of _ _ set] by (metis (no_types, lifting) imageE image_eqI list.set_map)
    have "rank y < rank x" using one by simp
    then obtain n z where "(own_step ^^ n) y z" "start_returns (snd z)" using less.hyps one closed by blast
    then show ?thesis using y relpowp_Suc_I2 by metis
  qed
qed

section \<open>A shard that has ended\<close>

lemma own_step_history:
  assumes "own_step (now, st) (now', st')" "creates_first actions K" "dispatch_inv actions K st"
  shows "map sh_history (orc_shards st') = map sh_history (orc_shards st)"
  using assms(1)
proof cases
  case o_task
  from o_task(2) obtain t ts where t: "orc_posted st = t # ts" "run_orc_task now' t (st\<lparr>orc_posted := ts\<rparr>) = Some st'"
    by (rule run_orc_nextE)
  show ?thesis
  proof (cases t)
    case Dispatch_Actions
    then obtain m where "dispatched now' m (st\<lparr>orc_posted := ts\<rparr>) st'" using dispatch_task [OF assms(2,3)] t by metis
    then show ?thesis using same_work_maps(1) [OF same_lives_work [OF dispatched_frame(1)]] by fastforce
  next
    case Shutdown
    then show ?thesis
      using t(2) same_work_maps(1) [OF same_lives_work [OF do_shutdown_frame(1)]] by (fastforce simp: run_orc_task_def)
  qed (use t(2) in \<open>auto simp: run_orc_task_def do_request_metrics_def schedule_metrics_pull_def
      on_metrics_round_complete_def schedule_metrics_snapshot_def last_shard_closed_def\<close>)
qed (simp_all add: dispatch_timer_expired_def metrics_timer_expired_def post_task_def)

lemma closed_shard_stays:
  assumes "orc_step early (now, st) (now', st')" "creates_first actions K" "run_inv actions K st"
    and "k < length (orc_shards st)" "sh_closed (orc_shards st ! k)"
  shows "k < length (orc_shards st') \<and> sh_closed (orc_shards st' ! k)
    \<and> sh_history (orc_shards st' ! k) = sh_history (orc_shards st ! k)"
  using assms(1)
proof cases
  case o_own
  have "map sh_history (orc_shards st') = map sh_history (orc_shards st)"
    "map sh_closed (orc_shards st') = map sh_closed (orc_shards st)"
    using own_step_history own_step_exit o_own assms(2,3) by (auto simp: run_inv_def)
  then show ?thesis using assms(4,5) by (metis length_map nth_map)
next
  case (o_close j)
  then show ?thesis
    using assms(4,5) by (cases "j = k") (simp_all add: shard_exit_callback_def post_task_def set_shard_def Let_def)
next
  case (o_pull j ts sh')
  then show ?thesis
    using assms(4,5) by (cases "j = k") (simp_all add: shard_metrics_callback_def post_task_def set_shard_def Let_def)
next
  case (o_shard j sh')
  then show ?thesis using assms(4,5) by (cases "j = k") (simp_all add: set_shard_def)
qed (use assms(4,5) in \<open>simp add: early_stop_def post_task_def\<close>)

lemma closed_shard_keeps:
  assumes "(orc_step early)\<^sup>*\<^sup>* (now, st) (now', st')" "creates_first actions K" "run_inv actions K st"
    and "k < length (orc_shards st)" "sh_closed (orc_shards st ! k)"
  shows "k < length (orc_shards st') \<and> sh_closed (orc_shards st' ! k)
    \<and> sh_history (orc_shards st' ! k) = sh_history (orc_shards st ! k)"
  using assms(1)
proof (induction "(now', st')" arbitrary: now' st' rule: rtranclp_induct)
  case base
  then show ?case using assms(4,5) by simp
next
  case (step y)
  obtain n s where y: "y = (n, s)" by (cases y)
  have "run_inv actions K s" using run_inv_steps [OF step.hyps(1) assms(2)] assms(3) by (simp add: y)
  then show ?case using closed_shard_stays [OF step.hyps(2) [unfolded y] assms(2)] step.hyps(3) [OF y] by simp
qed

section \<open>What follows for every run\<close>

lemma run_metrics:
  assumes "creates_first actions K" "orchestrator_run early actions K (now, st)"
  shows "\<forall>sh \<in> set (orc_shards st). count_list (sh_posted sh) Task_Metrics \<le> 1"
    and "unat (orc_pending_pulls st) = (\<Sum>sh \<leftarrow> orc_shards st. count_list (sh_posted sh) Task_Metrics)"
    and "Round_Complete \<in> set (orc_posted st) \<Longrightarrow> count_list (orc_posted st) Round_Complete = 1
      \<and> (\<forall>sh \<in> set (orc_shards st). Task_Metrics \<notin> set (sh_posted sh) \<and> length (sh_history sh) = Suc (length (orc_rounds st)))"
    and "\<forall>i < length (orc_rounds st).
      orc_rounds st ! i = get_aggregate_delta (map (\<lambda>sh. take (Suc i) (sh_history sh)) (orc_shards st))"
proof -
  have m: "metrics_inv st" using orchestrator_run_inv [OF assms] by (simp add: run_inv_def)
  note inv = metrics_invD [OF m]
  show "\<forall>sh \<in> set (orc_shards st). count_list (sh_posted sh) Task_Metrics \<le> 1" using inv(3) by (simp add: pulls_def)
  show "unat (orc_pending_pulls st) = (\<Sum>sh \<leftarrow> orc_shards st. count_list (sh_posted sh) Task_Metrics)"
    using inv(2) unfolding pulls_def [abs_def] .
  show "\<forall>i < length (orc_rounds st).
      orc_rounds st ! i = get_aggregate_delta (map (\<lambda>sh. take (Suc i) (sh_history sh)) (orc_shards st))"
    using inv(5) by (simp add: round_of_def)
  assume c: "Round_Complete \<in> set (orc_posted st)"
  then have pos: "count_list (orc_posted st) Round_Complete \<noteq> 0" by (simp add: count_list_0_iff)
  then have one: "count_list (orc_posted st) Round_Complete = 1" "orc_pending_pulls st = 0"
    using inv(1) by (auto simp: round_stages_def split: if_splits)
  have none: "\<forall>sh \<in> set (orc_shards st). pulls sh = 0"
    using inv(2) one(2) sum_pulls_0 [of "orc_shards st"] by simp
  have "round_open st" using c by (simp add: round_open_def)
  then have "\<forall>sh \<in> set (orc_shards st). Task_Metrics \<notin> set (sh_posted sh) \<and> length (sh_history sh) = Suc (length (orc_rounds st))"
    using inv(4) none by (auto simp: pulls_def count_list_0_iff)
  then show "count_list (orc_posted st) Round_Complete = 1
      \<and> (\<forall>sh \<in> set (orc_shards st). Task_Metrics \<notin> set (sh_posted sh) \<and> length (sh_history sh) = Suc (length (orc_rounds st)))"
    using one(1) by blast
qed

text \<open>A shard has written a snapshot of every complete round, and at most one more.\<close>

lemma rounds_of_shard:
  assumes "metrics_inv st" "sh \<in> set (orc_shards st)"
  shows "length (orc_rounds st) \<le> length (sh_history sh)" "length (sh_history sh) \<le> Suc (length (orc_rounds st))"
proof -
  note inv = metrics_invD [OF assms(1)]
  have "pulls sh = 0" if "\<not> round_open st"
  proof -
    have "sum_list (map pulls (orc_shards st)) = 0" using inv(2) that by (simp add: round_open_def)
    then show ?thesis using assms(2) sum_pulls_0 [of "orc_shards st"] by blast
  qed
  then show "length (orc_rounds st) \<le> length (sh_history sh)" "length (sh_history sh) \<le> Suc (length (orc_rounds st))"
    using inv(3,4) [OF assms(2)] by (auto split: if_splits)
qed

lemma closed_shard_rounds:
  assumes "creates_first actions K" "orchestrator_run early actions K (now, st)" "k < K" "sh_closed (orc_shards st ! k)"
    and "(orc_step early)\<^sup>*\<^sup>* (now, st) (now', st')"
  shows "length (orc_rounds st') \<le> length (sh_history (orc_shards st ! k))"
    and "length (sh_history (orc_shards st ! k)) \<le> Suc (length (orc_rounds st))"
proof -
  have inv: "run_inv actions K st" using orchestrator_run_inv [OF assms(1,2)] by simp
  then have later: "run_inv actions K st'" using run_inv_steps [OF assms(5,1)] by simp
  have k: "k < length (orc_shards st)" using inv assms(3) by (simp add: run_inv_def dispatch_inv_def)
  then show "length (sh_history (orc_shards st ! k)) \<le> Suc (length (orc_rounds st))"
    using rounds_of_shard(2) inv by (simp add: run_inv_def)
  have "k < length (orc_shards st')" "sh_history (orc_shards st' ! k) = sh_history (orc_shards st ! k)"
    using closed_shard_keeps [OF assms(5,1) inv k assms(4)] by simp_all
  then show "length (orc_rounds st') \<le> length (sh_history (orc_shards st ! k))"
    using rounds_of_shard(1) [of st' "orc_shards st' ! k"] later by (simp add: run_inv_def)
qed

lemma run_ends:
  assumes "creates_first actions K" "orchestrator_run early actions K (now, st)"
  shows "orc_thread_idle st \<longleftrightarrow> start_returns st"
    and "(own_step ^^ n) (now, st) y \<Longrightarrow> n \<le> 2 * (length (orc_actions st) - orc_current st) + 3 * length (orc_posted st) + 5"
    and "\<forall>sh \<in> set (orc_shards st). sh_closed sh \<Longrightarrow> \<exists>n y. (own_step ^^ n) (now, st) y \<and> start_returns (snd y)"
proof -
  have inv: "run_inv actions K st" using orchestrator_run_inv [OF assms] by simp
  show "orc_thread_idle st \<longleftrightarrow> start_returns st"
    using idle_after_shards inv by (auto simp: start_returns_def run_inv_def)
  show "n \<le> 2 * (length (orc_actions st) - orc_current st) + 3 * length (orc_posted st) + 5"
    if "(own_step ^^ n) (now, st) y"
    using own_steps_rank [OF that assms(1)] inv rank_le [of now st] by simp
  show "\<exists>n y. (own_step ^^ n) (now, st) y \<and> start_returns (snd y)" if "\<forall>sh \<in> set (orc_shards st). sh_closed sh"
    using start_comes_to_return [OF assms(1), of "(now, st)"] inv that by simp
qed

end
