(* ===== verification/Orchestrator_Work.thy ===== *)
theory Orchestrator_Work
  imports Orchestrator_End
begin

text \<open>
  The work of the shards in a run of the orchestrator: each shard serves what the dispatch has
  handed out, so what \<open>Calls\<close> shows of a shard that is given its part of a plan holds of every
  shard of every run.
\<close>

section \<open>What each shard has been given\<close>

text \<open>
  Shard \<open>k\<close> has been posted its parts of the first \<open>c\<close> actions: of all that were handed out,
  unless the run was stopped from outside.
\<close>

definition shard_served :: "bool \<Rightarrow> action_descriptor list \<Rightarrow> nat \<Rightarrow> nat \<Rightarrow> orchestrator \<Rightarrow> bool" where
  "shard_served early actions K k st \<longleftrightarrow>
     (\<exists>ps rs c. serves ps rs (orc_shards st ! k) \<and> c \<le> orc_current st \<and> (\<not> orc_shutdown st \<or> \<not> early \<longrightarrow> c = orc_current st)
        \<and> map Task_Action (actions_in ps) = shard_work K k (take c actions) [])"

definition work_inv :: "bool \<Rightarrow> action_descriptor list \<Rightarrow> nat \<Rightarrow> orchestrator \<Rightarrow> bool" where
  "work_inv early actions K st \<longleftrightarrow>
     (\<forall>k < K. shard_served early actions K k st)
     \<and> (\<not> early \<longrightarrow> Shutdown \<notin> set (orc_posted st) \<and> (orc_shutdown st \<longrightarrow> orc_current st = length actions))"

lemma shard_work_append:
  "shard_work K k (xs @ ys) rs = shard_work K k xs rs @ shard_work K k ys (fold (ranges_after K) xs rs)"
  by (induction xs arbitrary: rs) simp_all

lemma serves_give:
  assumes "serves ps rs sh" "sh_running sh"
  shows "serves (ps @ map Task_Action as) rs (give_work (map Task_Action as) sh)"
proof (induction as rule: rev_induct)
  case Nil
  then show ?case using assms(1) by simp
next
  case (snoc a as)
  let ?sh = "give_work (map Task_Action as) sh"
  have run: "sh_running ?sh" using assms(2) by simp
  then have "snd (submit_work a ?sh) = give_work (map Task_Action (as @ [a])) sh"
    by (simp add: submit_work_def give_work_def)
  then show ?case using serves.s_submit [OF snoc, of a] run by simp
qed

lemma serves_stop:
  "serves ps rs sh \<Longrightarrow> \<exists>ps'. serves ps' rs (shard_stop sh) \<and> actions_in ps' = actions_in ps"
  by (drule serves.s_stop) (auto split: if_splits)

lemma serves_pull:
  "serves ps rs sh \<Longrightarrow> \<exists>ps'. serves ps' rs (schedule_metrics_pull sh) \<and> actions_in ps' = actions_in ps"
  by (drule serves.s_pull) auto

lemma serves_thread:
  "thread_step sh sh' \<Longrightarrow> serves ps rs sh \<Longrightarrow> \<exists>rs'. serves ps rs' sh'"
  by (induction rule: thread_step.induct) (blast intro: serves.intros)+

text \<open>A shard whose history grows by no action.\<close>

lemma shard_served_step:
  assumes "shard_served early actions K k st" "orc_current st' = orc_current st" "orc_shutdown st \<Longrightarrow> orc_shutdown st'"
    and "\<And>ps rs. serves ps rs (orc_shards st ! k) \<Longrightarrow>
      \<exists>ps' rs'. serves ps' rs' (orc_shards st' ! k) \<and> actions_in ps' = actions_in ps"
  shows "shard_served early actions K k st'"
proof -
  obtain ps rs c where "serves ps rs (orc_shards st ! k)" and c: "c \<le> orc_current st"
    "\<not> orc_shutdown st \<or> \<not> early \<longrightarrow> c = orc_current st"
    "map Task_Action (actions_in ps) = shard_work K k (take c actions) []"
    using assms(1) unfolding shard_served_def by blast
  moreover obtain ps' rs' where "serves ps' rs' (orc_shards st' ! k)" "actions_in ps' = actions_in ps"
    using assms(4) calculation(1) by blast
  ultimately show ?thesis using assms(2,3) unfolding shard_served_def by metis
qed

lemma work_inv_step:
  assumes "work_inv early actions K st" "orc_current st' = orc_current st" "orc_shutdown st' = orc_shutdown st"
    and "\<And>k ps rs. k < K \<Longrightarrow> serves ps rs (orc_shards st ! k) \<Longrightarrow>
      \<exists>ps' rs'. serves ps' rs' (orc_shards st' ! k) \<and> actions_in ps' = actions_in ps"
    and "Shutdown \<in> set (orc_posted st') \<Longrightarrow> early \<or> Shutdown \<in> set (orc_posted st)"
  shows "work_inv early actions K st'"
  using assms shard_served_step [of early actions K _ st st'] unfolding work_inv_def by auto

lemma work_inv_same:
  assumes "work_inv early actions K st" "orc_shards st' = orc_shards st" "orc_current st' = orc_current st"
    and "orc_shutdown st' = orc_shutdown st" "Shutdown \<in> set (orc_posted st') \<Longrightarrow> early \<or> Shutdown \<in> set (orc_posted st)"
  shows "work_inv early actions K st'"
  using assms unfolding work_inv_def shard_served_def by auto

text \<open>The dispatch.\<close>

lemma work_given_served:
  assumes "dispatch_inv actions K st" "work_inv early actions K st" "k < K" "c = orc_current st + m"
    and "acts = take m (drop (orc_current st) actions)" "c \<le> length actions"
  shows "shard_served early actions K k (st\<lparr>orc_ranges := rs, orc_shards := work_given acts st, orc_log := lg, orc_current := c\<rparr>)"
proof -
  let ?sh = "orc_shards st ! k"
  have inv: "length (orc_shards st) = K" "orc_ranges st = fold (ranges_after K) (take (orc_current st) actions) []"
    "sh_running ?sh \<longleftrightarrow> \<not> orc_shutdown st" "orc_actions st = actions"
    using assms(1,3) by (auto simp: dispatch_inv_def)
  obtain ps qs c0 where s: "serves ps qs ?sh" "c0 \<le> orc_current st" "\<not> orc_shutdown st \<or> \<not> early \<longrightarrow> c0 = orc_current st"
    "map Task_Action (actions_in ps) = shard_work K k (take c0 actions) []"
    using assms(2,3) unfolding work_inv_def shard_served_def by blast
  show ?thesis
  proof (cases "orc_shutdown st")
    case True
    then have same: "work_given acts st ! k = ?sh" using inv(1,3) assms(3) by (simp add: accepted_def)
    have "c0 = c" if "\<not> early"
    proof -
      have "orc_current st = length actions" using assms(2) True that by (simp add: work_inv_def)
      then show ?thesis using s(3) that assms(4,6) by simp
    qed
    then show ?thesis
      using s True same assms(4) unfolding shard_served_def
      by (intro exI [of _ ps] exI [of _ qs] exI [of _ c0]) auto
  next
    case False
    then have c0: "c0 = orc_current st" and run: "sh_running ?sh" using s(3) inv(3) by simp_all
    obtain as where as: "shard_work K k acts (orc_ranges st) = map Task_Action as" using shard_work_actions by blast
    then have given: "work_given acts st ! k = give_work (map Task_Action as) ?sh"
      using run inv(1) assms(3) by (simp add: accepted_def)
    have "shard_work K k (take c actions) [] = map Task_Action (actions_in (ps @ map Task_Action as))"
      using s(4) as by (simp add: assms(4,5) take_add shard_work_append inv(2) c0)
    then show ?thesis
      using serves_give [OF s(1) run, of as] given False unfolding shard_served_def
      by (intro exI [of _ "ps @ map Task_Action as"] exI [of _ qs] exI [of _ c]) simp
  qed
qed

lemma do_shutdown_served:
  assumes "shard_served early actions K k st" "k < length (orc_shards st)"
  shows "shard_served early actions K k (do_shutdown st)"
proof (rule shard_served_step [OF assms(1)])
  fix ps rs
  assume s: "serves ps rs (orc_shards st ! k)"
  then obtain ps' where "serves ps' rs (shard_stop (orc_shards st ! k))" "actions_in ps' = actions_in ps"
    using serves_stop by blast
  then show "\<exists>ps' rs'. serves ps' rs' (orc_shards (do_shutdown st) ! k) \<and> actions_in ps' = actions_in ps"
    using s assms(2) by (cases "orc_shutdown st") (auto simp: do_shutdown_def log_line_def Let_def)
qed (simp_all add: do_shutdown_def log_line_def Let_def)

lemma dispatched_work:
  assumes "dispatched now m st st'" "dispatch_inv actions K st" "work_inv early actions K st"
  shows "work_inv early actions K st'"
proof -
  have acts': "orc_actions st = actions" "length (orc_shards st) = K" using assms(2) by (simp_all add: dispatch_inv_def)
  obtain acts c lg st1 where c: "c \<le> length actions" "c = orc_current st + m" "acts = take m (drop (orc_current st) actions)"
      "c < length actions \<Longrightarrow> st' = schedule_next_action (target_time st (actions ! c)) st1"
      "c = length actions \<Longrightarrow> st' = do_shutdown st1"
    and st1: "st1 = st\<lparr>orc_ranges := fold (ranges_after (length (orc_shards st))) acts (orc_ranges st),
      orc_shards := work_given acts st, orc_log := lg, orc_current := c\<rparr>"
    using dispatchedE [OF assms(1)] unfolding acts' by metis
  have served: "shard_served early actions K k st1" if "k < K" for k
    unfolding st1 by (rule work_given_served [OF assms(2,3) that c(2,3,1)])
  have quiet: "\<not> early \<longrightarrow> Shutdown \<notin> set (orc_posted st) \<and> (orc_shutdown st \<longrightarrow> orc_current st = length actions)"
    using assms(3) by (simp add: work_inv_def)
  show ?thesis
  proof (cases "c = length actions")
    case True
    have "length (orc_shards st1) = K" using acts'(2) by (simp add: st1)
    then have "\<forall>k < K. shard_served early actions K k st'" using served do_shutdown_served c(5) [OF True] by simp
    moreover have "orc_posted st' = orc_posted st" "orc_current st' = length actions"
      using True c(5) by (simp_all add: st1 do_shutdown_def log_line_def Let_def)
    ultimately show ?thesis using quiet by (simp add: work_inv_def)
  next
    case False
    then have st': "st' = schedule_next_action (target_time st (actions ! c)) st1" using c(1,4) by simp
    have "shard_served early actions K k st'" if "k < K" for k
      by (rule shard_served_step [OF served [OF that]]) (auto simp: st' schedule_next_action_def)
    moreover have "orc_current st \<noteq> length actions" using False c(1,2) by simp
    then have "\<not> early \<longrightarrow> \<not> orc_shutdown st'" using quiet by (simp add: st' st1 schedule_next_action_def)
    ultimately show ?thesis using quiet by (simp add: work_inv_def st' st1 schedule_next_action_def)
  qed
qed

lemma own_step_work:
  assumes "own_step (now, st) (now', st')" "creates_first actions K" "dispatch_inv actions K st"
    and "work_inv early actions K st"
  shows "work_inv early actions K st'"
  using assms(1)
proof cases
  case o_task
  from o_task(2) obtain t ts where t: "orc_posted st = t # ts" "run_orc_task now' t (st\<lparr>orc_posted := ts\<rparr>) = Some st'"
    by (rule run_orc_nextE)
  have K: "length (orc_shards st) = K" using assms(3) by (simp add: dispatch_inv_def)
  have popped: "work_inv early actions K (st\<lparr>orc_posted := ts\<rparr>)"
    using t(1) by (intro work_inv_same [OF assms(4)]) auto
  show ?thesis
  proof (cases t)
    case Dispatch_Actions
    then obtain m where "dispatched now' m (st\<lparr>orc_posted := ts\<rparr>) st'" "dispatch_inv actions K (st\<lparr>orc_posted := ts\<rparr>)"
      using dispatch_task [OF assms(2,3)] t by metis
    then show ?thesis using dispatched_work popped by blast
  next
    case Shutdown
    then have early: "early" using assms(4) t(1) by (auto simp: work_inv_def)
    have st': "st' = do_shutdown (st\<lparr>orc_posted := ts\<rparr>)" using t(2) Shutdown by (simp add: run_orc_task_def)
    have "\<forall>k < K. shard_served early actions K k st'"
      unfolding st' using do_shutdown_served popped K by (simp add: work_inv_def)
    then show ?thesis using early by (simp add: work_inv_def)
  next
    case Request_Metrics
    then have st': "st' = do_request_metrics (st\<lparr>orc_posted := ts\<rparr>)" using t(2) by (simp add: run_orc_task_def)
    show ?thesis
    proof (rule work_inv_step [OF popped])
      fix k ps rs
      assume "k < K" "serves ps rs (orc_shards (st\<lparr>orc_posted := ts\<rparr>) ! k)"
      then show "\<exists>ps' rs'. serves ps' rs' (orc_shards st' ! k) \<and> actions_in ps' = actions_in ps"
        using serves_pull [of ps rs "orc_shards st ! k"] K by (auto simp: st' do_request_metrics_def)
    qed (simp_all add: st' do_request_metrics_def)
  next
    case Round_Complete
    then show ?thesis
      using t(2) by (intro work_inv_same [OF popped])
        (auto simp: run_orc_task_def on_metrics_round_complete_def schedule_metrics_snapshot_def)
  next
    case Last_Shard_Closed
    then show ?thesis
      using t(2) by (intro work_inv_same [OF popped]) (auto simp: run_orc_task_def last_shard_closed_def)
  qed
next
  case (o_dispatch_timer d)
  then show ?thesis by (intro work_inv_same [OF assms(4)]) (auto simp: dispatch_timer_expired_def post_task_def)
next
  case o_metrics_timer
  then show ?thesis by (intro work_inv_same [OF assms(4)]) (auto simp: metrics_timer_expired_def post_task_def)
qed

lemma set_shard_work:
  assumes "work_inv early actions K st" "k < length (orc_shards st)" "length (orc_shards st) = K"
    and "\<And>ps rs. serves ps rs (orc_shards st ! k) \<Longrightarrow> \<exists>rs'. serves ps rs' x"
  shows "work_inv early actions K (set_shard k x st)"
proof (rule work_inv_step [OF assms(1)])
  fix j ps rs
  assume j: "j < K" "serves ps rs (orc_shards st ! j)"
  then show "\<exists>ps' rs'. serves ps' rs' (orc_shards (set_shard k x st) ! j) \<and> actions_in ps' = actions_in ps"
  proof (cases "j = k")
    case True
    then have "orc_shards (set_shard k x st) ! j = x" using assms(2) by (simp add: set_shard_def)
    then show ?thesis using assms(4) j(2) True by metis
  next
    case False
    then have "orc_shards (set_shard k x st) ! j = orc_shards st ! j" by (simp add: set_shard_def)
    then show ?thesis using j(2) by metis
  qed
qed (simp_all add: set_shard_def)

lemma callback_work [simp]:
  "work_inv early actions K (shard_metrics_callback st) = work_inv early actions K st"
  "work_inv early actions K (shard_exit_callback st) = work_inv early actions K st"
  by (simp_all add: work_inv_def shard_served_def shard_metrics_callback_def shard_exit_callback_def post_task_def Let_def)

lemma orc_step_work:
  assumes "orc_step early (now, st) (now', st')" "creates_first actions K" "dispatch_inv actions K st"
    and "work_inv early actions K st"
  shows "work_inv early actions K st'"
  using assms(1)
proof cases
  case o_own
  then show ?thesis using own_step_work assms(2-4) by blast
next
  case o_early
  then show ?thesis by (intro work_inv_same [OF assms(4)]) (auto simp: early_stop_def post_task_def)
next
  case (o_shard k sh')
  then show ?thesis using set_shard_work [OF assms(4)] serves_thread assms(3) by (simp add: dispatch_inv_def)
next
  case (o_pull k ts sh')
  then show ?thesis
    using set_shard_work [OF assms(4)] serves.s_run assms(3) by (simp add: dispatch_inv_def) blast
next
  case (o_close k)
  then show ?thesis
    using set_shard_work [OF assms(4)] serves.s_close assms(3) by (simp add: dispatch_inv_def) blast
qed

lemma work_inv_start:
  assumes "new_orchestrator actions K = Some st"
  shows "work_inv early actions K (start_shards t st)"
proof -
  have "st = \<lparr>orc_actions = actions, orc_current = 0, orc_startup = 0, orc_shards = replicate K new_shard,
      orc_ranges = [], orc_shutdown = False, orc_dispatch_timer = None, orc_metrics_timer = False,
      orc_active_shards = of_nat K, orc_pending_pulls = 0, orc_rounds = [], orc_work_guard = True,
      orc_log = [], orc_posted = []\<rparr>"
    using assms by (simp add: new_orchestrator_def split: if_splits)
  then have st: "orc_shards (start_shards t st) = replicate K (shard_start new_shard)" "orc_current (start_shards t st) = 0"
    "\<not> orc_shutdown (start_shards t st)" "orc_posted (start_shards t st) = [Dispatch_Actions]"
    by (simp_all add: start_shards_def post_task_def schedule_metrics_snapshot_def)
  then have "shard_served early actions K k (start_shards t st)" if "k < K" for k
    using that serves.s_start unfolding shard_served_def
    by (intro exI [of _ "[]"] exI [of _ 0]) simp
  then show ?thesis using st by (simp add: work_inv_def)
qed

lemma run_work:
  assumes "creates_first actions K" "orchestrator_run early actions K (now, st)"
  shows "work_inv early actions K st"
proof -
  obtain t st0 where st0: "new_orchestrator actions K = Some st0" "(orc_step early)\<^sup>*\<^sup>* (t, start_shards t st0) (now, st)"
    using assms(2) unfolding orchestrator_run_def by blast
  have "run_inv actions K (snd y) \<and> work_inv early actions K (snd y)" if "(orc_step early)\<^sup>*\<^sup>* (t, start_shards t st0) y" for y
    using that
  proof (induction rule: rtranclp_induct)
    case base
    then show ?case using run_inv_start [OF assms(1) st0(1)] work_inv_start [OF st0(1)] by simp
  next
    case (step y z)
    then show ?case
      using run_inv_step [OF step.hyps(2) assms(1)] orc_step_work [of early "fst y" "snd y" "fst z" "snd z"] assms(1)
      by (simp add: run_inv_def)
  qed
  then show ?thesis using st0(2) by fastforce
qed

section \<open>The calls of the sessions\<close>

text \<open>So in a run of a plan that creates \<open>N\<close> sessions once, first, every shard serves its part.\<close>

lemma creates_firstI: "0 < K \<Longrightarrow> K < 2 ^ 32 \<Longrightarrow> ad_type create = CREATE \<Longrightarrow> creates_first (create # rest) K"
  by (simp add: creates_first_def)

lemma run_serves:
  assumes "creates_first actions K" "orchestrator_run early actions K (now, st)" "k < K"
  obtains ps rs where "serves ps rs (orc_shards st ! k)" "prefix (map Task_Action (actions_in ps)) (shard_work K k actions [])"
    "\<not> early \<Longrightarrow> orc_current st = length actions \<Longrightarrow> map Task_Action (actions_in ps) = shard_work K k actions []"
proof -
  obtain ps rs c where s: "serves ps rs (orc_shards st ! k)" "\<not> orc_shutdown st \<or> \<not> early \<longrightarrow> c = orc_current st"
    "map Task_Action (actions_in ps) = shard_work K k (take c actions) []"
    using run_work [OF assms(1,2)] assms(3) unfolding work_inv_def shard_served_def by blast
  have "shard_work K k actions [] = map Task_Action (actions_in ps) @ shard_work K k (drop c actions) (fold (ranges_after K) (take c actions) [])"
    using shard_work_append [of K k "take c actions" "drop c actions" "[]"] unfolding s(3) append_take_drop_id .
  then have "prefix (map Task_Action (actions_in ps)) (shard_work K k actions [])" by (rule prefixI)
  moreover have "map Task_Action (actions_in ps) = shard_work K k actions []" if "\<not> early" "orc_current st = length actions"
    using s(2,3) that by (metis take_all_iff order_refl)
  ultimately show thesis by (rule that [OF s(1)])
qed

lemma run_session_calls:
  assumes "orchestrator_run early (create # rest) K (now, st)" "0 < K" "K < 2 ^ 32" "k < K"
    and "ad_type create = CREATE" "ad_start create = 0" "ad_end create = N" "ad_count create = N"
    and "\<forall>a \<in> set rest. ad_type a \<noteq> CREATE" "compute_shard_ranges N (of_nat K) = Some (ranges, final)"
  defines "sh \<equiv> orc_shards st ! k" and "calls \<equiv> \<lambda>l. map call_of (filter (names_session (unat (fst (ranges ! k)) + l)) rest)"
  shows "sh_posted sh \<noteq> [] \<Longrightarrow> run_next sh \<noteq> None"
    and "l < length (po_sessions (sh_pool sh)) \<Longrightarrow> prefix (po_sessions (sh_pool sh) ! l) (calls l)"
    and "\<not> early \<Longrightarrow> orc_current st = Suc (length rest) \<Longrightarrow> actions_in (sh_posted sh) = [] \<Longrightarrow>
      po_sessions (sh_pool sh) = map calls [0..<unat (snd (ranges ! k)) - unat (fst (ranges ! k))]"
proof -
  have K: "unat (of_nat K :: u32) = K" using assms(3) by (simp add: unat_of_nat)
  then have k: "k < unat (of_nat K :: u32)" using assms(4) by simp
  obtain ps rs where s: "serves ps rs sh" "prefix (map Task_Action (actions_in ps)) (shard_work (unat (of_nat K :: u32)) k (create # rest) [])"
    "\<not> early \<Longrightarrow> orc_current st = Suc (length rest) \<Longrightarrow>
      map Task_Action (actions_in ps) = shard_work (unat (of_nat K :: u32)) k (create # rest) []"
    using run_serves [OF creates_firstI assms(1,4)] assms(2,3,5) unfolding sh_def K by (metis length_Cons)
  note plan = s(1) assms(10) k assms(5-9) s(2)
  show "sh_posted sh \<noteq> [] \<Longrightarrow> run_next sh \<noteq> None" by (rule serves_plan(1) [OF plan])
  show "l < length (po_sessions (sh_pool sh)) \<Longrightarrow> prefix (po_sessions (sh_pool sh) ! l) (calls l)"
    unfolding calls_def by (rule serves_plan_prefix [OF plan])
  show "po_sessions (sh_pool sh) = map calls [0..<unat (snd (ranges ! k)) - unat (fst (ranges ! k))]"
    if "\<not> early" "orc_current st = Suc (length rest)" "actions_in (sh_posted sh) = []"
  proof -
    have "actions_in rs = actions_in ps" using serves_plan_serving(1) [OF plan] that(3) by (simp add: serving_def)
    then show ?thesis unfolding calls_def using serves_plan(2) [OF plan] s(3) [OF that(1,2)] by simp
  qed
qed

end

