(* ===== verification/Orchestrator_Finish.thy ===== *)
theory Orchestrator_Finish
  imports Orchestrator_Work
begin

text \<open>
  That a run can always be finished: the orchestrator hands out what is left and shuts down, each
  shard runs its tasks and ends, and the orchestrator's thread runs out of work. It needs no help:
  no failure, no stop from outside, and no session that disconnects.
\<close>

section \<open>Steps without outside help\<close>

inductive calm_step :: "timed \<Rightarrow> timed \<Rightarrow> bool" where
  c_own: "own_step x y \<Longrightarrow> calm_step x y"
| c_task: "k < length (orc_shards st) \<Longrightarrow> \<not> sh_closed (orc_shards st ! k) \<Longrightarrow> \<not> sh_stopped (orc_shards st ! k) \<Longrightarrow>
    sh_posted (orc_shards st ! k) = t # ts \<Longrightarrow> t \<noteq> Task_Metrics \<Longrightarrow> run_next (orc_shards st ! k) = Some sh' \<Longrightarrow>
    calm_step (now, st) (now, set_shard k sh' st)"
| c_pull: "k < length (orc_shards st) \<Longrightarrow> \<not> sh_closed (orc_shards st ! k) \<Longrightarrow> \<not> sh_stopped (orc_shards st ! k) \<Longrightarrow>
    sh_posted (orc_shards st ! k) = Task_Metrics # ts \<Longrightarrow> run_next (orc_shards st ! k) = Some sh' \<Longrightarrow>
    calm_step (now, st) (now, shard_metrics_callback (set_shard k sh' st))"
| c_timer: "k < length (orc_shards st) \<Longrightarrow> \<not> sh_closed (orc_shards st ! k) \<Longrightarrow>
    calm_step (now, st) (now, set_shard k (force_stop_fired (orc_shards st ! k)) st)"
| c_close: "k < length (orc_shards st) \<Longrightarrow> \<not> sh_closed (orc_shards st ! k) \<Longrightarrow> shard_thread_ends (orc_shards st ! k) \<Longrightarrow>
    calm_step (now, st) (now, shard_exit_callback (set_shard k (thread_closes (orc_shards st ! k)) st))"

lemma calm_step_orc: "calm_step x y \<Longrightarrow> orc_step early x y"
  by (induction rule: calm_step.induct) (auto intro: orc_step.intros thread_step.intros)

lemma calm_steps_run:
  "calm_step\<^sup>*\<^sup>* x y \<Longrightarrow> orchestrator_run early actions K x \<Longrightarrow> orchestrator_run early actions K y"
  unfolding orchestrator_run_def by (induction rule: rtranclp_induct) (blast intro: rtranclp.rtrancl_into_rtrancl calm_step_orc)+

lemma own_steps_calm: "(own_step ^^ n) x y \<Longrightarrow> calm_step\<^sup>*\<^sup>* x y"
proof (induction n arbitrary: y)
  case (Suc n)
  then show ?case by (auto intro: rtranclp.rtrancl_into_rtrancl calm_step.c_own)
qed simp

section \<open>A dispatch is waiting until the shutdown\<close>

definition waits_inv :: "orchestrator \<Rightarrow> bool" where
  "waits_inv st \<longleftrightarrow>
     orc_shutdown st \<or> Dispatch_Actions \<in> set (orc_posted st) \<or> orc_dispatch_timer st \<noteq> None \<or> \<not> orc_work_guard st"

lemma do_shutdown_shuts [simp]: "orc_shutdown (do_shutdown st)"
  by (simp add: do_shutdown_def log_line_def Let_def)

lemma dispatched_waits: "dispatched now m st st' \<Longrightarrow> waits_inv st' \<and> (orc_shutdown st \<longrightarrow> orc_shutdown st')"
proof -
  assume "dispatched now m st st'"
  then obtain acts c lg st1 where c: "c \<le> length (orc_actions st)"
      "c < length (orc_actions st) \<Longrightarrow> st' = schedule_next_action (target_time st (orc_actions st ! c)) st1"
      "c = length (orc_actions st) \<Longrightarrow> st' = do_shutdown st1"
    and st1: "st1 = st\<lparr>orc_ranges := fold (ranges_after (length (orc_shards st))) acts (orc_ranges st),
      orc_shards := work_given acts st, orc_log := lg, orc_current := c\<rparr>"
    using dispatchedE by metis
  then show ?thesis
    by (cases "c = length (orc_actions st)")
      (auto simp: waits_inv_def schedule_next_action_def)
qed

lemma own_step_waits:
  assumes "own_step (now, st) (now', st')" "creates_first actions K" "dispatch_inv actions K st" "waits_inv st"
  shows "waits_inv st' \<and> (orc_shutdown st \<longrightarrow> orc_shutdown st')"
  using assms(1)
proof cases
  case o_task
  from o_task(2) obtain t ts where t: "orc_posted st = t # ts" "run_orc_task now' t (st\<lparr>orc_posted := ts\<rparr>) = Some st'"
    by (rule run_orc_nextE)
  show ?thesis
  proof (cases "t = Dispatch_Actions")
    case True
    then obtain m where "dispatched now' m (st\<lparr>orc_posted := ts\<rparr>) st'" using dispatch_task [OF assms(2,3)] t by metis
    then show ?thesis using dispatched_waits by fastforce
  next
    case False
    then show ?thesis
      using assms(4) t by (cases t) (auto simp: run_orc_task_def waits_inv_def
          do_request_metrics_def on_metrics_round_complete_def schedule_metrics_snapshot_def last_shard_closed_def Let_def)
  qed
qed (use assms(4) in \<open>auto simp: waits_inv_def dispatch_timer_expired_def metrics_timer_expired_def post_task_def\<close>)

lemma orc_step_waits:
  assumes "orc_step early (now, st) (now', st')" "creates_first actions K" "dispatch_inv actions K st" "waits_inv st"
  shows "waits_inv st' \<and> (orc_shutdown st \<longrightarrow> orc_shutdown st')"
  using assms(1)
proof cases
  case o_own
  then show ?thesis using own_step_waits assms(2-4) by blast
qed (use assms(4) in \<open>auto simp: waits_inv_def early_stop_def post_task_def set_shard_def shard_metrics_callback_def
    shard_exit_callback_def Let_def\<close>)

lemma run_waits:
  assumes "creates_first actions K" "orchestrator_run early actions K (now, st)"
  shows "waits_inv st"
proof -
  obtain t st0 where st0: "new_orchestrator actions K = Some st0" "(orc_step early)\<^sup>*\<^sup>* (t, start_shards t st0) (now, st)"
    using assms(2) unfolding orchestrator_run_def by blast
  have "run_inv actions K (snd y) \<and> waits_inv (snd y)" if "(orc_step early)\<^sup>*\<^sup>* (t, start_shards t st0) y" for y
    using that
  proof (induction rule: rtranclp_induct)
    case base
    then show ?case using run_inv_start [OF assms(1) st0(1)]
      by (simp add: waits_inv_def start_shards_def post_task_def schedule_metrics_snapshot_def)
  next
    case (step y z)
    then show ?case
      using run_inv_step [OF step.hyps(2) assms(1)] orc_step_waits [of early "fst y" "snd y" "fst z" "snd z"] assms(1)
      by (simp add: run_inv_def)
  qed
  then show ?thesis using st0(2) by fastforce
qed

lemma calm_steps_shutdown:
  assumes "calm_step\<^sup>*\<^sup>* x y" "creates_first actions K" "orchestrator_run early actions K x" "orc_shutdown (snd x)"
  shows "orc_shutdown (snd y)"
  using assms(1)
proof (induction rule: rtranclp_induct)
  case base
  then show ?case using assms(4) .
next
  case (step y z)
  have "orchestrator_run early actions K y" using calm_steps_run [OF step.hyps(1) assms(3)] .
  then have "run_inv actions K (snd y)" "waits_inv (snd y)"
    using orchestrator_run_inv [OF assms(2)] run_waits [OF assms(2), of early "fst y" "snd y"] by simp_all
  then show ?case
    using orc_step_waits [of early "fst y" "snd y" "fst z" "snd z"] calm_step_orc [OF step.hyps(2)] assms(2) step.IH
    by (simp add: run_inv_def)
qed

section \<open>Running the orchestrator's thread until it waits\<close>

lemma own_steps_end:
  assumes "creates_first actions K" "run_inv actions K (snd x)"
  shows "\<exists>n y. (own_step ^^ n) x y \<and> (\<nexists>z. own_step y z)"
  using assms(2)
proof (induction "rank x" arbitrary: x rule: less_induct)
  case less
  show ?case
  proof (cases "\<exists>y. own_step x y")
    case True
    then obtain y where y: "own_step x y" by blast
    then have "(own_step ^^ 1) x y" by (simp only: relpowp_1)
    note one = own_steps_rank [OF this assms(1) less.prems]
    then have "rank y < rank x" by simp
    then obtain n z where "(own_step ^^ n) y z" "\<nexists>z'. own_step z z'" using less.hyps one by blast
    then show ?thesis using y relpowp_Suc_I2 by metis
  next
    case False
    then show ?thesis by (intro exI [of _ 0] exI [of _ x]) simp
  qed
qed

lemma waiting_is_over:
  assumes "creates_first actions K" "run_inv actions K st" "waits_inv st" "\<nexists>z. own_step (now, st) z"
  shows "orc_shutdown st \<or> (\<forall>sh \<in> set (orc_shards st). sh_closed sh)"
proof -
  have "orc_posted st = []" "orc_dispatch_timer st = None"
    using own_step_possible [OF assms(1,2)] assms(4) by blast+
  then have "orc_shutdown st \<or> \<not> orc_work_guard st" using assms(3) by (simp add: waits_inv_def)
  moreover have "\<forall>sh \<in> set (orc_shards st). sh_closed sh" if "\<not> orc_work_guard st"
    using assms(2) that open_shards_0 [of "orc_shards st"] by (auto simp: run_inv_def exit_inv_def split: if_splits)
  ultimately show ?thesis by blast
qed

section \<open>Ending a shard\<close>

lemma serves_ends:
  assumes "serves ps rs sh"
  shows "stop_posted_once sh \<and> (sh_stopped sh \<or> shard_inv sh)"
  using assms
proof (induction rule: serves.induct)
  case s_start
  then show ?case using shard_reachable_inv [OF shard_reachable.sh_initial] by simp
next
  case (s_run ps rs sh sh')
  have "sh_stopped (set_pool q x) = sh_stopped x" for q x by (simp add: set_pool_def on_pool_closed_def Let_def)
  then have "sh_stopped sh' = sh_stopped sh"
    using s_run.hyps(2) by (auto simp: run_next_def run_task_def record_metrics_def start_force_stop_timer_def
        split: list.splits shard_task.splits)
  then show ?case using run_next_stop_once [OF s_run.hyps(2)] run_next_inv [OF s_run.hyps(2)] s_run.IH by blast
qed (auto simp: stop_posted_once_def shard_inv_def submit_work_def schedule_metrics_pull_def shard_stop_def
    session_disconnected_def disconnect_callback_def notify_closed_def set_pool_def on_pool_closed_def session_recorded_def
    force_stop_fired_def thread_fails_def thread_closes_def Let_def)

text \<open>A plan that creates its sessions once, first.\<close>

definition creates_all :: "action_descriptor list \<Rightarrow> nat \<Rightarrow> bool" where
  "creates_all actions K \<longleftrightarrow>
     creates_first actions K \<and> ad_start (hd actions) = 0 \<and> ad_end (hd actions) = ad_count (hd actions)
     \<and> (\<forall>a \<in> set (tl actions). ad_type a \<noteq> CREATE)"

lemma run_shard:
  assumes "creates_all actions K" "orchestrator_run early actions K (now, st)" "k < K"
  shows "sh_posted (orc_shards st ! k) \<noteq> [] \<Longrightarrow> run_next (orc_shards st ! k) \<noteq> None"
    and "orc_shutdown st \<Longrightarrow> sh_posted (orc_shards st ! k) = [] \<Longrightarrow> po_closed (sh_pool (orc_shards st ! k))"
    and "sh_stopped (orc_shards st ! k) \<or> shard_inv (orc_shards st ! k)"
proof -
  obtain create rest where actions: "actions = create # rest" "ad_type create = CREATE" "ad_start create = 0"
      "ad_end create = ad_count create" "\<forall>a \<in> set rest. ad_type a \<noteq> CREATE" "0 < K" "K < 2 ^ 32"
    using assms(1) by (cases actions) (auto simp: creates_all_def creates_first_def)
  have first: "creates_first actions K" using assms(1) by (simp add: creates_all_def)
  have K: "unat (of_nat K :: u32) = K" using actions(7) by (simp add: unat_of_nat)
  have "(of_nat K :: u32) \<noteq> 0" using K actions(6) by auto
  then obtain ranges where ranges: "compute_shard_ranges (ad_count create) (of_nat K) = Some (ranges, ad_count create)"
    using compute_shard_ranges_cut by blast
  show "sh_posted (orc_shards st ! k) \<noteq> [] \<Longrightarrow> run_next (orc_shards st ! k) \<noteq> None"
    by (rule run_session_calls(1) [OF assms(2) [unfolded actions(1)] actions(6,7) assms(3) actions(2-4) refl actions(5) ranges])
  obtain ps rs where s: "serves ps rs (orc_shards st ! k)" "prefix (map Task_Action (actions_in ps)) (shard_work K k actions [])"
    by (rule run_serves [OF first assms(2,3)]) blast
  show "sh_stopped (orc_shards st ! k) \<or> shard_inv (orc_shards st ! k)" using serves_ends [OF s(1)] by simp
  show "po_closed (sh_pool (orc_shards st ! k))" if "orc_shutdown st" "sh_posted (orc_shards st ! k) = []"
  proof -
    have "k < unat (of_nat K :: u32)" using assms(3) K by simp
    moreover have "prefix (map Task_Action (actions_in ps)) (shard_work (unat (of_nat K :: u32)) k (create # rest) [])"
      using s(2) by (simp only: K actions(1))
    ultimately have serving: "serving ps rs (orc_shards st ! k)"
      using serves_plan_serving(1) [OF s(1) ranges _ actions(2-4) refl actions(5)] by blast
    have "run_inv actions K st" using orchestrator_run_inv [OF first assms(2)] by simp
    then have "\<not> sh_running (orc_shards st ! k)"
      using that(1) assms(3) by (auto simp: run_inv_def dispatch_inv_def)
    then show ?thesis using serving that(2) by (auto simp: serving_def)
  qed
qed

text \<open>A state of a run, with what the steps of one shard leave in place.\<close>

definition same_others :: "nat \<Rightarrow> orchestrator \<Rightarrow> orchestrator \<Rightarrow> bool" where
  "same_others k st st' \<longleftrightarrow>
     length (orc_shards st') = length (orc_shards st) \<and> (\<forall>j. j \<noteq> k \<longrightarrow> orc_shards st' ! j = orc_shards st ! j)"

lemma same_others_trans: "same_others k a b \<Longrightarrow> same_others k b c \<Longrightarrow> same_others k a c"
  by (simp add: same_others_def)

lemma shard_drains:
  assumes "creates_all actions K" "orchestrator_run early actions K (now, st)" "k < K" "\<not> sh_closed (orc_shards st ! k)"
  shows "\<exists>st'. calm_step\<^sup>*\<^sup>* (now, st) (now, st') \<and> same_others k st st' \<and> \<not> sh_closed (orc_shards st' ! k)
    \<and> (sh_stopped (orc_shards st' ! k) \<or> sh_posted (orc_shards st' ! k) = [])"
  using assms(2,4)
proof (induction "length (sh_posted (orc_shards st ! k))" arbitrary: st rule: less_induct)
  case less
  let ?sh = "orc_shards st ! k"
  show ?case
  proof (cases "sh_stopped ?sh \<or> sh_posted ?sh = []")
    case True
    then show ?thesis using less.prems(2) by (intro exI [of _ st]) (simp add: same_others_def)
  next
    case False
    then obtain t ts where t: "sh_posted ?sh = t # ts" by (cases "sh_posted ?sh") auto
    then obtain sh' where sh': "run_next ?sh = Some sh'" using run_shard(1) [OF assms(1) less.prems(1) assms(3)] by auto
    have "creates_first actions K" using assms(1) by (simp add: creates_all_def)
    then have "run_inv actions K st" using orchestrator_run_inv less.prems(1) by fastforce
    then have k: "k < length (orc_shards st)" using assms(3) by (simp add: run_inv_def dispatch_inv_def)
    define st' where "st' = (if t = Task_Metrics then shard_metrics_callback (set_shard k sh' st) else set_shard k sh' st)"
    have step: "calm_step (now, st) (now, st')"
      using calm_step.c_pull [OF k less.prems(2) _ _ sh'] calm_step.c_task [OF k less.prems(2) _ t _ sh'] False t
      by (auto simp: st'_def)
    have at: "orc_shards st' ! k = sh'" "same_others k st st'"
      using k by (simp_all add: st'_def set_shard_def shard_metrics_callback_def post_task_def same_others_def Let_def)
    have next_sh: "sh_posted sh' = ts" "\<not> sh_closed sh'"
      using sh' t less.prems(2) by (auto simp: run_next_def run_task_def record_metrics_def start_force_stop_timer_def
          set_pool_def on_pool_closed_def Let_def split: shard_task.splits if_splits)
    have "orchestrator_run early actions K (now, st')" using calm_steps_run [OF r_into_rtranclp less.prems(1)] step by metis
    then obtain st'' where "calm_step\<^sup>*\<^sup>* (now, st') (now, st'')" "same_others k st' st''" "\<not> sh_closed (orc_shards st'' ! k)"
      "sh_stopped (orc_shards st'' ! k) \<or> sh_posted (orc_shards st'' ! k) = []"
      using less.hyps [of st'] at(1) next_sh t by auto
    then show ?thesis using step at(2) same_others_trans by (meson converse_rtranclp_into_rtranclp)
  qed
qed

lemma shard_closes:
  assumes "creates_all actions K" "orchestrator_run early actions K (now, st)" "k < K" "orc_shutdown st"
  shows "\<exists>st'. calm_step\<^sup>*\<^sup>* (now, st) (now, st') \<and> same_others k st st' \<and> sh_closed (orc_shards st' ! k)"
proof (cases "sh_closed (orc_shards st ! k)")
  case True
  then show ?thesis by (intro exI [of _ st]) (simp add: same_others_def)
next
  case False
  have first: "creates_first actions K" using assms(1) by (simp add: creates_all_def)
  obtain st1 where st1: "calm_step\<^sup>*\<^sup>* (now, st) (now, st1)" "same_others k st st1" "\<not> sh_closed (orc_shards st1 ! k)"
    "sh_stopped (orc_shards st1 ! k) \<or> sh_posted (orc_shards st1 ! k) = []"
    using shard_drains [OF assms(1-3) False] by blast
  have run: "orchestrator_run early actions K (now, st1)" by (rule calm_steps_run [OF st1(1) assms(2)])
  have "orc_shutdown st1" using calm_steps_shutdown [OF st1(1) first assms(2)] assms(4) by simp
  note sh = run_shard(2,3) [OF assms(1) run assms(3)]
  have "run_inv actions K st1" using orchestrator_run_inv [OF first run] by simp
  then have k: "k < length (orc_shards st1)" using assms(3) by (simp add: run_inv_def dispatch_inv_def)
  let ?st2 = "set_shard k (force_stop_fired (orc_shards st1 ! k)) st1"
  let ?sh2 = "force_stop_fired (orc_shards st1 ! k)"
  have fired: "calm_step (now, st1) (now, ?st2)" by (rule calm_step.c_timer [OF k st1(3)])
  have at: "orc_shards ?st2 ! k = ?sh2" "k < length (orc_shards ?st2)" "\<not> sh_closed ?sh2" "same_others k st1 ?st2"
    using k st1(3) by (simp_all add: set_shard_def same_others_def force_stop_fired_def)
  have "shard_thread_ends ?sh2"
    using sh(1) [OF \<open>orc_shutdown st1\<close>] sh(2) st1(4)
    by (auto simp: shard_thread_ends_def force_stop_fired_def shard_inv_def)
  then have "calm_step (now, ?st2) (now, shard_exit_callback (set_shard k (thread_closes ?sh2) ?st2))"
    using calm_step.c_close [of k ?st2 now] at by simp
  moreover have "same_others k ?st2 (shard_exit_callback (set_shard k (thread_closes ?sh2) ?st2))"
    "sh_closed (orc_shards (shard_exit_callback (set_shard k (thread_closes ?sh2) ?st2)) ! k)"
    using k by (simp_all add: same_others_def shard_exit_callback_def set_shard_def post_task_def thread_closes_def Let_def)
  ultimately show ?thesis
    using st1(1,2) fired at(4) same_others_trans by (meson rtranclp.rtrancl_into_rtrancl)
qed

lemma shards_close:
  assumes "creates_all actions K" "orchestrator_run early actions K (now, st)" "orc_shutdown st" "n \<le> K"
  shows "\<exists>st'. calm_step\<^sup>*\<^sup>* (now, st) (now, st') \<and> (\<forall>j < n. sh_closed (orc_shards st' ! j))"
  using assms(4)
proof (induction n)
  case (Suc n)
  then obtain st1 where st1: "calm_step\<^sup>*\<^sup>* (now, st) (now, st1)" "\<forall>j < n. sh_closed (orc_shards st1 ! j)" by auto
  have first: "creates_first actions K" using assms(1) by (simp add: creates_all_def)
  have "orchestrator_run early actions K (now, st1)" "orc_shutdown st1"
    using calm_steps_run [OF st1(1) assms(2)] calm_steps_shutdown [OF st1(1) first assms(2)] assms(3) by simp_all
  then obtain st2 where st2: "calm_step\<^sup>*\<^sup>* (now, st1) (now, st2)" "same_others n st1 st2" "sh_closed (orc_shards st2 ! n)"
    using shard_closes [OF assms(1)] Suc.prems by (metis Suc_le_eq)
  have "sh_closed (orc_shards st2 ! j)" if "j < Suc n" for j
    using that st1(2) st2(2,3) by (cases "j = n") (auto simp: same_others_def)
  then show ?case using st1(1) st2(1) by (meson rtranclp_trans)
qed auto

section \<open>Finishing a run\<close>

lemma run_finishes:
  assumes "creates_all actions K" "orchestrator_run early actions K (now, st)"
  shows "\<exists>y. calm_step\<^sup>*\<^sup>* (now, st) y \<and> start_returns (snd y)
    \<and> ((\<exists>sh \<in> set (orc_shards st). \<not> sh_closed sh) \<longrightarrow>
         orc_shutdown (snd y) \<and> (\<not> early \<longrightarrow> orc_current (snd y) = length actions))"
proof -
  have first: "creates_first actions K" using assms(1) by (simp add: creates_all_def)
  have inv: "run_inv actions K st" using orchestrator_run_inv [OF first assms(2)] by simp
  obtain n now1 st1 where own: "(own_step ^^ n) (now, st) (now1, st1)" "\<nexists>z. own_step (now1, st1) z"
    using own_steps_end [OF first, of "(now, st)"] inv by auto
  have calm: "calm_step\<^sup>*\<^sup>* (now, st) (now1, st1)" by (rule own_steps_calm [OF own(1)])
  note run1 = calm_steps_run [OF calm assms(2)]
  have inv1: "run_inv actions K st1" "map sh_closed (orc_shards st1) = map sh_closed (orc_shards st)"
    using own_steps_rank [OF own(1) first] inv by simp_all
  have over: "orc_shutdown st1 \<or> (\<forall>sh \<in> set (orc_shards st1). sh_closed sh)"
    by (rule waiting_is_over [OF first inv1(1) run_waits [OF first run1] own(2)])
  have "\<exists>st2. calm_step\<^sup>*\<^sup>* (now1, st1) (now1, st2) \<and> (\<forall>sh \<in> set (orc_shards st2). sh_closed sh)"
  proof (cases "orc_shutdown st1")
    case True
    then obtain st2 where st2: "calm_step\<^sup>*\<^sup>* (now1, st1) (now1, st2)" "\<forall>j < K. sh_closed (orc_shards st2 ! j)"
      using shards_close [OF assms(1) run1 _ order_refl] by blast
    have "run_inv actions K st2" using orchestrator_run_inv [OF first calm_steps_run [OF st2(1) run1]] by simp
    then have "length (orc_shards st2) = K" by (simp add: run_inv_def dispatch_inv_def)
    then show ?thesis using st2 by (metis in_set_conv_nth)
  next
    case False
    then show ?thesis using over by blast
  qed
  then obtain st2 where st2: "calm_step\<^sup>*\<^sup>* (now1, st1) (now1, st2)" "\<forall>sh \<in> set (orc_shards st2). sh_closed sh" by blast
  note run2 = calm_steps_run [OF st2(1) run1]
  obtain m y where y: "(own_step ^^ m) (now1, st2) y" "start_returns (snd y)"
    using run_ends(3) [OF first run2 st2(2)] by blast
  have later: "calm_step\<^sup>*\<^sup>* (now1, st1) y" using st2(1) own_steps_calm [OF y(1)] by (rule rtranclp_trans)
  have "orc_shutdown (snd y) \<and> (\<not> early \<longrightarrow> orc_current (snd y) = length actions)"
    if "\<exists>sh \<in> set (orc_shards st). \<not> sh_closed sh"
  proof -
    have "\<exists>sh \<in> set (orc_shards st1). \<not> sh_closed sh"
      using that arg_cong [OF inv1(2), of set] by (metis (no_types, lifting) imageE image_eqI list.set_map)
    then have down: "orc_shutdown (snd y)"
      using over calm_steps_shutdown [OF later first run1] by auto
    have "work_inv early actions K (snd y)"
      using run_work [OF first, of early "fst y" "snd y"] calm_steps_run [OF later run1] by simp
    then show ?thesis using down by (simp add: work_inv_def)
  qed
  then show ?thesis using calm later y(2) by (meson rtranclp_trans)
qed

end
