(* ===== verification/Orchestration_Properties.thy ===== *)
theory Orchestration_Properties
  imports Orchestrator_Finish Message_Handlers
begin

text \<open>
  The properties of the orchestrator, the shards, the pools, the message handlers and the
  metrics.
\<close>

section \<open>Dividing the sessions\<close>

text \<open>C30: CREATE divides the sessions fairly. For at least one shard the ranges are consecutive,
  start at 0 and end at the number of sessions, each has the quotient or one more, the longer
  ones first; so the warning that not all sessions were distributed is never given. Every
  session an action names is served by exactly one shard: the parts the shards get of the
  action, read back as global indices, cover its range and do not overlap.\<close>

theorem shard_ranges_fair:
  assumes "K \<noteq> 0"
  shows "\<exists>ranges. compute_shard_ranges N K = Some (ranges, N) \<and> length ranges = unat K
     \<and> (\<forall>k < unat K.
          unat (fst (ranges ! k)) = (if k = 0 then 0 else unat (snd (ranges ! (k - 1))))
          \<and> unat (snd (ranges ! k)) - unat (fst (ranges ! k)) =
              unat N div unat K + (if k < unat N mod unat K then 1 else 0))
     \<and> unat (snd (ranges ! (unat K - 1))) = unat N
     \<and> (\<forall>action j. unat (ad_start action) \<le> j \<and> j < unat (ad_end action) \<and> ad_end action \<le> N \<longrightarrow>
          (\<exists>!k. k < unat K \<and> shard_serves action ranges k j))"
proof -
  let ?c = "cut (unat N) (unat K)"
  let ?ranges = "map (\<lambda>j. (of_nat (?c j), of_nat (?c (Suc j)))) [0..<unat K] :: (u32 \<times> u32) list"
  have K: "0 < unat K" using assms by (simp add: unat_gt_0)
  have c: "unat (of_nat (?c k) :: u32) = ?c k" if "k \<le> unat K" for k
    using order_le_less_trans [OF cut_le [OF K that, of "unat N"] unat_u32_less] by (simp add: unat_of_nat)
  have diff: "?c (Suc k) - ?c k = unat N div unat K + (if k < unat N mod unat K then 1 else 0)" for k
    by (simp add: cut_Suc)
  have at: "?ranges ! k = (of_nat (?c k), of_nat (?c (Suc k)))" if "k < unat K" for k using that by simp
  have "unat (snd (?ranges ! (unat K - 1))) = unat N"
    using at [of "unat K - 1"] K c [of "unat K"] cut_K [OF K, of "unat N"] by simp
  moreover have "unat (fst (?ranges ! k)) = (if k = 0 then 0 else unat (snd (?ranges ! (k - 1))))" if "k < unat K" for k
    using that c [of k] at [of k] at [of "k - 1"] by (cases k) simp_all
  moreover have "unat (snd (?ranges ! k)) - unat (fst (?ranges ! k)) =
      unat N div unat K + (if k < unat N mod unat K then 1 else 0)" if "k < unat K" for k
    using that c [of k] c [of "Suc k"] at [of k] diff [of k] by simp
  moreover have "length ?ranges = unat K" by simp
  ultimately show ?thesis
    using compute_shard_ranges_cut [OF assms, of N] one_shard_serves [OF compute_shard_ranges_cut [OF assms, of N]]
    by blast
qed

theorem shard_ranges_fair_witness:
  "\<exists>ranges. compute_shard_ranges 10 4 = Some (ranges, 10) \<and> length ranges = 4
     \<and> (\<exists>!k. k < 4 \<and> shard_serves (make_flood 0 2 9 0) ranges k 7)"
proof -
  have named: "unat (ad_start (make_flood 0 2 9 0)) \<le> 7 \<and> 7 < unat (ad_end (make_flood 0 2 9 0))
      \<and> ad_end (make_flood 0 2 9 0) \<le> 10"
    by (simp add: make_flood_def)
  show ?thesis using shard_ranges_fair [of 4 10] named by fastforce
qed

section \<open>Runs of the orchestrator\<close>

text \<open>A concrete run: one shard, three sessions to create after five milliseconds, and a CONNECT.\<close>

definition sample_actions :: "action_descriptor list" where
  "sample_actions = [make_create 0 3 5, make_connect 0 0 3 5]"

definition run_start :: orchestrator where
  "run_start = start_shards 0 (the (new_orchestrator sample_actions 1))"

text \<open>The dispatch finds nothing due; the first metrics round is asked for.\<close>

definition run_waiting :: orchestrator where
  "run_waiting = the (run_orc_next 0 run_start)"

definition run_asked :: orchestrator where
  "run_asked = the (run_orc_next 500000000 (metrics_timer_expired run_waiting))"

text \<open>The dispatch timer expires, both actions are handed out, and the shard runs its four tasks.\<close>

definition run_handed :: orchestrator where
  "run_handed = the (run_orc_next 500000000 (dispatch_timer_expired run_waiting))"

lemma sample_creates_first: "creates_first sample_actions 1"
  by (simp add: creates_first_def sample_actions_def make_create_def)

lemma run_start_steps:
  "(orc_step early)\<^sup>*\<^sup>* (0, run_start) y \<Longrightarrow> orchestrator_run early sample_actions 1 y"
  unfolding orchestrator_run_def run_start_def
  by (intro exI [of _ 0] exI [of _ "the (new_orchestrator sample_actions 1)"])
    (simp add: new_orchestrator_def sample_actions_def)

lemma run_waiting_next: "run_orc_next 0 run_start = Some run_waiting"
proof -
  have "run_orc_next 0 run_start \<noteq> None" by code_simp
  then show ?thesis by (auto simp: run_waiting_def)
qed

lemma run_waiting_timers: "orc_metrics_timer run_waiting" "orc_dispatch_timer run_waiting = Some 5000000"
  by code_simp+

lemma run_asked_next: "run_orc_next 500000000 (metrics_timer_expired run_waiting) = Some run_asked"
proof -
  have "run_orc_next 500000000 (metrics_timer_expired run_waiting) \<noteq> None" by code_simp
  then show ?thesis by (auto simp: run_asked_def)
qed

lemma run_handed_next: "run_orc_next 500000000 (dispatch_timer_expired run_waiting) = Some run_handed"
proof -
  have "run_orc_next 500000000 (dispatch_timer_expired run_waiting) \<noteq> None" by code_simp
  then show ?thesis by (auto simp: run_handed_def)
qed

lemma run_waiting_reached: "(orc_step early)\<^sup>*\<^sup>* (0, run_start) (0, run_waiting)"
  using orc_step.o_own [OF own_step.o_task [OF _ run_waiting_next, of 0]] by blast

lemma run_asked_reached: "(orc_step early)\<^sup>*\<^sup>* (0, run_start) (500000000, run_asked)"
proof -
  have "orc_step early (0, run_waiting) (500000000, metrics_timer_expired run_waiting)"
    by (intro orc_step.o_own own_step.o_metrics_timer run_waiting_timers) simp
  moreover have "orc_step early (500000000, metrics_timer_expired run_waiting) (500000000, run_asked)"
    by (intro orc_step.o_own own_step.o_task run_asked_next) simp
  ultimately show ?thesis using run_waiting_reached by (meson rtranclp.rtrancl_into_rtrancl)
qed

lemma run_handed_reached: "(orc_step early)\<^sup>*\<^sup>* (0, run_start) (500000000, run_handed)"
proof -
  have "orc_step early (0, run_waiting) (500000000, dispatch_timer_expired run_waiting)"
    by (intro orc_step.o_own own_step.o_dispatch_timer [OF _ run_waiting_timers(2)]) simp_all
  moreover have "orc_step early (500000000, dispatch_timer_expired run_waiting) (500000000, run_handed)"
    by (intro orc_step.o_own own_step.o_task run_handed_next) simp
  ultimately show ?thesis using run_waiting_reached by (meson rtranclp.rtrancl_into_rtrancl)
qed

text \<open>A task of a shard as a step of the run.\<close>

lemma shard_works:
  assumes "k < length (orc_shards st)" "run_next (orc_shards st ! k) \<noteq> None"
    and "\<not> sh_closed (orc_shards st ! k)" "\<not> sh_stopped (orc_shards st ! k)" "hd (sh_posted (orc_shards st ! k)) \<noteq> Task_Metrics"
  shows "orc_step early (now, st) (now, set_shard k (the (run_next (orc_shards st ! k))) st)"
proof -
  obtain sh' where sh': "run_next (orc_shards st ! k) = Some sh'" using assms(2) by blast
  then obtain t ts where "sh_posted (orc_shards st ! k) = t # ts" by (auto simp: run_next_def split: list.splits)
  then show ?thesis using assms sh' by (intro orc_step.o_shard thread_step.t_work) simp_all
qed

definition after_task :: "orchestrator \<Rightarrow> orchestrator" where
  "after_task st = set_shard 0 (the (run_next (orc_shards st ! 0))) st"

lemma after_task_reached:
  assumes "(orc_step early)\<^sup>*\<^sup>* x (now, st)" "0 < length (orc_shards st)" "run_next (orc_shards st ! 0) \<noteq> None"
    and "\<not> sh_closed (orc_shards st ! 0)" "\<not> sh_stopped (orc_shards st ! 0)" "hd (sh_posted (orc_shards st ! 0)) \<noteq> Task_Metrics"
  shows "(orc_step early)\<^sup>*\<^sup>* x (now, after_task st)"
  using shard_works [OF assms(2-6), of early now] assms(1) unfolding after_task_def by (meson rtranclp.rtrancl_into_rtrancl)

lemma run_served_reached: "(orc_step early)\<^sup>*\<^sup>* (0, run_start) (500000000, after_task (after_task run_handed))"
proof -
  have "(orc_step early)\<^sup>*\<^sup>* (0, run_start) (500000000, after_task run_handed)"
    by (rule after_task_reached [OF run_handed_reached]) code_simp+
  then show ?thesis by (rule after_task_reached) code_simp+
qed

text \<open>The shard of the waiting orchestrator fails, and its thread ends.\<close>

definition run_failed :: orchestrator where
  "run_failed = set_shard 0 (thread_fails (orc_shards run_waiting ! 0)) run_waiting"

definition run_ended :: orchestrator where
  "run_ended = shard_exit_callback (set_shard 0 (thread_closes (orc_shards run_failed ! 0)) run_failed)"

lemma run_ended_reached: "(orc_step early)\<^sup>*\<^sup>* (0, run_start) (0, run_ended)"
proof -
  have open_shard: "0 < length (orc_shards run_waiting)" "\<not> sh_closed (orc_shards run_waiting ! 0)" by code_simp+
  have "orc_step early (0, run_waiting) (0, run_failed)"
    unfolding run_failed_def by (rule orc_step.o_shard [OF open_shard thread_step.t_fail])
  moreover have "0 < length (orc_shards run_failed)" "\<not> sh_closed (orc_shards run_failed ! 0)"
    "shard_thread_ends (orc_shards run_failed ! 0)" by code_simp+
  from orc_step.o_close [OF this] have "orc_step early (0, run_failed) (0, run_ended)" unfolding run_ended_def .
  ultimately show ?thesis using run_waiting_reached by (meson rtranclp.rtrancl_into_rtrancl)
qed

section \<open>The calls of the sessions\<close>

text \<open>C6: in every run, a shard runs all its work and its sessions get the plan's calls. However
  the threads of the orchestrator and its shards, their timers and their sessions interleave, in
  a run of a plan that creates \<open>N\<close> sessions once, first, no shard ever indexes outside its pool: its
  next task always succeeds. At any time each session has got a first part of the calls of the
  actions that name its global index, in the order of the plan; and all of them when every
  action has been handed out, without a stop from outside, and the shard has run its work.\<close>

theorem sessions_get_the_plans_calls:
  assumes "orchestrator_run early (create # rest) K (now, st)" "0 < K" "K < 2 ^ 32" "k < K"
    and "ad_type create = CREATE" "ad_start create = 0" "ad_end create = N" "ad_count create = N"
    and "\<forall>a \<in> set rest. ad_type a \<noteq> CREATE" "compute_shard_ranges N (of_nat K) = Some (ranges, final)"
  defines "sh \<equiv> orc_shards st ! k" and "calls \<equiv> \<lambda>l. map call_of (filter (names_session (unat (fst (ranges ! k)) + l)) rest)"
  shows "(sh_posted sh \<noteq> [] \<longrightarrow> run_next sh \<noteq> None)
     \<and> (\<forall>l < length (po_sessions (sh_pool sh)). prefix (po_sessions (sh_pool sh) ! l) (calls l))
     \<and> (\<not> early \<and> orc_current st = Suc (length rest) \<and> actions_in (sh_posted sh) = [] \<longrightarrow>
          po_sessions (sh_pool sh) = map calls [0..<unat (snd (ranges ! k)) - unat (fst (ranges ! k))])"
  using run_session_calls [OF assms(1-10)] unfolding sh_def calls_def by blast

lemma sample_ranges: "compute_shard_ranges 3 (of_nat 1) = Some ([(0, 3)], 3)"
  by code_simp

theorem sessions_get_the_plans_calls_witness:
  "\<exists>st. orchestrator_run False sample_actions 1 (500000000, st)
     \<and> po_sessions (sh_pool (orc_shards st ! 0)) = [[Call_Start], [Call_Start], [Call_Start]]"
proof -
  let ?st = "after_task (after_task run_handed)"
  have run: "orchestrator_run False sample_actions 1 (500000000, ?st)"
    by (rule run_start_steps [OF run_served_reached])
  have plan: "ad_type (make_create 0 3 5) = CREATE" "ad_start (make_create 0 3 5) = 0" "ad_end (make_create 0 3 5) = 3"
    "ad_count (make_create 0 3 5) = 3" "\<forall>a \<in> set [make_connect 0 0 3 5]. ad_type a \<noteq> CREATE"
    by (simp_all add: make_create_def make_connect_def)
  have finished: "orc_current ?st = Suc (length [make_connect 0 0 3 5])" "actions_in (sh_posted (orc_shards ?st ! 0)) = []"
    by code_simp+
  have calls: "map (\<lambda>l. map call_of (filter (names_session (0 + l)) [make_connect 0 0 3 5])) [0..<3]
      = [[Call_Start], [Call_Start], [Call_Start]]"
    by code_simp
  have "po_sessions (sh_pool (orc_shards ?st ! 0)) = [[Call_Start], [Call_Start], [Call_Start]]"
    using sessions_get_the_plans_calls [OF run [unfolded sample_actions_def] _ _ _ plan sample_ranges, of 0] finished calls
    by (simp del: upt_Suc call_of.simps)
  then show ?thesis using run by blast
qed

section \<open>Dispatch\<close>

text \<open>C25: the dispatch loop always returns, in as many rounds as there are actions left, and does
  what its specification says: it hands out the actions that are due, in order and each once,
  every shard that still runs getting exactly the parts that meet its range; then it waits for
  the next action, which is not due, or, when none is left, shuts every shard down.\<close>

theorem dispatch_hands_out_due_actions:
  assumes "0 < length (orc_shards st)" "length (orc_shards st) < 2 ^ 32" "orc_current st \<le> length (orc_actions st)"
    and "orc_current st < length (orc_actions st) \<Longrightarrow> ranges_ready st (orc_actions st ! orc_current st)"
  shows "\<exists>m st'. dispatch_pending_actions now st = Some st' \<and> dispatched now m st st'"
  unfolding dispatch_pending_actions_def
  by (rule dispatch_loop_dispatches [OF assms]) simp_all

theorem dispatch_hands_out_due_actions_witness:
  "\<exists>m st'. dispatch_pending_actions 5000000 run_start = Some st' \<and> dispatched 5000000 m run_start st'"
proof -
  have "length (orc_shards run_start) = 1" by code_simp
  then have "0 < length (orc_shards run_start)" "length (orc_shards run_start) < 2 ^ 32" by simp_all
  moreover have "orc_current run_start \<le> length (orc_actions run_start)"
    "ranges_ready run_start (orc_actions run_start ! orc_current run_start)"
    by code_simp+
  ultimately have "0 < length (orc_shards run_start)" "length (orc_shards run_start) < 2 ^ 32"
    "orc_current run_start \<le> length (orc_actions run_start)"
    "orc_current run_start < length (orc_actions run_start) \<Longrightarrow> ranges_ready run_start (orc_actions run_start ! orc_current run_start)"
    by simp_all
  from dispatch_hands_out_due_actions [OF this, of 5000000] show ?thesis .
qed

section \<open>Rounds of metrics\<close>

text \<open>C14: the rounds of metrics exclude each other. In every reachable state a shard has at most one
  pull waiting and the orchestrator's count is the number of those; when a round is to be
  completed no shard has one, each has written its snapshot of the round, and no further
  completion waits, so the histories are read only while no shard writes; and the aggregate of
  round \<open>i\<close> was computed from exactly the first \<open>i + 1\<close> snapshots of every shard.\<close>

theorem metrics_rounds_exclude_each_other:
  assumes "orchestrator_run early actions K (now, st)" "creates_first actions K"
  shows "(\<forall>sh \<in> set (orc_shards st). count_list (sh_posted sh) Task_Metrics \<le> 1)
     \<and> unat (orc_pending_pulls st) = (\<Sum>sh \<leftarrow> orc_shards st. count_list (sh_posted sh) Task_Metrics)
     \<and> (Round_Complete \<in> set (orc_posted st) \<longrightarrow>
          count_list (orc_posted st) Round_Complete = 1
          \<and> (\<forall>sh \<in> set (orc_shards st). Task_Metrics \<notin> set (sh_posted sh) \<and> length (sh_history sh) = Suc (length (orc_rounds st))))
     \<and> (\<forall>i < length (orc_rounds st).
          orc_rounds st ! i = get_aggregate_delta (map (\<lambda>sh. take (Suc i) (sh_history sh)) (orc_shards st)))"
  using run_metrics [OF assms(2,1)] by blast

text \<open>After the first pull the round is to be completed.\<close>

definition run_collected :: orchestrator where
  "run_collected = shard_metrics_callback (after_task run_asked)"

lemma run_collected_reached: "(orc_step early)\<^sup>*\<^sup>* (0, run_start) (500000000, run_collected)"
proof -
  have "0 < length (orc_shards run_asked)" "\<not> sh_closed (orc_shards run_asked ! 0)" "\<not> sh_stopped (orc_shards run_asked ! 0)"
    by code_simp+
  moreover have "sh_posted (orc_shards run_asked ! 0) = [Task_Metrics]" by code_simp
  moreover have "run_next (orc_shards run_asked ! 0) \<noteq> None" by code_simp
  then have "run_next (orc_shards run_asked ! 0) = Some (the (run_next (orc_shards run_asked ! 0)))" by simp
  ultimately have "orc_step early (500000000, run_asked) (500000000, run_collected)"
    unfolding run_collected_def after_task_def by (rule orc_step.o_pull)
  then show ?thesis using run_asked_reached by (meson rtranclp.rtrancl_into_rtrancl)
qed

theorem metrics_rounds_exclude_each_other_witness:
  "orchestrator_run True sample_actions 1 (500000000, run_collected)
   \<and> Round_Complete \<in> set (orc_posted run_collected) \<and> length (sh_history (orc_shards run_collected ! 0)) = 1"
proof -
  have run: "orchestrator_run True sample_actions 1 (500000000, run_collected)"
    by (rule run_start_steps [OF run_collected_reached])
  have "Round_Complete \<in> set (orc_posted run_collected)" "0 < length (orc_shards run_collected)"
    "orc_rounds run_collected = []" by code_simp+
  then show ?thesis
    using metrics_rounds_exclude_each_other [OF run sample_creates_first] run nth_mem [of 0 "orc_shards run_collected"]
    by (metis One_nat_def list.size(3))
qed

text \<open>C26: a shard that has ended ends the rounds of metrics: its thread no longer runs the pull of
  a round, so at most the round in progress is completed after it. Shards do not end together:
  while the others drain, or run on after one has failed, the terminal shows old numbers.\<close>

theorem ended_shard_ends_metrics:
  assumes "orchestrator_run early actions K (now, st)" "creates_first actions K" "k < K" "sh_closed (orc_shards st ! k)"
    and "(orc_step early)\<^sup>*\<^sup>* (now, st) (now', st')"
  shows "length (orc_rounds st') \<le> length (sh_history (orc_shards st ! k))
     \<and> length (sh_history (orc_shards st ! k)) \<le> Suc (length (orc_rounds st))"
  using closed_shard_rounds [OF assms(2,1,3-5)] by blast

theorem ended_shard_ends_metrics_witness:
  "\<exists>y. own_step (0, run_ended) y \<and> length (orc_rounds (snd y)) \<le> length (sh_history (orc_shards run_ended ! 0))"
proof -
  have run: "orchestrator_run True sample_actions 1 (0, run_ended)" by (rule run_start_steps [OF run_ended_reached])
  have closed: "sh_closed (orc_shards run_ended ! 0)" by code_simp
  have "orc_metrics_timer run_ended" by code_simp
  then have step: "own_step (0, run_ended) (0, metrics_timer_expired run_ended)"
    by (intro own_step.o_metrics_timer) simp_all
  then have "(orc_step True)\<^sup>*\<^sup>* (0, run_ended) (0, metrics_timer_expired run_ended)" by (blast intro: orc_step.o_own)
  from ended_shard_ends_metrics [OF run sample_creates_first _ closed this] step show ?thesis by force
qed

section \<open>Shutdown\<close>

text \<open>A session pool notifies its shard at most once in its life, and exactly when it is
  closed and no session is active.\<close>

lemma pool_notifies_once:
  assumes "pool_reachable p"
  shows "po_notified p = (if po_closed p \<and> po_active p = 0 then 1 else 0)"
  using pool_notified_once [OF assms] by (simp add: notified_once_def)

text \<open>\<^verbatim>\<open>shutdown\<close> does not stop the sessions. It marks the pool closed before it calls
  \<^verbatim>\<open>stop_all_sessions\<close>, which does nothing on a closed pool, so no session is told to stop
  and active sessions only end by themselves or with the force-stop timer.\<close>

lemma shutdown_stops_no_session:
  "\<exists>q. shutdown p = Some q \<and> po_sessions q = po_sessions p \<and> po_closed q"
  by (rule shutdown_posts_nothing)

text \<open>In every reachable state of a shard the stop is posted at most once, the work guard is
  held exactly until the pool has notified, and a closed pool that has not notified has the
  force-stop timer running: the shard's thread can always end.\<close>

lemma shard_can_always_end:
  assumes "shard_reachable sh"
  shows "count_list (sh_posted sh) Task_Stop \<le> 1
     \<and> (sh_work_guard sh \<longleftrightarrow> po_notified (sh_pool sh) = 0)
     \<and> (po_closed (sh_pool sh) \<longrightarrow> \<not> sh_work_guard sh \<or> sh_stop_timer sh)
     \<and> (po_closed (sh_pool sh) \<longrightarrow> shard_thread_ends ((force_stop_fired sh)\<lparr>sh_posted := []\<rparr>))"
  using shard_reachable_inv [OF assms]
  by (auto simp: stop_posted_once_def shard_inv_def shard_thread_ends_def force_stop_fired_def split: if_splits)

section \<open>The end of a run\<close>

text \<open>C12: the orchestrator's thread outlives its shards and then ends. In every reachable state it
  runs out of work only when every shard's thread has ended, so \<^verbatim>\<open>start\<close> then joins them and
  returns; its own steps are bounded by the actions left and the handlers posted, whatever is
  due; and once every shard has ended, they lead to the return of \<^verbatim>\<open>start\<close>.\<close>

theorem orchestrator_outlives_its_shards:
  assumes "orchestrator_run early actions K (now, st)" "creates_first actions K"
  shows "(orc_thread_idle st \<longleftrightarrow> start_returns st)
     \<and> (\<forall>n y. (own_step ^^ n) (now, st) y \<longrightarrow>
          n \<le> 2 * (length (orc_actions st) - orc_current st) + 3 * length (orc_posted st) + 5)
     \<and> ((\<forall>sh \<in> set (orc_shards st). sh_closed sh) \<longrightarrow> (\<exists>n y. (own_step ^^ n) (now, st) y \<and> start_returns (snd y)))"
  using run_ends [OF assms(2,1)] by blast

theorem orchestrator_outlives_its_shards_witness:
  "\<exists>n y. (own_step ^^ n) (0, run_ended) y \<and> start_returns (snd y)"
proof -
  have run: "orchestrator_run True sample_actions 1 (0, run_ended)" by (rule run_start_steps [OF run_ended_reached])
  have closed: "list_all sh_closed (orc_shards run_ended)" by code_simp
  from orchestrator_outlives_its_shards [OF run sample_creates_first] closed
  show ?thesis by (simp add: list_all_iff)
qed

text \<open>C13: a run can always be finished without help. From every reachable state of a run of a plan
  that creates its sessions once, first, there are steps of the orchestrator's thread, its
  timers, the shards' tasks, their force-stop timers and their ends, with no failure, no stop
  from outside and no session that disconnects, after which \<^verbatim>\<open>start\<close> returns. Unless every shard
  has ended already, the shutdown is reached on the way, in a run that is not stopped from
  outside after every action has been handed out: no work is left behind and nothing waits for
  ever.\<close>

theorem orchestrator_can_finish:
  assumes "orchestrator_run early actions K (now, st)" "creates_all actions K"
  shows "\<exists>y. calm_step\<^sup>*\<^sup>* (now, st) y \<and> start_returns (snd y)
     \<and> ((\<exists>sh \<in> set (orc_shards st). \<not> sh_closed sh) \<longrightarrow>
          orc_shutdown (snd y) \<and> (\<not> early \<longrightarrow> orc_current (snd y) = length actions))"
  by (rule run_finishes [OF assms(2,1)])

theorem orchestrator_can_finish_witness:
  "\<exists>y. calm_step\<^sup>*\<^sup>* (500000000, run_asked) y \<and> start_returns (snd y) \<and> orc_current (snd y) = 2"
proof -
  have run: "orchestrator_run False sample_actions 1 (500000000, run_asked)" by (rule run_start_steps [OF run_asked_reached])
  have plan: "creates_all sample_actions 1"
    using sample_creates_first by (simp add: creates_all_def) (simp add: sample_actions_def make_create_def make_connect_def)
  have "list_ex (\<lambda>sh. \<not> sh_closed sh) (orc_shards run_asked)" by code_simp
  then have still: "\<exists>sh \<in> set (orc_shards run_asked). \<not> sh_closed sh" by (simp add: list_ex_iff)
  have "length sample_actions = 2" by (simp add: sample_actions_def)
  then show ?thesis using orchestrator_can_finish [OF run plan] still by auto
qed

section \<open>Message handlers\<close>

text \<open>C36: the host of a WebAssembly guest stays inside its memory. For messages below 4 GiB, both
  entry points of the WASM handler read and write the guest's memory only inside its bounds,
  whatever the guest does; its memory keeps its size when written inside it. A message is then
  answered by exactly one callback and a header by a result on every path (a failed allocation,
  an index out of bounds, an exception) but one: a call of the guest that gives an error, such
  as a trap, is unwrapped, which aborts the process before any callback. A guest whose calls
  never give an error always gets its answers.\<close>

theorem wasm_handler_stays_in_bounds:
  assumes "memory_law w" "length header + length body < 2 ^ 32"
  shows "fst (message_body w header body s) \<noteq> Out_Of_Bounds \<and> fst (header_body w hh header s) \<noteq> Out_Of_Bounds
     \<and> (case hd_parse_message (wasm_handler w) header body s of
          None \<Rightarrow> \<exists>m. fst (message_body w header body s) = Aborted m
        | Some (answers, s') \<Rightarrow> length answers = 1)
     \<and> (hd_parse_header (wasm_handler w) header s = None \<longleftrightarrow>
          (\<exists>hh m. wg_handle_header w = Some hh \<and> fst (header_body w hh header s) = Aborted m))
     \<and> (never_fails w \<longrightarrow> hd_parse_message (wasm_handler w) header body s \<noteq> None
          \<and> hd_parse_header (wasm_handler w) header s \<noteq> None)"
proof -
  have len: "length header < 2 ^ 32" using assms(2) by simp
  have "never_fails w \<Longrightarrow> hd_parse_message (wasm_handler w) header body s \<noteq> None
      \<and> hd_parse_header (wasm_handler w) header s \<noteq> None"
    using message_handler.one_callback [OF wasm_message_handler [OF assms(1)] assms(2)]
      message_handler.header_defined [OF wasm_message_handler [OF assms(1)] len] by fastforce
  then show ?thesis
    using message_body_in_bounds [OF assms(2,1), of s] header_body_in_bounds [OF len, of w hh s]
      wasm_parse_message_cases [OF assms(2,1), of s] wasm_parse_header_None [OF len, of w s]
    by (auto simp: in_bounds_def goes_on_def split: option.splits)
qed

definition sample_guest :: "u8 list wasm_guest" where
  "sample_guest =
     \<lparr>wg_memory = (\<lambda>g. g), wg_write = (\<lambda>k bs g. take k g @ bs @ drop (k + length bs) g),
      wg_alloc = (\<lambda>n g. (Returned 4, g)), wg_dealloc = (\<lambda>i n g. (Returned (), g)),
      wg_handle_body = (\<lambda>i n g. (Returned (push_bit 32 2 + 4), g)), wg_handle_header = None\<rparr>"

text \<open>The same guest with a body handler that traps.\<close>

definition trapping_guest :: "u8 list wasm_guest" where
  "trapping_guest = sample_guest\<lparr>wg_handle_body := \<lambda>i n g. (Failed ''unreachable'', g)\<rparr>"

theorem wasm_handler_stays_in_bounds_witness:
  "(\<exists>r s'. hd_parse_message (wasm_handler sample_guest) [1] [2, 3]
       \<lparr>ws_guest = replicate 64 0, ws_warnings = []\<rparr> = Some ([r], s'))
   \<and> (\<exists>m. fst (message_body trapping_guest [1] [2, 3] \<lparr>ws_guest = replicate 64 0, ws_warnings = []\<rparr>) = Aborted m)"
proof -
  let ?s = "\<lparr>ws_guest = replicate 64 0, ws_warnings = []\<rparr>"
  have law: "memory_law sample_guest" "memory_law trapping_guest"
    by (simp_all add: memory_law_def sample_guest_def trapping_guest_def)
  have ok: "never_fails sample_guest" by (simp add: never_fails_def sample_guest_def)
  have "hd_parse_message (wasm_handler trapping_guest) [1] [2, 3] ?s = None" by code_simp
  then show ?thesis
    using wasm_handler_stays_in_bounds [OF law(1), of "[1]" "[2, 3]" ?s] ok
      wasm_handler_stays_in_bounds [OF law(2), of "[1]" "[2, 3]" ?s]
    by (cases "hd_parse_message (wasm_handler sample_guest) [1] [2, 3] ?s") (auto simp: length_Suc_conv)
qed

section \<open>Metrics\<close>

text \<open>Every latency falls into one of the sixteen buckets: the first below 64 microseconds, the
  last from \<open>2 ^ 20\<close> microseconds on, and bucket \<open>k\<close> between them from \<open>2 ^ (k + 5)\<close> to below
  \<open>2 ^ (k + 6)\<close>.\<close>

lemma latency_buckets:
  "bucket_index v < 16"
  "bucket_index v = 0 \<longleftrightarrow> unat v < 64"
  "2 ^ 20 \<le> unat v \<Longrightarrow> bucket_index v = 15"
  "1 \<le> k \<Longrightarrow> k < 15 \<Longrightarrow> 2 ^ (k + 5) \<le> unat v \<Longrightarrow> unat v < 2 ^ (k + 6) \<Longrightarrow> bucket_index v = k"
  using bucket_index_less [of v] bucket_index_0_iff [of v] bucket_index_top [of v] bucket_index_mid [of k v]
  by (auto simp: NUM_BUCKETS_def)

text \<open>The aggregate of a round is the sum of every shard's newest snapshot, and its change is
  the difference to the sum of the snapshots before them, exact as long as the sums stay below
  \<open>2 ^ 63\<close>; a shard without a snapshot counts as zero. Stated for the bytes sent and the
  connected sessions.\<close>

lemma aggregate_sums_newest_snapshots:
  fixes h :: "metrics_snapshot list list"
  defines "sent \<equiv> latest_sum ms_bytes_sent h" and "sent' \<equiv> previous_sum ms_bytes_sent h"
    and "live \<equiv> latest_sum ms_connected_sessions h" and "live' \<equiv> previous_sum ms_connected_sessions h"
  assumes "unat sent < 2 ^ 63" "unat sent' < 2 ^ 63" "unat live < 2 ^ 63" "unat live' < 2 ^ 63"
  shows "ms_bytes_sent (ma_current (get_aggregate_delta h)) = sent
     \<and> md_bytes_sent (ma_change (get_aggregate_delta h)) = int (unat sent) - int (unat sent')
     \<and> ms_connected_sessions (ma_current (get_aggregate_delta h)) = live
     \<and> md_connected_sessions (ma_change (get_aggregate_delta h)) = int (unat live) - int (unat live')"
proof -
  have "md_bytes_sent (ma_change (get_aggregate_delta h)) = signed_difference sent sent'"
    unfolding sent_def sent'_def by (rule sent_field.get_change) (simp add: compute_difference_def)
  moreover have "md_connected_sessions (ma_change (get_aggregate_delta h)) = signed_difference live live'"
    unfolding live_def live'_def by (rule connected_field.get_change) (simp add: compute_difference_def)
  ultimately show ?thesis
    using assms by (simp add: signed_difference_exact sent_field.get_current connected_field.get_current)
qed

end
