(* ===== verification/WASM_Module.thy ===== *)
theory WASM_Module
  imports Message_Handlers
begin

text \<open>
  The constructor of \<^verbatim>\<open>packets/wasm-message-handler.cpp\<close>: from a module's exports to the guest
  the handler works with. \<open>None\<close> for the exports is a module the engine cannot instantiate.
  An exported function gets its 32-bit arguments and returns its first result in 64 bits, of
  which the host takes the width it expects.
\<close>

datatype 'g extern =
  Extern_Memory "'g \<Rightarrow> u8 list" "nat \<Rightarrow> u8 list \<Rightarrow> 'g \<Rightarrow> 'g"
| Extern_Func "u32 list \<Rightarrow> 'g \<Rightarrow> u64 wasm_call \<times> 'g"
| Extern_Other

type_synonym 'g exports = "string \<Rightarrow> 'g extern option"

text \<open>Two texts for three ways to fail: the message does not tell a missing export from one of the wrong kind.\<close>

definition get_memory :: "'g exports \<Rightarrow> (('g \<Rightarrow> u8 list) \<times> (nat \<Rightarrow> u8 list \<Rightarrow> 'g \<Rightarrow> 'g)) result" where
  "get_memory exports =
     (case exports ''memory'' of
        Some (Extern_Memory mem wr) \<Rightarrow> Inr (mem, wr)
      | _ \<Rightarrow> Inl ''WASM memory could not be created! Aborting!'')"

definition get_func :: "'g exports \<Rightarrow> string \<Rightarrow> (u32 list \<Rightarrow> 'g \<Rightarrow> u64 wasm_call \<times> 'g) result" where
  "get_func exports name =
     (case exports name of
        Some (Extern_Func f) \<Rightarrow> Inr f
      | _ \<Rightarrow> Inl (''WASM module does not export working '' @ name @ ''! Aborting!''))"

text \<open>The results of a call, narrowed to what the host reads.\<close>

definition narrow :: "(u64 \<Rightarrow> 'a) \<Rightarrow> u64 wasm_call \<times> 'g \<Rightarrow> 'a wasm_call \<times> 'g" where
  "narrow f r = (map_wasm_call f (fst r), snd r)"

definition new_wasm_handler :: "'g exports option \<Rightarrow> 'g wasm_guest result" where
  "new_wasm_handler instance_exports =
     (case instance_exports of
        None \<Rightarrow> Inl ''WASM instance could not be created! Aborting!''
      | Some exports \<Rightarrow>
          bindE (get_memory exports) (\<lambda>(mem, wr).
          bindE (get_func exports ''alloc'') (\<lambda>alloc.
          bindE (get_func exports ''dealloc'') (\<lambda>dealloc.
          bindE (get_func exports ''handle_body'') (\<lambda>handle_body.
          Inr \<lparr>wg_memory = mem, wg_write = wr,
               wg_alloc = (\<lambda>n g. narrow ucast (alloc [n] g)),
               wg_dealloc = (\<lambda>i n g. narrow (\<lambda>_. ()) (dealloc [i, n] g)),
               wg_handle_body = (\<lambda>i n g. handle_body [i, n] g),
               wg_handle_header =
                 (case exports ''handle_header'' of
                    Some (Extern_Func f) \<Rightarrow> Some (\<lambda>i n g. narrow ucast (f [i, n] g))
                  | _ \<Rightarrow> None)\<rparr>)))))"

text \<open>Which modules a handler can be made of.\<close>

definition is_memory :: "'g extern option \<Rightarrow> bool" where
  "is_memory e \<longleftrightarrow> (case e of Some (Extern_Memory _ _) \<Rightarrow> True | _ \<Rightarrow> False)"

definition is_func :: "'g extern option \<Rightarrow> bool" where
  "is_func e \<longleftrightarrow> (case e of Some (Extern_Func _) \<Rightarrow> True | _ \<Rightarrow> False)"

lemma get_func_Inl: "get_func exports name = Inl e \<longleftrightarrow>
    \<not> is_func (exports name) \<and> e = ''WASM module does not export working '' @ name @ ''! Aborting!''"
  by (auto simp: get_func_def is_func_def split: option.splits extern.splits)

lemma get_memory_Inl: "get_memory exports = Inl e \<longleftrightarrow>
    \<not> is_memory (exports ''memory'') \<and> e = ''WASM memory could not be created! Aborting!''"
  by (auto simp: get_memory_def is_memory_def split: option.splits extern.splits)

lemma get_Inr:
  "(\<exists>f. get_func exports name = Inr f) \<longleftrightarrow> is_func (exports name)"
  "(\<exists>mw. get_memory exports = Inr mw) \<longleftrightarrow> is_memory (exports ''memory'')"
  by (auto simp: get_func_def is_func_def get_memory_def is_memory_def split: option.splits extern.splits)

lemma new_wasm_handler_Inr:
  "(\<exists>w. new_wasm_handler (Some exports) = Inr w) \<longleftrightarrow>
     is_memory (exports ''memory'') \<and> is_func (exports ''alloc'') \<and> is_func (exports ''dealloc'')
     \<and> is_func (exports ''handle_body'')"
  unfolding get_Inr [symmetric] new_wasm_handler_def option.case
  by (cases "get_memory exports"; cases "get_func exports ''alloc''"; cases "get_func exports ''dealloc''";
      cases "get_func exports ''handle_body''"; simp split: prod.split)

end
