(* ===== verification/Guest_Contract.thy ===== *)
theory Guest_Contract
  imports WASM_Module
begin

text \<open>
  What the example guests of the SDK have in common against \<^verbatim>\<open>sdk/wasm/wasm-contract.h\<close>: a linear
  memory of bytes, where an access outside traps (and so aborts the host), and an allocator that moves \<^verbatim>\<open>heap_top\<close> up
  from \<open>base\<close>, which is \<^verbatim>\<open>__heap_base\<close> and above the guest's own data. The locale states what
  the handler needs of such a guest to get its answers and to leave its heap empty.
\<close>

section \<open>A guest that moves its heap\<close>

record bump_guest =
  bg_memory :: "u8 list"
  bg_heap_top :: u32

definition bg_write :: "nat \<Rightarrow> u8 list \<Rightarrow> bump_guest \<Rightarrow> bump_guest" where
  "bg_write k bs g = g\<lparr>bg_memory := take k (bg_memory g) @ bs @ drop (k + length bs) (bg_memory g)\<rparr>"

definition guest_trap :: "'a wasm_call" where
  "guest_trap = Failed ''out of bounds memory access''"

text \<open>Between two calls the heap is empty.\<close>

definition guest_ready :: "u32 \<Rightarrow> nat \<Rightarrow> bump_guest wasm_state \<Rightarrow> bool" where
  "guest_ready base room s \<longleftrightarrow>
     bg_heap_top (ws_guest s) \<in> {0, base} \<and> length (bg_memory (ws_guest s)) = room"

lemma length_bg_write [simp]:
  "k + length bs \<le> length (bg_memory g) \<Longrightarrow> length (bg_memory (bg_write k bs g)) = length (bg_memory g)"
  by (simp add: bg_write_def)

lemma bg_write_twice:
  assumes "k + (length xs + length ys) \<le> length (bg_memory g)"
  shows "bg_write (k + length xs) ys (bg_write k xs g) = bg_write k (xs @ ys) g"
  using assms by (simp add: bg_write_def add.left_commute add.commute)

lemma bg_memory_read:
  assumes "k + length bs \<le> length (bg_memory g)"
  shows "i < length bs \<Longrightarrow> bg_memory (bg_write k bs g) ! (k + i) = bs ! i"
    and "take (length bs) (drop k (bg_memory (bg_write k bs g))) = bs"
  using assms by (simp_all add: bg_write_def nth_append)

text \<open>The length in the high half, the index in the low half.\<close>

lemma packed_reply:
  fixes i n :: u32
  defines "p \<equiv> or (push_bit 32 (ucast n :: u64)) (ucast i)"
  shows "unpack_index p = i" "unpack_length p = n"
proof -
  have mask: "(0xffffffff :: u64) = mask 32" by (simp add: mask_eq_exp_minus_1)
  show "unpack_index p = i" "unpack_length p = n"
    unfolding unpack_index_def unpack_length_def mask p_def
    by (rule bit_word_eqI; auto simp: bit_simps dest: bit_imp_le_length)+
qed

lemma unpack_length_0: "unpack_length 0 = 0"
  by (simp add: unpack_length_def)

lemma ucast_down_up [simp]: "ucast (ucast (w :: u32) :: u64) = w"
  by (rule ucast_up_ucast_id) (simp add: is_up)

lemma map_wasm_call_ident: "(\<And>x. f x = x) \<Longrightarrow> map_wasm_call f r = r"
  by (cases r) simp_all

section \<open>Conversations\<close>

datatype exchange = Ask_Header "u8 list" | Ask_Message "u8 list" "u8 list"

datatype answer = Header_Answer header_result | Message_Answer "u8 list list"

fun ask :: "'h handler_ops \<Rightarrow> exchange \<Rightarrow> 'h \<Rightarrow> (answer \<times> 'h) option" where
  "ask ops (Ask_Header buffer) h = map_option (\<lambda>(r, h). (Header_Answer r, h)) (hd_parse_header ops buffer h)"
| "ask ops (Ask_Message header body) h =
     map_option (\<lambda>(rs, h). (Message_Answer rs, h)) (hd_parse_message ops header body h)"

fun conversation :: "'h handler_ops \<Rightarrow> exchange list \<Rightarrow> 'h \<Rightarrow> (answer list \<times> 'h) option" where
  "conversation ops [] h = Some ([], h)"
| "conversation ops (e # es) h =
     (case ask ops e h of
        None \<Rightarrow> None
      | Some (a, h) \<Rightarrow> map_option (\<lambda>(as, h). (a # as, h)) (conversation ops es h))"

fun sendable :: "exchange \<Rightarrow> bool" where
  "sendable (Ask_Header buffer) \<longleftrightarrow> length buffer < 2 ^ 32"
| "sendable (Ask_Message header body) \<longleftrightarrow> length header + length body < 2 ^ 32"

text \<open>
  The answers of a guest with a header function and a reply function, when the input has to
  fit into its memory above \<open>base\<close>.
\<close>

definition header_in_room :: "(u8 list \<Rightarrow> u32) \<Rightarrow> u32 \<Rightarrow> nat \<Rightarrow> u8 list \<Rightarrow> header_result" where
  "header_in_room value base room buffer =
     (if unat base + length buffer > room \<or> sint (value buffer) < 0 then header_error
      else \<lparr>hr_length = unat (value buffer), hr_status = Header_OK\<rparr>)"

definition reply_in_room :: "(u8 list \<Rightarrow> u8 list) \<Rightarrow> u32 \<Rightarrow> nat \<Rightarrow> u8 list \<Rightarrow> u8 list" where
  "reply_in_room reply base room message = (if unat base + length message > room then [] else reply message)"

fun guest_answer ::
  "(u8 list \<Rightarrow> u32) \<Rightarrow> (u8 list \<Rightarrow> u8 list) \<Rightarrow> u32 \<Rightarrow> nat \<Rightarrow> exchange \<Rightarrow> answer" where
  "guest_answer value reply base room (Ask_Header buffer) = Header_Answer (header_in_room value base room buffer)"
| "guest_answer value reply base room (Ask_Message header body) =
     Message_Answer [reply_in_room reply base room (header @ body)]"

section \<open>The contract\<close>

text \<open>What a returned value stands for: the bytes it points at in the guest's memory.\<close>

definition returns :: "u64 \<Rightarrow> bump_guest \<Rightarrow> u8 list \<Rightarrow> bool" where
  "returns packed g bs \<longleftrightarrow>
     (let i = unat (unpack_index packed); n = unat (unpack_length packed)
      in n = length bs \<and> (bs \<noteq> [] \<longrightarrow> i + n \<le> length (bg_memory g) \<and> take n (drop i (bg_memory g)) = bs))"

locale bump_allocated =
  fixes w :: "bump_guest wasm_guest" and base :: u32
    and handle_header :: "u32 \<Rightarrow> u32 \<Rightarrow> bump_guest \<Rightarrow> u32 wasm_call \<times> bump_guest"
    and header_value :: "u8 list \<Rightarrow> u32" and reply :: "u8 list \<Rightarrow> u8 list"
  assumes memory: "wg_memory w = bg_memory" "wg_write w = bg_write" "wg_handle_header w = Some handle_header"
    and alloc_law: "bg_heap_top g \<in> {0, base} \<Longrightarrow> wg_alloc w n g = (Returned base, g\<lparr>bg_heap_top := base + n\<rparr>)"
    and dealloc_law: "wg_dealloc w i n g = (Returned (), g\<lparr>bg_heap_top := base\<rparr>)"
    and header_law: "base \<noteq> 0 \<Longrightarrow> unat base + length buffer \<le> length (bg_memory g) \<Longrightarrow> length buffer < 2 ^ 32 \<Longrightarrow>
      \<exists>g'. handle_header base (of_nat (length buffer)) (bg_write (unat base) buffer g) = (Returned (header_value buffer), g')
        \<and> length (bg_memory g') = length (bg_memory g)"
    and body_law: "base \<noteq> 0 \<Longrightarrow> unat base + length message \<le> length (bg_memory g) \<Longrightarrow> length message < 2 ^ 32 \<Longrightarrow>
      \<exists>packed g'. wg_handle_body w base (of_nat (length message)) (bg_write (unat base) message g) = (Returned packed, g')
        \<and> length (bg_memory g') = length (bg_memory g) \<and> returns packed g' (reply message)"
begin

lemma alloc_call:
  assumes "guest_ready base room s"
  shows "call_guest (wg_alloc w n) s = (Done base, s\<lparr>ws_guest := (ws_guest s)\<lparr>bg_heap_top := base + n\<rparr>\<rparr>)"
  using assms by (simp add: call_guest_def alloc_law guest_ready_def)

lemma dealloc_call [simp]: "dealloc w i n s = (Done (), s\<lparr>ws_guest := (ws_guest s)\<lparr>bg_heap_top := base\<rparr>\<rparr>)"
  by (simp add: dealloc_def call_guest_def dealloc_law)

lemma fits_iff [simp]: "fits_memory w i n s \<longleftrightarrow> unat i + unat n \<le> length (bg_memory (ws_guest s))"
  by (auto simp: fits_memory_def memory)

lemma copy_in_call:
  "k + length bs \<le> length (bg_memory (ws_guest s)) \<Longrightarrow>
   copy_in w k bs s = (Done (), s\<lparr>ws_guest := bg_write k bs (ws_guest s)\<rparr>)"
  by (simp add: copy_in_def memory)

lemma warn_guest [simp]: "ws_guest (warn msg s) = ws_guest s"
  by (simp add: warn_def)

lemma header_call:
  assumes "guest_ready base room s" "base \<noteq> 0" "length buffer < 2 ^ 32"
  shows "\<exists>s'. hd_parse_header (wasm_handler w) buffer s = Some (header_in_room header_value base room buffer, s')
     \<and> guest_ready base room s'"
proof -
  define n where "n = (of_nat (length buffer) :: u32)"
  let ?g = "(ws_guest s)\<lparr>bg_heap_top := base + n\<rparr>"
  have room: "length (bg_memory (ws_guest s)) = room" using assms(1) by (simp add: guest_ready_def)
  have n: "unat n = length buffer" unfolding n_def using assms(3) by (rule unat_of_nat_u32)
  note alloc = alloc_call [OF assms(1), of n]
  have "\<exists>s'. header_body w handle_header buffer s = (Done (header_in_room header_value base room buffer), s')
      \<and> guest_ready base room s'"
  proof (cases "unat base + length buffer \<le> room")
    case False
    then show ?thesis
      using room n assms(2)
      by (simp add: header_body_def Let_def alloc header_in_room_def guest_ready_def flip: n_def)
  next
    case True
    let ?g1 = "bg_write (unat base) buffer ?g"
    obtain g' where call: "handle_header base n ?g1 = (Returned (header_value buffer), g')"
      "length (bg_memory g') = room"
      using header_law [OF assms(2), of buffer ?g] True room assms(3) by (auto simp flip: n_def)
    have steps: "fits_memory w base n (s\<lparr>ws_guest := ?g\<rparr>)"
      "copy_in w (unat base) buffer (s\<lparr>ws_guest := ?g\<rparr>) = (Done (), s\<lparr>ws_guest := ?g1\<rparr>)"
      "call_guest (handle_header base n) (s\<lparr>ws_guest := ?g1\<rparr>) = (Done (header_value buffer), s\<lparr>ws_guest := g'\<rparr>)"
      using True room n call(1) by (simp_all add: call_guest_def copy_in_call)
    show ?thesis
      using assms(2) True call(2)
      by (simp add: header_body_def Let_def alloc steps header_in_room_def guest_ready_def del: fits_iff flip: n_def)
  qed
  then show ?thesis by (auto simp: wasm_handler_def wasm_parse_header_def memory)
qed

lemma message_call:
  assumes "guest_ready base room s" "base \<noteq> 0" "length header + length body < 2 ^ 32"
  shows "\<exists>s'. hd_parse_message (wasm_handler w) header body s = Some ([reply_in_room reply base room (header @ body)], s')
     \<and> guest_ready base room s'"
proof -
  define n where "n = (of_nat (length header + length body) :: u32)"
  let ?g = "(ws_guest s)\<lparr>bg_heap_top := base + n\<rparr>"
  have room: "length (bg_memory (ws_guest s)) = room" using assms(1) by (simp add: guest_ready_def)
  have n: "unat n = length header + length body" unfolding n_def using assms(3) by (rule unat_of_nat_u32)
  note alloc = alloc_call [OF assms(1), of n]
  have "\<exists>s'. message_body w header body s = (Done (reply_in_room reply base room (header @ body)), s')
      \<and> guest_ready base room s'"
  proof (cases "unat base + (length header + length body) \<le> room")
    case False
    then show ?thesis
      using room n assms(2)
      by (simp add: message_body_def Let_def alloc reply_in_room_def guest_ready_def del: of_nat_add flip: n_def)
  next
    case True
    let ?g1 = "bg_write (unat base) header ?g" and ?g2 = "bg_write (unat base) (header @ body) ?g"
    obtain packed g' where call: "wg_handle_body w base n ?g2 = (Returned packed, g')"
      "length (bg_memory g') = room" "returns packed g' (reply (header @ body))"
      using body_law [OF assms(2), of "header @ body" ?g] True room assms(3)
      by (auto simp del: of_nat_add simp flip: n_def)
    have steps: "fits_memory w base n (s\<lparr>ws_guest := ?g\<rparr>)"
      "copy_in w (unat base) header (s\<lparr>ws_guest := ?g\<rparr>) = (Done (), s\<lparr>ws_guest := ?g1\<rparr>)"
      "copy_in w (unat base + length header) body (s\<lparr>ws_guest := ?g1\<rparr>) = (Done (), s\<lparr>ws_guest := ?g2\<rparr>)"
      "call_guest (wg_handle_body w base n) (s\<lparr>ws_guest := ?g2\<rparr>) = (Done packed, s\<lparr>ws_guest := g'\<rparr>)"
      using True room n call(1) by (simp_all add: call_guest_def copy_in_call bg_write_twice)
    show ?thesis
    proof (cases "unpack_length packed > 0")
      case False
      then have zero: "unpack_length packed = 0" using word_neq_0_conv by blast
      then have "reply (header @ body) = []" using call(3) by (simp add: returns_def)
      with zero show ?thesis
        using assms(2) call(2)
        by (simp add: message_body_def Let_def alloc steps reply_in_room_def guest_ready_def
            del: of_nat_add fits_iff flip: n_def)
    next
      case some: True
      then have "unat (unpack_length packed) \<noteq> 0" by (simp add: unat_eq_0 word_neq_0_conv)
      then have "reply (header @ body) \<noteq> []" using call(3) by (auto simp: returns_def Let_def)
      then have read: "unat (unpack_index packed) + unat (unpack_length packed) \<le> length (bg_memory g')"
        "take (unat (unpack_length packed)) (drop (unat (unpack_index packed)) (bg_memory g')) = reply (header @ body)"
        using call(3) unfolding returns_def Let_def by blast+
      then show ?thesis
        using assms(2) call(2) some True
        by (simp add: message_body_def Let_def alloc steps reply_in_room_def guest_ready_def
            del: of_nat_add fits_iff flip: n_def) (simp add: copy_out_def memory)
    qed
  qed
  then show ?thesis by (auto simp: wasm_handler_def wasm_parse_message_def)
qed

lemma asked:
  assumes "guest_ready base room s" "base \<noteq> 0" "sendable e"
  shows "\<exists>s'. ask (wasm_handler w) e s = Some (guest_answer header_value reply base room e, s') \<and> guest_ready base room s'"
proof (cases e)
  case (Ask_Header buffer)
  then show ?thesis using header_call [OF assms(1,2), of buffer] assms(3) by auto
next
  case (Ask_Message header body)
  then show ?thesis using message_call [OF assms(1,2), of header body] assms(3) by auto
qed

lemma conversations:
  assumes "guest_ready base room s" "base \<noteq> 0" "list_all sendable es"
  shows "\<exists>s'. conversation (wasm_handler w) es s = Some (map (guest_answer header_value reply base room) es, s')
     \<and> guest_ready base room s'"
  using assms
proof (induction es arbitrary: s)
  case (Cons e es)
  obtain s1 where "ask (wasm_handler w) e s = Some (guest_answer header_value reply base room e, s1)"
    "guest_ready base room s1"
    using asked [OF Cons.prems(1,2), of e] Cons.prems(3) by auto
  then show ?case using Cons.IH [of s1] Cons.prems by auto
qed simp

end

end
