(* ===== verification/Heartbeat.thy ===== *)
theory Heartbeat
  imports Guest_Contract
begin

text \<open>
  \<^verbatim>\<open>sdk/wasm/tcp-single-session-heartbeat.cpp\<close>: the guest that answers the pings of a chat server,
  and the handler made of it.
\<close>

section \<open>The guest\<close>

datatype header_type = Login | Register | Ping | PingResponse | SendDM

fun header_type_code :: "header_type \<Rightarrow> u8" where
  "header_type_code Login = 0"
| "header_type_code Register = 1"
| "header_type_code Ping = 2"
| "header_type_code PingResponse = 3"
| "header_type_code SendDM = 4"

definition expected_header_size :: u32 where
  "expected_header_size = 5"

definition hb_alloc :: "u32 \<Rightarrow> u32 \<Rightarrow> bump_guest \<Rightarrow> u32 \<times> bump_guest" where
  "hb_alloc base input_size g =
     (let g = (if bg_heap_top g = 0 then g\<lparr>bg_heap_top := base\<rparr> else g)
      in (bg_heap_top g, g\<lparr>bg_heap_top := bg_heap_top g + input_size\<rparr>))"

definition hb_dealloc :: "u32 \<Rightarrow> u32 \<Rightarrow> u32 \<Rightarrow> bump_guest \<Rightarrow> bump_guest" where
  "hb_dealloc base input_index input_size g = g\<lparr>bg_heap_top := base\<rparr>"

definition hb_handle_body :: "u32 \<Rightarrow> u32 \<Rightarrow> bump_guest \<Rightarrow> u64 wasm_call \<times> bump_guest" where
  "hb_handle_body input_index input_size g =
     (if input_index = 0 \<or> input_size < expected_header_size then (Returned 0, g)
      else if unat input_index \<ge> length (bg_memory g) then (guest_trap, g)
      else if bg_memory g ! unat input_index = header_type_code Ping then
        let out_packet = [header_type_code PingResponse, 0, 0, 0, 0];
            room = length (bg_memory g) - unat input_index
        in if room < 5 then (guest_trap, bg_write (unat input_index) (take room out_packet) g)
           else (Returned (or (push_bit 32 (ucast expected_header_size)) (ucast input_index)),
                 bg_write (unat input_index) out_packet g)
      else (Returned 0, g))"

definition hb_handle_header :: "u32 \<Rightarrow> u32 \<Rightarrow> bump_guest \<Rightarrow> u32 wasm_call \<times> bump_guest" where
  "hb_handle_header input_index input_size g =
     (if input_size \<noteq> expected_header_size \<or> input_index = 0 then (Returned 0, g)
      else if unat input_index + 5 > length (bg_memory g) then (guest_trap, g)
      else
        let memory = (\<lambda>k. ucast (bg_memory g ! (unat input_index + k)) :: u32)
        in (Returned (or (or (or (memory 1) (push_bit 8 (memory 2))) (push_bit 16 (memory 3))) (push_bit 24 (memory 4))), g))"

text \<open>The compiled module: its exports and the handler made of them.\<close>

definition hb_exports :: "u32 \<Rightarrow> bump_guest exports" where
  "hb_exports base =
     [''memory'' \<mapsto> Extern_Memory bg_memory bg_write,
      ''alloc'' \<mapsto> Extern_Func (\<lambda>args g. let (r, g) = hb_alloc base (args ! 0) g in (Returned (ucast r), g)),
      ''dealloc'' \<mapsto> Extern_Func (\<lambda>args g. (Returned 0, hb_dealloc base (args ! 0) (args ! 1) g)),
      ''handle_body'' \<mapsto> Extern_Func (\<lambda>args g. hb_handle_body (args ! 0) (args ! 1) g),
      ''handle_header'' \<mapsto> Extern_Func (\<lambda>args g.
         let (r, g) = hb_handle_header (args ! 0) (args ! 1) g in (map_wasm_call ucast r, g))]"

definition heartbeat_guest :: "u32 \<Rightarrow> bump_guest wasm_guest" where
  "heartbeat_guest base =
     \<lparr>wg_memory = bg_memory, wg_write = bg_write,
      wg_alloc = (\<lambda>n g. let (r, g) = hb_alloc base n g in (Returned r, g)),
      wg_dealloc = (\<lambda>i n g. (Returned (), hb_dealloc base i n g)),
      wg_handle_body = hb_handle_body, wg_handle_header = Some hb_handle_header\<rparr>"

lemma heartbeat_module: "new_wasm_handler (Some (hb_exports base)) = Inr (heartbeat_guest base)"
  by (simp add: new_wasm_handler_def hb_exports_def heartbeat_guest_def get_memory_def get_func_def narrow_def
      wasm_call.map_comp comp_def map_wasm_call_ident split_beta fun_eq_iff)

section \<open>The protocol it speaks\<close>

text \<open>
  The reference: a message with a header that is a ping is answered by an empty ping response,
  any other by nothing; a header is the length behind its first byte, least significant byte
  first.
\<close>

definition ping_response :: "u8 list" where
  "ping_response = [header_type_code PingResponse, 0, 0, 0, 0]"

definition heartbeat_reply :: "u8 list \<Rightarrow> u8 list" where
  "heartbeat_reply message =
     (if 5 \<le> length message \<and> hd message = header_type_code Ping then ping_response else [])"

definition heartbeat_length :: "u8 list \<Rightarrow> u32" where
  "heartbeat_length header =
     (if length header \<noteq> 5 then 0
      else of_nat (unat (header ! 1) + 256 * unat (header ! 2) + 65536 * unat (header ! 3) + 16777216 * unat (header ! 4)))"

section \<open>What it does with an input\<close>

lemma input_length_less: "length xs < 2 ^ 32 \<Longrightarrow> (of_nat (length xs) :: u32) < expected_header_size \<longleftrightarrow> length xs < 5"
  by (simp add: word_less_nat_alt unat_of_nat expected_header_size_def)

lemma little_endian_word:
  fixes a b c d :: u8
  defines "v \<equiv> or (or (or (ucast a) (push_bit 8 (ucast b))) (push_bit 16 (ucast c))) (push_bit 24 (ucast d)) :: u32"
  shows "v = of_nat (unat a + 256 * unat b + 65536 * unat c + 16777216 * unat d)"
proof -
  have "v = ucast a + push_bit 8 (ucast b) + push_bit 16 (ucast c) + push_bit 24 (ucast d)"
    unfolding v_def
    by (subst disjunctive_add_eq_or [symmetric], (rule bit_word_eqI; auto simp: bit_simps dest: bit_imp_le_length))+ simp
  then show ?thesis by (simp add: push_bit_eq_mult mult.commute)
qed

lemma heartbeat_body:
  assumes "base \<noteq> 0" "unat base + length message \<le> length (bg_memory g)" "length message < 2 ^ 32"
  shows "\<exists>packed g'. hb_handle_body base (of_nat (length message)) (bg_write (unat base) message g) = (Returned packed, g')
     \<and> length (bg_memory g') = length (bg_memory g) \<and> returns packed g' (heartbeat_reply message)"
proof (cases "5 \<le> length message \<and> hd message = header_type_code Ping")
  case ping: True
  let ?g1 = "bg_write (unat base) message g"
  let ?g2 = "bg_write (unat base) ping_response ?g1"
  let ?packed = "or (push_bit 32 (ucast expected_header_size)) (ucast base) :: u64"
  have first: "bg_memory ?g1 ! unat base = header_type_code Ping"
    using ping bg_memory_read(1) [OF assms(2), of 0] by (cases message) simp_all
  have room: "\<not> length (bg_memory g) - unat base < 5" "\<not> length (bg_memory g) \<le> unat base"
    using ping assms(2) by auto
  have len: "length ping_response = 5" by (simp add: ping_response_def)
  have g1: "length (bg_memory ?g1) = length (bg_memory g)" using assms(2) by simp
  have "hb_handle_body base (of_nat (length message)) ?g1 = (Returned ?packed, ?g2)"
    using ping first room g1 assms(1) input_length_less [OF assms(3)]
    by (simp add: hb_handle_body_def ping_response_def Let_def)
  moreover have fits: "unat base + length ping_response \<le> length (bg_memory ?g1)" using room g1 len by simp
  have reply: "length (bg_memory ?g2) = length (bg_memory g)" "take 5 (drop (unat base) (bg_memory ?g2)) = ping_response"
    using fits g1 bg_memory_read(2) [of "unat base" ping_response ?g1] len by simp_all
  moreover have "returns ?packed ?g2 ping_response"
    using fits g1 len reply unfolding returns_def packed_reply Let_def by (simp add: expected_header_size_def)
  ultimately show ?thesis using ping unfolding heartbeat_reply_def by auto
next
  case other: False
  have "hb_handle_body base (of_nat (length message)) (bg_write (unat base) message g) =
      (Returned 0, bg_write (unat base) message g)"
  proof (cases "length message < 5")
    case True
    then show ?thesis using input_length_less [OF assms(3)] by (simp add: hb_handle_body_def)
  next
    case False
    then have "bg_memory (bg_write (unat base) message g) ! unat base \<noteq> header_type_code Ping"
      using other bg_memory_read(1) [OF assms(2), of 0] by (cases message) simp_all
    moreover have "\<not> length (bg_memory g) \<le> unat base" using False assms(2) by simp
    ultimately show ?thesis
      using False assms input_length_less [OF assms(3)] by (simp add: hb_handle_body_def)
  qed
  then show ?thesis
    using assms(2) other by (auto simp: returns_def unpack_length_0 heartbeat_reply_def)
qed

lemma heartbeat_header:
  assumes "base \<noteq> 0" "unat base + length buffer \<le> length (bg_memory g)" "length buffer < 2 ^ 32"
  shows "hb_handle_header base (of_nat (length buffer)) (bg_write (unat base) buffer g) =
    (Returned (heartbeat_length buffer), bg_write (unat base) buffer g)"
proof (cases "length buffer = 5")
  case True
  have at: "bg_memory (bg_write (unat base) buffer g) ! (unat base + k) = buffer ! k" if "k < 5" for k
    using that assms(2) True by (intro bg_memory_read) simp_all
  show ?thesis
    using assms True at [of 1] at [of 2] at [of 3] at [of 4]
    by (simp add: hb_handle_header_def heartbeat_length_def expected_header_size_def Let_def little_endian_word)
next
  case False
  have "unat (of_nat (length buffer) :: u32) = length buffer" using assms(3) by (rule unat_of_nat_u32)
  then have "(of_nat (length buffer) :: u32) \<noteq> expected_header_size" using False by (auto simp: expected_header_size_def)
  then show ?thesis using False by (simp add: hb_handle_header_def heartbeat_length_def)
qed

interpretation heartbeat: bump_allocated "heartbeat_guest base" base hb_handle_header heartbeat_length heartbeat_reply
  for base
proof
  fix message :: "u8 list" and g :: bump_guest
  assume "base \<noteq> 0" "unat base + length message \<le> length (bg_memory g)" "length message < 2 ^ 32"
  from heartbeat_body [OF this]
  show "\<exists>packed g'. wg_handle_body (heartbeat_guest base) base (of_nat (length message)) (bg_write (unat base) message g) =
      (Returned packed, g') \<and> length (bg_memory g') = length (bg_memory g) \<and> returns packed g' (heartbeat_reply message)"
    by (simp add: heartbeat_guest_def)
qed (auto simp: heartbeat_guest_def hb_alloc_def hb_dealloc_def heartbeat_header)

end
