(* ===== verification/Echo_Guest.thy ===== *)
theory Echo_Guest
  imports Guest_Contract
begin

text \<open>
  \<^verbatim>\<open>sdk/wasm/tcp-single-session-parsing.c\<close>: the guest that answers every message with as many
  bytes \<open>0x55\<close> and leaves the headers to the host.
\<close>

section \<open>The guest\<close>

definition ps_alloc :: "u32 \<Rightarrow> u32 \<Rightarrow> bump_guest \<Rightarrow> u32 \<times> bump_guest" where
  "ps_alloc base input_size g =
     (let g = (if bg_heap_top g = 0 then g\<lparr>bg_heap_top := base\<rparr> else g)
      in (bg_heap_top g, g\<lparr>bg_heap_top := bg_heap_top g + input_size\<rparr>))"

definition ps_dealloc :: "u32 \<Rightarrow> u32 \<Rightarrow> u32 \<Rightarrow> bump_guest \<Rightarrow> bump_guest" where
  "ps_dealloc base input_index input_size g = g\<lparr>bg_heap_top := base\<rparr>"

text \<open>The loop from position \<open>k\<close>, for the remaining \<open>n\<close> bytes; it stops where an access traps.\<close>

fun ps_fill_loop :: "nat \<Rightarrow> nat \<Rightarrow> bump_guest \<Rightarrow> bool \<times> bump_guest" where
  "ps_fill_loop k 0 g = (True, g)"
| "ps_fill_loop k (Suc n) g =
     (if k < length (bg_memory g) then ps_fill_loop (Suc k) n (bg_write k [0x55] g) else (False, g))"

definition ps_handle_body :: "u32 \<Rightarrow> u32 \<Rightarrow> bump_guest \<Rightarrow> u64 wasm_call \<times> bump_guest" where
  "ps_handle_body input_index input_size g =
     (case ps_fill_loop (unat input_index) (unat input_size) g of
        (True, g) \<Rightarrow> (Returned (or (push_bit 32 (ucast input_size)) (ucast input_index)), g)
      | (False, g) \<Rightarrow> (guest_trap, g))"

definition ps_handle_header :: "u32 \<Rightarrow> u32 \<Rightarrow> bump_guest \<Rightarrow> u32 wasm_call \<times> bump_guest" where
  "ps_handle_header input_index input_size g = (Returned 0, g)"

definition ps_exports :: "u32 \<Rightarrow> bump_guest exports" where
  "ps_exports base =
     [''memory'' \<mapsto> Extern_Memory bg_memory bg_write,
      ''alloc'' \<mapsto> Extern_Func (\<lambda>args g. let (r, g) = ps_alloc base (args ! 0) g in (Returned (ucast r), g)),
      ''dealloc'' \<mapsto> Extern_Func (\<lambda>args g. (Returned 0, ps_dealloc base (args ! 0) (args ! 1) g)),
      ''handle_body'' \<mapsto> Extern_Func (\<lambda>args g. ps_handle_body (args ! 0) (args ! 1) g),
      ''handle_header'' \<mapsto> Extern_Func (\<lambda>args g.
         let (r, g) = ps_handle_header (args ! 0) (args ! 1) g in (map_wasm_call ucast r, g))]"

definition echo_guest :: "u32 \<Rightarrow> bump_guest wasm_guest" where
  "echo_guest base =
     \<lparr>wg_memory = bg_memory, wg_write = bg_write,
      wg_alloc = (\<lambda>n g. let (r, g) = ps_alloc base n g in (Returned r, g)),
      wg_dealloc = (\<lambda>i n g. (Returned (), ps_dealloc base i n g)),
      wg_handle_body = ps_handle_body, wg_handle_header = Some ps_handle_header\<rparr>"

lemma echo_module: "new_wasm_handler (Some (ps_exports base)) = Inr (echo_guest base)"
  by (simp add: new_wasm_handler_def ps_exports_def echo_guest_def get_memory_def get_func_def narrow_def
      wasm_call.map_comp comp_def map_wasm_call_ident split_beta fun_eq_iff)

section \<open>What it does with an input\<close>

definition echo_reply :: "u8 list \<Rightarrow> u8 list" where
  "echo_reply message = replicate (length message) 0x55"

lemma ps_fill_loop_room:
  "k + n \<le> length (bg_memory g) \<Longrightarrow> ps_fill_loop k n g = (True, bg_write k (replicate n 0x55) g)"
proof (induction n arbitrary: k g)
  case 0
  then show ?case by (simp add: bg_write_def)
next
  case (Suc n)
  have "bg_write (k + length [0x55 :: u8]) (replicate n 0x55) (bg_write k [0x55] g) = bg_write k ([0x55] @ replicate n 0x55) g"
    using Suc.prems by (intro bg_write_twice) simp
  then show ?case using Suc by simp
qed

lemma echo_body:
  assumes "unat base + length message \<le> length (bg_memory g)" "length message < 2 ^ 32"
  shows "\<exists>packed g'. ps_handle_body base (of_nat (length message)) (bg_write (unat base) message g) = (Returned packed, g')
     \<and> length (bg_memory g') = length (bg_memory g) \<and> returns packed g' (echo_reply message)"
proof -
  define n where "n = (of_nat (length message) :: u32)"
  have n: "unat n = length message" unfolding n_def using assms(2) by (rule unat_of_nat_u32)
  let ?g1 = "bg_write (unat base) message g"
  let ?g2 = "bg_write (unat base) (echo_reply message) ?g1"
  have len: "length (echo_reply message) = length message" by (simp add: echo_reply_def)
  have fits: "unat base + length message \<le> length (bg_memory ?g1)" using assms(1) by simp
  have "ps_handle_body base n ?g1 = (Returned (or (push_bit 32 (ucast n)) (ucast base)), ?g2)"
    using ps_fill_loop_room [OF fits] by (simp add: ps_handle_body_def n echo_reply_def)
  moreover have "length (bg_memory ?g2) = length (bg_memory g)"
    "take (length message) (drop (unat base) (bg_memory ?g2)) = echo_reply message"
    using fits assms(1) bg_memory_read(2) [of "unat base" "echo_reply message" ?g1] len by simp_all
  moreover from this have "returns (or (push_bit 32 (ucast n)) (ucast base)) ?g2 (echo_reply message)"
    using assms(1) len n unfolding returns_def packed_reply Let_def by simp
  ultimately show ?thesis unfolding n_def [symmetric] by blast
qed

interpretation echo: bump_allocated "echo_guest base" base ps_handle_header "\<lambda>_. 0" echo_reply
  for base
proof
  fix message :: "u8 list" and g :: bump_guest
  assume "unat base + length message \<le> length (bg_memory g)" "length message < 2 ^ 32"
  from echo_body [OF this]
  show "\<exists>packed g'. wg_handle_body (echo_guest base) base (of_nat (length message)) (bg_write (unat base) message g) =
      (Returned packed, g') \<and> length (bg_memory g') = length (bg_memory g) \<and> returns packed g' (echo_reply message)"
    by (simp add: echo_guest_def)
qed (auto simp: echo_guest_def ps_alloc_def ps_dealloc_def ps_handle_header_def)

end
