(* ===== verification/Guest_Properties.thy ===== *)
theory Guest_Properties
  imports Heartbeat Echo_Guest
begin

text \<open>
  The guests that come with the program, from their modules to the answers a server gets.
\<close>

text \<open>C35: the handlers made of the SDK's modules speak their protocols. Instantiating either
  module succeeds, and in any sequence of headers and messages of less than \<open>2 ^ 32\<close> bytes each
  is answered as the reference says, with every input freed again and one that does not fit
  the memory refused. The heartbeat guest answers a ping with a header by the empty ping
  response and anything else by nothing, and a header of five bytes by its little-endian
  length unless that is negative as a signed number; the other guest answers a message by as
  many bytes \<open>0x55\<close> and a header by zero.\<close>

theorem sdk_modules_speak_their_protocols:
  assumes "guest_ready base room s" "base \<noteq> 0" "list_all sendable es"
  shows "(\<exists>w s'. new_wasm_handler (Some (hb_exports base)) = Inr w
       \<and> conversation (wasm_handler w) es s = Some (map (guest_answer heartbeat_length heartbeat_reply base room) es, s')
       \<and> guest_ready base room s')
     \<and> (\<exists>w s'. new_wasm_handler (Some (ps_exports base)) = Inr w
       \<and> conversation (wasm_handler w) es s = Some (map (guest_answer (\<lambda>_. 0) echo_reply base room) es, s')
       \<and> guest_ready base room s')"
  using heartbeat.conversations [OF assms] echo.conversations [OF assms] by (simp_all add: heartbeat_module echo_module)

theorem sdk_modules_speak_their_protocols_witness:
  "\<exists>s'. conversation (wasm_handler (heartbeat_guest 16))
       [Ask_Header [2, 1, 0, 0, 0], Ask_Message [2, 1, 0, 0, 0] [7], Ask_Message [0, 0, 0, 0, 0] []]
       \<lparr>ws_guest = \<lparr>bg_memory = replicate 64 0, bg_heap_top = 0\<rparr>, ws_warnings = []\<rparr> =
     Some ([Header_Answer \<lparr>hr_length = 1, hr_status = Header_OK\<rparr>, Message_Answer [[3, 0, 0, 0, 0]], Message_Answer [[]]], s')"
proof -
  have "heartbeat_length [2, 1, 0, 0, 0] = 1" "sint (1 :: u32) = 1" by (simp_all add: heartbeat_length_def)
  then show ?thesis
    using sdk_modules_speak_their_protocols [of 16 64
        "\<lparr>ws_guest = \<lparr>bg_memory = replicate 64 0, bg_heap_top = 0\<rparr>, ws_warnings = []\<rparr>"
        "[Ask_Header [2, 1, 0, 0, 0], Ask_Message [2, 1, 0, 0, 0] [7], Ask_Message [0, 0, 0, 0, 0] []]"]
    by (auto simp: guest_ready_def header_in_room_def reply_in_room_def heartbeat_reply_def ping_response_def heartbeat_module)
qed

end
