(* ===== verification/Display.thy ===== *)
theory Display
  imports Metrics
begin

text \<open>
  \<^verbatim>\<open>cli/numeric-strings.h\<close> and the time strings of \<^verbatim>\<open>cli/cli.cpp\<close>: how the terminal interface
  and the dry run show numbers. A result is \<open>None\<close> where the source reads past an array or
  throws.
\<close>

section \<open>Signed numbers and doubles\<close>

definition show_int :: "int \<Rightarrow> string" where
  "show_int i = (if i < 0 then CHR ''-'' # to_string (nat (- i)) else to_string (nat i))"

text \<open>\<open>n / d\<close> rounded to the nearest integer, to the even one of two.\<close>

definition round_half_even :: "int \<Rightarrow> int \<Rightarrow> int" where
  "round_half_even n d =
     (let q = n div d; r = n mod d
      in if 2 * r < d then q else if 2 * r > d then q + 1 else if even q then q else q + 1)"

text \<open>
  \<^verbatim>\<open>static_cast<double>\<close> of a 64-bit integer: the nearest number with 53 significant bits, an
  integer too. Dividing it by 1024 is exact in a double.
\<close>

definition to_double :: "int \<Rightarrow> int" where
  "to_double i =
     (let n = bit_width (nat \<bar>i\<bar>); unit = 2 ^ (n - 53)
      in if n \<le> 53 then i else sgn i * (unit * round_half_even \<bar>i\<bar> unit))"

section \<open>Bytes\<close>

definition byte_units :: "string list" where
  "byte_units = [''B'', ''KiB'', ''MiB'', ''GiB'', ''TiB'']"

definition max_index :: nat where
  "max_index = 5"

text \<open>The loop that divides by 1024: \<open>v\<close> is the value before any division.\<close>

function unit_loop :: "int \<Rightarrow> nat \<Rightarrow> nat" where
  "unit_loop v indx = (if v \<ge> 1024 ^ Suc indx \<and> indx < max_index then unit_loop v (Suc indx) else indx)"
  by pat_completeness auto
termination
  by (relation "measure (\<lambda>(v, indx). max_index - indx)") (auto simp: max_index_def)

declare unit_loop.simps [simp del]

definition tenths :: "int \<Rightarrow> string" where
  "tenths t = show_int (t div 10) @ ''.'' @ show_int (t mod 10)"

definition bytes_display_string :: "int \<Rightarrow> string option" where
  "bytes_display_string i =
     (let v = to_double i; indx = unit_loop v 0
      in if indx = 0 then Some (show_int v @ '' '' @ byte_units ! indx)
         else if indx < length byte_units
         then Some (tenths (round_half_even (10 * v) (1024 ^ indx)) @ '' '' @ byte_units ! indx)
         else None)"

section \<open>Counts\<close>

definition decimal_suffix_string :: "int \<Rightarrow> string" where
  "decimal_suffix_string i =
     (if i \<ge> 1000 * 1000 \<and> i < 10 * 1000 * 1000 then
        show_int (i div (1000 * 1000)) @ ''.'' @ show_int (i mod (1000 * 1000) div (100 * 1000)) @ ''M''
      else if i \<ge> 10 * 1000 \<and> i < 1000 * 1000 then show_int (i div 1000) @ ''k''
      else if i \<ge> 1000 \<and> i < 10000 then show_int (i div 1000) @ ''.'' @ show_int (i mod 1000 div 100) @ ''k''
      else show_int i)"

text \<open>
  The labels of the vertical axis. The padding \<^verbatim>\<open>5 - res.size()\<close> is a \<^verbatim>\<open>size_t\<close>: when the text
  is longer it wraps, and the string of that many blanks cannot be made.
\<close>

definition y_axis_text :: "nat \<Rightarrow> string option" where
  "y_axis_text v =
     (if v \<ge> 1000 * 1000 \<and> v < 10 * 1000 * 1000 then
        Some ('' '' @ to_string (v div (1000 * 1000)) @ ''.'' @ to_string (v mod (1000 * 1000) div (100 * 1000)) @ ''M'' @ '' '')
      else if v \<ge> 10 * 1000 \<and> v < 1000 * 1000 then Some ('' '' @ to_string (v div 1000) @ ''k'' @ '' '')
      else if v \<ge> 1000 \<and> v < 10000 then
        Some ('' '' @ to_string (v div 1000) @ ''.'' @ to_string (v mod 1000 div 100) @ ''k'' @ '' '')
      else
        let res = '' '' @ to_string v
        in if length res > 5 then None
           else Some (res @ replicate (5 - length res) (CHR '' '') @ '' ''))"

section \<open>Times\<close>

definition ms_to_timestring :: "u32 \<Rightarrow> string" where
  "ms_to_timestring offset_ms =
     (let minutes = offset_ms div 60000;
          seconds = (offset_ms mod 60000) div 1000;
          milliseconds = offset_ms mod 1000;
          min_str = to_string (unat minutes);
          sec_str = to_string (unat seconds);
          milli_str = to_string (unat milliseconds);
          min_str = (if length min_str < 2 then ''0'' @ min_str else min_str);
          sec_str = (if length sec_str < 2 then ''0'' @ sec_str else sec_str);
          milli_str = (if length milli_str = 1 then ''00'' @ milli_str
                       else if length milli_str = 2 then ''0'' @ milli_str else milli_str)
      in ''['' @ min_str @ '':'' @ sec_str @ '':'' @ milli_str @ ''] '')"

section \<open>The length of a decimal number\<close>

lemma length_to_string_step: "length (to_string n) = (if n < 10 then 1 else Suc (length (to_string (n div 10))))"
  by (subst to_string.simps) simp

lemma length_to_string_bound:
  "0 < k \<Longrightarrow> length (to_string n) \<le> k \<longleftrightarrow> n < 10 ^ k"
proof (induction k arbitrary: n)
  case (Suc k)
  show ?case
  proof (cases k)
    case 0
    then show ?thesis by (subst length_to_string_step) (simp add: length_greater_0_conv to_string_not_Nil)
  next
    case (Suc j)
    have "n div 10 < 10 ^ k \<longleftrightarrow> n < 10 ^ Suc k" by (simp add: div_less_iff_less_mult mult.commute)
    moreover have "length (to_string (n div 10)) \<le> k \<longleftrightarrow> n div 10 < 10 ^ k" using Suc.IH Suc by simp
    moreover have "n < 10 \<Longrightarrow> n < 10 ^ Suc k" using Suc by (simp add: order_less_le_trans)
    ultimately show ?thesis using Suc by (subst length_to_string_step) auto
  qed
qed simp

lemma length_to_string:
  "0 < k \<Longrightarrow> length (to_string n) = Suc k \<longleftrightarrow> 10 ^ k \<le> n \<and> n < 10 ^ Suc k"
  using length_to_string_bound [of k n] length_to_string_bound [of "Suc k" n] by auto

section \<open>Which texts there are\<close>

lemma y_axis_text_None: "y_axis_text v = None \<longleftrightarrow> 10 ^ 7 \<le> v"
  using length_to_string_bound [of 4 v] length_to_string_bound [of 7 v]
  by (auto simp: y_axis_text_def Let_def not_le not_less)

lemma y_axis_text_length:
  assumes "y_axis_text v = Some s"
  shows "length s = (if 10 ^ 4 \<le> v \<and> v < 10 ^ 5 then 5 else 6)"
proof -
  have one: "length (to_string n) = 1" if "n < 10" for n
    using that by (subst length_to_string_step) simp
  consider "v < 1000" | "1000 \<le> v" "v < 10000" | "10000 \<le> v" "v < 100000" | "100000 \<le> v" "v < 1000000"
    | "1000000 \<le> v" "v < 10 ^ 7"
    using assms y_axis_text_None [of v] by force
  then show ?thesis
  proof cases
    case 1
    then have "length (to_string v) \<le> 3" using length_to_string_bound [of 3 v] by simp
    then show ?thesis using 1 assms by (auto simp: y_axis_text_def Let_def)
  next
    case 2
    then show ?thesis using assms one [of "v div 1000"] one [of "v mod 1000 div 100"]
      by (auto simp: y_axis_text_def less_mult_imp_div_less)
  next
    case 3
    have "10 \<le> v div 1000" using div_le_mono [OF 3(1), of 1000] by simp
    then have "length (to_string (v div 1000)) = 2" using 3 length_to_string [of 1 "v div 1000"] by (simp add: less_mult_imp_div_less)
    then show ?thesis using 3 assms by (auto simp: y_axis_text_def)
  next
    case 4
    have "100 \<le> v div 1000" using div_le_mono [OF 4(1), of 1000] by simp
    then have "length (to_string (v div 1000)) = 3" using 4 length_to_string [of 2 "v div 1000"] by (simp add: less_mult_imp_div_less)
    then show ?thesis using 4 assms by (auto simp: y_axis_text_def)
  next
    case 5
    then show ?thesis using assms one [of "v div 1000000"] one [of "v mod 1000000 div 100000"]
      by (auto simp: y_axis_text_def less_mult_imp_div_less)
  qed
qed

subsection \<open>Bytes\<close>

lemma bit_width_int:
  assumes "0 < i"
  shows "2 ^ (bit_width (nat i) - 1) \<le> i" "i < 2 ^ bit_width (nat i)"
proof -
  have b: "2 ^ (bit_width (nat i) - 1) \<le> nat i" "nat i < 2 ^ bit_width (nat i)"
    using bit_width_bounds [of "nat i"] assms by simp_all
  have "int (2 ^ (bit_width (nat i) - 1)) \<le> int (nat i)" "int (nat i) < int (2 ^ bit_width (nat i))"
    using b by (simp_all only: of_nat_le_iff of_nat_less_iff)
  then show "2 ^ (bit_width (nat i) - 1) \<le> i" "i < 2 ^ bit_width (nat i)" using assms by simp_all
qed

lemma bit_width_le: "n < 2 ^ k \<Longrightarrow> bit_width n \<le> k"
proof (rule ccontr)
  assume n: "n < 2 ^ k" "\<not> bit_width n \<le> k"
  then have "0 < n" by (auto intro: ccontr)
  then have "2 ^ (bit_width n - 1) \<le> n" using bit_width_bounds by blast
  moreover have "(2 :: nat) ^ k \<le> 2 ^ (bit_width n - 1)" using n(2) by (intro power_increasing) auto
  ultimately show False using n(1) by linarith
qed

lemma bit_width_gt: "2 ^ k \<le> n \<Longrightarrow> k < bit_width n"
proof -
  assume n: "(2 :: nat) ^ k \<le> n"
  then have "0 < n" by (rule order_less_le_trans [rotated]) simp
  then have "(2 :: nat) ^ k < 2 ^ bit_width n" using n bit_width_bounds [of n] by linarith
  then show ?thesis by (simp only: power_strict_increasing_iff one_less_numeral_iff semiring_norm)
qed

lemma round_half_even_bounds: "n div d \<le> round_half_even n d" "round_half_even n d \<le> n div d + 1"
  by (simp_all add: round_half_even_def Let_def)

lemma round_half_even_exact [simp]: "d \<noteq> 0 \<Longrightarrow> 0 < d \<Longrightarrow> round_half_even (d * q) d = q"
  by (simp add: round_half_even_def Let_def)

lemma to_double_small: "\<bar>i\<bar> < 2 ^ 53 \<Longrightarrow> to_double i = i"
proof -
  assume "\<bar>i\<bar> < 2 ^ 53"
  then have "nat \<bar>i\<bar> < 2 ^ 53" by (simp add: nat_less_iff)
  then show ?thesis using bit_width_le by (simp add: to_double_def Let_def)
qed

lemma to_double_pos:
  assumes "0 < i" "53 < bit_width (nat i)"
  shows "to_double i = 2 ^ (bit_width (nat i) - 53) * round_half_even i (2 ^ (bit_width (nat i) - 53))"
  using assms by (simp add: to_double_def Let_def)

lemma to_double_nonneg: "0 \<le> i \<Longrightarrow> 0 \<le> to_double i"
proof -
  assume i: "0 \<le> i"
  then have "0 \<le> i div 2 ^ k" for k by (simp add: pos_imp_zdiv_nonneg_iff)
  then have "0 \<le> round_half_even i (2 ^ k)" for k using round_half_even_bounds(1) [of i "2 ^ k"] by (rule order_trans)
  then show ?thesis using i by (simp add: to_double_def Let_def sgn_if)
qed

lemma to_double_lower:
  assumes "2 ^ k \<le> i"
  shows "2 ^ k \<le> to_double i"
proof -
  let ?n = "bit_width (nat i)"
  have "(0 :: int) < 2 ^ k" by simp
  then have i: "0 < i" using assms by (rule order_less_le_trans)
  show ?thesis
  proof (cases "53 < ?n")
    case True
    let ?u = "2 ^ (?n - 53) :: int"
    have split: "(2 :: int) ^ (?n - 1) = 2 ^ 52 * ?u"
    proof -
      have "?n - 1 = 52 + (?n - 53)" using True by simp
      then show ?thesis by (simp only: power_add)
    qed
    then have "2 ^ 52 * ?u div ?u \<le> i div ?u" using bit_width_int(1) [OF i] by (intro zdiv_mono1) simp_all
    then have "2 ^ 52 \<le> round_half_even i ?u" using round_half_even_bounds(1) [of i ?u] by simp
    then have "?u * 2 ^ 52 \<le> ?u * round_half_even i ?u" by (intro mult_left_mono) simp_all
    moreover have "(2 :: nat) ^ k \<le> nat i" using assms by (simp add: le_nat_iff)
    then have "k < ?n" by (rule bit_width_gt)
    then have "(2 :: int) ^ k \<le> 2 ^ (?n - 1)" by (intro power_increasing) auto
    ultimately show ?thesis using to_double_pos [OF i True] split by (simp only: mult.commute)
  next
    case False
    then show ?thesis using assms i by (simp add: to_double_def Let_def)
  qed
qed

lemma to_double_upper:
  assumes "0 \<le> i"
  shows "to_double i \<le> 2 * i"
proof (cases "0 < i \<and> 53 < bit_width (nat i)")
  case True
  let ?u = "2 ^ (bit_width (nat i) - 53) :: int"
  have "?u \<le> 2 ^ (bit_width (nat i) - 1)" by (intro power_increasing) auto
  then have u: "?u \<le> i" using bit_width_int(1) [of i] True by linarith
  have "?u * round_half_even i ?u \<le> ?u * (i div ?u + 1)"
    using round_half_even_bounds(2) [of i ?u] by (intro mult_left_mono) simp_all
  also have "\<dots> \<le> i + ?u"
  proof -
    have "?u * (i div ?u) + i mod ?u = i" "0 \<le> i mod ?u" by simp_all
    then show ?thesis by (simp only: distrib_left mult_1_right)
  qed
  finally show ?thesis using to_double_pos [of i] True u by linarith
next
  case False
  then show ?thesis using assms by (auto simp: to_double_def Let_def bit_width.simps [of 0])
qed

lemma to_double_scale:
  assumes "0 \<le> i" "i < 2 ^ 53"
  shows "to_double (2 ^ k * i) = 2 ^ k * i"
proof (cases "0 < i \<and> 53 < bit_width (nat (2 ^ k * i))")
  case True
  let ?n = "bit_width (nat (2 ^ k * i))"
  have pos: "0 < 2 ^ k * i" using True by simp
  have "nat (2 ^ k * i) < 2 ^ (k + 53)"
  proof -
    have "2 ^ k * i < 2 ^ k * 2 ^ 53" using assms(2) by (intro mult_strict_left_mono) simp_all
    then have "2 ^ k * i < 2 ^ (k + 53)" by (simp only: power_add)
    then show ?thesis using pos by (simp add: nat_less_iff)
  qed
  then have le: "?n \<le> k + 53" by (rule bit_width_le)
  let ?u = "2 ^ (?n - 53) :: int"
  have "2 ^ k * i = ?u * (2 ^ (k - (?n - 53)) * i)"
  proof -
    have "(2 :: int) ^ k = ?u * 2 ^ (k - (?n - 53))" using le by (simp flip: power_add)
    then show ?thesis by (metis mult.assoc)
  qed
  then have "?u * round_half_even (2 ^ k * i) ?u = 2 ^ k * i" by (metis round_half_even_exact zero_less_numeral zero_less_power less_irrefl)
  then show ?thesis using to_double_pos [OF pos] True by simp
next
  case False
  then show ?thesis using assms by (auto simp: to_double_def Let_def bit_width.simps [of 0])
qed

lemma unit_loop_bounds:
  assumes "indx \<le> max_index" "indx = 0 \<or> 1024 ^ indx \<le> v"
  shows "unit_loop v indx \<le> max_index \<and> (unit_loop v indx = 0 \<or> 1024 ^ unit_loop v indx \<le> v)
    \<and> (unit_loop v indx < max_index \<longrightarrow> v < 1024 ^ Suc (unit_loop v indx))"
  using assms
proof (induction v indx rule: unit_loop.induct)
  case (1 v indx)
  show ?case
  proof (cases "v \<ge> 1024 ^ Suc indx \<and> indx < max_index")
    case True
    then show ?thesis using "1.IH" [OF True] unit_loop.simps [of v indx] by auto
  next
    case False
    then have "unit_loop v indx = indx" by (subst unit_loop.simps) (simp only: if_False)
    then show ?thesis using "1.prems" False by auto
  qed
qed

lemma bytes_display_None: "bytes_display_string i = None \<longleftrightarrow> 1024 ^ 5 \<le> i"
proof -
  have u: "unit_loop v 0 = 5 \<longleftrightarrow> 1024 ^ 5 \<le> v" for v
  proof
    show "unit_loop v 0 = 5 \<Longrightarrow> 1024 ^ 5 \<le> v" using unit_loop_bounds [of 0 v] by auto
    assume v: "1024 ^ 5 \<le> v"
    show "unit_loop v 0 = 5"
    proof (rule ccontr)
      assume "unit_loop v 0 \<noteq> 5"
      then have less: "unit_loop v 0 < max_index" using unit_loop_bounds [of 0 v] by (simp add: max_index_def)
      then have "v < 1024 ^ Suc (unit_loop v 0)" using unit_loop_bounds [of 0 v] by simp
      also have "\<dots> \<le> (1024 :: int) ^ 5" using less by (intro power_increasing) (simp_all add: max_index_def)
      finally show False using v by simp
    qed
  qed
  have le: "unit_loop v 0 \<le> 5" for v using unit_loop_bounds [of 0 v] by (simp add: max_index_def)
  have "bytes_display_string i = None \<longleftrightarrow> unit_loop (to_double i) 0 = 5"
    using le [of "to_double i"] by (auto simp: bytes_display_string_def byte_units_def Let_def)
  also have "\<dots> \<longleftrightarrow> 1024 ^ 5 \<le> to_double i" by (rule u)
  also have "\<dots> \<longleftrightarrow> 1024 ^ 5 \<le> i"
  proof (cases "\<bar>i\<bar> < 2 ^ 53")
    case True
    then show ?thesis by (simp add: to_double_small)
  next
    case False
    show ?thesis
    proof (cases "0 \<le> i")
      case True
      then show ?thesis using False to_double_lower [of 53 i] by simp
    next
      case neg: False
      have "0 \<le> round_half_even \<bar>i\<bar> (2 ^ k)" for k
        using round_half_even_bounds(1) [of "\<bar>i\<bar>" "2 ^ k"] by (rule order_trans [rotated]) (simp add: pos_imp_zdiv_nonneg_iff)
      then have "to_double i \<le> 0" using neg by (simp add: to_double_def Let_def)
      then show ?thesis using neg by simp
    qed
  qed
  finally show ?thesis .
qed

subsection \<open>Times\<close>

lemma digits_value_pad: "digits_value (CHR ''0'' # ds) = digits_value ds"
  by (simp add: digits_value_def char_code_def)

lemma unat_numeral_u32: "unat (60000 :: u32) = 60000" "unat (1000 :: u32) = 1000"
  by simp_all

lemma timestring_parts:
  "\<exists>mm ss mmm. ms_to_timestring w = ''['' @ mm @ '':'' @ ss @ '':'' @ mmm @ ''] ''
     \<and> 2 \<le> length mm \<and> length ss = 2 \<and> length mmm = 3
     \<and> digits_value mm * 60000 + digits_value ss * 1000 + digits_value mmm = unat w
     \<and> digits_value ss < 60 \<and> digits_value mmm < 1000"
proof -
  let ?m = "unat w div 60000" and ?s = "unat w mod 60000 div 1000" and ?ms = "unat w mod 1000"
  let ?mm = "if length (to_string ?m) < 2 then ''0'' @ to_string ?m else to_string ?m"
  let ?ss = "if length (to_string ?s) < 2 then ''0'' @ to_string ?s else to_string ?s"
  let ?mmm = "if length (to_string ?ms) = 1 then ''00'' @ to_string ?ms
              else if length (to_string ?ms) = 2 then ''0'' @ to_string ?ms else to_string ?ms"
  have nz: "0 < length (to_string n)" for n by (simp add: to_string_not_Nil)
  have s: "?s < 60" by (simp add: less_mult_imp_div_less)
  have "length (to_string ?s) \<le> 2" using s length_to_string_bound [of 2 ?s] by simp
  then have "length (to_string ?s) = 1 \<or> length (to_string ?s) = 2" using nz [of ?s] by linarith
  then have "length ?ss = 2" by auto
  moreover have "length (to_string ?ms) \<le> 3" using length_to_string_bound [of 3 ?ms] by simp
  then have "length (to_string ?ms) = 1 \<or> length (to_string ?ms) = 2 \<or> length (to_string ?ms) = 3"
    using nz [of ?ms] by linarith
  then have "length ?mmm = 3" by auto
  moreover have "2 \<le> length ?mm" using nz [of ?m] by (simp add: Suc_le_eq)
  moreover have "digits_value ?mm = ?m" "digits_value ?ss = ?s" "digits_value ?mmm = ?ms"
    by (simp_all add: digits_value_pad digits_value_to_string)
  moreover have "?m * 60000 + ?s * 1000 + ?ms = unat w"
  proof -
    have "unat w mod 60000 mod 1000 = ?ms" by (rule mod_mod_cancel) simp
    then show ?thesis
      using div_mult_mod_eq [of "unat w" 60000] div_mult_mod_eq [of "unat w mod 60000" 1000]
      by (simp only: add.assoc)
  qed
  moreover have "ms_to_timestring w = ''['' @ ?mm @ '':'' @ ?ss @ '':'' @ ?mmm @ ''] ''"
    unfolding ms_to_timestring_def Let_def by (simp only: unat_div unat_mod unat_numeral_u32)
  moreover have "?ms < 1000" by simp
  ultimately show ?thesis using s by metis
qed

end
