(* ===== verification/Logger.thy ===== *)
theory Logger
  imports Prelude
begin

text \<open>
  \<^verbatim>\<open>logger/logger.{h,cpp}\<close>: the log. Any thread pushes entries on a queue; one worker thread
  takes the whole queue at a time and prints what the level lets through. The terminal
  interface pauses the printing. The mutex makes each operation on the queue one step; the
  worker prints without it, one entry a step, so pushes and changes of the level fall
  between two entries.
\<close>

section \<open>Levels\<close>

datatype log_level = Level_DEBUG | Level_INFO | Level_WARN | Level_ERROR

fun level_index :: "log_level \<Rightarrow> nat" where
  "level_index Level_DEBUG = 0"
| "level_index Level_INFO = 1"
| "level_index Level_WARN = 2"
| "level_index Level_ERROR = 3"

lemma level_index_inject: "level_index a = level_index b \<longleftrightarrow> a = b"
  by (cases a; cases b) simp_all

text \<open>The order of the enumeration, by which \<^verbatim>\<open>entry.level < level_\<close> compares.\<close>

instantiation log_level :: linorder
begin

definition less_eq_log_level :: "log_level \<Rightarrow> log_level \<Rightarrow> bool" where
  "less_eq_log_level a b \<longleftrightarrow> level_index a \<le> level_index b"

definition less_log_level :: "log_level \<Rightarrow> log_level \<Rightarrow> bool" where
  "less_log_level a b \<longleftrightarrow> level_index a < level_index b"

instance
  by standard (auto simp: less_eq_log_level_def less_log_level_def level_index_inject)

end

fun log_prefix :: "log_level \<Rightarrow> string" where
  "log_prefix Level_DEBUG = ESC # ''[36m[DEBUG]:'' @ ESC # ''[0m ''"
| "log_prefix Level_INFO = []"
| "log_prefix Level_WARN = ESC # ''[32m[WARN]:'' @ ESC # ''[0m ''"
| "log_prefix Level_ERROR = ESC # ''[31m[ERROR]:'' @ ESC # ''[0m ''"

record log_entry =
  le_level :: log_level
  le_msg :: string

section \<open>The logger and its operations\<close>

text \<open>Where the worker is: waiting on the condition variable, printing, or returned.\<close>

datatype worker = Waiting | Printing | Ended

record logger =
  lg_level :: log_level
  lg_running :: bool
  lg_notify :: bool
  lg_queue :: "log_entry list"
  lg_worker :: worker
  lg_processing :: "log_entry list"
  lg_output :: "string list"

definition logger_init :: "log_level \<Rightarrow> logger" where
  "logger_init l =
     \<lparr>lg_level = l, lg_running = True, lg_notify = True, lg_queue = [], lg_worker = Waiting,
      lg_processing = [], lg_output = []\<rparr>"

definition push_message :: "log_level \<Rightarrow> string \<Rightarrow> logger \<Rightarrow> logger" where
  "push_message l msg lg = lg\<lparr>lg_queue := lg_queue lg @ [\<lparr>le_level = l, le_msg = msg\<rparr>]\<rparr>"

definition set_level :: "log_level \<Rightarrow> logger \<Rightarrow> logger" where
  "set_level l lg = lg\<lparr>lg_level := l\<rparr>"

definition pause :: "logger \<Rightarrow> logger" where
  "pause lg = lg\<lparr>lg_notify := False\<rparr>"

definition resume :: "logger \<Rightarrow> logger" where
  "resume lg = lg\<lparr>lg_notify := True\<rparr>"

definition logger_shutdown :: "logger \<Rightarrow> logger" where
  "logger_shutdown lg = lg\<lparr>lg_running := False\<rparr>"

definition should_wake :: "logger \<Rightarrow> bool" where
  "should_wake lg \<longleftrightarrow> lg_notify lg \<and> lg_queue lg \<noteq> [] \<or> \<not> lg_running lg"

definition entry_text :: "log_entry \<Rightarrow> string" where
  "entry_text e = log_prefix (le_level e) @ le_msg e @ [NEWLINE]"

text \<open>
  One step of \<^verbatim>\<open>worker_loop\<close>: past the wait, the queues are swapped, and the worker returns
  or prints; an entry is printed or skipped; at the end of the entries it waits again. \<open>None\<close>:
  the worker is blocked or has returned.
\<close>

definition worker_step :: "logger \<Rightarrow> logger option" where
  "worker_step lg =
     (case lg_worker lg of
        Ended \<Rightarrow> None
      | Waiting \<Rightarrow>
          if \<not> should_wake lg then None
          else
            let processing = lg_queue lg;
                lg = lg\<lparr>lg_queue := lg_processing lg, lg_processing := processing\<rparr>
            in if \<not> lg_running lg \<and> processing = [] then Some (lg\<lparr>lg_worker := Ended\<rparr>)
               else Some (lg\<lparr>lg_worker := Printing\<rparr>)
      | Printing \<Rightarrow>
          (case lg_processing lg of
             [] \<Rightarrow> Some (lg\<lparr>lg_worker := Waiting\<rparr>)
           | entry # rest \<Rightarrow>
               let lg = lg\<lparr>lg_processing := rest\<rparr>
               in if le_level entry < lg_level lg then Some lg
                  else Some (lg\<lparr>lg_output := lg_output lg @ [entry_text entry]\<rparr>)))"

section \<open>Runs\<close>

datatype log_event = Log_Push log_level string | Log_Level log_level | Log_Pause | Log_Resume | Log_Shutdown | Log_Work

fun log_handle :: "log_event \<Rightarrow> logger \<Rightarrow> logger option" where
  "log_handle (Log_Push l msg) lg = Some (push_message l msg lg)"
| "log_handle (Log_Level l) lg = Some (set_level l lg)"
| "log_handle Log_Pause lg = Some (pause lg)"
| "log_handle Log_Resume lg = Some (resume lg)"
| "log_handle Log_Shutdown lg = Some (logger_shutdown lg)"
| "log_handle Log_Work lg = worker_step lg"

inductive log_run :: "log_level \<Rightarrow> log_event list \<Rightarrow> logger \<Rightarrow> bool" for l where
  log_begins: "log_run l [] (logger_init l)"
| log_goes_on: "log_run l evs lg \<Longrightarrow> log_handle ev lg = Some lg' \<Longrightarrow> log_run l (evs @ [ev]) lg'"

fun pushed_by :: "log_event \<Rightarrow> log_entry list" where
  "pushed_by (Log_Push l msg) = [\<lparr>le_level = l, le_msg = msg\<rparr>]"
| "pushed_by _ = []"

definition pushed :: "log_event list \<Rightarrow> log_entry list" where
  "pushed evs = concat (map pushed_by evs)"

lemma pushed_snoc [simp]: "pushed (evs @ [ev]) = pushed evs @ pushed_by ev" "pushed [] = []"
  by (simp_all add: pushed_def)

section \<open>Nothing is lost, reordered or printed twice\<close>

text \<open>
  The entries pushed are those the worker is done with, those it holds and those in the
  queue, in this order. It holds none while it waits. What is printed are entries it is done
  with, and all the errors among them: no level is above theirs.
\<close>

definition errors :: "log_entry list \<Rightarrow> log_entry list" where
  "errors es = filter (\<lambda>e. le_level e = Level_ERROR) es"

lemma errors_simps [simp]:
  "errors [] = []" "errors (es @ fs) = errors es @ errors fs"
  "errors (e # es) = (if le_level e = Level_ERROR then e # errors es else errors es)"
  by (simp_all add: errors_def)

lemma error_never_below: "le_level e < l \<Longrightarrow> le_level e \<noteq> Level_ERROR"
  by (cases l) (auto simp: less_log_level_def)

definition log_inv :: "log_entry list \<Rightarrow> log_entry list \<Rightarrow> logger \<Rightarrow> bool" where
  "log_inv all finished lg \<longleftrightarrow>
     all = finished @ lg_processing lg @ lg_queue lg
     \<and> (lg_worker lg = Waiting \<longrightarrow> lg_processing lg = [])
     \<and> (lg_worker lg = Ended \<longrightarrow> \<not> lg_running lg \<and> lg_processing lg = [])
     \<and> subseq (lg_output lg) (map entry_text finished)
     \<and> subseq (map entry_text (errors finished)) (lg_output lg)"

lemma worker_step_inv:
  assumes "worker_step lg = Some lg'" "log_inv all finished lg"
  shows "\<exists>finished'. log_inv all finished' lg'"
proof (cases "lg_worker lg")
  case Waiting
  then show ?thesis
    using assms by (intro exI [of _ finished]) (auto simp: worker_step_def log_inv_def Let_def split: if_splits)
next
  case Printing
  show ?thesis
  proof (cases "lg_processing lg")
    case Nil
    then show ?thesis
      using assms Printing by (intro exI [of _ finished]) (auto simp: worker_step_def log_inv_def)
  next
    case (Cons e rest)
    have "subseq (lg_output lg) (map entry_text finished @ [entry_text e])"
      "subseq (lg_output lg @ [entry_text e]) (map entry_text finished @ [entry_text e])"
      "subseq (map entry_text (errors finished)) (lg_output lg @ [entry_text e])"
      "subseq (map entry_text (errors finished) @ [entry_text e]) (lg_output lg @ [entry_text e])"
      using assms(2) by (auto simp: log_inv_def intro: list_emb_append_mono)
    then show ?thesis
      using assms Printing Cons
      by (intro exI [of _ "finished @ [e]"])
        (auto simp: worker_step_def log_inv_def Let_def dest: error_never_below split: if_splits)
  qed
qed (use assms in \<open>simp add: worker_step_def\<close>)

lemma log_run_inv:
  assumes "log_run l evs lg"
  shows "\<exists>finished. log_inv (pushed evs) finished lg"
  using assms
proof (induction rule: log_run.induct)
  case log_begins
  then show ?case by (intro exI [of _ "[]"]) (simp add: log_inv_def logger_init_def)
next
  case (log_goes_on evs lg ev lg')
  then obtain finished where f: "log_inv (pushed evs) finished lg" by blast
  show ?case
  proof (cases "ev = Log_Work")
    case True
    then show ?thesis using worker_step_inv [OF _ f] log_goes_on.hyps(2) by simp
  next
    case False
    then show ?thesis
      using f log_goes_on.hyps(2)
      by (intro exI [of _ finished]; cases ev)
        (auto simp: log_inv_def push_message_def set_level_def pause_def resume_def logger_shutdown_def)
  qed
qed

text \<open>While the level stays as it was set at the start, exactly what it lets through is printed.\<close>

definition shown :: "log_level \<Rightarrow> log_entry list \<Rightarrow> string list" where
  "shown l es = map entry_text (filter (\<lambda>e. l \<le> le_level e) es)"

lemma shown_simps [simp]:
  "shown l [] = []" "shown l (es @ fs) = shown l es @ shown l fs"
  "shown l (e # es) = (if l \<le> le_level e then [entry_text e] else []) @ shown l es"
  by (simp_all add: shown_def)

lemma worker_step_shows:
  assumes "worker_step lg = Some lg'" "lg_worker lg = Waiting \<Longrightarrow> lg_processing lg = []"
  shows "lg_level lg' = lg_level lg"
    and "lg_output lg' @ shown (lg_level lg) (lg_processing lg' @ lg_queue lg') =
         lg_output lg @ shown (lg_level lg) (lg_processing lg @ lg_queue lg)"
  using assms
  by (auto simp: worker_step_def Let_def not_less split: worker.splits if_splits list.splits)

lemma log_run_shows:
  assumes "log_run l evs lg" "\<forall>l'. Log_Level l' \<notin> set evs"
  shows "lg_level lg = l \<and> lg_output lg @ shown l (lg_processing lg @ lg_queue lg) = shown l (pushed evs)"
  using assms
proof (induction rule: log_run.induct)
  case log_begins
  then show ?case by (simp add: logger_init_def)
next
  case (log_goes_on evs lg ev lg')
  then have IH: "lg_level lg = l" "lg_output lg @ shown l (lg_processing lg @ lg_queue lg) = shown l (pushed evs)"
    by auto
  show ?case
  proof (cases "ev = Log_Work")
    case True
    have "lg_worker lg = Waiting \<Longrightarrow> lg_processing lg = []"
      using log_run_inv [OF log_goes_on.hyps(1)] by (auto simp: log_inv_def)
    with worker_step_shows [of lg lg'] show ?thesis using IH True log_goes_on.hyps(2) by simp
  next
    case False
    then show ?thesis
      using IH log_goes_on
      by (cases ev) (auto simp: push_message_def set_level_def pause_def resume_def logger_shutdown_def)
  qed
qed

section \<open>Shutdown\<close>

primrec worker_steps :: "nat \<Rightarrow> logger \<Rightarrow> logger option" where
  "worker_steps 0 lg = Some lg"
| "worker_steps (Suc n) lg = (case worker_step lg of None \<Rightarrow> None | Some lg' \<Rightarrow> worker_steps n lg')"

lemma worker_steps_add:
  "worker_steps m lg = Some lg' \<Longrightarrow> worker_steps (m + n) lg = worker_steps n lg'"
  by (induction m arbitrary: lg) (auto split: option.splits)

text \<open>The worker prints what it holds and waits.\<close>

lemma worker_prints:
  assumes "lg_worker lg = Printing"
  shows "worker_steps (Suc (length (lg_processing lg))) lg =
    Some (lg\<lparr>lg_worker := Waiting, lg_processing := [],
             lg_output := lg_output lg @ shown (lg_level lg) (lg_processing lg)\<rparr>)"
  using assms
proof (induction "lg_processing lg" arbitrary: lg)
  case Nil
  then show ?case by (simp add: worker_step_def flip: Nil(1))
next
  case (Cons e rest)
  obtain lg1 where lg1: "worker_step lg = Some lg1" "lg_processing lg1 = rest" "lg_worker lg1 = Printing"
    "lg1 = lg\<lparr>lg_processing := rest, lg_output := lg_output lg @ shown (lg_level lg) [e]\<rparr>"
    using Cons.prems by (auto simp: worker_step_def Let_def not_less simp flip: Cons.hyps(2))
  have "worker_steps (Suc (length (lg_processing lg))) lg = worker_steps (Suc (length (lg_processing lg1))) lg1"
    using lg1(1,2) Cons.hyps(2) by (metis length_Cons option.case(2) worker_steps.simps(2))
  also have "\<dots> = Some (lg1\<lparr>lg_worker := Waiting, lg_processing := [],
      lg_output := lg_output lg1 @ shown (lg_level lg1) (lg_processing lg1)\<rparr>)"
    using Cons.hyps(1) [of lg1] lg1(2,3) by simp
  finally show ?case by (simp add: lg1(2,4) flip: Cons.hyps(2))
qed

text \<open>Once the logger is shut down, the worker's own steps print all that is left and end it.\<close>

lemma worker_drains_waiting:
  assumes "lg_worker lg = Waiting" "lg_processing lg = []" "\<not> lg_running lg"
  shows "\<exists>n \<le> length (lg_queue lg) + 3. \<exists>lg'. worker_steps n lg = Some lg' \<and> lg_worker lg' = Ended \<and> lg_queue lg' = []
     \<and> lg_output lg' = lg_output lg @ shown (lg_level lg) (lg_queue lg)"
proof (cases "lg_queue lg = []")
  case True
  then show ?thesis
    using assms by (intro exI [of _ "Suc 0"] conjI) (auto simp: worker_step_def should_wake_def Let_def)
next
  case False
  let ?lg1 = "lg\<lparr>lg_queue := [], lg_processing := lg_queue lg, lg_worker := Printing\<rparr>"
  let ?lg2 = "lg\<lparr>lg_queue := [], lg_worker := Waiting, lg_processing := [],
      lg_output := lg_output lg @ shown (lg_level lg) (lg_queue lg)\<rparr>"
  have wake: "worker_step lg = Some ?lg1" using assms False by (simp add: worker_step_def should_wake_def Let_def)
  have "worker_steps (Suc (length (lg_queue lg))) ?lg1 = Some ?lg2" using worker_prints [of ?lg1] by simp
  then have "worker_steps (Suc (Suc (length (lg_queue lg)))) lg = Some ?lg2"
    using wake by (subst worker_steps.simps) simp
  moreover have "worker_steps 1 ?lg2 = Some (?lg2\<lparr>lg_worker := Ended\<rparr>)"
    using assms by (simp add: worker_step_def should_wake_def Let_def)
  ultimately have "worker_steps (Suc (Suc (length (lg_queue lg))) + 1) lg = Some (?lg2\<lparr>lg_worker := Ended\<rparr>)"
    by (simp only: worker_steps_add)
  then show ?thesis by (intro exI [of _ "Suc (Suc (length (lg_queue lg))) + 1"] conjI) auto
qed

lemma worker_drains:
  assumes "lg_worker lg \<noteq> Ended" "lg_worker lg = Waiting \<Longrightarrow> lg_processing lg = []" "\<not> lg_running lg"
  shows "\<exists>n \<le> length (lg_processing lg) + length (lg_queue lg) + 4. \<exists>lg'. worker_steps n lg = Some lg'
     \<and> lg_worker lg' = Ended \<and> lg_queue lg' = []
     \<and> lg_output lg' = lg_output lg @ shown (lg_level lg) (lg_processing lg @ lg_queue lg)"
proof (cases "lg_worker lg")
  case Waiting
  obtain n lg' where "n \<le> length (lg_queue lg) + 3" "worker_steps n lg = Some lg'" "lg_worker lg' = Ended"
    "lg_queue lg' = []" "lg_output lg' = lg_output lg @ shown (lg_level lg) (lg_queue lg)"
    using worker_drains_waiting [OF Waiting assms(2) [OF Waiting] assms(3)] by blast
  then show ?thesis using assms(2) [OF Waiting] by (intro exI [of _ n]) auto
next
  case Printing
  let ?lg1 = "lg\<lparr>lg_worker := Waiting, lg_processing := [],
      lg_output := lg_output lg @ shown (lg_level lg) (lg_processing lg)\<rparr>"
  obtain n lg' where n: "n \<le> length (lg_queue lg) + 3" "worker_steps n ?lg1 = Some lg'" "lg_worker lg' = Ended"
    "lg_queue lg' = []" "lg_output lg' = lg_output lg @ shown (lg_level lg) (lg_processing lg @ lg_queue lg)"
    using worker_drains_waiting [of ?lg1] assms(3) by auto
  have "worker_steps (Suc (length (lg_processing lg)) + n) lg = Some lg'"
    using worker_steps_add [OF worker_prints [OF Printing]] n(2) by simp
  then show ?thesis
    using n by (intro exI [of _ "Suc (length (lg_processing lg)) + n"] conjI) auto
qed (use assms in simp)

end
