(* ===== verification/CLI.thy ===== *)
theory CLI
  imports Interpreter Plan_Correct Display Logger
begin

text \<open>
  \<^verbatim>\<open>cli/cli.cpp\<close>, \<^verbatim>\<open>cli/cli-parsing.{h,cpp}\<close>, \<^verbatim>\<open>cli/version.h\<close> and \<^verbatim>\<open>cli/main.cpp\<close>: from the command
  line to the orchestrator. The effects of the main thread are a list in the order of the
  calls. What the option parser, the name service, the terminal and a run of the
  orchestrator answer are parameters.
\<close>

section \<open>Effects and parameters\<close>

datatype cli_effect =
  Init_Log log_level
| Log log_level string
| Set_Level log_level
| Pause_Log
| Resume_Log
| Read_Line
| Run_Orchestrator execution_plan
| Start_Thread execution_plan
| Shutdown_Log

record cli_options =
  co_script_file :: string
  co_dry_run :: bool
  co_expand_envs :: bool
  co_acknowledged :: bool
  co_quiet :: bool
  co_arena_init_mb :: u64

definition default_options :: cli_options where
  "default_options =
     \<lparr>co_script_file = [], co_dry_run = False, co_expand_envs = False, co_acknowledged = False,
      co_quiet = False, co_arena_init_mb = 0\<rparr>"

text \<open>
  How the parts that other theories model end when the command line runs them: the constructor
  of the orchestrator, a run of it, and the loop of the terminal. Each returns, leaves with an
  exception, or does what C++ leaves undefined. The start of a thread may fail with an exception.
\<close>

datatype call_end = Call_Returns | Call_Throws string | Call_Undefined

record cli_env =
  ce_os :: os
  ce_uninit :: "u32 \<times> u32 \<times> u32 \<times> u32"
  ce_can_allocate :: "u64 \<Rightarrow> bool"
  ce_dns :: dns
  ce_dns_error :: "string \<Rightarrow> string \<Rightarrow> string option"
  ce_compiles :: "u8 list \<Rightarrow> bool"
  ce_input :: string
  ce_construct :: "execution_plan \<Rightarrow> call_end"
  ce_thread :: "execution_plan \<Rightarrow> string option"
  ce_run :: "execution_plan \<Rightarrow> call_end"
  ce_screen :: "execution_plan \<Rightarrow> call_end"

section \<open>Dry run\<close>

fun packet_op_to_str :: "packet_operation_type \<Rightarrow> string" where
  "packet_op_to_str Op_IDENTITY = ''IDENTITY''"
| "packet_op_to_str Op_COUNTER = ''COUNTER''"
| "packet_op_to_str Op_TIMESTAMP = ''TIMESTAMP''"

definition index_range_text :: "action_descriptor \<Rightarrow> string" where
  "index_range_text a =
     ''sessions indexed '' @ to_string (unat (ad_start a)) @ '' through '' @ to_string (unat (ad_end a - 1))"

definition payload_text :: "payload_descriptor \<Rightarrow> string" where
  "payload_text payload =
     concat (map (\<lambda>p. ''<'' @ packet_op_to_str (op_type p) @ '', '' @ to_string (unat (op_length p)) @ ''> '')
       (pd_ops payload))"

text \<open>
  One turn of the loop of \<^verbatim>\<open>dry_run\<close>: the effects and the next \<^verbatim>\<open>current_payload_id\<close>. \<open>None\<close> where
  a vector is read past its end.
\<close>

definition dry_run_action ::
  "payload_descriptor list \<Rightarrow> action_descriptor \<Rightarrow> action \<Rightarrow> nat \<Rightarrow> (cli_effect list \<times> nat) option" where
  "dry_run_action payloads a dsl_action current_payload_id =
     (let action_msg = ms_to_timestring (word_of_int (ad_offset a)) @ type_to_string (ad_type a) @ '' ''
      in case ad_type a of
           CREATE \<Rightarrow>
             Some ([Log Level_INFO (action_msg @ to_string (unat (ad_count a)) @ '' sessions'')], current_payload_id)
         | SEND \<Rightarrow>
             (let action_msg = action_msg @ ''('' @ to_string (unat (ad_count a)) @ ''x) packet identity ''
                    @ act_packet_identifier dsl_action @ '' with payload data'' @ [NEWLINE] @ ''                ''
              in if current_payload_id > length payloads then
                   Some ([Log Level_WARN ''Application has a logic error'', Log Level_INFO action_msg], current_payload_id)
                 else if current_payload_id < length payloads then
                   Some ([Log Level_INFO (action_msg @ payload_text (payloads ! current_payload_id))],
                         current_payload_id + unat (ad_count a))
                 else None)
         | _ \<Rightarrow> Some ([Log Level_INFO (action_msg @ index_range_text a)], current_payload_id))"

fun dry_run_loop ::
  "payload_descriptor list \<Rightarrow> action_descriptor list \<Rightarrow> action list \<Rightarrow> nat \<Rightarrow> cli_effect list option" where
  "dry_run_loop payloads [] actions_dsl current = Some []"
| "dry_run_loop payloads (a # as) [] current = None"
| "dry_run_loop payloads (a # as) (d # ds) current =
     (case dry_run_action payloads a d current of
        None \<Rightarrow> None
      | Some (effects, next_id) \<Rightarrow> map_option (\<lambda>rest. effects @ rest) (dry_run_loop payloads as ds next_id))"

definition dry_run :: "execution_plan \<Rightarrow> dsl_data \<Rightarrow> cli_effect list option" where
  "dry_run plan script =
     map_option (\<lambda>effects.
        [Log Level_INFO (''             '' @ [ESC] @ ''[1mStarting dry run'' @ [ESC] @ ''[0m'' @ [NEWLINE]),
         Log Level_INFO (''The following endpoints are set to be used:'' @ [NEWLINE]),
         Log Level_INFO (dump_endpoint_list (oc_host_info (pl_config plan)))] @ effects)
       (dry_run_loop (pl_payloads plan) (pl_actions plan) (or_actions (ds_orchestrator script)) 0)"

section \<open>Acknowledgement\<close>

definition lines :: "string list \<Rightarrow> string" where
  "lines ls = concat (map (\<lambda>l. l @ [NEWLINE]) ls)"

definition ACKNOWLEDGEMENT_STRING_START :: string where
  "ACKNOWLEDGEMENT_STRING_START =
     lines ['''',
       [ESC] @ ''[1;31mWARNING:'' @ [ESC] @ ''[0m'',
       ''This tool can generate high network loads, rapid connection'',
       ''churn, and resource exhaustion if misused.'',
       '''',
       ''The following endpoints are set to be used:'']"

definition ACKNOWLEDGEMENT_STRING_END :: string where
  "ACKNOWLEDGEMENT_STRING_END =
     lines [''You '' @ [ESC] @ ''[1mMUST'' @ [ESC] @ ''[0m have explicit authorization to act on these systems.'',
       ''Unauthorized use of this tool can cause service disruption'',
       ''and may be illegal.'',
       '''',
       ''If you are unsure whether you are authorized, stop now.'',
       '''',
       ''By proceeding, you confirm that you:'',
       '' - Are authorized to act on these endpoints'',
       '' - Understand the behavior of this tool for your script'',
       '' - Accept full responsibility for its use'',
       '''',
       ''To proceed, type '' @ [ESC] @ ''[1mI UNDERSTAND'' @ [ESC] @ ''[0m below.'']"

definition request_acknowledgement :: "string \<Rightarrow> string \<Rightarrow> cli_effect list \<times> bool" where
  "request_acknowledgement user_response endpoints_list =
     (let asked = [Log Level_INFO ACKNOWLEDGEMENT_STRING_START, Log Level_INFO endpoints_list,
                   Log Level_INFO ACKNOWLEDGEMENT_STRING_END, Read_Line]
      in if user_response = ''I UNDERSTAND'' then (asked, True)
         else (asked @ [Log Level_INFO ([NEWLINE] @ ''Aborting'')], False))"

section \<open>Starting the orchestrator\<close>

text \<open>How the process ends: with a status, or by \<^verbatim>\<open>std::terminate\<close>, or undefined.\<close>

datatype exit_status = Exits nat | Terminated | Undefined

text \<open>\<^verbatim>\<open>start_orchestrator_loop_uninteractive\<close>: the orchestrator runs on the main thread.\<close>

definition start_orchestrator_loop_uninteractive :: "cli_env \<Rightarrow> execution_plan \<Rightarrow> cli_effect list \<times> exit_status" where
  "start_orchestrator_loop_uninteractive env plan =
     (let caught = (\<lambda>what. Log Level_ERROR (''Caught exception in orchestrator loop: '' @ what))
      in case ce_construct env plan of
           Call_Throws what \<Rightarrow> ([caught what], Exits 1)
         | Call_Undefined \<Rightarrow> ([], Undefined)
         | Call_Returns \<Rightarrow>
             let started = [Log Level_INFO ([NEWLINE] @ ''Starting orchestrator loop''), Run_Orchestrator plan]
             in case ce_run env plan of
                  Call_Throws what \<Rightarrow> (started @ [caught what], Exits 1)
                | Call_Undefined \<Rightarrow> (started, Undefined)
                | Call_Returns \<Rightarrow> (started, Exits 0))"

text \<open>
  \<^verbatim>\<open>start_orchestrator_loop\<close>: the orchestrator runs on a thread of its own, the terminal on the
  main thread, with the log paused. When the thread cannot be started there is none to join. When
  an exception leaves the terminal's loop, the thread is still joinable at the end of the
  function, so its destructor ends the process.
\<close>

definition start_orchestrator_loop :: "cli_env \<Rightarrow> execution_plan \<Rightarrow> cli_effect list \<times> exit_status" where
  "start_orchestrator_loop env plan =
     (let caught = (\<lambda>what. Log Level_ERROR (''Caught exception in orchestrator construction: '' @ what))
      in case ce_construct env plan of
           Call_Throws what \<Rightarrow> ([caught what], Exits 1)
         | Call_Undefined \<Rightarrow> ([], Undefined)
         | Call_Returns \<Rightarrow>
             let announced = [Log Level_INFO ([NEWLINE] @ ''Starting orchestrator loop'')]
             in case ce_thread env plan of
                  Some what \<Rightarrow> (announced @ [caught what], Exits 1)
                | None \<Rightarrow>
                    let started = announced @ [Start_Thread plan, Pause_Log]
                    in if ce_run env plan = Call_Undefined then (started, Undefined)
                       else case ce_screen env plan of
                              Call_Throws what \<Rightarrow> (started @ [caught what], Terminated)
                            | Call_Undefined \<Rightarrow> (started, Undefined)
                            | Call_Returns \<Rightarrow> (started @ [Resume_Log], Exits 0))"

text \<open>The effects of the thread that \<^verbatim>\<open>start_orchestrator_loop\<close> starts.\<close>

definition orchestrator_thread :: "cli_env \<Rightarrow> execution_plan \<Rightarrow> cli_effect list" where
  "orchestrator_thread env plan =
     Run_Orchestrator plan
     # (case ce_run env plan of
          Call_Throws what \<Rightarrow> [Log Level_ERROR (''Caught exception in orchestrator loop: '' @ what)]
        | _ \<Rightarrow> [])"

section \<open>Executing a script\<close>

text \<open>\<^verbatim>\<open>execute_script\<close> once the plan is there; the source has this part once per transport.\<close>

definition start_plan :: "cli_env \<Rightarrow> cli_options \<Rightarrow> execution_plan \<Rightarrow> cli_effect list \<times> exit_status" where
  "start_plan env co plan =
     (if co_quiet co then
        let (effects, status) = start_orchestrator_loop_uninteractive env plan
        in (Set_Level Level_WARN # effects, status)
      else start_orchestrator_loop env plan)"

definition execute_plan :: "cli_env \<Rightarrow> cli_options \<Rightarrow> dsl_data \<Rightarrow> execution_plan \<Rightarrow> cli_effect list \<times> exit_status" where
  "execute_plan env co script plan =
     (if co_dry_run co then
        (case dry_run plan script of None \<Rightarrow> ([], Undefined) | Some effects \<Rightarrow> (effects, Exits 0))
      else
        let (asked, ack) =
              (if \<not> co_acknowledged co
               then request_acknowledgement (ce_input env) (dump_endpoint_list (oc_host_info (pl_config plan)))
               else ([], True))
        in if \<not> ack then (asked, Exits 0)
           else let (effects, status) = start_plan env co plan in (asked @ effects, status))"

text \<open>The warnings of the plan generation about endpoints without an answer.\<close>

definition endpoint_warnings :: "cli_env \<Rightarrow> settings_block \<Rightarrow> cli_effect list" where
  "endpoint_warnings env settings =
     concat (map (\<lambda>endpoint.
        case ce_dns_error env endpoint (port_string settings) of
          None \<Rightarrow> []
        | Some message \<Rightarrow>
            [Log Level_WARN (endpoint @ '' could not be resolved (got error: '' @ message @ '')'')])
       (st_endpoints settings))"

definition generation_warnings :: "cli_env \<Rightarrow> resolver_options \<Rightarrow> settings_block \<Rightarrow> cli_effect list" where
  "generation_warnings env opts settings =
     (case make_factory (ce_os env) opts (ce_compiles env) settings of
        Inl _ \<Rightarrow> [] | Inr _ \<Rightarrow> endpoint_warnings env settings)"

text \<open>A script's plan for its transport: a message, or the plan and the late warnings.\<close>

definition generate_for :: "cli_env \<Rightarrow> resolver_options \<Rightarrow> dsl_data \<Rightarrow> (execution_plan \<times> cli_effect list) plan_result" where
  "generate_for env opts script =
     (let (_, _, _, uninit) = ce_uninit env
      in if st_session_protocol (ds_settings script) = ''TCP'' then
           bindE (generate_execution_plan_tcp (ce_os env) opts (ce_can_allocate env) uninit (ce_dns env) (ce_compiles env) script)
             (\<lambda>plan. Inr (plan, []))
         else
           bindE (generate_execution_plan_udp (ce_os env) opts (ce_can_allocate env) uninit (ce_dns env) (ce_compiles env) script)
             (\<lambda>(plan, warning). Inr (plan, case warning of None \<Rightarrow> [] | Some w \<Rightarrow> [Log Level_WARN w])))"

definition execute_script :: "cli_env \<Rightarrow> cli_options \<Rightarrow> resolver_options \<Rightarrow> dsl_data \<Rightarrow> cli_effect list \<times> exit_status" where
  "execute_script env co opts script =
     (let protocol = st_session_protocol (ds_settings script)
      in if protocol \<noteq> ''TCP'' \<and> protocol \<noteq> ''UDP'' then
           ([Log Level_ERROR (''Unrecognized transport '' @ protocol @ '' was specified.'')], Exits 1)
         else
           let warnings = generation_warnings env opts (ds_settings script)
           in case generate_for env opts script of
                Inl Undefined_Behaviour \<Rightarrow> (warnings, Undefined)
              | Inl (Plan_Error e_msg) \<Rightarrow> (warnings @ [Log Level_ERROR e_msg], Exits 1)
              | Inr (plan, late) \<Rightarrow>
                  let (effects, status) = execute_plan env co script plan
                  in (warnings @ late @ effects, status))"

definition script_options :: "cli_options \<Rightarrow> resolver_options" where
  "script_options co = \<lparr>expand_envs = co_expand_envs co\<rparr>"

definition cli_script :: "cli_env \<Rightarrow> cli_options \<Rightarrow> dsl_data result" where
  "cli_script env co =
     (let (hs, bm, uninit, _) = ce_uninit env
      in parse_script (ce_os env) (script_options co) hs bm uninit (co_script_file co))"

definition cli_run :: "cli_env \<Rightarrow> cli_options \<Rightarrow> cli_effect list \<times> exit_status" where
  "cli_run env co =
     (case cli_script env co of
        Inl reason \<Rightarrow> ([Log Level_ERROR reason], Exits 1)
      | Inr script \<Rightarrow> execute_script env co (script_options co) script)"

section \<open>The command line and the process\<close>

datatype parse_status = Parse_Ok | Parse_Help | Parse_Version | Parse_Error

record cli_parse_result =
  pr_options :: cli_options
  pr_status :: parse_status

definition good_parse :: "cli_parse_result \<Rightarrow> bool" where
  "good_parse r \<longleftrightarrow> pr_status r = Parse_Ok"

definition status_code :: "cli_parse_result \<Rightarrow> nat" where
  "status_code r = (if pr_status r = Parse_Error then 1 else 0)"

text \<open>What the option parser finds: its error, or whether there are \<^verbatim>\<open>version\<close> and \<^verbatim>\<open>help\<close>, and the options.\<close>

datatype option_parse = Option_Error string | Options_Stored bool bool cli_options

definition VERSION_PRINTSTRING :: string where
  "VERSION_PRINTSTRING = ''loadshear v1.0.0''"

definition parse_cli :: "string \<Rightarrow> option_parse \<Rightarrow> cli_effect list \<times> cli_parse_result" where
  "parse_cli op_desc p =
     (case p of
        Option_Error what \<Rightarrow>
          ([Log Level_ERROR (''Error: '' @ what)], \<lparr>pr_options = default_options, pr_status = Parse_Error\<rparr>)
      | Options_Stored version help co \<Rightarrow>
          if version then ([Log Level_INFO VERSION_PRINTSTRING], \<lparr>pr_options = co, pr_status = Parse_Version\<rparr>)
          else if help \<or> co_script_file co = [] then
            ([Log Level_INFO ([NEWLINE] @ ''Usage: loadshear <script_file> [options]'' @ [NEWLINE, NEWLINE]
                @ op_desc @ [NEWLINE])],
             \<lparr>pr_options = co, pr_status = Parse_Help\<rparr>)
          else ([], \<lparr>pr_options = co, pr_status = Parse_Ok\<rparr>))"

text \<open>
  \<^verbatim>\<open>main\<close>: \<open>start\<close> is the text of an exception from the constructor. When \<^verbatim>\<open>main\<close> returns early,
  the destructor of the logger, which is still running then, shuts it down.
\<close>

definition main_program :: "cli_env \<Rightarrow> string \<Rightarrow> option_parse \<Rightarrow> string option \<Rightarrow> cli_effect list \<times> exit_status" where
  "main_program env op_desc p start =
     (let (parsed, r) = parse_cli op_desc p; init = Init_Log Level_INFO # parsed
      in if \<not> good_parse r then (init @ [Shutdown_Log], Exits (status_code r))
         else
           let init = init @ [Log Level_INFO VERSION_PRINTSTRING]
           in case start of
                Some what \<Rightarrow>
                  (init @ [Log Level_ERROR (''Tried to start program (got error: '' @ what @ '')''), Shutdown_Log], Exits 1)
              | None \<Rightarrow>
                  let (effects, status) = cli_run env (pr_options r)
                  in case status of
                       Exits n \<Rightarrow> (init @ effects @ [Shutdown_Log], Exits n)
                     | _ \<Rightarrow> (init @ effects, status))"

end
