(* ===== verification/CLI_Correct.thy ===== *)
theory CLI_Correct
  imports CLI Interpreted
begin

text \<open>
  What the command line does with a script: the lines of the dry run, the question before the
  orchestrator starts, and how the status goes with the errors in the log.
\<close>

section \<open>What the dry run shows\<close>

text \<open>The line for a SEND that shows a payload.\<close>

definition send_line :: "action_descriptor \<Rightarrow> action \<Rightarrow> payload_descriptor \<Rightarrow> string" where
  "send_line a d payload =
     ms_to_timestring (word_of_int (ad_offset a)) @ ''SEND ('' @ to_string (unat (ad_count a))
     @ ''x) packet identity '' @ act_packet_identifier d @ '' with payload data'' @ [NEWLINE]
     @ ''                '' @ payload_text payload"

definition is_info :: "cli_effect \<Rightarrow> bool" where
  "is_info e \<longleftrightarrow> (\<exists>msg. e = Log Level_INFO msg)"

lemma is_info_Log [simp]: "is_info (Log l msg) \<longleftrightarrow> l = Level_INFO"
  by (simp add: is_info_def)

lemma dry_run_action_other:
  "ad_type a \<noteq> SEND \<Longrightarrow> \<exists>msg. dry_run_action payloads a d current = Some ([Log Level_INFO msg], current)"
  by (cases "ad_type a") (simp_all add: dry_run_action_def)

lemma dry_run_action_send:
  "ad_type a = SEND \<Longrightarrow> current < length payloads \<Longrightarrow>
     dry_run_action payloads a d current =
       Some ([Log Level_INFO (send_line a d (payloads ! current))], current + unat (ad_count a))"
  by (simp add: dry_run_action_def send_line_def)

definition described :: "action_descriptor \<Rightarrow> action \<Rightarrow> bool" where
  "described a d \<longleftrightarrow> ad_type a = act_type d \<and> (act_type d = SEND \<longrightarrow> ad_count a = act_count d \<and> act_count d \<noteq> 0)"

lemma dry_run_loop_lines:
  assumes "list_all2 described as ds" "current + send_copies ds \<le> length payloads"
  shows "\<exists>ls. dry_run_loop payloads as ds current = Some ls \<and> length ls = length ds \<and> list_all is_info ls
    \<and> (\<forall>k < length ds. act_type (ds ! k) = SEND \<longrightarrow>
         current + send_copies (take k ds) < length payloads
         \<and> ls ! k = Log Level_INFO (send_line (as ! k) (ds ! k) (payloads ! (current + send_copies (take k ds)))))"
  using assms
proof (induction as ds arbitrary: current rule: list_all2_induct)
  case Nil
  then show ?case by simp
next
  case (Cons a as d ds)
  define next_id where "next_id = (if act_type d = SEND then current + unat (act_count d) else current)"
  have "act_type d = SEND \<Longrightarrow> 0 < unat (act_count d)" using Cons.hyps(1) by (simp add: described_def unat_gt_0)
  then have room: "act_type d = SEND \<Longrightarrow> current < length payloads" using Cons.prems by simp
  obtain msg where step: "dry_run_action payloads a d current = Some ([Log Level_INFO msg], next_id)"
    "act_type d = SEND \<Longrightarrow> msg = send_line a d (payloads ! current)"
    using Cons.hyps(1) dry_run_action_other [of a payloads d current] dry_run_action_send [OF _ room, of a d]
    by (cases "act_type d = SEND") (auto simp: described_def next_id_def)
  have "next_id + send_copies ds \<le> length payloads" using Cons.prems by (auto simp: next_id_def)
  from Cons.IH [OF this] obtain ls where ls: "dry_run_loop payloads as ds next_id = Some ls" "length ls = length ds"
    "list_all is_info ls" and send: "\<And>k. k < length ds \<Longrightarrow> act_type (ds ! k) = SEND \<Longrightarrow>
         next_id + send_copies (take k ds) < length payloads
         \<and> ls ! k = Log Level_INFO (send_line (as ! k) (ds ! k) (payloads ! (next_id + send_copies (take k ds))))"
    by blast
  have next_id: "current + send_copies (take (Suc k) (d # ds)) = next_id + send_copies (take k ds)" for k
    by (simp add: next_id_def)
  have "current + send_copies (take k (d # ds)) < length payloads
      \<and> (Log Level_INFO msg # ls) ! k =
          Log Level_INFO (send_line ((a # as) ! k) ((d # ds) ! k) (payloads ! (current + send_copies (take k (d # ds)))))"
    if "k < length (d # ds)" "act_type ((d # ds) ! k) = SEND" for k
  proof (cases k)
    case 0
    then show ?thesis using that step(2) room by simp
  next
    case (Suc n)
    then show ?thesis unfolding Suc next_id using that [unfolded Suc] send [of n] by simp
  qed
  then show ?case using ls step(1) by auto
qed

text \<open>The dry run of a generated plan whose SENDs have copies.\<close>

lemma planned_described:
  assumes "foldE (plan_action uninit st) ds empty_plan_builder = Inr pb" "\<forall>d \<in> set ds. act_type d = SEND \<longrightarrow> act_count d \<noteq> 0"
  shows "list_all2 described (pb_actions pb) ds" "length (pb_payloads pb) = send_copies ds"
proof -
  have d: "ad_type (describe_action u a w) = act_type a" "act_type a = SEND \<Longrightarrow> ad_count (describe_action u a w) = act_count a" for u a w
    by (cases "act_type a"; simp add: describe_action_def Let_def make_create_def make_connect_def make_send_def
        make_flood_def make_drain_def make_disconnect_def)+
  show "list_all2 described (pb_actions pb) ds" "length (pb_payloads pb) = send_copies ds"
    using plan_actions_ok [OF assms(1)] assms(2)
    by (auto simp: list_all2_conv_all_nth described_def d builder_ok_def)
qed

lemma dry_run_lines:
  assumes "generate_plan_common env opts ok uninit script factory host = Inr plan"
    and "\<forall>d \<in> set (or_actions (ds_orchestrator script)). act_type d = SEND \<longrightarrow> act_count d \<noteq> 0"
  obtains ls where "dry_run_loop (pl_payloads plan) (pl_actions plan) (or_actions (ds_orchestrator script)) 0 = Some ls"
    "length ls = length (or_actions (ds_orchestrator script))" "list_all is_info ls"
    "\<And>k. k < length ls \<Longrightarrow> act_type (or_actions (ds_orchestrator script) ! k) = SEND \<Longrightarrow>
       send_copies (take k (or_actions (ds_orchestrator script))) < length (pl_payloads plan)
       \<and> ls ! k = Log Level_INFO (send_line (pl_actions plan ! k) (or_actions (ds_orchestrator script) ! k)
            (pl_payloads plan ! send_copies (take k (or_actions (ds_orchestrator script)))))"
proof -
  obtain st pb where pb: "foldE (plan_action uninit st) (or_actions (ds_orchestrator script)) empty_plan_builder = Inr pb"
    "pl_actions plan = pb_actions pb" "pl_payloads plan = pb_payloads pb"
    using plan_common_Inr [OF assms(1)] by metis
  show thesis
    using dry_run_loop_lines [OF planned_described(1) [OF pb(1) assms(2)], of 0 "pl_payloads plan"] that
      planned_described(2) [OF pb(1) assms(2)] by (auto simp: pb(2,3))
qed

section \<open>What the process does\<close>

text \<open>The plans a script can have, through its transport.\<close>

lemma generate_for_cases:
  assumes "generate_for env opts script = Inr (plan, late)" "ce_uninit env = (a, b, c, u)"
  obtains "generate_execution_plan_tcp (ce_os env) opts (ce_can_allocate env) u (ce_dns env) (ce_compiles env) script = Inr plan"
      "late = []"
    | w where "generate_execution_plan_udp (ce_os env) opts (ce_can_allocate env) u (ce_dns env) (ce_compiles env) script = Inr (plan, w)"
      "late = (case w of None \<Rightarrow> [] | Some w \<Rightarrow> [Log Level_WARN w])"
proof (cases "st_session_protocol (ds_settings script) = ''TCP''")
  case True
  then show ?thesis
    using assms that(1) unfolding generate_for_def Let_def assms(2) prod.case if_P [OF True]
    by (simp only: bindE_Inr_iff) blast
next
  case False
  then show ?thesis
    using assms that(2) unfolding generate_for_def Let_def assms(2) prod.case if_not_P [OF False]
    by (simp only: bindE_Inr_iff case_prod_beta sum.inject prod.inject) (metis prod.collapse)
qed
lemma generate_for_Inr:
  assumes "generate_for env opts script = Inr (plan, late)"
  obtains factory host uninit where
    "generate_plan_common (ce_os env) opts (ce_can_allocate env) uninit script factory host = Inr plan"
proof -
  obtain a b c u where u: "ce_uninit env = (a, b, c, u)" by (rule prod_cases4)
  show thesis
    using generate_for_cases [OF assms u] that
    by cases (auto simp: generate_execution_plan_tcp_def generate_execution_plan_udp_def bindE_Inr_iff Let_def)
qed

text \<open>The orchestrator is started on a plan, on either thread.\<close>

definition starts :: "execution_plan \<Rightarrow> cli_effect \<Rightarrow> bool" where
  "starts plan e \<longleftrightarrow> e = Run_Orchestrator plan \<or> e = Start_Thread plan"

definition is_log :: "cli_effect \<Rightarrow> bool" where
  "is_log e \<longleftrightarrow> (\<exists>l msg. e = Log l msg)"

definition is_error :: "cli_effect \<Rightarrow> bool" where
  "is_error e \<longleftrightarrow> (\<exists>msg. e = Log Level_ERROR msg)"

lemma effect_simps [simp]:
  "starts p (Log l m) = False" "starts p (Set_Level l) = False" "starts p Pause_Log = False" "starts p Resume_Log = False"
  "starts p Read_Line = False" "starts p Shutdown_Log = False" "starts p (Init_Log l) = False"
  "starts p (Run_Orchestrator q) \<longleftrightarrow> p = q" "starts p (Start_Thread q) \<longleftrightarrow> p = q"
  "is_error (Log l m) \<longleftrightarrow> l = Level_ERROR" "is_error (Set_Level l) = False" "is_error Pause_Log = False"
  "is_error Resume_Log = False" "is_error Read_Line = False" "is_error Shutdown_Log = False"
  "is_error (Init_Log l) = False" "is_error (Run_Orchestrator q) = False" "is_error (Start_Thread q) = False"
  by (auto simp: starts_def is_error_def)

lemma info_quiet: "is_info e \<Longrightarrow> \<not> starts p e \<and> \<not> is_error e"
  by (auto simp: is_info_def)

lemma generation_warnings_quiet: "e \<in> set (generation_warnings env opts settings) \<Longrightarrow> \<not> starts p e \<and> \<not> is_error e"
  by (auto simp: generation_warnings_def endpoint_warnings_def split: sum.splits option.splits)

lemma late_warnings_quiet:
  assumes "generate_for env opts script = Inr (plan, late)" "e \<in> set late"
  shows "\<not> starts p e \<and> \<not> is_error e"
proof -
  obtain a b c u where u: "ce_uninit env = (a, b, c, u)" by (rule prod_cases4)
  show ?thesis using generate_for_cases [OF assms(1) u] assms(2) by cases (auto split: option.splits)
qed

lemmas warnings_quiet = generation_warnings_quiet late_warnings_quiet

text \<open>A status of 1 goes with an error in the log, 0 with none.\<close>

definition status_matches :: "cli_effect list \<Rightarrow> exit_status \<Rightarrow> bool" where
  "status_matches es st \<longleftrightarrow> (\<forall>n. st = Exits n \<longrightarrow> n = (if list_ex is_error es then 1 else 0))"

lemma status_matches_append:
  "\<not> list_ex is_error es \<Longrightarrow> status_matches (es @ fs) st \<longleftrightarrow> status_matches fs st"
  "\<not> list_ex is_error fs \<Longrightarrow> status_matches (es @ fs) st \<longleftrightarrow> status_matches es st"
  "\<not> is_error e \<Longrightarrow> status_matches (e # es) st \<longleftrightarrow> status_matches es st"
  by (simp_all add: status_matches_def)

text \<open>The orchestrator on a plan, or the terminal that shows it, does what C++ leaves undefined.\<close>

definition run_undefined :: "cli_env \<Rightarrow> cli_options \<Rightarrow> execution_plan \<Rightarrow> bool" where
  "run_undefined env co plan \<longleftrightarrow>
     ce_construct env plan = Call_Undefined \<or> ce_run env plan = Call_Undefined
     \<or> \<not> co_quiet co \<and> ce_screen env plan = Call_Undefined"

lemma loop_status:
  assumes "start_orchestrator_loop env plan = (es, st) \<or> start_orchestrator_loop_uninteractive env plan = (es, st)"
  shows "status_matches es st \<and> (\<forall>e \<in> set es. starts p e \<longrightarrow> p = plan)"
  using assms
  by (auto simp: start_orchestrator_loop_def start_orchestrator_loop_uninteractive_def status_matches_def Let_def
      split: option.splits call_end.splits if_splits)

lemma start_plan_status:
  assumes "start_plan env co plan = (es, st)"
  shows "status_matches es st \<and> (st = Undefined \<longrightarrow> run_undefined env co plan) \<and> (\<forall>e \<in> set es. starts p e \<longrightarrow> p = plan)"
proof (cases "co_quiet co")
  case True
  then obtain fs where fs: "start_orchestrator_loop_uninteractive env plan = (fs, st)" "es = Set_Level Level_WARN # fs"
    using assms by (auto simp: start_plan_def split: prod.splits)
  then have "st = Undefined \<longrightarrow> run_undefined env co plan"
    by (auto simp: start_orchestrator_loop_uninteractive_def run_undefined_def Let_def split: call_end.splits)
  then show ?thesis using fs loop_status [of env plan fs st p] by (simp add: status_matches_append)
next
  case False
  then have loop: "start_orchestrator_loop env plan = (es, st)" using assms by (simp add: start_plan_def)
  then have "st = Undefined \<longrightarrow> run_undefined env co plan"
    using False by (auto simp: start_orchestrator_loop_def run_undefined_def Let_def
        split: call_end.splits option.splits if_splits)
  then show ?thesis using loop loop_status [of env plan es st p] by simp
qed

lemma dry_run_action_quiet:
  "dry_run_action payloads a d current = Some (es, n) \<Longrightarrow> e \<in> set es \<Longrightarrow> \<not> starts p e \<and> \<not> is_error e"
  by (cases "ad_type a") (auto simp: dry_run_action_def Let_def split: if_splits)

lemma dry_run_loop_quiet:
  "dry_run_loop payloads as ds current = Some es \<Longrightarrow> e \<in> set es \<Longrightarrow> \<not> starts p e \<and> \<not> is_error e"
proof (induction payloads as ds current arbitrary: es rule: dry_run_loop.induct)
  case (3 payloads a as d ds current)
  then obtain fs n gs where step: "dry_run_action payloads a d current = Some (fs, n)"
    "dry_run_loop payloads as ds n = Some gs" "es = fs @ gs" by (auto split: option.splits)
  show ?case
  proof (cases "e \<in> set fs")
    case True
    then show ?thesis by (rule dry_run_action_quiet [OF step(1)])
  next
    case False
    then have "e \<in> set gs" using "3.prems"(2) step(3) by simp
    then show ?thesis by (rule "3.IH" [OF step(1) refl step(2)])
  qed
qed simp_all

lemma dry_run_quiet: "dry_run plan script = Some es \<Longrightarrow> e \<in> set es \<Longrightarrow> \<not> starts p e \<and> \<not> is_error e"
  by (auto simp: dry_run_def dest: dry_run_loop_quiet)

lemma request_quiet: "request_acknowledgement input eps = (es, ack) \<Longrightarrow> e \<in> set es \<Longrightarrow> \<not> starts p e \<and> \<not> is_error e"
  by (auto simp: request_acknowledgement_def Let_def split: if_splits)

text \<open>The question, the answer and then the start.\<close>

definition asked_for :: "execution_plan \<Rightarrow> cli_effect list" where
  "asked_for plan =
     [Log Level_INFO ACKNOWLEDGEMENT_STRING_START, Log Level_INFO (dump_endpoint_list (oc_host_info (pl_config plan))),
      Log Level_INFO ACKNOWLEDGEMENT_STRING_END, Read_Line]"

lemma request_granted:
  "request_acknowledgement input (dump_endpoint_list (oc_host_info (pl_config plan))) = (es, True) \<longleftrightarrow>
     input = ''I UNDERSTAND'' \<and> es = asked_for plan"
  by (auto simp: request_acknowledgement_def asked_for_def Let_def split: if_splits)

lemma execute_plan_consent:
  assumes "execute_plan env co script plan = (es, st)" "e \<in> set es" "starts p e"
  shows "p = plan \<and> \<not> co_dry_run co
    \<and> (co_acknowledged co \<or> ce_input env = ''I UNDERSTAND'' \<and> subseq (asked_for plan @ [e]) es)"
proof -
  have dry: "\<not> co_dry_run co"
    using assms by (auto simp: execute_plan_def dest: dry_run_quiet split: option.splits)
  obtain fs st' where fs: "start_plan env co plan = (fs, st')" by fastforce
  have plan: "p = plan" if "e \<in> set fs"
    using that start_plan_status [OF fs] assms(3) by blast
  show ?thesis
  proof (cases "co_acknowledged co")
    case True
    then have "es = fs" using assms(1) fs dry by (simp add: execute_plan_def)
    then show ?thesis using True dry plan assms(2) by simp
  next
    case False
    obtain asked ack where ask: "request_acknowledgement (ce_input env) (dump_endpoint_list (oc_host_info (pl_config plan))) = (asked, ack)"
      by fastforce
    have "e \<notin> set asked" using request_quiet [OF ask] assms(3) by blast
    then have "ack" using assms(1,2) ask False dry by (auto simp: execute_plan_def split: if_splits)
    then have in_fs: "es = asked @ fs" "e \<in> set fs"
      using assms(1,2) ask False dry fs \<open>e \<notin> set asked\<close> by (auto simp: execute_plan_def)
    have input: "ce_input env = ''I UNDERSTAND''" "asked = asked_for plan"
      using ask \<open>ack\<close> request_granted by auto
    have "subseq [e] fs" using in_fs(2) by (simp add: subseq_singleton_left)
    then have "subseq (asked_for plan @ [e]) es"
      unfolding in_fs(1) input(2) by (intro list_emb_append_mono) simp_all
    then show ?thesis using plan [OF in_fs(2)] dry input(1) by simp
  qed
qed

lemma execute_plan_status:
  assumes "execute_plan env co script plan = (es, st)" "dry_run plan script \<noteq> None"
  shows "status_matches es st \<and> (st = Undefined \<longrightarrow> \<not> co_dry_run co \<and> run_undefined env co plan)"
proof (cases "co_dry_run co")
  case True
  then show ?thesis
    using assms by (auto simp: execute_plan_def status_matches_def list_ex_iff dest: dry_run_quiet)
next
  case dry: False
  obtain fs st' where fs: "start_plan env co plan = (fs, st')" by fastforce
  have loop: "status_matches fs st' \<and> (st' = Undefined \<longrightarrow> run_undefined env co plan)"
    using start_plan_status [OF fs] by blast
  obtain asked ack where ask: "(if \<not> co_acknowledged co
      then request_acknowledgement (ce_input env) (dump_endpoint_list (oc_host_info (pl_config plan))) else ([], True)) = (asked, ack)"
    by fastforce
  then have "\<not> list_ex is_error asked" by (auto simp: list_ex_iff dest: request_quiet split: if_splits)
  moreover have "(es, st) = (if \<not> ack then (asked, Exits 0) else (asked @ fs, st'))"
    using assms(1) dry ask fs by (simp add: execute_plan_def split: if_splits)
  ultimately show ?thesis
    using loop dry by (auto simp: status_matches_append status_matches_def split: if_splits)
qed

section \<open>The process\<close>

lemma cli_script_parsed:
  assumes "cli_script env co = Inr script"
  obtains hs bm uninit where "parse_script (ce_os env) (script_options co) hs bm uninit (co_script_file co) = Inr script"
  using assms by (auto simp: cli_script_def split: prod.splits)

lemma script_dry_run:
  assumes "cli_script env co = Inr script" "generate_for env (script_options co) script = Inr (plan, late)"
  shows "dry_run plan script \<noteq> None"
proof -
  obtain hs bm uninit where "parse_script (ce_os env) (script_options co) hs bm uninit (co_script_file co) = Inr script"
    using cli_script_parsed [OF assms(1)] .
  then have "verify_script (ce_os env) (script_options co) script = Inr ()" using parse_script_Inr by metis
  then have copies: "\<forall>d \<in> set (or_actions (ds_orchestrator script)). act_type d = SEND \<longrightarrow> act_count d \<noteq> 0"
    using verified_send_copies(1) by blast
  obtain factory host count where
    "generate_plan_common (ce_os env) (script_options co) (ce_can_allocate env) count script factory host = Inr plan"
    using generate_for_Inr [OF assms(2)] .
  then show ?thesis using copies by (rule dry_run_lines) (simp add: dry_run_def)
qed

lemma generate_for_defined:
  assumes "cli_script env co = Inr script"
  shows "generate_for env (script_options co) script \<noteq> Inl Undefined_Behaviour"
proof -
  obtain a b c u where u: "ce_uninit env = (a, b, c, u)" by (rule prod_cases4)
  obtain hs bm uninit where "parse_script (ce_os env) (script_options co) hs bm uninit (co_script_file co) = Inr script"
    using cli_script_parsed [OF assms] .
  from interpreted_plans_defined [OF this] show ?thesis
    unfolding generate_for_def Let_def u prod.case by (simp add: bindE_Inl_iff case_prod_beta)
qed

lemma execute_script_status:
  assumes "cli_script env co = Inr script" "execute_script env co (script_options co) script = (es, st)"
  shows "status_matches es st
    \<and> (st = Undefined \<longrightarrow> \<not> co_dry_run co
        \<and> (\<exists>plan late. generate_for env (script_options co) script = Inr (plan, late) \<and> run_undefined env co plan))"
proof (cases "generate_for env (script_options co) script")
  case (Inl e)
  have "\<not> list_ex is_error (generation_warnings env (script_options co) (ds_settings script))"
    using generation_warnings_quiet by (auto simp: list_ex_iff)
  then show ?thesis
    using Inl assms(2) generate_for_defined [OF assms(1)]
    by (cases e) (auto simp: execute_script_def Let_def status_matches_def split: if_splits)
next
  case (Inr r)
  obtain plan late where r: "r = (plan, late)" by fastforce
  obtain fs where fs: "execute_plan env co script plan = (fs, st) \<and>
      es = generation_warnings env (script_options co) (ds_settings script) @ late @ fs
    \<or> (\<exists>msg. es = [Log Level_ERROR msg] \<and> st = Exits 1)"
    using Inr assms(2) r by (auto simp: execute_script_def Let_def split: if_splits prod.splits)
  have "\<not> list_ex is_error (generation_warnings env (script_options co) (ds_settings script))" "\<not> list_ex is_error late"
    using warnings_quiet Inr r by (fastforce simp: list_ex_iff)+
  moreover have "execute_plan env co script plan = (fs, st) \<Longrightarrow>
      status_matches fs st \<and> (st = Undefined \<longrightarrow> \<not> co_dry_run co \<and> run_undefined env co plan)"
    using execute_plan_status script_dry_run [OF assms(1)] Inr r by metis
  ultimately show ?thesis
    using fs Inr r by (auto simp: status_matches_append) (auto simp: status_matches_def)
qed

lemma execute_script_consent:
  assumes "execute_script env co opts script = (es, st)" "e \<in> set es" "starts p e"
  shows "(\<exists>late. generate_for env opts script = Inr (p, late)) \<and> \<not> co_dry_run co
    \<and> (co_acknowledged co \<or> ce_input env = ''I UNDERSTAND'' \<and> subseq (asked_for p @ [e]) es)"
proof -
  have quiet: "e \<notin> set (generation_warnings env opts (ds_settings script))" using generation_warnings_quiet assms(3) by blast
  then obtain plan late fs where r: "generate_for env opts script = Inr (plan, late)"
    "execute_plan env co script plan = (fs, st)"
    "es = generation_warnings env opts (ds_settings script) @ late @ fs"
    using assms by (auto simp: execute_script_def Let_def split: if_splits sum.splits plan_error.splits prod.splits)
  then have "e \<in> set fs" using quiet assms(2,3) late_warnings_quiet [OF r(1)] by auto
  from execute_plan_consent [OF r(2) this assms(3)] show ?thesis
    using r(1,3) by (auto intro: list_emb_append2)
qed

lemma cli_run_status:
  assumes "cli_run env co = (fs, st)"
  shows "status_matches fs st
    \<and> (st = Undefined \<longrightarrow> \<not> co_dry_run co
        \<and> (\<exists>script plan late. cli_script env co = Inr script
            \<and> generate_for env (script_options co) script = Inr (plan, late) \<and> run_undefined env co plan))"
proof (cases "cli_script env co")
  case (Inl reason)
  then show ?thesis using assms by (auto simp: cli_run_def status_matches_def)
next
  case (Inr script)
  then have "execute_script env co (script_options co) script = (fs, st)" using assms by (simp add: cli_run_def)
  from execute_script_status [OF Inr this] Inr show ?thesis by blast
qed

lemma cli_run_terminated:
  assumes "cli_run env co = (fs, Terminated)"
  shows "\<exists>plan what. \<not> co_quiet co \<and> Start_Thread plan \<in> set fs \<and> ce_screen env plan = Call_Throws what"
proof -
  have loop: "\<not> co_quiet co \<and> Start_Thread plan \<in> set es \<and> (\<exists>what. ce_screen env plan = Call_Throws what)"
    if "start_plan env co plan = (es, Terminated)" for plan es
    using that by (auto simp: start_plan_def start_orchestrator_loop_def start_orchestrator_loop_uninteractive_def Let_def
        split: if_splits option.splits call_end.splits prod.splits)
  obtain script plan es ws late where "execute_plan env co script plan = (es, Terminated)" "fs = ws @ late @ es"
    using assms by (auto simp: cli_run_def execute_script_def Let_def split: sum.splits if_splits plan_error.splits prod.splits)
  moreover obtain gs asked where "start_plan env co plan = (gs, Terminated)" "es = asked @ gs"
    using calculation(1) by (auto simp: execute_plan_def Let_def split: if_splits option.splits prod.splits)
  ultimately show ?thesis using loop by fastforce
qed

lemma main_program_cases:
  assumes "main_program env op_desc p start = (es, st)"
  obtains (early) parsed r where "parse_cli op_desc p = (parsed, r)" "\<not> good_parse r"
      "es = Init_Log Level_INFO # parsed @ [Shutdown_Log]" "st = Exits (status_code r)"
    | (failed) what where "start = Some what" "st = Exits 1"
      "es = [Init_Log Level_INFO, Log Level_INFO VERSION_PRINTSTRING,
             Log Level_ERROR (''Tried to start program (got error: '' @ what @ '')''), Shutdown_Log]"
    | (ran) co fs where "p = Options_Stored False False co" "start = None" "cli_run env co = (fs, st)"
      "es = [Init_Log Level_INFO, Log Level_INFO VERSION_PRINTSTRING] @ fs
            @ (case st of Exits n \<Rightarrow> [Shutdown_Log] | _ \<Rightarrow> [])"
proof (cases "good_parse (snd (parse_cli op_desc p))")
  case True
  then obtain co where co: "p = Options_Stored False False co" "parse_cli op_desc p = ([], \<lparr>pr_options = co, pr_status = Parse_Ok\<rparr>)"
    by (auto simp: parse_cli_def good_parse_def split: option_parse.splits if_splits)
  show thesis
  proof (cases start)
    case None
    obtain fs st' where run: "cli_run env co = (fs, st')" by fastforce
    then have "st' = st" "es = [Init_Log Level_INFO, Log Level_INFO VERSION_PRINTSTRING] @ fs
            @ (case st of Exits n \<Rightarrow> [Shutdown_Log] | _ \<Rightarrow> [])"
      using assms None co(2) by (auto simp: main_program_def good_parse_def Let_def split: exit_status.splits)
    then show thesis using ran [OF co(1) None] run by simp
  next
    case (Some what)
    then show thesis using assms co(2) by (intro failed [OF Some]) (auto simp: main_program_def good_parse_def Let_def)
  qed
next
  case False
  obtain parsed r where "parse_cli op_desc p = (parsed, r)" by fastforce
  then show thesis using assms False by (intro early) (auto simp: main_program_def Let_def)
qed

end
