(* ===== verification/Histogram.thy ===== *)
theory Histogram
  imports Display
begin

text \<open>
  \<^verbatim>\<open>cli/create-histogram.h\<close>: the latency histograms of the terminal interface as the texts they
  consist of, without colours. The floating-point numbers of the source are kept exactly: a
  positive double is \<open>m / 2 ^ s\<close> for an integer \<open>m\<close> of at most 53 bits, and each operation
  rounds as IEEE arithmetic does.
\<close>

section \<open>Arithmetic on doubles\<close>

text \<open>
  The quotient of two doubles that are integers, \<open>0 \<le> a\<close> and \<open>0 < b\<close>: the nearest \<open>m / 2 ^ s\<close>
  with \<open>2 ^ 52 \<le> m\<close>. A negative \<open>s\<close> is a factor of the numerator.
\<close>

definition double_quotient :: "int \<Rightarrow> int \<Rightarrow> int \<times> int" where
  "double_quotient a b =
     (if a = 0 then (0, 0)
      else
        let s = 53 + int (bit_width (nat b)) - int (bit_width (nat a));
            s = (if a * 2 ^ nat s div (b * 2 ^ nat (- s)) \<ge> 2 ^ 53 then s - 1 else s)
        in (round_half_even (a * 2 ^ nat s) (b * 2 ^ nat (- s)), s))"

text \<open>\<^verbatim>\<open>std::round\<close> of \<open>m / 2 ^ s\<close>, away from zero at one half.\<close>

definition std_round :: "int \<Rightarrow> int \<Rightarrow> int" where
  "std_round m s = (2 * m * 2 ^ nat (- s) + 2 ^ nat s) div (2 * 2 ^ nat s)"

section \<open>The bars\<close>

definition height :: nat where
  "height = 8"

definition bin_width :: nat where
  "bin_width = 4"

definition y_label_width :: nat where
  "y_label_width = 6"

definition latency_labels :: "string list" where
  "latency_labels =
     [''64 '', ''128'', ''256'', ''512'', ''1  '', ''2  '', ''4  '', ''8  '', ''16 '', ''32 '', ''64 '', ''128'',
      ''256'', ''512'', ''1  '', ''>1 '']"

definition unit_labels :: "string list" where
  "unit_labels =
     [''us '', ''us '', ''us '', ''us '', ''ms '', ''ms '', ''ms '', ''ms '', ''ms '', ''ms '', ''ms '', ''ms '',
      ''ms '', ''ms '', ''s  '', ''s  '']"

text \<open>The bytes of U+2588.\<close>

definition block_char :: string where
  "block_char = map char_of [226 :: nat, 150, 136]"

definition blanks :: "nat \<Rightarrow> string" where
  "blanks n = replicate n (CHR '' '')"

text \<open>
  The characters to fill for a bucket. Multiplying by \<^verbatim>\<open>height\<close>, a power of two, is exact. \<open>None\<close>
  where the result does not fit the \<^verbatim>\<open>int\<close> it is cast to.
\<close>

definition bar_fill :: "int \<Rightarrow> int \<Rightarrow> nat option" where
  "bar_fill val max_v =
     (if max_v > 0 then
        let (m, s) = double_quotient (to_double val) (to_double max_v);
            fill = std_round (m * int height) s
        in if fill < 2 ^ 31 then Some (if nat fill > height then height else nat fill) else None
      else Some 0)"

text \<open>A column from top to bottom: the bar, a gap and the two labels.\<close>

definition hist_column :: "nat \<Rightarrow> nat \<Rightarrow> string list" where
  "hist_column i fill =
     map (\<lambda>r. if r < fill then concat (replicate bin_width block_char) else blanks bin_width) (rev [0..<height])
     @ [blanks bin_width, latency_labels ! i, unit_labels ! i]"

section \<open>The vertical axis\<close>

text \<open>
  The value at a row: \<open>frac * max_v\<close> in doubles. \<open>None\<close> where the cast to \<^verbatim>\<open>uint64_t\<close> is
  undefined.
\<close>

definition label_value :: "nat \<Rightarrow> int \<Rightarrow> nat option" where
  "label_value row max_v =
     (let (m, s) = double_quotient (int row) (int height - 1);
          v = std_round (to_double (m * to_double max_v)) s
      in if v < 2 ^ 64 then Some (nat v) else None)"

fun y_axis_loop :: "nat list \<Rightarrow> nat \<Rightarrow> int \<Rightarrow> string list option" where
  "y_axis_loop [] row_tick_counter max_v = Some []"
| "y_axis_loop (row # rows) row_tick_counter max_v =
     (if row_tick_counter \<noteq> 0 then
        map_option (Cons (blanks y_label_width)) (y_axis_loop rows (row_tick_counter - 1) max_v)
      else
        case label_value row max_v of
          None \<Rightarrow> None
        | Some label_val \<Rightarrow>
            (case y_axis_text label_val of
               None \<Rightarrow> None
             | Some lab \<Rightarrow> map_option (Cons lab) (y_axis_loop rows 3 max_v)))"

section \<open>The histogram\<close>

record histogram =
  hi_title :: string
  hi_y_rows :: "string list"
  hi_columns :: "string list list"

fun map_some :: "('a \<Rightarrow> 'b option) \<Rightarrow> 'a list \<Rightarrow> 'b list option" where
  "map_some f [] = Some []"
| "map_some f (x # xs) =
     (case f x of None \<Rightarrow> None | Some y \<Rightarrow> map_option (Cons y) (map_some f xs))"

text \<open>
  The buckets are unsigned for the totals and signed for the changes; the largest is found in
  their own type, and each is converted to \<^verbatim>\<open>uint64_t\<close> when it is used.
\<close>

definition generate_histogram :: "int list \<Rightarrow> string \<Rightarrow> histogram option" where
  "generate_histogram buckets title =
     (let max_v = Max (set buckets) mod 2 ^ 64
      in case map_some (\<lambda>i. map_option (hist_column i) (bar_fill (buckets ! i mod 2 ^ 64) max_v)) [0..<length buckets] of
           None \<Rightarrow> None
         | Some columns \<Rightarrow>
             map_option (\<lambda>rows. \<lparr>hi_title = title, hi_y_rows = rows @ replicate 3 (blanks y_label_width),
                                 hi_columns = columns\<rparr>)
               (y_axis_loop (rev [0..<height]) 0 max_v))"

section \<open>Bars never overflow\<close>

lemma round_half_even_le: "0 < d \<Longrightarrow> n \<le> q * d \<Longrightarrow> round_half_even n d \<le> q"
proof -
  assume d: "0 < d" "n \<le> q * d"
  have div: "n div d \<le> q" using zdiv_mono1 [OF d(2) d(1)] d(1) by simp
  show ?thesis
  proof (cases "n div d = q")
    case True
    have "d * (n div d) + n mod d = n" "0 \<le> n mod d" using d(1) by simp_all
    then have "n mod d = 0" using True d(2) by (simp add: mult.commute)
    then show ?thesis using True d(1) by (simp add: round_half_even_def)
  next
    case False
    then show ?thesis using div round_half_even_bounds(2) [of n d] by linarith
  qed
qed

lemma std_round_le: "0 \<le> s \<Longrightarrow> m \<le> q * 2 ^ nat s \<Longrightarrow> std_round m s \<le> q"
proof -
  assume s: "0 \<le> s" "m \<le> q * 2 ^ nat s"
  let ?d = "2 ^ nat s :: int"
  have "(2 * m + ?d) div (2 * ?d) \<le> (2 * (q * ?d) + ?d) div (2 * ?d)"
    using s(2) by (intro zdiv_mono1) simp_all
  also have "\<dots> = q"
  proof -
    have "(2 * (q * ?d) + ?d) div (2 * ?d) = (?d + q * (2 * ?d)) div (2 * ?d)" by (simp add: algebra_simps)
    also have "\<dots> = q + ?d div (2 * ?d)" by (subst div_mult_self1) simp_all
    also have "?d div (2 * ?d) = 0" by (intro div_pos_pos_trivial) simp_all
    finally show ?thesis by simp
  qed
  finally show ?thesis using s(1) by (simp add: std_round_def)
qed

lemma std_round_exact: "0 \<le> s \<Longrightarrow> std_round (q * 2 ^ nat s) s = q"
proof -
  assume s: "0 \<le> s"
  let ?d = "2 ^ nat s :: int"
  have "(2 * (q * ?d) + ?d) div (2 * ?d) = (?d + q * (2 * ?d)) div (2 * ?d)" by (simp add: algebra_simps)
  also have "\<dots> = q + ?d div (2 * ?d)" by (subst div_mult_self1) simp_all
  also have "?d div (2 * ?d) = 0" by (intro div_pos_pos_trivial) simp_all
  finally show ?thesis using s by (simp add: std_round_def)
qed

lemma bit_width_mono: "a \<le> b \<Longrightarrow> bit_width a \<le> bit_width b"
proof (cases "a = 0")
  case True
  then show ?thesis by (simp add: bit_width.simps [of 0])
next
  case False
  assume "a \<le> b"
  then have "a < 2 ^ bit_width b" using bit_width_bounds [of b] False by simp
  then show ?thesis by (rule bit_width_le)
qed

section \<open>Rounding is monotone\<close>

lemma round_half_even_mono:
  assumes "0 < d" "n \<le> n'"
  shows "round_half_even n d \<le> round_half_even n' d"
proof (cases "n div d = n' div d")
  case True
  have "d * (n div d) + n mod d = n" "d * (n' div d) + n' mod d = n'" by simp_all
  moreover have "d * (n div d) = d * (n' div d)" using True by simp
  ultimately have "n mod d \<le> n' mod d" using assms(2) by linarith
  then show ?thesis using True by (simp add: round_half_even_def Let_def)
next
  case False
  then have "n div d + 1 \<le> n' div d" using zdiv_mono1 [OF assms(2,1)] by linarith
  then show ?thesis using round_half_even_bounds(2) [of n d] round_half_even_bounds(1) [of n' d] by linarith
qed

lemma to_double_le_power:
  assumes "0 \<le> i" "i \<le> 2 ^ k"
  shows "to_double i \<le> 2 ^ k"
proof (cases "0 < i \<and> 53 < bit_width (nat i)")
  case True
  let ?n = "bit_width (nat i)"
  have "(2 :: int) ^ (?n - 1) \<le> 2 ^ k" using bit_width_int(1) [of i] True assms(2) by linarith
  then have nk: "?n - 1 \<le> k" by (simp add: power_increasing_iff)
  have "i \<le> 2 ^ (k - (?n - 53)) * 2 ^ (?n - 53)"
  proof -
    have "(2 :: int) ^ (k - (?n - 53)) * 2 ^ (?n - 53) = 2 ^ k" using nk True by (simp flip: power_add)
    then show ?thesis using assms(2) by simp
  qed
  then have "round_half_even i (2 ^ (?n - 53)) \<le> 2 ^ (k - (?n - 53))" by (intro round_half_even_le) simp_all
  then have "2 ^ (?n - 53) * round_half_even i (2 ^ (?n - 53)) \<le> 2 ^ (?n - 53) * 2 ^ (k - (?n - 53))"
    by (intro mult_left_mono) simp_all
  also have "\<dots> = 2 ^ k" using nk True by (simp flip: power_add)
  finally show ?thesis using to_double_pos [of i] True by simp
next
  case False
  then show ?thesis using assms by (auto simp: to_double_def Let_def bit_width.simps [of 0])
qed

lemma to_double_mono:
  assumes "0 \<le> i" "i \<le> j"
  shows "to_double i \<le> to_double j"
proof (cases "0 < i")
  case True
  have widths: "bit_width (nat i) \<le> bit_width (nat j)" using assms by (intro bit_width_mono) simp
  show ?thesis
  proof (cases "bit_width (nat i) = bit_width (nat j)")
    case True
    have "round_half_even i (2 ^ k) \<le> round_half_even j (2 ^ k)" for k using assms(2) by (intro round_half_even_mono) simp_all
    then show ?thesis using True assms \<open>0 < i\<close> by (simp add: to_double_def Let_def)
  next
    case False
    then have lt: "bit_width (nat i) \<le> bit_width (nat j) - 1" using widths by simp
    have "to_double i \<le> 2 ^ bit_width (nat i)" using bit_width_int(2) [OF True] True by (intro to_double_le_power) simp_all
    also have "\<dots> \<le> (2 :: int) ^ (bit_width (nat j) - 1)" using lt by (intro power_increasing) simp_all
    also have "\<dots> \<le> to_double j" using True assms(2) by (intro to_double_lower bit_width_int(1)) simp
    finally show ?thesis .
  qed
next
  case False
  then have "i = 0" using assms(1) by simp
  then show ?thesis using assms to_double_nonneg [of j] to_double_small [of 0] by simp
qed

lemma two_power_times: "a + b = c + d \<Longrightarrow> (2 :: int) ^ a * 2 ^ b = 2 ^ c * 2 ^ d"
  by (metis power_add)

text \<open>What a quotient of at most 1 is.\<close>

lemma double_quotient_cases:
  assumes "0 < a" "a \<le> b"
  obtains s where "double_quotient a b = (round_half_even (a * 2 ^ s) b, int s)"
    "2 ^ 52 * b \<le> a * 2 ^ s" "a * 2 ^ s < 2 ^ 53 * b"
proof -
  let ?k = "bit_width (nat a)" and ?l = "bit_width (nat b)"
  have kl: "?k \<le> ?l" using assms by (intro bit_width_mono) simp
  let ?t = "53 + ?l - ?k"
  have a: "2 ^ (?k - 1) \<le> a" "a < 2 ^ ?k" using bit_width_int [OF assms(1)] by auto
  have b: "2 ^ (?l - 1) \<le> b" "b < 2 ^ ?l" using bit_width_int [of b] assms by auto
  have k0: "0 < ?k" using assms(1) bit_width_gt [of 0 "nat a"] by simp
  have l0: "0 < ?l" using k0 kl by simp
  have lower: "2 ^ 52 * b \<le> a * 2 ^ ?t"
  proof -
    have "2 ^ 52 * b \<le> 2 ^ 52 * 2 ^ ?l" using b(2) by (intro mult_left_mono) simp_all
    also have "\<dots> = 2 ^ (?k - 1) * (2 :: int) ^ ?t" using k0 kl by (intro two_power_times) simp
    also have "\<dots> \<le> a * 2 ^ ?t" using a(1) by (intro mult_right_mono) simp_all
    finally show ?thesis .
  qed
  have upper: "a * 2 ^ ?t < 2 ^ 54 * b"
  proof -
    have "a * 2 ^ ?t < 2 ^ ?k * 2 ^ ?t" using a(2) by (intro mult_strict_right_mono) simp_all
    also have "\<dots> = 2 ^ 54 * (2 :: int) ^ (?l - 1)" using l0 kl by (intro two_power_times) simp
    also have "\<dots> \<le> 2 ^ 54 * b" using b(1) by (intro mult_left_mono) simp_all
    finally show ?thesis .
  qed
  have t: "53 + int ?l - int ?k = int ?t" "0 < ?t" using kl by simp_all
  have down: "nat (int n - 1) = n - 1" "nat (1 - int n) = 0" "int n - 1 = int (n - 1)" if "0 < n" for n :: nat
    using that by simp_all
  show ?thesis
  proof (cases "2 ^ 53 \<le> a * 2 ^ ?t div b")
    case True
    have half: "a * 2 ^ ?t = 2 * (a * 2 ^ (?t - 1))"
    proof -
      have "?t = Suc (?t - 1)" using kl by simp
      then have "(2 :: int) ^ ?t = 2 * 2 ^ (?t - 1)" by (metis power_Suc)
      then show ?thesis by simp
    qed
    have "2 ^ 53 * b \<le> a * 2 ^ ?t"
    proof -
      have "2 ^ 53 * b \<le> (a * 2 ^ ?t div b) * b" using True assms by (intro mult_right_mono) simp_all
      also have "\<dots> \<le> a * 2 ^ ?t"
        using div_mult_mod_eq [of "a * 2 ^ ?t" b] pos_mod_sign [of b "a * 2 ^ ?t"] assms by linarith
      finally show ?thesis .
    qed
    moreover have "2 ^ 53 * b \<le> 2 * x \<Longrightarrow> 2 ^ 52 * b \<le> x" "2 * x < 2 ^ 54 * b \<Longrightarrow> x < 2 ^ 53 * b" for x
      by simp_all
    ultimately have "2 ^ 52 * b \<le> a * 2 ^ (?t - 1)" "a * 2 ^ (?t - 1) < 2 ^ 53 * b"
      using upper unfolding half by blast+
    then show ?thesis
      using True assms that [of "?t - 1"] unfolding double_quotient_def Let_def t(1)
      by (simp only: down [OF t(2)] if_True if_False simp_thms) (simp add: down [OF t(2)])
  next
    case False
    then have "(a * 2 ^ ?t div b + 1) * b \<le> 2 ^ 53 * b" using assms by (intro mult_right_mono) simp_all
    then have "a * 2 ^ ?t < 2 ^ 53 * b"
      using div_mult_mod_eq [of "a * 2 ^ ?t" b] pos_mod_bound [of b "a * 2 ^ ?t"] assms
      unfolding distrib_right mult_1_left by linarith
    then show ?thesis
      using False lower assms that [of ?t] unfolding double_quotient_def Let_def t(1) by simp
  qed
qed

section \<open>The bars\<close>

lemma double_quotient_le_1:
  assumes "0 \<le> a" "a \<le> b" "0 < b"
  obtains m s where "double_quotient a b = (m, int s)" "m \<le> 2 ^ s"
proof (cases "a = 0")
  case True
  then show ?thesis using that [of 0 0] by (simp add: double_quotient_def)
next
  case False
  then obtain s where s: "double_quotient a b = (round_half_even (a * 2 ^ s) b, int s)"
    using double_quotient_cases [of a b] assms by auto
  have "a * 2 ^ s \<le> 2 ^ s * b" using assms(2) by (simp add: mult.commute mult_right_mono)
  then show ?thesis using that [OF s] round_half_even_le [of b "a * 2 ^ s" "2 ^ s"] assms(3) by simp
qed

lemma bar_fill_total:
  assumes "0 \<le> val" "val \<le> max_v"
  obtains n where "bar_fill val max_v = Some n" "n \<le> height"
proof (cases "0 < max_v")
  case True
  have "(2 :: int) ^ 0 \<le> to_double max_v" using True by (intro to_double_lower) simp
  then obtain m s where q: "double_quotient (to_double val) (to_double max_v) = (m, int s)" "m \<le> 2 ^ s"
    using double_quotient_le_1 [of "to_double val" "to_double max_v"] to_double_mono [OF assms]
      to_double_nonneg [OF assms(1)] by auto
  then have "std_round (m * int height) (int s) \<le> int height" by (intro std_round_le) (simp_all add: height_def)
  then show ?thesis using that True q(1) by (simp add: bar_fill_def height_def Let_def)
next
  case False
  then show ?thesis using that by (simp add: bar_fill_def)
qed

lemma bar_fill_ends: "0 < max_v \<Longrightarrow> bar_fill max_v max_v = Some height" "bar_fill 0 max_v = Some 0"
proof -
  assume max: "0 < max_v"
  let ?b = "to_double max_v"
  have b: "0 < ?b" using to_double_lower [of 0 max_v] max by simp
  then obtain s where s: "double_quotient ?b ?b = (round_half_even (?b * 2 ^ s) ?b, int s)"
    using double_quotient_cases [of ?b ?b] by auto
  moreover have "round_half_even (?b * 2 ^ s) ?b = 2 ^ s" using b by simp
  moreover have "std_round (2 ^ s * 8) (int s) = 8" using std_round_exact [of "int s" 8] by (simp add: mult.commute)
  ultimately show "bar_fill max_v max_v = Some height" using max by (simp add: bar_fill_def height_def)
next
  show "bar_fill 0 max_v = Some 0"
    by (simp add: bar_fill_def to_double_small double_quotient_def std_round_def)
qed

text \<open>A fuller bucket never has a lower bar.\<close>

lemma std_round_mono:
  assumes "m * 2 ^ t \<le> m' * 2 ^ s"
  shows "std_round m (int s) \<le> std_round m' (int t)"
proof -
  have scale: "std_round m (int s) = (2 * (m * 2 ^ t) + 2 ^ s * 2 ^ t) div (2 * (2 ^ s * 2 ^ t))" for m s t
  proof -
    have "(2 ^ t * (2 * m + 2 ^ s)) div (2 ^ t * (2 * 2 ^ s)) = (2 * m + 2 ^ s) div (2 * 2 ^ s :: int)"
      by (rule div_mult_mult1) simp
    moreover have "2 ^ t * (2 * m + 2 ^ s) = 2 * (m * 2 ^ t) + 2 ^ s * (2 :: int) ^ t"
      "2 ^ t * (2 * 2 ^ s) = 2 * (2 ^ s * (2 :: int) ^ t)" by (simp_all add: algebra_simps)
    ultimately show ?thesis by (simp add: std_round_def)
  qed
  have "(2 * (m * 2 ^ t) + 2 ^ s * 2 ^ t) div (2 * (2 ^ s * 2 ^ t)) \<le> (2 * (m' * 2 ^ s) + 2 ^ s * 2 ^ t) div (2 * (2 ^ s * 2 ^ t))"
    using assms by (intro zdiv_mono1) simp_all
  then show ?thesis using scale [of m s t] scale [of m' t s] by (simp add: mult.commute)
qed

lemma double_quotient_mono:
  assumes "0 < a" "a \<le> a'" "a' \<le> b"
  obtains m s m' s' where "double_quotient a b = (m, int s)" "double_quotient a' b = (m', int s')" "m * 2 ^ s' \<le> m' * 2 ^ s"
proof -
  have b: "0 < b" using assms by simp
  obtain s where s: "double_quotient a b = (round_half_even (a * 2 ^ s) b, int s)"
    "2 ^ 52 * b \<le> a * 2 ^ s" "a * 2 ^ s < 2 ^ 53 * b" using double_quotient_cases [of a b] assms by auto
  obtain s' where s': "double_quotient a' b = (round_half_even (a' * 2 ^ s') b, int s')"
    "2 ^ 52 * b \<le> a' * 2 ^ s'" "a' * 2 ^ s' < 2 ^ 53 * b" using double_quotient_cases [of a' b] assms by auto
  have "\<not> s < s'"
  proof
    assume "s < s'"
    then have "(2 :: int) ^ Suc s \<le> 2 ^ s'" by (intro power_increasing) simp_all
    then have "a * 2 ^ Suc s \<le> a' * 2 ^ s'" using assms by (intro mult_mono) simp_all
    then show False using s(2) s'(3) by simp
  qed
  then consider "s = s'" | "s' < s" by linarith
  then show ?thesis
  proof cases
    case 1
    have "round_half_even (a * 2 ^ s) b \<le> round_half_even (a' * 2 ^ s) b"
      using assms b by (intro round_half_even_mono mult_right_mono) simp_all
    then show ?thesis using that [OF s(1) s'(1)] 1 by simp
  next
    case 2
    have up: "round_half_even (a * 2 ^ s) b \<le> 2 ^ 53" using s(3) b by (intro round_half_even_le) simp_all
    have "2 ^ 52 * b div b \<le> a' * 2 ^ s' div b" using s'(2) b by (intro zdiv_mono1) simp_all
    then have "2 ^ 52 \<le> a' * 2 ^ s' div b" using b by simp
    then have low: "2 ^ 52 \<le> round_half_even (a' * 2 ^ s') b" using round_half_even_bounds(1) order_trans by blast
    have "round_half_even (a * 2 ^ s) b * 2 ^ s' \<le> 2 ^ 53 * 2 ^ s'" using up by (intro mult_right_mono) simp_all
    also have "\<dots> = 2 ^ 52 * (2 :: int) ^ Suc s'" by simp
    also have "\<dots> \<le> 2 ^ 52 * 2 ^ s" using 2 by (intro mult_left_mono power_increasing) simp_all
    also have "\<dots> \<le> round_half_even (a' * 2 ^ s') b * 2 ^ s" using low by (intro mult_right_mono) simp_all
    finally show ?thesis using that [OF s(1) s'(1)] by simp
  qed
qed

lemma bar_fill_mono:
  assumes "0 \<le> v" "v \<le> v'" "v' \<le> max_v" "bar_fill v max_v = Some n" "bar_fill v' max_v = Some n'"
  shows "n \<le> n'"
proof (cases "0 < v")
  case True
  have max: "0 < max_v" using True assms by simp
  have "0 < to_double v" using to_double_lower [of 0 v] True by simp
  then obtain m s m' s' where q: "double_quotient (to_double v) (to_double max_v) = (m, int s)"
    "double_quotient (to_double v') (to_double max_v) = (m', int s')" "m * 2 ^ s' \<le> m' * 2 ^ s"
    using double_quotient_mono [OF _ to_double_mono [OF assms(1,2)] to_double_mono [OF _ assms(3)]] assms(1,2)
    by (metis order_trans)
  have "m * int height * 2 ^ s' \<le> m' * int height * 2 ^ s" using q(3) by (simp add: height_def)
  then have "std_round (m * int height) (int s) \<le> std_round (m' * int height) (int s')" by (rule std_round_mono)
  then show ?thesis using assms(4,5) max q by (auto simp: bar_fill_def Let_def height_def split: if_splits)
next
  case False
  then have "v = 0" using assms(1) by simp
  then show ?thesis using assms(4) bar_fill_ends(2) [of max_v] by simp
qed

section \<open>The labels of the axis\<close>

lemma label_top: "label_value 7 max_v = (let v = std_round (to_double (2 ^ 52 * to_double max_v)) 52 in if v < 2 ^ 64 then Some (nat v) else None)"
proof -
  have "double_quotient 7 7 = (2 ^ 52, 52)"
    by (simp add: double_quotient_def bit_width.simps round_half_even_def Let_def)
  then show ?thesis by (simp add: label_value_def height_def)
qed

lemma std_round_bounds: "0 \<le> s \<Longrightarrow> q * 2 ^ nat s \<le> m \<Longrightarrow> q \<le> std_round m s"
  using std_round_mono [of "q * 2 ^ nat s" "nat s" m "nat s"] std_round_exact [of s q] by simp

lemma y_axis_loop_rows:
  "y_axis_loop (rev [0..<height]) 0 max_v =
     (case label_value 7 max_v of None \<Rightarrow> None
      | Some highest \<Rightarrow>
          (case y_axis_text highest of None \<Rightarrow> None
           | Some top_lab \<Rightarrow>
               (case label_value 3 max_v of None \<Rightarrow> None
                | Some middle \<Rightarrow>
                    (case y_axis_text middle of None \<Rightarrow> None
                     | Some lab \<Rightarrow> Some ([top_lab] @ replicate 3 (blanks y_label_width) @ [lab] @ replicate 3 (blanks y_label_width))))))"
proof -
  have rows: "rev [0..<height] = [7, 6, 5, 4, 3, 2, 1, 0]" by (simp add: height_def upt_rec)
  show ?thesis unfolding rows by (simp add: eval_nat_numeral split: option.splits)
qed

lemma label_top_small:
  assumes "0 \<le> max_v" "max_v < 2 ^ 53"
  shows "label_value 7 max_v = Some (nat max_v)"
proof -
  have "to_double (2 ^ 52 * to_double max_v) = max_v * 2 ^ nat 52"
    using to_double_scale [OF assms, of 52] assms by (simp add: to_double_small mult.commute)
  then have "std_round (to_double (2 ^ 52 * to_double max_v)) 52 = max_v"
    using std_round_exact [of 52 max_v] by simp
  then show ?thesis using assms by (simp only: label_top Let_def) simp
qed

lemma label_top_large:
  assumes "2 ^ 53 \<le> max_v" "label_value 7 max_v = Some v"
  shows "2 ^ 53 \<le> v"
proof -
  have "(2 :: int) ^ 52 * 2 ^ 53 \<le> 2 ^ 52 * to_double max_v"
    using to_double_lower [OF assms(1)] by (intro mult_left_mono) simp_all
  then have "2 ^ 105 \<le> to_double (2 ^ 52 * to_double max_v)" by (intro to_double_lower) simp
  then have "2 ^ 53 \<le> std_round (to_double (2 ^ 52 * to_double max_v)) 52" by (intro std_round_bounds) simp_all
  then show ?thesis using assms(2) by (auto simp: label_top Let_def le_nat_iff split: if_splits)
qed

lemma label_middle_small:
  assumes "0 \<le> max_v" "max_v < 10 ^ 7"
  obtains v where "label_value 3 max_v = Some v" "v < 10 ^ 7"
proof -
  have q: "double_quotient 3 7 = (7720456504063707, 54)"
    by (simp add: double_quotient_def bit_width.simps round_half_even_def Let_def)
  let ?p = "to_double (7720456504063707 * max_v)"
  have "?p \<le> 2 * (7720456504063707 * max_v)" using assms(1) by (intro to_double_upper) simp
  then have "?p \<le> (10 ^ 7 - 1) * 2 ^ nat 54" using assms by simp
  then have "std_round ?p 54 \<le> 10 ^ 7 - 1" by (intro std_round_le) simp_all
  moreover have "0 \<le> ?p" using assms(1) by (intro to_double_nonneg) simp
  then have "0 \<le> std_round ?p 54" by (intro std_round_bounds) simp_all
  ultimately show ?thesis using that assms
    by (simp add: label_value_def height_def q to_double_small Let_def nat_less_iff)
qed

lemma y_axis_None:
  assumes "0 \<le> max_v"
  shows "y_axis_loop (rev [0..<height]) 0 max_v = None \<longleftrightarrow> 10 ^ 7 \<le> max_v"
proof (cases "max_v < 10 ^ 7")
  case True
  obtain v where v: "label_value 3 max_v = Some v" "v < 10 ^ 7" using label_middle_small [OF assms True] .
  have "y_axis_text (nat max_v) \<noteq> None" "y_axis_text v \<noteq> None"
    using True v(2) y_axis_text_None by (simp_all add: not_le nat_less_iff)
  then show ?thesis using True v label_top_small [of max_v] assms by (auto simp: y_axis_loop_rows)
next
  case False
  show ?thesis
  proof (cases "max_v < 2 ^ 53")
    case True
    have "y_axis_text (nat max_v) = None" using False y_axis_text_None [of "nat max_v"] by (simp add: le_nat_iff)
    then show ?thesis using False True assms by (simp add: y_axis_loop_rows label_top_small)
  next
    case large: False
    have "y_axis_text v = None" if "label_value 7 max_v = Some v" for v
      using label_top_large [OF _ that] large y_axis_text_None [of v] by simp
    then show ?thesis using False by (simp add: y_axis_loop_rows split: option.splits)
  qed
qed

lemma map_some_total: "\<forall>x \<in> set xs. f x \<noteq> None \<Longrightarrow> map_some f xs = Some (map (the \<circ> f) xs)"
  by (induction xs) (auto split: option.splits)

text \<open>With counts that fit, a histogram cannot be drawn exactly when a bucket has ten million entries.\<close>

lemma generate_histogram_None:
  assumes "buckets \<noteq> []" "\<forall>b \<in> set buckets. 0 \<le> b \<and> b < 2 ^ 64"
  shows "generate_histogram buckets title = None \<longleftrightarrow> (\<exists>b \<in> set buckets. 10 ^ 7 \<le> b)"
proof -
  let ?max = "Max (set buckets)"
  have in_set: "?max \<in> set buckets" using assms(1) by (intro Max_in) simp_all
  then have max: "0 \<le> ?max" "?max < 2 ^ 64" "?max mod 2 ^ 64 = ?max" using assms(2) by auto
  have "bar_fill (buckets ! i mod 2 ^ 64) ?max \<noteq> None" if "i < length buckets" for i
  proof -
    have mem: "buckets ! i \<in> set buckets" using that by simp
    then have "0 \<le> buckets ! i mod 2 ^ 64" "buckets ! i mod 2 ^ 64 \<le> ?max" using assms(2) by simp_all
    then obtain n where "bar_fill (buckets ! i mod 2 ^ 64) ?max = Some n" by (rule bar_fill_total)
    then show ?thesis by simp
  qed
  then have "map_some (\<lambda>i. map_option (hist_column i) (bar_fill (buckets ! i mod 2 ^ 64) ?max)) [0..<length buckets] \<noteq> None"
    by (subst map_some_total) auto
  then have "generate_histogram buckets title = None \<longleftrightarrow> y_axis_loop (rev [0..<height]) 0 ?max = None"
    unfolding generate_histogram_def Let_def max(3) by (auto split: option.splits)
  also have "\<dots> \<longleftrightarrow> 10 ^ 7 \<le> ?max" by (rule y_axis_None [OF max(1)])
  also have "\<dots> \<longleftrightarrow> (\<exists>b \<in> set buckets. 10 ^ 7 \<le> b)" using assms(1) by (simp add: Max_ge_iff)
  finally show ?thesis .
qed

end
