(* ===== verification/Terminal.thy ===== *)
theory Terminal
  imports Histogram
begin

text \<open>
  \<^verbatim>\<open>cli/create-numeric-display.h\<close> and the terminal interface in \<^verbatim>\<open>CLI::start_orchestrator_loop\<close>:
  its state, the sink the orchestrator calls, the keys, and what is drawn, as the texts
  given to the drawing library. A view is \<open>None\<close> where drawing it throws or is undefined.
\<close>

section \<open>Lines of numbers\<close>

datatype scheme = Plain | Scheme_Light_Teal | Scheme_Red

record number_line =
  nl_title :: string
  nl_value :: string
  nl_diff :: string
  nl_diff_color :: scheme

definition create_bytes_display :: "string \<Rightarrow> u64 \<Rightarrow> int \<Rightarrow> number_line option" where
  "create_bytes_display title value diff =
     (case (if diff > 0 then map_option (\<lambda>t. ('' +'' @ t, Scheme_Light_Teal)) (bytes_display_string diff)
            else Some ('' '', Plain)) of
        None \<Rightarrow> None
      | Some (diff_text, col) \<Rightarrow>
          map_option (\<lambda>t. \<lparr>nl_title = title, nl_value = t, nl_diff = diff_text, nl_diff_color = col\<rparr>)
            (bytes_display_string (sint value)))"

definition create_numeric_display :: "string \<Rightarrow> u64 \<Rightarrow> int \<Rightarrow> number_line" where
  "create_numeric_display title value diff =
     (let (diff_text, col) =
            (if diff > 0 then ('' +'' @ decimal_suffix_string diff, Scheme_Light_Teal)
             else if diff < 0 then ('' +'' @ decimal_suffix_string diff, Scheme_Red)
             else ('' '', Plain))
      in \<lparr>nl_title = title, nl_value = decimal_suffix_string (sint value), nl_diff = diff_text, nl_diff_color = col\<rparr>)"

section \<open>The state of the interface\<close>

datatype tui_mode = Totals | Deltas

record tui_state =
  tui_metrics :: metrics_aggregate
  tui_mode :: tui_mode

definition zero_delta :: metrics_delta where
  "zero_delta =
     \<lparr>md_bytes_sent = 0, md_bytes_read = 0, md_connection_attempts = 0, md_failed_connections = 0,
      md_finished_connections = 0, md_connected_sessions = 0,
      md_connection_latency_buckets = replicate NUM_BUCKETS 0,
      md_send_latency_buckets = replicate NUM_BUCKETS 0, md_read_latency_buckets = replicate NUM_BUCKETS 0\<rparr>"

definition new_tui_state :: tui_state where
  "new_tui_state = \<lparr>tui_metrics = \<lparr>ma_current = zero_snapshot, ma_change = zero_delta\<rparr>, tui_mode = Totals\<rparr>"

text \<open>What a handler does beside changing the state: in the order it does it.\<close>

datatype tui_effect = Early_Stop | Exit_Loop | Post_Event

datatype tui_event = Key_Character char | Key_Escape | Key_Right | Key_Left | Other_Event

text \<open>The handler of the main component: whether the event is consumed, the state and the effects.\<close>

definition catch_event :: "tui_event \<Rightarrow> tui_state \<Rightarrow> bool \<times> tui_state \<times> tui_effect list" where
  "catch_event event tui =
     (if event = Key_Character (CHR ''q'') \<or> event = Key_Character (CHR ''Q'') \<or> event = Key_Escape then
        (True, tui, [Early_Stop, Exit_Loop])
      else if event = Key_Right then
        (True, if tui_mode tui = Totals then tui\<lparr>tui_mode := Deltas\<rparr> else tui, [Post_Event])
      else if event = Key_Left then
        (True, if tui_mode tui = Deltas then tui\<lparr>tui_mode := Totals\<rparr> else tui, [Post_Event])
      else (False, tui, []))"

definition metric_sink_tui :: "metrics_aggregate \<Rightarrow> tui_state \<Rightarrow> tui_state \<times> tui_effect list" where
  "metric_sink_tui data tui = (tui\<lparr>tui_metrics := data\<rparr>, [Post_Event])"

section \<open>What is drawn\<close>

record view =
  vw_bytes :: "number_line list"
  vw_connections :: "number_line list"
  vw_hist :: histogram
  vw_send_hist :: histogram
  vw_read_hist :: histogram
  vw_footer :: string

text \<open>The three lists of buckets of the mode, with their titles.\<close>

definition shown_buckets :: "tui_state \<Rightarrow> (int list \<times> string) list" where
  "shown_buckets tui =
     (let totals = ma_current (tui_metrics tui); deltas = ma_change (tui_metrics tui)
      in if tui_mode tui = Totals then
           [(map uint (ms_connection_latency_buckets totals), ''Connection Latency (totals)''),
            (map uint (ms_send_latency_buckets totals), ''Send Latency (totals)''),
            (map uint (ms_read_latency_buckets totals), ''Read Latency (totals)'')]
         else
           [(md_connection_latency_buckets deltas, ''Connection Latency (latest)''),
            (md_send_latency_buckets deltas, ''Send Latency (latest)''),
            (md_read_latency_buckets deltas, ''Read Latency (latest)'')])"

definition bytes_box :: "metrics_snapshot \<Rightarrow> metrics_delta \<Rightarrow> number_line list option" where
  "bytes_box totals deltas =
     map_some (\<lambda>(title, value, diff). create_bytes_display title value diff)
       [(''sent: '', ms_bytes_sent totals, md_bytes_sent deltas),
        (''read: '', ms_bytes_read totals, md_bytes_read deltas)]"

definition connections_box :: "metrics_snapshot \<Rightarrow> metrics_delta \<Rightarrow> number_line list" where
  "connections_box totals deltas =
     [create_numeric_display ''active: '' (ms_connected_sessions totals) (md_connected_sessions deltas),
      create_numeric_display ''attempted: '' (ms_connection_attempts totals) (md_connection_attempts deltas),
      create_numeric_display ''failed: '' (ms_failed_connections totals) (md_failed_connections deltas),
      create_numeric_display ''successful: '' (ms_finished_connections totals) (md_finished_connections deltas)]"

definition tui_renderer :: "tui_state \<Rightarrow> view option" where
  "tui_renderer tui =
     (let totals = ma_current (tui_metrics tui); deltas = ma_change (tui_metrics tui)
      in case bytes_box totals deltas of
           None \<Rightarrow> None
         | Some bytes \<Rightarrow>
             (case map_some (\<lambda>(buckets, title). generate_histogram buckets title) (shown_buckets tui) of
                Some [hist, send_hist, read_hist] \<Rightarrow>
                  Some \<lparr>vw_bytes = bytes, vw_connections = connections_box totals deltas, vw_hist = hist,
                        vw_send_hist = send_hist, vw_read_hist = read_hist,
                        vw_footer = ''Press q to quit, Left / Right arrows to cycle histograms.''\<rparr>
              | _ \<Rightarrow> None))"

section \<open>When a view cannot be drawn\<close>

lemma map_some_None: "map_some f xs = None \<longleftrightarrow> (\<exists>x \<in> set xs. f x = None)"
  by (induction xs) (auto split: option.splits)

lemma map_some_length: "map_some f xs = Some ys \<Longrightarrow> length ys = length xs"
  by (induction xs arbitrary: ys) (auto split: option.splits)

lemma create_bytes_display_None:
  "create_bytes_display title value diff = None \<longleftrightarrow> 1024 ^ 5 \<le> sint value \<or> 1024 ^ 5 \<le> diff"
  using bytes_display_None [of "sint value"] bytes_display_None [of diff]
  by (cases "bytes_display_string diff") (auto simp: create_bytes_display_def)

lemma bytes_box_None:
  "bytes_box totals deltas = None \<longleftrightarrow>
     (\<exists>v \<in> {sint (ms_bytes_sent totals), sint (ms_bytes_read totals), md_bytes_sent deltas, md_bytes_read deltas}.
        1024 ^ 5 \<le> v)"
  unfolding bytes_box_def map_some_None by (auto simp: create_bytes_display_None)

lemma tui_renderer_None:
  "tui_renderer tui = None \<longleftrightarrow>
     bytes_box (ma_current (tui_metrics tui)) (ma_change (tui_metrics tui)) = None
     \<or> (\<exists>(buckets, title) \<in> set (shown_buckets tui). generate_histogram buckets title = None)"
proof -
  let ?hists = "map_some (\<lambda>(buckets, title). generate_histogram buckets title) (shown_buckets tui)"
  have "?hists = Some ys \<Longrightarrow> length ys = 3" for ys
    by (simp add: map_some_length shown_buckets_def Let_def)
  then have "?hists = Some ys \<Longrightarrow> \<exists>a b c. ys = [a, b, c]" for ys
    unfolding numeral_3_eq_3 length_Suc_conv by fastforce
  then have "tui_renderer tui = None \<longleftrightarrow>
     bytes_box (ma_current (tui_metrics tui)) (ma_change (tui_metrics tui)) = None \<or> ?hists = None"
    by (cases ?hists) (fastforce simp: tui_renderer_def Let_def split: option.splits)+
  then show ?thesis by (simp add: map_some_None case_prod_beta)
qed

end
