(* ===== verification/Console_Properties.thy ===== *)
theory Console_Properties
  imports CLI_Correct Terminal Sample_File
begin

text \<open>
  The properties of the log, the command line and the terminal interface.
\<close>

section \<open>The log\<close>

text \<open>C28: the log neither loses, reorders nor repeats entries, and it never drops an error. In
  any run, with pushes from any threads, changes of the level and pauses between any two steps
  of the worker, what is printed is a subsequence of what was pushed; when nothing is left to
  print, every error pushed has been printed; and while the level stays as it was set at the
  start, the output and what is still to come are exactly the entries the level lets through.\<close>

theorem log_keeps_order_and_errors:
  assumes "log_run l evs lg"
  shows "subseq (lg_output lg) (map entry_text (pushed evs))
     \<and> (lg_processing lg = [] \<and> lg_queue lg = [] \<longrightarrow> subseq (map entry_text (errors (pushed evs))) (lg_output lg))
     \<and> ((\<forall>l'. Log_Level l' \<notin> set evs) \<longrightarrow>
          lg_output lg @ shown l (lg_processing lg @ lg_queue lg) = shown l (pushed evs))"
proof -
  obtain finished where f: "log_inv (pushed evs) finished lg" using log_run_inv [OF assms] by blast
  then have "subseq (lg_output lg) (map entry_text finished @ map entry_text (lg_processing lg @ lg_queue lg))"
    by (simp add: log_inv_def list_emb_prefix)
  then show ?thesis using f log_run_shows [OF assms] by (simp add: log_inv_def)
qed

text \<open>A line of information that is dropped since the level rises before it is printed, and an error that is not.\<close>

definition quiet_events :: "log_event list" where
  "quiet_events = [Log_Push Level_INFO ''v'', Log_Push Level_ERROR ''e'', Log_Level Level_WARN, Log_Work, Log_Work, Log_Work]"

lemma quiet_run:
  "\<exists>lg. log_run Level_INFO quiet_events lg \<and> lg_output lg = [entry_text \<lparr>le_level = Level_ERROR, le_msg = ''e''\<rparr>]
     \<and> lg_processing lg = [] \<and> lg_queue lg = []"
proof -
  have "log_run Level_INFO ((((((([] @ [Log_Push Level_INFO ''v'']) @ [Log_Push Level_ERROR ''e'']) @ [Log_Level Level_WARN])
      @ [Log_Work]) @ [Log_Work]) @ [Log_Work]))
    \<lparr>lg_level = Level_WARN, lg_running = True, lg_notify = True, lg_queue = [], lg_worker = Printing, lg_processing = [],
     lg_output = [entry_text \<lparr>le_level = Level_ERROR, le_msg = ''e''\<rparr>]\<rparr>"
    by (rule log_run.intros | simp add: logger_init_def push_message_def set_level_def worker_step_def should_wake_def
        less_log_level_def Let_def)+
  then show ?thesis by (fastforce simp: quiet_events_def)
qed

theorem log_keeps_order_and_errors_witness:
  "\<exists>lg. log_run Level_INFO quiet_events lg
     \<and> subseq [entry_text \<lparr>le_level = Level_ERROR, le_msg = ''e''\<rparr>] (lg_output lg)"
proof -
  obtain lg where lg: "log_run Level_INFO quiet_events lg" "lg_processing lg = []" "lg_queue lg = []"
    using quiet_run by blast
  then show ?thesis
    using log_keeps_order_and_errors [OF lg(1)] by (auto simp: quiet_events_def pushed_def)
qed

text \<open>C29: after \<^verbatim>\<open>shutdown\<close> the worker, left to itself, prints all that is left and returns. It needs
  at most as many steps as there are entries, and four more, also when the log is paused.\<close>

theorem log_drains_at_shutdown:
  assumes "log_run l evs lg" "\<not> lg_running lg" "lg_worker lg \<noteq> Ended"
  shows "\<exists>n \<le> length (lg_processing lg) + length (lg_queue lg) + 4. \<exists>lg'. worker_steps n lg = Some lg'
     \<and> lg_worker lg' = Ended \<and> lg_queue lg' = []
     \<and> lg_output lg' = lg_output lg @ shown (lg_level lg) (lg_processing lg @ lg_queue lg)"
proof (rule worker_drains [OF assms(3) _ assms(2)])
  show "lg_worker lg = Waiting \<Longrightarrow> lg_processing lg = []"
    using log_run_inv [OF assms(1)] by (auto simp: log_inv_def)
qed

lemma shutdown_run:
  "log_run Level_INFO [Log_Push Level_INFO ''v'', Log_Pause, Log_Shutdown]
    \<lparr>lg_level = Level_INFO, lg_running = False, lg_notify = False, lg_queue = [\<lparr>le_level = Level_INFO, le_msg = ''v''\<rparr>],
     lg_worker = Waiting, lg_processing = [], lg_output = []\<rparr>"
proof -
  have "log_run Level_INFO ((([] @ [Log_Push Level_INFO ''v'']) @ [Log_Pause]) @ [Log_Shutdown])
    \<lparr>lg_level = Level_INFO, lg_running = False, lg_notify = False, lg_queue = [\<lparr>le_level = Level_INFO, le_msg = ''v''\<rparr>],
     lg_worker = Waiting, lg_processing = [], lg_output = []\<rparr>"
    by (rule log_run.intros | simp add: logger_init_def push_message_def pause_def logger_shutdown_def)+
  then show ?thesis by simp
qed

theorem log_drains_at_shutdown_witness:
  "\<exists>n lg'. n \<le> 5 \<and> worker_steps n
      \<lparr>lg_level = Level_INFO, lg_running = False, lg_notify = False, lg_queue = [\<lparr>le_level = Level_INFO, le_msg = ''v''\<rparr>],
       lg_worker = Waiting, lg_processing = [], lg_output = []\<rparr> = Some lg'
     \<and> lg_worker lg' = Ended \<and> lg_output lg' = [entry_text \<lparr>le_level = Level_INFO, le_msg = ''v''\<rparr>]"
  using log_drains_at_shutdown [OF shutdown_run] by auto

section \<open>The command line\<close>

text \<open>C18: no orchestrator runs without consent. Whenever the process starts one on a plan, on
  either thread, the options were parsed, the script was read and validated, the plan was
  generated from it, it is no dry run, and either the responsibility was acknowledged on the
  command line or the warning and the plan's endpoints were logged, a line was read and it is
  exactly \<^verbatim>\<open>I UNDERSTAND\<close>, all before the start.\<close>

theorem orchestrator_needs_consent:
  assumes "main_program env op_desc p start = (es, st)" "e \<in> set es" "e = Run_Orchestrator plan \<or> e = Start_Thread plan"
  shows "\<exists>co script late. p = Options_Stored False False co \<and> cli_script env co = Inr script
     \<and> generate_for env (script_options co) script = Inr (plan, late) \<and> \<not> co_dry_run co
     \<and> (co_acknowledged co \<or> ce_input env = ''I UNDERSTAND'' \<and> subseq (asked_for plan @ [e]) es)"
proof (cases rule: main_program_cases [OF assms(1), case_names early failed ran])
  case (early parsed r)
  then have "e \<in> set parsed" using assms(2,3) by auto
  then show ?thesis using early(1) assms(3) by (auto simp: parse_cli_def split: option_parse.splits if_splits)
next
  case (failed what)
  then show ?thesis using assms(2,3) by auto
next
  case (ran co fs)
  then have in_fs: "e \<in> set fs" "starts plan e" using assms(2,3) by (auto simp: starts_def split: exit_status.splits)
  then obtain script where script: "cli_script env co = Inr script"
    "execute_script env co (script_options co) script = (fs, st)"
    using ran(3) by (auto simp: cli_run_def split: sum.splits)
  have "subseq (asked_for plan @ [e]) fs \<Longrightarrow> subseq (asked_for plan @ [e]) es"
    using ran(4) by (auto intro: list_emb_append2 list_emb_prefix)
  then show ?thesis using execute_script_consent [OF script(2) in_fs] script(1) ran(1) by blast
qed

text \<open>C27: the status tells whether an error was logged. When the process returns, its status is 1
  if the main thread logged an error and 0 if not. Reading, checking and planning the script, the
  dry run and the question never read past a vector: the process does what C++ leaves undefined
  only when, not in a dry run, the orchestrator on the generated plan or, without \<^verbatim>\<open>--quiet\<close>,
  the terminal that shows it does (as on a plan that does not begin with CREATE, on payloads with
  fields out of order, or on a pebibyte). It is terminated only without \<^verbatim>\<open>--quiet\<close>, when an
  exception leaves the terminal's loop while the orchestrator's thread runs.\<close>

theorem status_tells_errors:
  assumes "main_program env op_desc p start = (es, st)"
  shows "(\<forall>n. st = Exits n \<longrightarrow> n = (if list_ex is_error es then 1 else 0))
     \<and> (st = Undefined \<longrightarrow> (\<exists>co script plan late. p = Options_Stored False False co \<and> \<not> co_dry_run co
          \<and> cli_script env co = Inr script \<and> generate_for env (script_options co) script = Inr (plan, late)
          \<and> (ce_construct env plan = Call_Undefined \<or> ce_run env plan = Call_Undefined
             \<or> \<not> co_quiet co \<and> ce_screen env plan = Call_Undefined)))
     \<and> (st = Terminated \<longrightarrow> (\<exists>co plan what. p = Options_Stored False False co \<and> \<not> co_quiet co
          \<and> Start_Thread plan \<in> set es \<and> ce_screen env plan = Call_Throws what))"
proof (cases rule: main_program_cases [OF assms, case_names early failed ran])
  case (early parsed r)
  then show ?thesis
    by (auto simp: parse_cli_def status_code_def good_parse_def split: option_parse.splits if_splits)
next
  case (failed what)
  then show ?thesis by simp
next
  case (ran co fs)
  have status: "status_matches fs st" using cli_run_status [OF ran(3)] by simp
  have undef: "\<exists>script plan late. \<not> co_dry_run co \<and> cli_script env co = Inr script
      \<and> generate_for env (script_options co) script = Inr (plan, late) \<and> run_undefined env co plan" if "st = Undefined"
    using cli_run_status [OF ran(3)] that by blast
  have es: "list_ex is_error es = list_ex is_error fs" "set fs \<subseteq> set es"
    using ran(4) by (auto split: exit_status.splits)
  have "\<exists>plan what. \<not> co_quiet co \<and> Start_Thread plan \<in> set es \<and> ce_screen env plan = Call_Throws what" if "st = Terminated"
    using ran(3) that cli_run_terminated es(2) by blast
  then show ?thesis using status undef ran(1) unfolding status_matches_def es(1) run_undefined_def by blast
qed

text \<open>The sample script, run with and without an answer.\<close>

definition sample_cli :: "string \<Rightarrow> cli_env" where
  "sample_cli input =
     \<lparr>ce_os = script_os, ce_uninit = (7, 9, 0, 0), ce_can_allocate = (\<lambda>_. True), ce_dns = (\<lambda>_ _. [sample_endpoint]),
      ce_dns_error = (\<lambda>_ _. None), ce_compiles = (\<lambda>_. True), ce_input = input, ce_construct = (\<lambda>_. Call_Returns),
      ce_thread = (\<lambda>_. None), ce_run = (\<lambda>_. Call_Returns), ce_screen = (\<lambda>_. Call_Returns)\<rparr>"

definition sample_command :: cli_options where
  "sample_command = default_options\<lparr>co_script_file := ''s.ldsh'', co_quiet := True\<rparr>"

lemma sample_cli_script: "cli_script (sample_cli input) sample_command = Inr sample_script"
  using sample_parsed
  by (simp add: cli_script_def sample_cli_def sample_command_def default_options_def script_options_def sample_options_def)

lemma sample_main:
  "\<exists>plan. main_program (sample_cli input) [] (Options_Stored False False sample_command) None =
     (if input = ''I UNDERSTAND'' then
        ([Init_Log Level_INFO, Log Level_INFO VERSION_PRINTSTRING] @ asked_for plan
          @ [Set_Level Level_WARN, Log Level_INFO ([NEWLINE] @ ''Starting orchestrator loop''), Run_Orchestrator plan, Shutdown_Log],
         Exits 0)
      else
        ([Init_Log Level_INFO, Log Level_INFO VERSION_PRINTSTRING] @ asked_for plan
          @ [Log Level_INFO ([NEWLINE] @ ''Aborting''), Shutdown_Log], Exits 0))"
proof -
  obtain plan where plan: "generate_execution_plan_tcp script_os sample_options (\<lambda>_. True) 0 (\<lambda>_ _. [sample_endpoint])
      (\<lambda>_. True) sample_script = Inr plan" by (rule sample_tcp_plan)
  have opts: "script_options sample_command = sample_options" "st_session_protocol (ds_settings sample_script) = ''TCP''"
    by (simp_all add: script_options_def sample_command_def default_options_def sample_defs)
  have gen: "generate_for (sample_cli input) sample_options sample_script = Inr (plan, [])"
    using plan opts(2) by (simp add: generate_for_def sample_cli_def)
  have warn: "generation_warnings (sample_cli input) sample_options (ds_settings sample_script) = []"
    by (simp add: generation_warnings_def endpoint_warnings_def sample_cli_def split: sum.split)
  have "cli_run (sample_cli input) sample_command = execute_plan (sample_cli input) sample_command sample_script plan"
    using gen warn opts by (simp add: cli_run_def sample_cli_script execute_script_def split: prod.split)
  then show ?thesis
    by (intro exI [of _ plan])
      (simp add: main_program_def parse_cli_def good_parse_def sample_command_def default_options_def execute_plan_def
        request_acknowledgement_def asked_for_def start_plan_def start_orchestrator_loop_uninteractive_def sample_cli_def Let_def)
qed

theorem orchestrator_needs_consent_witness:
  "\<exists>plan es. main_program (sample_cli ''I UNDERSTAND'') [] (Options_Stored False False sample_command) None = (es, Exits 0)
     \<and> subseq (asked_for plan @ [Run_Orchestrator plan]) es"
proof -
  obtain plan es where es: "main_program (sample_cli ''I UNDERSTAND'') [] (Options_Stored False False sample_command) None = (es, Exits 0)"
    "Run_Orchestrator plan \<in> set es"
    using sample_main [of "''I UNDERSTAND''"] by fastforce
  from orchestrator_needs_consent [OF this, of plan] es(1) show ?thesis
    by (auto simp: sample_command_def default_options_def)
qed

theorem status_tells_errors_witness:
  "\<exists>es. main_program (sample_cli ''no'') [] (Options_Stored False False sample_command) None = (es, Exits 0)
     \<and> \<not> list_ex is_error es"
proof -
  obtain es where es: "main_program (sample_cli ''no'') [] (Options_Stored False False sample_command) None = (es, Exits 0)"
    using sample_main [of "''no''"] by fastforce
  from status_tells_errors [OF this] es show ?thesis by (auto split: if_splits)
qed

text \<open>C33: the dry run shows the plan. For a generated plan whose SENDs have copies, as the validator
  demands, the dry run never reads past the payloads and gives no warning; after its three
  opening lines there is one line per action, and the line of a SEND lists the operations of the
  first of the payloads made for it, which stand after the copies of all earlier SENDs.\<close>

theorem dry_run_shows_the_plan:
  assumes "generate_plan_common env opts ok uninit script factory host = Inr plan"
    and "\<forall>d \<in> set (or_actions (ds_orchestrator script)). act_type d = SEND \<longrightarrow> act_count d \<noteq> 0"
  defines "acts \<equiv> or_actions (ds_orchestrator script)"
  shows "\<exists>heading ls. dry_run plan script = Some (heading @ ls) \<and> length heading = 3 \<and> length ls = length acts
     \<and> list_all is_info (heading @ ls)
     \<and> (\<forall>k < length acts. act_type (acts ! k) = SEND \<longrightarrow>
          send_copies (take k acts) < length (pl_payloads plan)
          \<and> ls ! k = Log Level_INFO
               (send_line (pl_actions plan ! k) (acts ! k) (pl_payloads plan ! send_copies (take k acts))))"
proof -
  obtain ls where ls: "dry_run_loop (pl_payloads plan) (pl_actions plan) acts 0 = Some ls"
    "length ls = length acts" "list_all is_info ls"
    "\<And>k. k < length ls \<Longrightarrow> act_type (acts ! k) = SEND \<Longrightarrow>
       send_copies (take k acts) < length (pl_payloads plan)
       \<and> ls ! k = Log Level_INFO (send_line (pl_actions plan ! k) (acts ! k) (pl_payloads plan ! send_copies (take k acts)))"
    using dry_run_lines [OF assms(1,2)] unfolding acts_def by metis
  obtain a b c where "dry_run plan script = Some ([Log Level_INFO a, Log Level_INFO b, Log Level_INFO c] @ ls)"
    using ls(1) by (simp add: dry_run_def acts_def)
  then show ?thesis using ls(2-4) by (intro exI [of _ "[Log Level_INFO a, Log Level_INFO b, Log Level_INFO c]"] exI [of _ ls]) simp
qed

theorem dry_run_shows_the_plan_witness:
  "\<exists>effects. dry_run sample_plan sample_script = Some effects \<and> length effects = 6
     \<and> effects ! 5 = Log Level_INFO (send_line (pl_actions sample_plan ! 2) sample_send (pl_payloads sample_plan ! 0))"
proof -
  have "\<forall>d \<in> set (or_actions (ds_orchestrator sample_script)). act_type d = SEND \<longrightarrow> act_count d \<noteq> 0"
    by (simp add: sample_script_def) (simp add: sample_defs)
  from dry_run_shows_the_plan [OF sample_plan_generated this] obtain heading ls where
    r: "dry_run sample_plan sample_script = Some (heading @ ls)" "length heading = 3" "length ls = 3"
      "ls ! 2 = Log Level_INFO (send_line (pl_actions sample_plan ! 2) sample_send (pl_payloads sample_plan ! 0))"
    by (auto simp: sample_script_def)
  then show ?thesis by (intro exI [of _ "heading @ ls"]) (simp add: nth_append)
qed

section \<open>The terminal interface\<close>

text \<open>C34: a view cannot be drawn exactly when a number is too large. With bucket counts that fit
  64 bits and are not negative, drawing throws or reads past an array exactly when one of the
  buckets shown has ten million entries or more, whose label does not fit its five columns, or a
  number of bytes is a pebibyte or more, for which there is no unit.\<close>

theorem view_fails_on_large_numbers:
  assumes "\<forall>(buckets, title) \<in> set (shown_buckets tui). buckets \<noteq> [] \<and> (\<forall>b \<in> set buckets. 0 \<le> b \<and> b < 2 ^ 64)"
  shows "tui_renderer tui = None \<longleftrightarrow>
     (\<exists>(buckets, title) \<in> set (shown_buckets tui). \<exists>b \<in> set buckets. 10 ^ 7 \<le> b)
     \<or> (\<exists>v \<in> {sint (ms_bytes_sent (ma_current (tui_metrics tui))), sint (ms_bytes_read (ma_current (tui_metrics tui))),
               md_bytes_sent (ma_change (tui_metrics tui)), md_bytes_read (ma_change (tui_metrics tui))}. 1024 ^ 5 \<le> v)"
proof -
  have "(\<exists>(buckets, title) \<in> set (shown_buckets tui). generate_histogram buckets title = None) \<longleftrightarrow>
      (\<exists>(buckets, title) \<in> set (shown_buckets tui). \<exists>b \<in> set buckets. 10 ^ 7 \<le> b)"
  proof (rule bex_cong [OF refl], clarify)
    fix buckets title
    assume "(buckets, title) \<in> set (shown_buckets tui)"
    then show "generate_histogram buckets title = None \<longleftrightarrow> (\<exists>b \<in> set buckets. 10 ^ 7 \<le> b)"
      using assms by (intro generate_histogram_None) auto
  qed
  then show ?thesis unfolding tui_renderer_None bytes_box_None by blast
qed

definition busy_tui :: tui_state where
  "busy_tui = new_tui_state\<lparr>tui_metrics := \<lparr>ma_current = zero_snapshot\<lparr>ms_send_latency_buckets := 10000000 # replicate 15 0\<rparr>,
     ma_change = zero_delta\<rparr>\<rparr>"

lemma busy_buckets:
  "shown_buckets busy_tui = [(replicate 16 0, ''Connection Latency (totals)''),
     (10000000 # replicate 15 0, ''Send Latency (totals)''), (replicate 16 0, ''Read Latency (totals)'')]"
  by (simp add: shown_buckets_def busy_tui_def new_tui_state_def zero_snapshot_def NUM_BUCKETS_def Let_def)

theorem view_fails_on_large_numbers_witness: "tui_renderer busy_tui = None"
  using view_fails_on_large_numbers [of busy_tui] by (simp add: busy_buckets)

text \<open>The bars of a histogram: whatever the rounding of the doubles, the bar of a bucket is
  at most the height, a fuller bucket never has a lower bar, the fullest bucket's is the height
  and an empty bucket has none.\<close>

lemma histogram_bars_monotone:
  assumes "0 \<le> v" "v \<le> v'" "v' \<le> max_v"
  shows "\<exists>n n'. bar_fill v max_v = Some n \<and> bar_fill v' max_v = Some n' \<and> n \<le> n' \<and> n' \<le> height
     \<and> bar_fill 0 max_v = Some 0 \<and> (0 < max_v \<longrightarrow> bar_fill max_v max_v = Some height)"
proof -
  obtain n where n: "bar_fill v max_v = Some n" using bar_fill_total [of v max_v] assms by force
  obtain n' where n': "bar_fill v' max_v = Some n'" "n' \<le> height" using bar_fill_total [of v' max_v] assms by force
  then show ?thesis
    using n bar_fill_mono [OF assms n n'(1)] bar_fill_ends(1) [of max_v] bar_fill_ends(2) [of max_v] by auto
qed

end
