(* ===== verification/Script_Run.thy ===== *)
theory Script_Run
  imports Orchestrator_Work Interpreted Plan_Correct
begin

text \<open>
  From a script to its sessions: the plan of a script the validator has accepted creates its
  sessions once, first, unless it begins with an action on no session at all; the calls a run of
  that plan makes are those the script's own actions ask for.
\<close>

section \<open>What the validator leaves open\<close>

lemma schedule_created_once:
  assumes "schedule_run ok n acts s = Some t" "sc_pool s \<noteq> 0"
  shows "\<forall>a \<in> set acts. act_type a \<noteq> CREATE"
  using assms
proof (induction acts arbitrary: s)
  case (Cons a acts)
  have a: "schedule_allows ok n a s" "schedule_run ok n acts (schedule_next a s) = Some t"
    using Cons.prems(1) by (auto split: if_splits)
  then have type: "act_type a \<noteq> CREATE" using Cons.prems(2) by (auto simp: schedule_allows_def)
  then have "sc_pool (schedule_next a s) \<noteq> 0"
    using Cons.prems(2) by (auto simp: schedule_next_def split: action_type.split)
  then show ?case using Cons.IH [OF a(2)] type by simp
qed simp

text \<open>Either the script creates its sessions once, first, or its first action ends at session 0.\<close>

definition creates_once :: "action list \<Rightarrow> bool" where
  "creates_once acts \<longleftrightarrow> acts \<noteq> [] \<and> act_type (hd acts) = CREATE \<and> (\<forall>a \<in> set (tl acts). act_type a \<noteq> CREATE)"

lemma accepted_creates_once:
  assumes "verify_script env opts d = Inr ()"
  defines "acts \<equiv> or_actions (ds_orchestrator d)"
  shows "acts \<noteq> []"
    and "creates_once acts \<or> act_type (hd acts) \<noteq> CREATE \<and> rng_second (act_range (hd acts)) = 0"
proof -
  show ne: "acts \<noteq> []"
    using assms(1) by (auto simp: acts_def verify_script_def verify_orchestrator_header_def Let_def result_simps)
  obtain v where v: "verify_actions env opts (ds_settings d) acts = Inr v"
    using assms(1) by (auto simp: acts_def verify_script_def result_simps Let_def)
  let ?ok = "payload_accepted env opts (ds_settings d)" and ?n = "unat (st_shards (ds_settings d))"
  obtain a as where acts: "acts = a # as" using ne by (cases acts) auto
  have run: "schedule_allows ?ok ?n a initial_schedule" "schedule_run ?ok ?n as (schedule_next a initial_schedule) = Some (schedule_of v)"
    using validator_schedule_run [OF v] by (auto simp: acts split: if_splits)
  show "creates_once acts \<or> act_type (hd acts) \<noteq> CREATE \<and> rng_second (act_range (hd acts)) = 0"
  proof (cases "act_type a = CREATE")
    case True
    have "0 < ?n" using verified_fields(1) [OF assms(1)] by (simp add: unat_gt_0)
    then have "sc_pool (schedule_next a initial_schedule) \<noteq> 0"
      using run(1) True by (simp add: schedule_allows_def schedule_next_def)
    then show ?thesis using schedule_created_once [OF run(2)] True by (simp add: creates_once_def acts)
  next
    case False
    then show ?thesis using run(1) by (simp add: schedule_allows_def initial_schedule_def acts unat_eq_0)
  qed
qed

section \<open>The descriptors of the actions\<close>

definition describes :: "u32 \<Rightarrow> action \<Rightarrow> action_descriptor \<Rightarrow> bool" where
  "describes uninit a d \<longleftrightarrow> (\<exists>w. d = describe_action uninit a w)"

definition script_call :: "action \<Rightarrow> pool_call" where
  "script_call a =
     (case act_type a of
        SEND \<Rightarrow> Call_Send (ucast (act_count a)) | FLOOD \<Rightarrow> Call_Flood | DRAIN \<Rightarrow> Call_Drain
      | DISCONNECT \<Rightarrow> Call_Stop | _ \<Rightarrow> Call_Start)"

lemma describes_fields:
  assumes "describes uninit a d"
  shows "ad_type d = act_type a" "ad_end d = rng_second (act_range a)"
    and "act_type a = CREATE \<Longrightarrow> ad_start d = 0 \<and> ad_count d = ad_end d"
    and "act_type a \<noteq> CREATE \<Longrightarrow> names_session j d \<longleftrightarrow> j \<in> action_sessions a"
    and "call_of d = script_call a"
  using assms
  by (cases "act_type a"; auto simp: describes_def describe_action_def Let_def make_create_def make_connect_def make_send_def
      make_flood_def make_drain_def make_disconnect_def names_session_def action_sessions_def script_call_def)+

lemma plan_describes:
  assumes "generate_plan_common env opts ok uninit script factory host = Inr plan"
  shows "list_all2 (describes uninit) (or_actions (ds_orchestrator script)) (pl_actions plan)"
proof -
  obtain st pb where pb: "foldE (plan_action uninit st) (or_actions (ds_orchestrator script)) empty_plan_builder = Inr pb"
    "pl_actions plan = pb_actions pb"
    using plan_common_Inr [OF assms] by metis
  then show ?thesis using plan_actions_ok [OF pb(1)] by (auto simp: list_all2_conv_all_nth describes_def)
qed

lemma described_calls:
  assumes "list_all2 (describes uninit) acts ds" "\<forall>a \<in> set acts. act_type a \<noteq> CREATE"
  shows "map call_of (filter (names_session j) ds) = map script_call (filter (\<lambda>a. j \<in> action_sessions a) acts)"
  using assms by (induction rule: list_all2_induct) (auto simp: describes_fields simp del: call_of.simps)

section \<open>Running the plan of a script\<close>

lemma plan_shards: 
  "generate_plan_common env opts ok uninit script factory host = Inr plan \<Longrightarrow>
   oc_shard_count (pl_config plan) = ucast (st_shards (ds_settings script))"
  by (auto simp: generate_plan_common_def bindE_Inr_iff Let_def)

text \<open>The plan of a script that creates its sessions once, as the orchestrator needs it.\<close>

lemma plan_creates:
  assumes "verify_script env opts script = Inr ()" "creates_once (or_actions (ds_orchestrator script))"
    and "generate_plan_common env opts ok uninit script factory host = Inr plan"
  obtains create rest where "pl_actions plan = create # rest" "0 < unat (oc_shard_count (pl_config plan))"
    "unat (oc_shard_count (pl_config plan)) < 2 ^ 32"
    "ad_type create = CREATE" "ad_start create = 0" "ad_count create = ad_end create"
    "ad_end create = rng_second (act_range (hd (or_actions (ds_orchestrator script))))"
    "\<forall>a \<in> set rest. ad_type a \<noteq> CREATE"
    "\<And>j. map call_of (filter (names_session j) rest) =
      map script_call (filter (\<lambda>a. j \<in> action_sessions a) (tl (or_actions (ds_orchestrator script))))"
proof -
  obtain a as where acts: "or_actions (ds_orchestrator script) = a # as" "act_type a = CREATE" "\<forall>b \<in> set as. act_type b \<noteq> CREATE"
    using assms(2) by (cases "or_actions (ds_orchestrator script)") (auto simp: creates_once_def)
  obtain create rest where pl: "pl_actions plan = create # rest" "describes uninit a create" "list_all2 (describes uninit) as rest"
    using plan_describes [OF assms(3)] by (auto simp: acts(1) list_all2_Cons1)
  have "0 < unat (st_shards (ds_settings script))" using verified_fields(1) [OF assms(1)] by (simp add: unat_gt_0)
  then have K: "0 < unat (oc_shard_count (pl_config plan))" "unat (oc_shard_count (pl_config plan)) < 2 ^ 32"
    using unat_u32_less [of "st_shards (ds_settings script)"] by (simp_all add: plan_shards [OF assms(3)] unat_ucast_u32_u64)
  have rest: "\<forall>d \<in> set rest. ad_type d \<noteq> CREATE"
    using pl(3) acts(3) by (induction rule: list_all2_induct) (auto simp: describes_fields)
  show thesis
    using that [OF pl(1) K _ _ _ _ rest] describes_fields [OF pl(2)] acts described_calls [OF pl(3) acts(3)] by auto
qed

lemma cut_ranges:
  assumes "0 < K" "K < 2 ^ 32" "k < K"
  obtains ranges where "compute_shard_ranges N (of_nat K) = Some (ranges, N)"
    "unat (fst (ranges ! k)) = cut (unat N) K k" "unat (snd (ranges ! k)) = cut (unat N) K (Suc k)"
proof -
  have K: "unat (of_nat K :: u32) = K" using assms(2) by (simp add: unat_of_nat)
  then have "(of_nat K :: u32) \<noteq> 0" using assms(1) by (metis unat_0 less_numeral_extra(3))
  note r = compute_shard_ranges_cut [OF this, of N, unfolded K]
  have "unat (of_nat (cut (unat N) K j) :: u32) = cut (unat N) K j" if "j \<le> K" for j
    using order_le_less_trans [OF cut_le [OF assms(1) that, of "unat N"] unat_u32_less] by (simp add: unat_of_nat)
  then show thesis using that [OF r] assms(3) by simp
qed

lemma script_run_calls:
  assumes "verify_script env opts script = Inr ()"
    and "generate_plan_common env opts ok uninit script factory host = Inr plan"
  defines "acts \<equiv> or_actions (ds_orchestrator script)" and "K \<equiv> unat (oc_shard_count (pl_config plan))"
  assumes "act_type (hd acts) = CREATE" "orchestrator_run False (pl_actions plan) K (now, st)"
    and "orc_current st = length (pl_actions plan)" "k < K" "actions_in (sh_posted (orc_shards st ! k)) = []"
  defines "first \<equiv> cut (unat (rng_second (act_range (hd acts)))) K"
  shows "po_sessions (sh_pool (orc_shards st ! k)) =
     map (\<lambda>l. map script_call (filter (\<lambda>a. first k + l \<in> action_sessions a) (tl acts))) [0..<first (Suc k) - first k]"
    and "\<forall>a \<in> set (tl acts). act_type a \<noteq> CREATE"
proof -
  have once: "creates_once acts" using accepted_creates_once [OF assms(1)] assms(5) unfolding acts_def by blast
  then show "\<forall>a \<in> set (tl acts). act_type a \<noteq> CREATE" by (simp add: creates_once_def)
  from once obtain create rest where plan: "pl_actions plan = create # rest" "0 < K" "K < 2 ^ 32"
      "ad_type create = CREATE" "ad_start create = 0" "ad_count create = ad_end create"
      "ad_end create = rng_second (act_range (hd acts))" "\<forall>a \<in> set rest. ad_type a \<noteq> CREATE"
      "\<And>j. map call_of (filter (names_session j) rest) = map script_call (filter (\<lambda>a. j \<in> action_sessions a) (tl acts))"
    using plan_creates [OF assms(1) _ assms(2)] unfolding acts_def K_def by metis
  let ?N = "ad_end create"
  have N: "first = cut (unat ?N) K" by (simp add: first_def plan(7))
  obtain ranges where ranges: "compute_shard_ranges ?N (of_nat K) = Some (ranges, ?N)"
    "unat (fst (ranges ! k)) = first k" "unat (snd (ranges ! k)) = first (Suc k)"
    using cut_ranges [OF plan(2,3) \<open>k < K\<close>, of ?N] N by metis
  show "po_sessions (sh_pool (orc_shards st ! k)) =
     map (\<lambda>l. map script_call (filter (\<lambda>a. first k + l \<in> action_sessions a) (tl acts))) [0..<first (Suc k) - first k]"
    using run_session_calls(3) [OF assms(6) [unfolded plan(1)] plan(2,3) \<open>k < K\<close> plan(4,5) refl plan(6,8) ranges(1)] assms(7,9)
    by (simp add: plan(1,9) ranges(2,3))
qed

lemma script_calls_of_actions:
  assumes "\<forall>a \<in> set acts. act_type a \<noteq> CREATE"
  shows "calls_sends (map script_call acts) = (\<Sum>a \<leftarrow> filter (\<lambda>a. act_type a = SEND) acts. ucast (act_count a))"
    and "count_list (map script_call acts) Call_Start = length (filter (\<lambda>a. act_type a = CONNECT) acts)"
  using assms by (induction acts) (auto simp: calls_sends_def script_call_def split: action_type.splits)

section \<open>An action before CREATE\<close>

text \<open>
  Until CREATE has run there are no ranges, and distributing another action reads the range of the
  first shard.
\<close>

lemma distribute_before_create:
  assumes "orc_ranges st = []" "0 < length (orc_shards st)" "ad_type a \<noteq> CREATE"
  shows "distribute_action_to_shards a st = None"
proof -
  obtain n where "length (orc_shards st) = Suc n" using assms(2) by (cases "length (orc_shards st)") auto
  then have "[0..<length (orc_shards st)] = 0 # [1..<Suc n]" by (simp add: upt_conv_Cons del: upt_Suc)
  then show ?thesis using assms by (simp add: distribute_action_to_shards_def)
qed

lemma dispatch_before_create:
  assumes "orc_current st = 0" "orc_actions st = a # as" "ad_type a \<noteq> CREATE"
    and "orc_ranges st = []" "0 < length (orc_shards st)" "target_time st a \<le> now"
  shows "dispatch_pending_actions now st = None"
  using assms distribute_before_create [of st a] by (simp add: dispatch_pending_actions_def)

text \<open>So in a run of such a plan no action is ever handed out, and the dispatch that finds the first one due is undefined.\<close>

definition before_create :: "action_descriptor list \<Rightarrow> nat \<Rightarrow> orchestrator \<Rightarrow> bool" where
  "before_create actions K st \<longleftrightarrow>
     orc_actions st = actions \<and> orc_current st = 0 \<and> orc_ranges st = [] \<and> length (orc_shards st) = K"

lemma dispatch_keeps_before:
  assumes "before_create (a # as) K st" "ad_type a \<noteq> CREATE" "0 < K" "dispatch_pending_actions now st = Some st'"
  shows "before_create (a # as) K st'"
proof -
  have "\<not> target_time st a \<le> now"
    using assms dispatch_before_create [of st a as now] by (auto simp: before_create_def)
  then have "st' = schedule_next_action (target_time st a) st"
    using assms by (auto simp: dispatch_pending_actions_def before_create_def)
  then show ?thesis using assms(1) by (simp add: before_create_def schedule_next_action_def)
qed

lemma orc_task_keeps_before:
  assumes "run_orc_next now st = Some st'" "before_create (a # as) K st" "ad_type a \<noteq> CREATE" "0 < K"
  shows "before_create (a # as) K st'"
proof -
  obtain t ts where t: "orc_posted st = t # ts" "run_orc_task now t (st\<lparr>orc_posted := ts\<rparr>) = Some st'"
    using assms(1) by (rule run_orc_nextE)
  have st: "before_create (a # as) K (st\<lparr>orc_posted := ts\<rparr>)" using assms(2) by (simp add: before_create_def)
  show ?thesis
  proof (cases "t = Dispatch_Actions")
    case True
    then show ?thesis using dispatch_keeps_before [OF st assms(3,4)] t(2) by (simp add: run_orc_task_def)
  next
    case False
    then show ?thesis using st t(2)
      by (cases t) (auto simp: run_orc_task_def before_create_def do_shutdown_def log_line_def do_request_metrics_def
          on_metrics_round_complete_def schedule_metrics_snapshot_def last_shard_closed_def Let_def)
  qed
qed

lemma orc_step_keeps_before:
  assumes "orc_step early x y" "before_create (a # as) K (snd x)" "ad_type a \<noteq> CREATE" "0 < K"
  shows "before_create (a # as) K (snd y)"
  using assms(1)
proof cases
  case o_own
  then show ?thesis
  proof cases
    case (o_task now now' st st')
    then show ?thesis using orc_task_keeps_before assms(2-4) by simp
  qed (use assms(2) in \<open>simp_all add: before_create_def dispatch_timer_expired_def metrics_timer_expired_def post_task_def\<close>)
qed (use assms(2) in \<open>auto simp: before_create_def set_shard_def shard_metrics_callback_def shard_exit_callback_def
    early_stop_def post_task_def Let_def\<close>)

lemma run_before_create:
  assumes "orchestrator_run early (a # as) K (now, st)" "ad_type a \<noteq> CREATE" "0 < K"
  shows "before_create (a # as) K st"
    and "orc_posted st = Dispatch_Actions # ts \<Longrightarrow> target_time st a \<le> now' \<Longrightarrow> run_orc_next now' st = None"
proof -
  obtain t st0 where run: "new_orchestrator (a # as) K = Some st0" "(orc_step early)\<^sup>*\<^sup>* (t, start_shards t st0) (now, st)"
    using assms(1) by (auto simp: orchestrator_run_def)
  have "before_create (a # as) K (snd (t, start_shards t st0))"
    using run(1) by (auto simp: new_orchestrator_def start_shards_def before_create_def schedule_metrics_snapshot_def
        post_task_def Let_def)
  with run(2) have "before_create (a # as) K (snd (now, st))"
    by (induction rule: rtranclp_induct) (blast intro: orc_step_keeps_before [OF _ _ assms(2,3)])+
  then show st: "before_create (a # as) K st" by simp
  show "run_orc_next now' st = None" if "orc_posted st = Dispatch_Actions # ts" "target_time st a \<le> now'"
  proof -
    have "dispatch_pending_actions now' (st\<lparr>orc_posted := ts\<rparr>) = None"
      using st that(2) assms(2,3) by (intro dispatch_before_create) (auto simp: before_create_def target_time_def)
    then show ?thesis using that(1) by (simp add: run_orc_next_def run_orc_task_def)
  qed
qed

end
