(* ===== verification/Program.thy ===== *)
theory Program
  imports Script_Run Pool_Sessions
begin

text \<open>
  The whole program at work: the orchestrator, its shards and every session of every shard. A
  shard's thread runs the shard's tasks and the handlers of its sessions; the sessions of all
  shards share the counters of the payloads, those of one shard its metrics and its message
  handler. Both views of it are recovered: what the orchestrator and its shards do is a run as in
  \<open>Orchestrator_Run\<close>, what one session does a run of that session.
\<close>

section \<open>The program and its steps\<close>

text \<open>Each session has its state and the events it has handled.\<close>

record ('ev, 'm, 'h) program =
  pg_now :: int
  pg_orc :: orchestrator
  pg_sessions :: "('ev list \<times> 'm session_scheme) list list"
  pg_manager :: payload_manager
  pg_handlers :: "'h list"

definition shard_at :: "nat \<Rightarrow> ('ev, 'm, 'h) program \<Rightarrow> shard" where
  "shard_at k pg = orc_shards (pg_orc pg) ! k"

text \<open>What the sessions of a shard share.\<close>

definition shard_context_at :: "nat \<Rightarrow> ('ev, 'm, 'h) program \<Rightarrow> 'h shard_context" where
  "shard_context_at k pg =
     \<lparr>cx_metrics = sh_metrics (shard_at k pg), cx_manager = pg_manager pg, cx_handler = pg_handlers pg ! k\<rparr>"

text \<open>A CREATE makes the pool's sessions.\<close>

definition sessions_after ::
  "'m session_scheme \<Rightarrow> shard_task \<Rightarrow> session_pool \<Rightarrow> ('ev list \<times> 'm session_scheme) list \<Rightarrow> ('ev list \<times> 'm session_scheme) list" where
  "sessions_after fresh t p ss =
     (case t of
        Task_Action a \<Rightarrow>
          let n = ucast (ad_end a - ad_start a)
          in if ad_type a = CREATE \<and> fst (create_sessions n p) then replicate (unat n) ([], fresh) else ss
      | _ \<Rightarrow> ss)"

text \<open>A session has handled an event: what it recorded, and its disconnects, reach the shard.\<close>

definition shard_after :: "'h shard_context \<Rightarrow> nat \<Rightarrow> shard \<Rightarrow> shard" where
  "shard_after cx d sh = (session_disconnected ^^ d) (session_recorded (cx_metrics cx) sh)"

text \<open>
  A step that leaves the pools and the metrics alone is one of the orchestrator's thread, a
  metrics pull, a timer, a failing or an ending thread; the others are a task of a shard and the
  handler of an event of one of its sessions.
\<close>

inductive program_step ::
  "bool \<Rightarrow> ('ev \<Rightarrow> pool_call option) \<Rightarrow> 'm session_scheme
    \<Rightarrow> ('ev \<Rightarrow> 'm session_scheme \<Rightarrow> 'h shard_context \<Rightarrow> 'm session_scheme \<Rightarrow> 'h shard_context \<Rightarrow> bool)
    \<Rightarrow> ('ev, 'm, 'h) program \<Rightarrow> ('ev, 'm, 'h) program \<Rightarrow> bool"
  for early calls fresh step where
  pr_threads: "orc_step early (pg_now pg, pg_orc pg) (now', st') \<Longrightarrow>
    map sh_pool (orc_shards st') = map sh_pool (orc_shards (pg_orc pg)) \<Longrightarrow>
    map sh_metrics (orc_shards st') = map sh_metrics (orc_shards (pg_orc pg)) \<Longrightarrow>
    program_step early calls fresh step pg (pg\<lparr>pg_now := now', pg_orc := st'\<rparr>)"
| pr_task: "k < length (orc_shards (pg_orc pg)) \<Longrightarrow> \<not> sh_closed (shard_at k pg) \<Longrightarrow> \<not> sh_stopped (shard_at k pg) \<Longrightarrow>
    sh_posted (shard_at k pg) = t # ts \<Longrightarrow> t \<noteq> Task_Metrics \<Longrightarrow> run_next (shard_at k pg) = Some sh' \<Longrightarrow>
    program_step early calls fresh step pg (pg\<lparr>pg_orc := set_shard k sh' (pg_orc pg),
      pg_sessions := (pg_sessions pg)[k := sessions_after fresh t (sh_pool (shard_at k pg)) (pg_sessions pg ! k)]\<rparr>)"
| pr_session: "k < length (orc_shards (pg_orc pg)) \<Longrightarrow> \<not> sh_closed (shard_at k pg) \<Longrightarrow> \<not> sh_stopped (shard_at k pg) \<Longrightarrow>
    l < length (pg_sessions pg ! k) \<Longrightarrow> pg_sessions pg ! k ! l = (evs, s) \<Longrightarrow>
    prefix (List.map_filter calls (evs @ [ev])) (po_sessions (sh_pool (shard_at k pg)) ! l) \<Longrightarrow>
    step ev s (shard_context_at k pg) s' cx' \<Longrightarrow>
    program_step early calls fresh step pg (pg\<lparr>
      pg_orc := set_shard k (shard_after cx' (ss_disconnects s' - ss_disconnects s) (shard_at k pg)) (pg_orc pg),
      pg_sessions := (pg_sessions pg)[k := (pg_sessions pg ! k)[l := (evs @ [ev], s')]],
      pg_manager := cx_manager cx', pg_handlers := (pg_handlers pg)[k := cx_handler cx']\<rparr>)"

definition program_start ::
  "int \<Rightarrow> orchestrator \<Rightarrow> payload_descriptor list \<Rightarrow> u16 list list \<Rightarrow> 'h list \<Rightarrow> ('ev, 'm, 'h) program" where
  "program_start t st ps steps hs =
     \<lparr>pg_now = t, pg_orc = start_shards t st, pg_sessions = replicate (length hs) [],
      pg_manager = new_payload_manager ps steps, pg_handlers = hs\<rparr>"

definition program_run ::
  "bool \<Rightarrow> ('ev \<Rightarrow> pool_call option) \<Rightarrow> 'm session_scheme
    \<Rightarrow> ('ev \<Rightarrow> 'm session_scheme \<Rightarrow> 'h shard_context \<Rightarrow> 'm session_scheme \<Rightarrow> 'h shard_context \<Rightarrow> bool)
    \<Rightarrow> action_descriptor list \<Rightarrow> payload_descriptor list \<Rightarrow> u16 list list \<Rightarrow> 'h list \<Rightarrow> ('ev, 'm, 'h) program \<Rightarrow> bool" where
  "program_run early calls fresh step actions ps steps hs pg \<longleftrightarrow>
     (\<exists>t st. new_orchestrator actions (length hs) = Some st
        \<and> (program_step early calls fresh step)\<^sup>*\<^sup>* (program_start t st ps steps hs) pg)"

section \<open>The orchestrator's view\<close>

lemma set_shard_twice [simp]: "set_shard k y (set_shard k x st) = set_shard k y st"
  by (simp add: set_shard_def)

lemma shard_after_open:
  assumes "\<not> sh_closed sh" "\<not> sh_stopped sh"
  shows "\<not> sh_closed (shard_after cx d sh)" "\<not> sh_stopped (shard_after cx d sh)"
proof -
  have "\<not> sh_closed (shard_after cx d sh) \<and> \<not> sh_stopped (shard_after cx d sh)"
  proof (induction d)
    case 0
    then show ?case using assms by (simp add: shard_after_def session_recorded_def)
  next
    case (Suc d)
    then show ?case
      by (simp add: shard_after_def session_disconnected_def set_pool_def on_pool_closed_def Let_def)
  qed
  then show "\<not> sh_closed (shard_after cx d sh)" "\<not> sh_stopped (shard_after cx d sh)" by simp_all
qed

lemma session_orc_steps:
  assumes "k < length (orc_shards st)" "\<not> sh_closed (orc_shards st ! k)" "\<not> sh_stopped (orc_shards st ! k)"
  shows "(orc_step early)\<^sup>*\<^sup>* (now, st) (now, set_shard k (shard_after cx d (orc_shards st ! k)) st)"
proof (induction d)
  case 0
  have "orc_step early (now, st) (now, set_shard k (session_recorded (cx_metrics cx) (orc_shards st ! k)) st)"
    using assms by (intro orc_step.o_shard thread_step.t_record)
  then show ?case by (simp add: shard_after_def r_into_rtranclp)
next
  case (Suc d)
  let ?sh = "shard_after cx d (orc_shards st ! k)" and ?st = "set_shard k (shard_after cx d (orc_shards st ! k)) st"
  have sh: "orc_shards ?st ! k = ?sh" "k < length (orc_shards ?st)" using assms(1) by (simp_all add: set_shard_def)
  then have "orc_step early (now, ?st) (now, set_shard k (session_disconnected ?sh) ?st)"
    using shard_after_open [OF assms(2,3)] by (metis orc_step.o_shard thread_step.t_disconnect)
  moreover have "set_shard k (session_disconnected ?sh) ?st = set_shard k (shard_after cx (Suc d) (orc_shards st ! k)) st"
    by (simp add: shard_after_def)
  ultimately show ?case using Suc by (metis rtranclp.rtrancl_into_rtrancl)
qed

lemma program_step_orchestrator:
  assumes "program_step early calls fresh step pg pg'"
  shows "(orc_step early)\<^sup>*\<^sup>* (pg_now pg, pg_orc pg) (pg_now pg', pg_orc pg')"
  using assms
proof cases
  case (pr_threads now' st')
  then show ?thesis by (simp add: r_into_rtranclp)
next
  case (pr_task k t ts sh')
  have "thread_step (shard_at k pg) sh'" using pr_task(4-7) by (rule thread_step.t_work)
  then have "orc_step early (pg_now pg, pg_orc pg) (pg_now pg, set_shard k sh' (pg_orc pg))"
    using pr_task(2,3) unfolding shard_at_def by (intro orc_step.o_shard)
  then show ?thesis using pr_task(1) by (simp add: r_into_rtranclp)
next
  case (pr_session k l evs s ev s' cx')
  then show ?thesis using session_orc_steps [of k "pg_orc pg"] by (simp add: shard_at_def)
qed

lemma program_orchestrator:
  assumes "program_run early calls fresh step actions ps steps hs pg"
  shows "orchestrator_run early actions (length hs) (pg_now pg, pg_orc pg)"
proof -
  obtain t st where st: "new_orchestrator actions (length hs) = Some st"
    "(program_step early calls fresh step)\<^sup>*\<^sup>* (program_start t st ps steps hs) pg"
    using assms by (auto simp: program_run_def)
  from st(2) have "(orc_step early)\<^sup>*\<^sup>* (t, start_shards t st) (pg_now pg, pg_orc pg)"
  proof (induction rule: rtranclp_induct)
    case base
    then show ?case by (simp add: program_start_def)
  next
    case (step pg pg')
    then show ?case using program_step_orchestrator by (metis rtranclp_trans)
  qed
  then show ?thesis using st(1) unfolding orchestrator_run_def by blast
qed

section \<open>A session's view\<close>

text \<open>The events of a session are a run of it; its contract with the program it runs in.\<close>

locale running_session = pooled_session calls starts sends ps fresh step
  for calls :: "'ev \<Rightarrow> pool_call option" and starts :: "'ev \<Rightarrow> nat" and sends :: "'ev \<Rightarrow> u64"
    and ps :: "payload_descriptor list" and fresh :: "'m session_scheme"
    and step :: "'ev \<Rightarrow> 'm session_scheme \<Rightarrow> 'h shard_context \<Rightarrow> 'm session_scheme \<Rightarrow> 'h shard_context \<Rightarrow> bool" +
  fixes initial :: payload_manager
    and ran :: "'ev list \<Rightarrow> 'm session_scheme \<Rightarrow> 'h shard_context \<Rightarrow> bool"
  assumes ran_new: "cx_manager cx = initial \<Longrightarrow> context_ok ps cx \<Longrightarrow> ran [] fresh cx"
    and ran_step: "ran evs s cx \<Longrightarrow> step ev s cx s' cx' \<Longrightarrow> ran (evs @ [ev]) s' cx'"
    and ran_others: "ran evs s cx \<Longrightarrow> counters_later (cx_manager cx) (cx_manager cx') \<Longrightarrow> ran evs s cx'"
begin

definition session_runs :: "'h shard_context \<Rightarrow> pool_call list \<Rightarrow> 'ev list \<times> 'm session_scheme \<Rightarrow> bool" where
  "session_runs cx inbox e \<longleftrightarrow> prefix (List.map_filter calls (fst e)) inbox \<and> ran (fst e) (snd e) cx"

definition sessions_run :: "nat \<Rightarrow> ('ev, 'm, 'h) program \<Rightarrow> bool" where
  "sessions_run k pg \<longleftrightarrow>
     list_all2 (session_runs (shard_context_at k pg)) (po_sessions (sh_pool (shard_at k pg))) (pg_sessions pg ! k)"

definition program_ok :: "nat \<Rightarrow> ('ev, 'm, 'h) program \<Rightarrow> bool" where
  "program_ok K pg \<longleftrightarrow>
     length (orc_shards (pg_orc pg)) = K \<and> length (pg_sessions pg) = K \<and> length (pg_handlers pg) = K
     \<and> counters_later initial (pg_manager pg) \<and> (\<forall>k < K. sessions_run k pg)"

text \<open>The program starts with counters for its payloads.\<close>

definition initial_ok :: bool where
  "initial_ok \<longleftrightarrow> manager_ok initial \<and> pm_payloads initial = ps"

lemma program_context_ok:
  assumes initial_ok "program_ok K pg"
  shows "context_ok ps (shard_context_at k pg)"
proof -
  have "context_ok ps ((shard_context_at k pg)\<lparr>cx_manager := initial\<rparr>)"
    using assms(1) by (simp add: context_ok_def initial_ok_def)
  moreover have "counters_later initial (cx_manager (shard_context_at k pg))"
    using assms(2) by (simp add: program_ok_def shard_context_at_def)
  ultimately show ?thesis by (auto intro: counters_later_ok)
qed

text \<open>A session that has handled nothing yet.\<close>

lemma ran_nothing:
  assumes initial_ok "counters_later initial (cx_manager cx)"
  shows "ran [] fresh cx"
proof (rule ran_others)
  show "ran [] fresh (cx\<lparr>cx_manager := initial\<rparr>)"
    using assms(1) by (intro ran_new) (simp_all add: context_ok_def initial_ok_def)
qed (use assms(2) in simp)

lemma session_runs_later:
  assumes "list_all2 (session_runs cx) inboxes ss" "counters_later (cx_manager cx) (cx_manager cx')"
    and "length inboxes' = length inboxes" "\<And>l. l < length inboxes \<Longrightarrow> prefix (inboxes ! l) (inboxes' ! l)"
  shows "list_all2 (session_runs cx') inboxes' ss"
  unfolding list_all2_conv_all_nth
proof (intro conjI allI impI)
  show "length inboxes' = length ss" using assms(1,3) by (simp add: list_all2_lengthD)
  fix l
  assume "l < length inboxes'"
  then have "session_runs cx (inboxes ! l) (ss ! l)" "prefix (inboxes ! l) (inboxes' ! l)"
    using assms(1,3,4) by (auto simp: list_all2_conv_all_nth)
  then show "session_runs cx' (inboxes' ! l) (ss ! l)"
    using ran_others [OF _ assms(2)] by (auto simp: session_runs_def intro: prefix_order.trans)
qed

end

lemma handle_action_inboxes:
  assumes "handle_action a p = Some q" "ad_type a \<noteq> CREATE"
  shows "length (po_sessions q) = length (po_sessions p)"
    and "l < length (po_sessions p) \<Longrightarrow> prefix (po_sessions p ! l) (po_sessions q ! l)"
proof -
  have "length (po_sessions q) = length (po_sessions p)
     \<and> (\<forall>l < length (po_sessions p). prefix (po_sessions p ! l) (po_sessions q ! l))"
    using assms by (cases "ad_type a") (auto simp: handle_action_def Let_def start_sessions_range_def send_sessions_range_def
        flood_sessions_range_def drain_sessions_range_def stop_sessions_range_def dest!: post_calls_prefix split: if_splits)
  then show "length (po_sessions q) = length (po_sessions p)"
    "l < length (po_sessions p) \<Longrightarrow> prefix (po_sessions p ! l) (po_sessions q ! l)" by simp_all
qed

lemma set_pool_pool [simp]: "sh_pool (set_pool q sh) = q"
  by (simp add: set_pool_def on_pool_closed_def Let_def)

text \<open>What a task does to the sessions.\<close>

lemma run_next_inboxes:
  assumes "run_next sh = Some sh'" "sh_posted sh = t # ts" "t \<noteq> Task_Metrics"
  shows "(sessions_after fresh t (sh_pool sh) ss = ss \<and> length (po_sessions (sh_pool sh')) = length (po_sessions (sh_pool sh))
      \<and> (\<forall>l < length (po_sessions (sh_pool sh)). prefix (po_sessions (sh_pool sh) ! l) (po_sessions (sh_pool sh') ! l)))
    \<or> (\<exists>n. sessions_after fresh t (sh_pool sh) ss = replicate n ([], fresh) \<and> po_sessions (sh_pool sh') = replicate n [])"
proof (cases t)
  case (Task_Action a)
  let ?n = "ucast (ad_end a - ad_start a) :: u64"
  from Task_Action obtain q where q: "handle_action a (sh_pool sh) = Some q" "sh_pool sh' = q"
    using assms(1,2) by (auto simp: run_next_def run_task_def)
  show ?thesis
  proof (cases "ad_type a = CREATE")
    case True
    then have "q = snd (create_sessions ?n (sh_pool sh))" using q(1) by (simp add: handle_action_def)
    then show ?thesis
      using q(2) True by (cases "po_sessions (sh_pool sh) = []")
        (auto simp: Task_Action sessions_after_def create_sessions_def Let_def)
  next
    case False
    then show ?thesis using handle_action_inboxes [OF q(1) False] q(2) by (simp add: Task_Action sessions_after_def Let_def)
  qed
next
  case Task_Stop
  then obtain q where q: "shutdown (sh_pool sh) = Some q" "sh_pool sh' = q"
    using assms(1,2) by (auto simp: run_next_def run_task_def start_force_stop_timer_def Let_def)
  then show ?thesis using shutdown_posts_nothing [of "sh_pool sh"] by (auto simp add: Task_Stop sessions_after_def)
qed (use assms(3) in simp)

lemma shard_after_inboxes [simp]: "po_sessions (sh_pool (shard_after cx d sh)) = po_sessions (sh_pool sh)"
proof (induction d)
  case (Suc d)
  then show ?case by (simp add: shard_after_def session_disconnected_def)
qed (simp add: shard_after_def session_recorded_def)

lemma counters_later_trans:
  assumes "counters_later a b" "counters_later b c"
  shows "counters_later a c"
proof -
  have step: "list_all2 (list_all2 (\<lambda>c c'. \<exists>n. c' = (advance_counter ^^ n) c)) (pm_counters a) (pm_counters c)"
  proof (rule list_all2_trans [OF list_all2_trans])
    show "\<exists>n. z = (advance_counter ^^ n) x"
      if "\<exists>n. y = (advance_counter ^^ n) x" "\<exists>n. z = (advance_counter ^^ n) y" for x y z
      using that by (metis comp_apply funpow_add)
  qed (use assms in \<open>auto simp: counters_later_def\<close>)
  then show ?thesis using assms by (simp add: counters_later_def)
qed

lemma counters_later_refl [simp]: "counters_later m m"
  unfolding counters_later_def by (auto intro!: list_all2_refl exI [of _ 0])

lemma program_start_shards:
  assumes "new_orchestrator actions K = Some st"
  shows "length (orc_shards (start_shards t st)) = K"
    and "k < K \<Longrightarrow> po_sessions (sh_pool (orc_shards (start_shards t st) ! k)) = []"
  using assms by (auto simp: new_orchestrator_def start_shards_def schedule_metrics_snapshot_def post_task_def
      shard_start_def new_shard_def new_session_pool_def Let_def split: if_splits)

context running_session begin

lemma program_task_ok:
  assumes "program_ok K pg" "k < K" "sh_posted (shard_at k pg) = t # ts" "t \<noteq> Task_Metrics"
    and initial_ok "run_next (shard_at k pg) = Some sh'"
  shows "program_ok K (pg\<lparr>pg_orc := set_shard k sh' (pg_orc pg),
      pg_sessions := (pg_sessions pg)[k := sessions_after fresh t (sh_pool (shard_at k pg)) (pg_sessions pg ! k)]\<rparr>)"
proof -
  let ?ss = "sessions_after fresh t (sh_pool (shard_at k pg)) (pg_sessions pg ! k)"
  let ?pg = "pg\<lparr>pg_orc := set_shard k sh' (pg_orc pg), pg_sessions := (pg_sessions pg)[k := ?ss]\<rparr>"
  have inv: "length (orc_shards (pg_orc pg)) = K" "length (pg_sessions pg) = K"
    "counters_later initial (pg_manager pg)"
    using assms(1) by (simp_all add: program_ok_def)
  have at: "shard_at j ?pg = (if j = k then sh' else shard_at j pg)"
    "pg_sessions ?pg ! j = (if j = k then ?ss else pg_sessions pg ! j)"
    "cx_manager (shard_context_at j ?pg) = cx_manager (shard_context_at j pg)" if "j < K" for j
    using that inv(1,2) by (auto simp: shard_at_def set_shard_def shard_context_at_def)
  have ok: "sessions_run j pg" if "j < K" for j using assms(1) that by (simp add: program_ok_def)
  have "sessions_run j ?pg" if j: "j < K" for j
  proof (cases "j = k")
    case False
    then have "sessions_run j ?pg = sessions_run j pg"
      using at [OF j] by (simp add: sessions_run_def shard_context_at_def)
    then show ?thesis using ok [OF j] by simp
  next
    case True
    have "ran [] fresh (shard_context_at k ?pg)"
      using inv(3) assms(5) by (intro ran_nothing) (simp_all add: shard_context_at_def)
    then have "list_all2 (session_runs (shard_context_at k ?pg)) (replicate n []) (replicate n ([], fresh))" for n
      by (simp add: list_all2_conv_all_nth session_runs_def map_filter_simps)
    then show ?thesis
      using run_next_inboxes [OF assms(6,3,4), of fresh "pg_sessions pg ! k"] at [OF assms(2)] True
        session_runs_later [OF ok [OF assms(2), unfolded sessions_run_def], of "shard_context_at k ?pg"]
      by (auto simp: sessions_run_def)
  qed
  then show ?thesis using assms(1) by (simp add: program_ok_def set_shard_def)
qed

lemma program_session_ok:
  assumes "program_ok K pg" initial_ok "k < K" "l < length (pg_sessions pg ! k)" "pg_sessions pg ! k ! l = (evs, s)"
    and "prefix (List.map_filter calls (evs @ [ev])) (po_sessions (sh_pool (shard_at k pg)) ! l)"
    and "step ev s (shard_context_at k pg) s' cx'"
  shows "program_ok K (pg\<lparr>pg_orc := set_shard k (shard_after cx' d (shard_at k pg)) (pg_orc pg),
      pg_sessions := (pg_sessions pg)[k := (pg_sessions pg ! k)[l := (evs @ [ev], s')]],
      pg_manager := cx_manager cx', pg_handlers := (pg_handlers pg)[k := cx_handler cx']\<rparr>)"
proof -
  let ?ss = "(pg_sessions pg ! k)[l := (evs @ [ev], s')]"
  let ?pg = "pg\<lparr>pg_orc := set_shard k (shard_after cx' d (shard_at k pg)) (pg_orc pg), pg_sessions := (pg_sessions pg)[k := ?ss],
      pg_manager := cx_manager cx', pg_handlers := (pg_handlers pg)[k := cx_handler cx']\<rparr>"
  have inv: "length (orc_shards (pg_orc pg)) = K" "length (pg_sessions pg) = K" "length (pg_handlers pg) = K"
    "counters_later initial (pg_manager pg)"
    using assms(1) by (simp_all add: program_ok_def)
  have cx: "cx_manager (shard_context_at j pg) = pg_manager pg" "cx_manager (shard_context_at j ?pg) = cx_manager cx'" for j
    by (simp_all add: shard_context_at_def)
  have later: "counters_later (pg_manager pg) (cx_manager cx')"
    using step_later [OF assms(7) program_context_ok [OF assms(2,1)]] by (simp add: cx)
  have at: "po_sessions (sh_pool (shard_at j ?pg)) = po_sessions (sh_pool (shard_at j pg))"
    "pg_sessions ?pg ! j = (if j = k then ?ss else pg_sessions pg ! j)" if "j < K" for j
    using that inv(1,2) by (cases "j = k"; simp add: shard_at_def set_shard_def)+
  have "sessions_run j ?pg" if j: "j < K" for j
  proof -
    have "list_all2 (session_runs (shard_context_at j pg)) (po_sessions (sh_pool (shard_at j pg))) (pg_sessions pg ! j)"
      using assms(1) j by (simp add: program_ok_def sessions_run_def)
    note before = this
    have old: "list_all2 (session_runs (shard_context_at j ?pg)) (po_sessions (sh_pool (shard_at j pg))) (pg_sessions pg ! j)"
      by (rule session_runs_later [OF before]) (use later in \<open>simp_all only: cx refl prefix_order.order_refl\<close>)
    have own: "ran evs s (shard_context_at k pg)" if "j = k"
      using list_all2_nthD2 [OF before, of l] assms(4,5) that by (simp add: session_runs_def)
    show ?thesis
    proof (cases "j = k")
      case True
      have "ran (evs @ [ev]) s' (shard_context_at k ?pg)"
        using ran_others [OF ran_step [OF own [OF True] assms(7)], of "shard_context_at k ?pg"] by (simp add: cx)
      then show ?thesis
        using old assms(4,6) True at [OF j] by (auto simp: sessions_run_def list_all2_conv_all_nth nth_list_update session_runs_def)
    next
      case False
      then show ?thesis using old at [OF j] by (simp add: sessions_run_def)
    qed
  qed
  then show ?thesis using inv counters_later_trans [OF inv(4) later] by (simp add: program_ok_def set_shard_def)
qed

lemma program_step_ok:
  assumes "program_step early calls fresh step pg pg'" "program_ok K pg" initial_ok
  shows "program_ok K pg'"
  using assms(1)
proof cases
  case (pr_threads now' st')
  have len: "length (orc_shards st') = K" using arg_cong [OF pr_threads(3), of length] assms(2) by (simp add: program_ok_def)
  have "sessions_run k pg'" if "k < K" for k
  proof -
    have "shard_context_at k pg' = shard_context_at k pg" "sh_pool (shard_at k pg') = sh_pool (shard_at k pg)"
      using that len assms(2) arg_cong [OF pr_threads(3), of "\<lambda>xs. xs ! k"] arg_cong [OF pr_threads(4), of "\<lambda>xs. xs ! k"]
      by (simp_all add: pr_threads(1) shard_context_at_def shard_at_def program_ok_def)
    then show ?thesis using assms(2) that by (simp add: sessions_run_def program_ok_def pr_threads(1))
  qed
  then show ?thesis using assms(2) len by (simp add: program_ok_def pr_threads(1))
next
  case (pr_task k t ts sh')
  then show ?thesis using program_task_ok [OF assms(2) _ _ _ assms(3)] assms(2) by (simp add: program_ok_def)
next
  case (pr_session k l evs s ev s' cx')
  then show ?thesis using program_session_ok [OF assms(2,3)] assms(2) by (simp add: program_ok_def)
qed

text \<open>In a run of the program every session runs, on calls its pool has posted to it.\<close>

lemma program_sessions:
  assumes "program_run early calls fresh step actions ps steps hs pg" "new_payload_manager ps steps = initial" initial_ok
    and "k < length hs" "l < length (pg_sessions pg ! k)" "pg_sessions pg ! k ! l = (evs, s)"
  shows "ran evs s (shard_context_at k pg)"
    and "prefix (List.map_filter calls evs) (po_sessions (sh_pool (shard_at k pg)) ! l)"
    and "length (pg_sessions pg ! k) = length (po_sessions (sh_pool (shard_at k pg)))"
proof -
  obtain t st where st: "new_orchestrator actions (length hs) = Some st"
    "(program_step early calls fresh step)\<^sup>*\<^sup>* (program_start t st ps steps hs) pg"
    using assms(1) by (auto simp: program_run_def)
  have "program_ok (length hs) (program_start t st ps steps hs)"
    using program_start_shards [OF st(1)] assms(2)
    by (simp add: program_ok_def sessions_run_def shard_at_def program_start_def)
  with st(2) have "program_ok (length hs) pg"
    by (induction rule: rtranclp_induct) (blast intro: program_step_ok assms(3))+
  then have "list_all2 (session_runs (shard_context_at k pg)) (po_sessions (sh_pool (shard_at k pg))) (pg_sessions pg ! k)"
    using assms(4) by (simp add: program_ok_def sessions_run_def)
  then show "ran evs s (shard_context_at k pg)" "prefix (List.map_filter calls evs) (po_sessions (sh_pool (shard_at k pg)) ! l)"
    "length (pg_sessions pg ! k) = length (po_sessions (sh_pool (shard_at k pg)))"
    using assms(5,6) by (auto simp: list_all2_conv_all_nth session_runs_def)
qed

end

section \<open>Both transports\<close>

interpretation tcp_running: running_session tcp_call_of starts_of sends_of ps "new_tcp_session cfg" "tcp_step cfg ops" initial
    "\<lambda>evs s cx. \<exists>w. cx_manager (snd w) = initial \<and> tcp_run cfg ops ps w evs (s, cx)"
  for ps cfg ops initial
proof
  fix evs ev s s' and cx cx' :: "'a shard_context"
  show "\<exists>w. cx_manager (snd w) = initial \<and> tcp_run cfg ops ps w [] (new_tcp_session cfg, cx)"
    if "cx_manager cx = initial" "context_ok ps cx"
    using tcp_run.begins [OF that(2)] that(1) by force
  show "\<exists>w. cx_manager (snd w) = initial \<and> tcp_run cfg ops ps w (evs @ [ev]) (s', cx')"
    if "\<exists>w. cx_manager (snd w) = initial \<and> tcp_run cfg ops ps w evs (s, cx)" "tcp_step cfg ops ev s cx s' cx'"
    using that by (auto simp: tcp_step_def intro: tcp_run.handles)
  show "\<exists>w. cx_manager (snd w) = initial \<and> tcp_run cfg ops ps w evs (s, cx')"
    if "\<exists>w. cx_manager (snd w) = initial \<and> tcp_run cfg ops ps w evs (s, cx)"
      "counters_later (cx_manager cx) (cx_manager cx')"
    using that tcp_run.others by blast
qed

interpretation udp_running: running_session udp_call_of udp_starts_of udp_sends_of ps "new_udp_session cfg" "udp_step cfg ops" initial
    "\<lambda>evs s cx. \<exists>w. cx_manager (snd w) = initial \<and> udp_run cfg ops ps w evs (s, cx)"
  for ps cfg ops initial
proof
  fix evs ev s s' and cx cx' :: "'a shard_context"
  show "\<exists>w. cx_manager (snd w) = initial \<and> udp_run cfg ops ps w [] (new_udp_session cfg, cx)"
    if "cx_manager cx = initial" "context_ok ps cx"
    using udp_run.udp_begins [OF that(2)] that(1) by force
  show "\<exists>w. cx_manager (snd w) = initial \<and> udp_run cfg ops ps w (evs @ [ev]) (s', cx')"
    if "\<exists>w. cx_manager (snd w) = initial \<and> udp_run cfg ops ps w evs (s, cx)" "udp_step cfg ops ev s cx s' cx'"
    using that by (auto simp: udp_step_def intro: udp_run.udp_handles)
  show "\<exists>w. cx_manager (snd w) = initial \<and> udp_run cfg ops ps w evs (s, cx')"
    if "\<exists>w. cx_manager (snd w) = initial \<and> udp_run cfg ops ps w evs (s, cx)"
      "counters_later (cx_manager cx) (cx_manager cx')"
    using that udp_run.udp_others by blast
qed

text \<open>The program that executes a plan over TCP; \<open>hs\<close> are the shards' message handlers.\<close>

definition tcp_program ::
  "bool \<Rightarrow> execution_plan \<Rightarrow> 'h handler_ops \<Rightarrow> 'h list \<Rightarrow> (tcp_event, _, 'h) program \<Rightarrow> bool" where
  "tcp_program early plan ops hs pg \<longleftrightarrow>
     length hs = unat (oc_shard_count (pl_config plan))
     \<and> (let cfg = oc_session_config (pl_config plan)
        in program_run early tcp_call_of (new_tcp_session cfg) (tcp_step cfg ops)
             (pl_actions plan) (pl_payloads plan) (pl_counter_steps plan) hs pg)"

lemma tcp_program_session:
  assumes "tcp_program early plan ops hs pg" "k < length hs" "l < length (pg_sessions pg ! k)"
    and "pg_sessions pg ! k ! l = (evs, s)" "manager_ok (new_payload_manager (pl_payloads plan) (pl_counter_steps plan))"
  obtains w where "cx_manager (snd w) = new_payload_manager (pl_payloads plan) (pl_counter_steps plan)"
    "tcp_run (oc_session_config (pl_config plan)) ops (pl_payloads plan) w evs (s, shard_context_at k pg)"
    "prefix (List.map_filter tcp_call_of evs) (po_sessions (sh_pool (shard_at k pg)) ! l)"
    "l < length (po_sessions (sh_pool (shard_at k pg)))"
proof -
  let ?cfg = "oc_session_config (pl_config plan)" and ?m = "new_payload_manager (pl_payloads plan) (pl_counter_steps plan)"
  have run: "program_run early tcp_call_of (new_tcp_session ?cfg) (tcp_step ?cfg ops)
      (pl_actions plan) (pl_payloads plan) (pl_counter_steps plan) hs pg"
    using assms(1) by (simp add: tcp_program_def Let_def)
  have "tcp_running.initial_ok (pl_payloads plan) ?m"
    using assms(5) by (simp add: tcp_running.initial_ok_def new_payload_manager_def Let_def)
  from tcp_running.program_sessions [OF run refl this assms(2-4)] show thesis using that assms(3) by metis
qed

end
