(* ===== verification/Sample_Run.thy ===== *)
theory Sample_Run
  imports Sample_File Orchestration_Properties Pool_Properties Program
begin

text \<open>
  Concrete runs of the orchestrator on the plans of the sample scripts, and one of the whole
  program, at which the theorems about them are applied.
\<close>

section \<open>The orchestrator\<close>

text \<open>One shard, one session: connected, and asked for two payloads.\<close>

definition one_session :: "action_descriptor list" where
  "one_session = [make_connect 0 0 1 5, make_send 0 1 2 12]"

definition one_begun :: orchestrator where
  "one_begun = start_shards 0 (the (new_orchestrator (make_create 0 1 0 # one_session) 1))"

text \<open>All three actions are handed out after twelve milliseconds, and the shard runs them.\<close>

definition one_handed :: orchestrator where
  "one_handed = the (run_orc_next 12000000 one_begun)"

lemma one_handed_step: "orc_step early (0, one_begun) (12000000, one_handed)"
proof -
  have "run_orc_next 12000000 one_begun \<noteq> None" by code_simp
  then have "run_orc_next 12000000 one_begun = Some one_handed" by (auto simp: one_handed_def)
  then show ?thesis by (intro orc_step.o_own own_step.o_task) simp_all
qed

definition one_served :: orchestrator where
  "one_served = after_task (after_task (after_task one_handed))"

lemma one_served_reached:
  "orchestrator_run early (make_create 0 1 0 # one_session) 1 (12000000, one_served)"
proof -
  from one_handed_step have "(orc_step early)\<^sup>*\<^sup>* (0, one_begun) (12000000, one_handed)" by (rule r_into_rtranclp)
  then have "(orc_step early)\<^sup>*\<^sup>* (0, one_begun) (12000000, after_task one_handed)" by (rule after_task_reached) code_simp+
  then have "(orc_step early)\<^sup>*\<^sup>* (0, one_begun) (12000000, after_task (after_task one_handed))" by (rule after_task_reached) code_simp+
  then have "(orc_step early)\<^sup>*\<^sup>* (0, one_begun) (12000000, after_task (after_task (after_task one_handed)))"
    by (rule after_task_reached) code_simp+
  then show ?thesis
    unfolding orchestrator_run_def one_begun_def one_served_def
    by (intro exI [of _ 0] exI [of _ "the (new_orchestrator (make_create 0 1 0 # one_session) 1)"])
      (simp add: new_orchestrator_def)
qed

text \<open>The parts of the sample script's plan the orchestrator run above uses.\<close>

lemma script_plan_parts:
  "pl_actions script_plan = make_create 0 1 0 # one_session" "unat (oc_shard_count (pl_config script_plan)) = 1"
  by code_simp+

text \<open>The plan of the script that floods first.\<close>

definition flood_plan :: execution_plan where
  "flood_plan = projr (generate_plan_common flood_os sample_options (\<lambda>_. True) 0 flood_script NOP_Factory (TCP_Hosts []))"

definition flood_start :: orchestrator where
  "flood_start = start_shards 0 (the (new_orchestrator (pl_actions flood_plan) 1))"

section \<open>The program\<close>

text \<open>When a shard's thread can run a handler of one of its sessions, and what that leaves in place.\<close>

definition shard_ready :: "nat \<Rightarrow> ('ev, 'm, 'h) program \<Rightarrow> bool" where
  "shard_ready k pg \<longleftrightarrow>
     k < length (orc_shards (pg_orc pg)) \<and> k < length (pg_sessions pg) \<and> k < length (pg_handlers pg)
     \<and> \<not> sh_closed (shard_at k pg) \<and> \<not> sh_stopped (shard_at k pg)"

lemma shard_after_keeps:
  "sh_metrics (shard_after cx d sh) = cx_metrics cx" "sh_posted (shard_after cx d sh) = sh_posted sh"
proof -
  have "sh_metrics (shard_after cx d sh) = cx_metrics cx \<and> sh_posted (shard_after cx d sh) = sh_posted sh"
    by (induction d) (simp_all add: shard_after_def session_recorded_def session_disconnected_def set_pool_def
        on_pool_closed_def Let_def)
  then show "sh_metrics (shard_after cx d sh) = cx_metrics cx" "sh_posted (shard_after cx d sh) = sh_posted sh"
    by simp_all
qed

lemma program_session_step:
  assumes "(program_step early calls fresh step)\<^sup>*\<^sup>* x pg" "shard_ready k pg"
    and "l < length (pg_sessions pg ! k)" "pg_sessions pg ! k ! l = (evs, s)"
    and "prefix (List.map_filter calls (evs @ [ev])) (po_sessions (sh_pool (shard_at k pg)) ! l)"
    and "step ev s (shard_context_at k pg) s' cx'"
  obtains pg' where "(program_step early calls fresh step)\<^sup>*\<^sup>* x pg'" "shard_ready k pg'"
    "l < length (pg_sessions pg' ! k)" "pg_sessions pg' ! k ! l = (evs @ [ev], s')" "shard_context_at k pg' = cx'"
    "po_sessions (sh_pool (shard_at k pg')) = po_sessions (sh_pool (shard_at k pg))"
    "sh_posted (shard_at k pg') = sh_posted (shard_at k pg)" "orc_current (pg_orc pg') = orc_current (pg_orc pg)"
proof -
  let ?sh = "shard_after cx' (ss_disconnects s' - ss_disconnects s) (shard_at k pg)"
  let ?pg = "pg\<lparr>pg_orc := set_shard k ?sh (pg_orc pg),
      pg_sessions := (pg_sessions pg)[k := (pg_sessions pg ! k)[l := (evs @ [ev], s')]],
      pg_manager := cx_manager cx', pg_handlers := (pg_handlers pg)[k := cx_handler cx']\<rparr>"
  have ready: "k < length (orc_shards (pg_orc pg))" "k < length (pg_sessions pg)" "k < length (pg_handlers pg)"
    "\<not> sh_closed (shard_at k pg)" "\<not> sh_stopped (shard_at k pg)"
    using assms(2) by (simp_all add: shard_ready_def)
  have at: "shard_at k ?pg = ?sh" using ready(1) by (simp add: shard_at_def set_shard_def)
  have "program_step early calls fresh step pg ?pg"
    using ready assms(3-6) by (intro program_step.pr_session)
  then have "(program_step early calls fresh step)\<^sup>*\<^sup>* x ?pg" using assms(1) by (rule rtranclp.rtrancl_into_rtrancl [rotated])
  moreover have "shard_ready k ?pg"
    using ready shard_after_open [OF ready(4,5), of cx' "ss_disconnects s' - ss_disconnects s"] at by (simp add: shard_ready_def set_shard_def)
  moreover have "shard_context_at k ?pg = cx'"
    using ready(3) at by (simp add: shard_context_at_def shard_after_keeps)
  ultimately show thesis
    using that [of ?pg] ready(2) assms(3) at by (simp add: shard_after_keeps) (simp add: set_shard_def)
qed

text \<open>A task of the first shard.\<close>

lemma program_task_step:
  assumes "(program_step early calls fresh step)\<^sup>*\<^sup>* x \<lparr>pg_now = n, pg_orc = st, pg_sessions = [ss], pg_manager = m, pg_handlers = hs\<rparr>"
    and "0 < length (orc_shards st)" "\<not> sh_closed (orc_shards st ! 0)" "\<not> sh_stopped (orc_shards st ! 0)"
    and "sh_posted (orc_shards st ! 0) = t # ts" "t \<noteq> Task_Metrics" "run_next (orc_shards st ! 0) \<noteq> None"
    and "sessions_after fresh t (sh_pool (orc_shards st ! 0)) ss = ss'"
  shows "(program_step early calls fresh step)\<^sup>*\<^sup>* x
    \<lparr>pg_now = n, pg_orc = after_task st, pg_sessions = [ss'], pg_manager = m, pg_handlers = hs\<rparr>"
proof -
  let ?pg = "\<lparr>pg_now = n, pg_orc = st, pg_sessions = [ss], pg_manager = m, pg_handlers = hs\<rparr>"
  obtain sh' where sh': "run_next (orc_shards st ! 0) = Some sh'" using assms(7) by blast
  have "program_step early calls fresh step ?pg (?pg\<lparr>pg_orc := set_shard 0 sh' (pg_orc ?pg),
      pg_sessions := (pg_sessions ?pg)[0 := sessions_after fresh t (sh_pool (shard_at 0 ?pg)) (pg_sessions ?pg ! 0)]\<rparr>)"
    using assms(2-6) sh' by (intro program_step.pr_task) (simp_all add: shard_at_def)
  then show ?thesis using assms(1,8) sh' by (simp add: shard_at_def after_task_def)
qed

text \<open>The sample's plan on one TCP session: started, asked for two payloads, then connected.\<close>

definition script_config :: session_config where
  "script_config = oc_session_config (pl_config script_plan)"

lemma script_config_reads: "\<not> cfg_read_messages script_config"
  by code_simp

lemma script_manager_ok: "manager_ok (new_payload_manager (pl_payloads script_plan) (pl_counter_steps script_plan))"
  by (rule planned_manager_ok [OF script_plan_generated script_well_formed])

lemma connect_writes:
  assumes "\<not> cfg_read_messages cfg" "context_ok ps cx" "ps \<noteq> []"
    and "s = (start_op (Connect_Op 0) ((new_tcp_session cfg)\<lparr>ss_live := True, tcp_connecting := True\<rparr>))\<lparr>ss_writes_queued := 2\<rparr>"
  obtains s' cx' d where "tcp_step cfg ops (Tcp_Connected 0 False) s cx s' cx'" "ss_log s' = [d]" "is_payload d"
    "ss_writes_queued s' = 1" "\<not> ss_flood s'"
proof -
  let ?s = "(complete_op (Tcp_Connected 0 False) s)\<lparr>tcp_connecting := False\<rparr>"
  let ?cx = "on_metrics record_connection_success (on_metrics (record_connection_latency (latency_us 0 0)) cx)"
  have s: "\<not> ss_writing ?s" "\<not> ss_flood ?s" "ss_writes_queued ?s = 2" "ss_responses ?s = []" "ss_log ?s = []"
    "ss_next_payload_index ?s = 0" "Connect_Op 0 \<in> set (ss_pending s)"
    by (simp_all add: assms(4) complete_op_def start_op_def new_tcp_session_def session.defs new_session_def)
  have ok: "manager_ok (cx_manager ?cx)" "0 < length (pm_payloads (cx_manager ?cx))"
    using assms(2,3) by (simp_all add: context_ok_def on_metrics_def)
  obtain p where "fill_payload (\<lambda>_. 0) 0 (cx_manager ?cx) (ss_current_payload ?s) = Some (True, p)"
    using fill_payload_manager [OF ok] by metis
  then have "\<exists>s' cx' d. do_write cfg (\<lambda>_. 0) 0 ?s ?cx = Some (s', cx') \<and> ss_log s' = [d] \<and> is_payload d
      \<and> ss_writes_queued s' = 1 \<and> \<not> ss_flood s'"
    using s(1-6) by (subst do_write.simps) (cases p, simp add: issue_write_def start_op_def sample_write_start_def Let_def)
  then obtain s' cx' d where w: "do_write cfg (\<lambda>_. 0) 0 ?s ?cx = Some (s', cx')" "ss_log s' = [d]" "is_payload d"
    "ss_writes_queued s' = 1" "\<not> ss_flood s'" by blast
  then have "tcp_handle cfg ops sample_moment (Tcp_Connected 0 False) s cx = Some (s', cx')"
    using s assms(1) by (simp add: tcp_handle_def tcp_connected_def tcp_on_connect_def Let_def)
  then have "tcp_step cfg ops (Tcp_Connected 0 False) s cx s' cx'"
    using s(7) by (auto simp: tcp_step_def tcp_enabled_def)
  then show thesis using that w(2-5) by blast
qed

definition script_counters :: payload_manager where
  "script_counters = new_payload_manager (pl_payloads script_plan) (pl_counter_steps script_plan)"

text \<open>The orchestrator has handed out the plan, and the shard has run it.\<close>

lemma script_program_served:
  fixes ops :: "'h handler_ops" and h :: 'h
  defines "fresh \<equiv> new_tcp_session script_config" and "step \<equiv> tcp_step script_config ops"
    and "start \<equiv> the (new_orchestrator (pl_actions script_plan) 1)"
  shows "(program_step early tcp_call_of fresh step)\<^sup>*\<^sup>*
    (program_start 0 start (pl_payloads script_plan) (pl_counter_steps script_plan) [h])
    \<lparr>pg_now = 12000000, pg_orc = one_served, pg_sessions = [[([], fresh)]], pg_manager = script_counters, pg_handlers = [h]\<rparr>"
proof -
  let ?steps = "(program_step early tcp_call_of fresh step)\<^sup>*\<^sup>*
    (program_start 0 start (pl_payloads script_plan) (pl_counter_steps script_plan) [h])"
  let ?pg = "\<lambda>n st ss. \<lparr>pg_now = n, pg_orc = st, pg_sessions = [ss], pg_manager = script_counters, pg_handlers = [h]\<rparr>"
  have "start_shards 0 start = one_begun" by (simp add: start_def one_begun_def script_plan_parts(1))
  then have started: "?steps (?pg 0 one_begun [])" by (simp add: program_start_def script_counters_def)
  have same: "map sh_pool (orc_shards one_handed) = map sh_pool (orc_shards one_begun)"
    "map sh_metrics (orc_shards one_handed) = map sh_metrics (orc_shards one_begun)" by code_simp+
  have "program_step early tcp_call_of fresh step (?pg 0 one_begun []) ((?pg 0 one_begun [])\<lparr>pg_now := 12000000, pg_orc := one_handed\<rparr>)"
    using one_handed_step same by (intro program_step.pr_threads) simp_all
  then have handed: "?steps (?pg 12000000 one_handed [])" using started by simp
  have posted: "sh_posted (orc_shards one_handed ! 0) = [Task_Action (make_create 0 1 0), Task_Action (make_connect 0 0 1 5),
      Task_Action (make_send 0 1 2 12), Task_Stop]"
    "sh_posted (orc_shards (after_task one_handed) ! 0) =
      [Task_Action (make_connect 0 0 1 5), Task_Action (make_send 0 1 2 12), Task_Stop]"
    "sh_posted (orc_shards (after_task (after_task one_handed)) ! 0) = [Task_Action (make_send 0 1 2 12), Task_Stop]"
    by code_simp+
  have fresh_pool: "sh_pool (orc_shards one_handed ! 0) = new_session_pool" by code_simp
  have created: "sessions_after fresh (Task_Action (make_create 0 1 0)) new_session_pool [] = [([], fresh)]"
    by (simp add: sessions_after_def make_create_def create_sessions_def new_session_pool_def Let_def)
  have kept: "sessions_after fresh (Task_Action (make_connect 0 0 1 5)) p ss = ss"
    "sessions_after fresh (Task_Action (make_send 0 1 2 12)) p ss = ss" for p ss
    by (simp_all add: sessions_after_def make_connect_def make_send_def Let_def)
  have open_shard: "0 < length (orc_shards one_handed)" "0 < length (orc_shards (after_task one_handed))"
    "0 < length (orc_shards (after_task (after_task one_handed)))"
    "\<not> sh_closed (orc_shards one_handed ! 0)" "\<not> sh_closed (orc_shards (after_task one_handed) ! 0)"
    "\<not> sh_closed (orc_shards (after_task (after_task one_handed)) ! 0)"
    "\<not> sh_stopped (orc_shards one_handed ! 0)" "\<not> sh_stopped (orc_shards (after_task one_handed) ! 0)"
    "\<not> sh_stopped (orc_shards (after_task (after_task one_handed)) ! 0)" by code_simp+
  have runs: "run_next (orc_shards one_handed ! 0) \<noteq> None" "run_next (orc_shards (after_task one_handed) ! 0) \<noteq> None"
    "run_next (orc_shards (after_task (after_task one_handed)) ! 0) \<noteq> None" by code_simp+
  have "?steps (?pg 12000000 (after_task one_handed) [([], fresh)])"
    using program_task_step [OF handed open_shard(1,4,7) posted(1) _ runs(1)] by (simp add: fresh_pool created)
  then have "?steps (?pg 12000000 (after_task (after_task one_handed)) [([], fresh)])"
    using program_task_step [OF _ open_shard(2,5,8) posted(2) _ runs(2)] kept(1) by blast
  then show ?thesis
    unfolding one_served_def using program_task_step [OF _ open_shard(3,6,9) posted(3) _ runs(3)] kept(2) by blast
qed

text \<open>Then its session handles both calls, and the connection.\<close>

lemma script_program_runs:
  obtains pg s d where "tcp_program early script_plan ops [h] pg" "0 < length (pg_sessions pg ! 0)"
    "pg_sessions pg ! 0 ! 0 = ([Tcp_Start 0, Tcp_Send 2, Tcp_Connected 0 False], s)" "ss_log s = [d]" "is_payload d"
    "ss_writes_queued s = 1" "\<not> ss_flood s" "po_sessions (sh_pool (shard_at 0 pg)) = [[Call_Start, Call_Send 2]]"
    "sh_posted (shard_at 0 pg) = [Task_Stop]" "orc_current (pg_orc pg) = 3"
proof -
  let ?cfg = script_config and ?fresh = "new_tcp_session script_config"
  let ?start = "program_start 0 (the (new_orchestrator (pl_actions script_plan) 1)) (pl_payloads script_plan)
      (pl_counter_steps script_plan) [h]"
  let ?steps = "(program_step early tcp_call_of ?fresh (tcp_step ?cfg ops))\<^sup>*\<^sup>* ?start"
  let ?pg = "\<lparr>pg_now = 12000000, pg_orc = one_served, pg_sessions = [[([] :: tcp_event list, ?fresh)]], pg_manager = script_counters,
      pg_handlers = [h]\<rparr>"
  let ?s1 = "start_op (Connect_Op 0) (?fresh\<lparr>ss_live := True, tcp_connecting := True\<rparr>)"
  let ?s2 = "?s1\<lparr>ss_writes_queued := 2\<rparr>"
  have served: "0 < length (orc_shards one_served)" "\<not> sh_closed (orc_shards one_served ! 0)"
    "\<not> sh_stopped (orc_shards one_served ! 0)" "po_sessions (sh_pool (orc_shards one_served ! 0)) = [[Call_Start, Call_Send 2]]"
    "sh_posted (orc_shards one_served ! 0) = [Task_Stop]" "orc_current one_served = 3" by code_simp+
  then have at: "shard_ready 0 ?pg" "po_sessions (sh_pool (shard_at 0 ?pg)) = [[Call_Start, Call_Send 2]]"
    "sh_posted (shard_at 0 ?pg) = [Task_Stop]" "orc_current (pg_orc ?pg) = 3"
    by (simp_all add: shard_ready_def shard_at_def)
  have start: "tcp_step ?cfg ops (Tcp_Start 0) ?fresh cx ?s1 (on_metrics record_connection_attempt cx)" for cx
    by (simp add: tcp_step_def tcp_enabled_def tcp_handle_def complete_op_def tcp_start_def)
  have send: "tcp_step ?cfg ops (Tcp_Send 2) ?s1 cx ?s2 cx" for cx
    by (simp add: tcp_step_def tcp_enabled_def tcp_handle_def complete_op_def tcp_send_def session_send_def tcp_ready_def
        start_op_def new_tcp_session_def session.defs new_session_def)
  obtain pg1 where pg1: "?steps pg1" "shard_ready 0 pg1" "0 < length (pg_sessions pg1 ! 0)"
      "pg_sessions pg1 ! 0 ! 0 = ([Tcp_Start 0], ?s1)" "cx_manager (shard_context_at 0 pg1) = script_counters"
      "po_sessions (sh_pool (shard_at 0 pg1)) = [[Call_Start, Call_Send 2]]" "sh_posted (shard_at 0 pg1) = [Task_Stop]"
      "orc_current (pg_orc pg1) = 3"
    by (rule program_session_step [OF script_program_served [where early = early] at(1) _ _ _ start, of 0 "[]"])
      (use at that in \<open>simp_all add: map_filter_simps on_metrics_def shard_context_at_def\<close>)
  obtain pg2 where pg2: "?steps pg2" "shard_ready 0 pg2" "0 < length (pg_sessions pg2 ! 0)"
      "pg_sessions pg2 ! 0 ! 0 = ([Tcp_Start 0, Tcp_Send 2], ?s2)" "cx_manager (shard_context_at 0 pg2) = script_counters"
      "po_sessions (sh_pool (shard_at 0 pg2)) = [[Call_Start, Call_Send 2]]" "sh_posted (shard_at 0 pg2) = [Task_Stop]"
      "orc_current (pg_orc pg2) = 3"
    by (rule program_session_step [OF pg1(1-4) _ send]) (simp add: pg1(6) map_filter_simps, rule that, simp_all add: pg1(5-8))
  have ok: "context_ok (pl_payloads script_plan) (shard_context_at 0 pg2)"
    using script_manager_ok by (simp add: context_ok_def pg2(5) script_counters_def new_payload_manager_def Let_def)
  have some: "pl_payloads script_plan \<noteq> []"
    using planned_counters_used(2) [OF script_plan_generated script_well_formed] by (auto simp: sample_actions)
  obtain s3 cx3 d where s3: "tcp_step ?cfg ops (Tcp_Connected 0 False) ?s2 (shard_context_at 0 pg2) s3 cx3"
      "ss_log s3 = [d]" "is_payload d" "ss_writes_queued s3 = 1" "\<not> ss_flood s3"
    by (rule connect_writes [OF script_config_reads ok some refl])
  obtain pg3 where pg3: "?steps pg3" "0 < length (pg_sessions pg3 ! 0)"
      "pg_sessions pg3 ! 0 ! 0 = ([Tcp_Start 0, Tcp_Send 2, Tcp_Connected 0 False], s3)"
      "po_sessions (sh_pool (shard_at 0 pg3)) = [[Call_Start, Call_Send 2]]" "sh_posted (shard_at 0 pg3) = [Task_Stop]"
      "orc_current (pg_orc pg3) = 3"
    by (rule program_session_step [OF pg2(1-4) _ s3(1)]) (simp add: pg2(6) map_filter_simps, rule that, simp_all add: pg2(5-8))
  have "new_orchestrator (pl_actions script_plan) 1 = Some (the (new_orchestrator (pl_actions script_plan) 1))"
    by (simp add: script_plan_parts(1) new_orchestrator_def)
  then have "tcp_program early script_plan ops [h] pg3"
    using pg3(1) unfolding tcp_program_def program_run_def script_config_def
    by (auto simp: script_plan_parts(2) Let_def)
  then show thesis using that pg3 s3 by blast
qed

end
