(* ===== verification/Spec2Isabelle.thy ===== *)
theory Spec2Isabelle
  imports Script_Properties Plan_Properties Session_Properties Pool_Properties Orchestration_Properties Guest_Properties
    Console_Properties Sample_Run
begin

text \<open>
  Loadshear is a load generator. A script in its own language says which packets to send to a
  server, from how many sessions and when; the program reads it, checks it, turns it into a
  plan, and runs the plan on TCP or UDP sessions spread over worker threads, while a terminal
  interface shows what happens. This development models that program, from the bytes of a
  script file to the bytes a session writes, and proves what makes the parts correct. Paths
  below are under \<^verbatim>\<open>src/\<close> unless they start with \<^verbatim>\<open>sdk/\<close>.

  The program's parts, in the order data flows through them, and the theories that hold them:

  Script language. \<open>Diagnostics\<close> (\<^verbatim>\<open>interpreter/diagnostic-colors\<close>) has the styles of the error
  messages. \<open>Lexer\<close> (\<^verbatim>\<open>interpreter/token.h\<close>, \<^verbatim>\<open>lexer\<close>) turns the source into tokens, the read
  position being the unread rest. \<open>Script_Structs\<close> has the data of \<^verbatim>\<open>script-structs.h\<close> as records
  with fields at their width. \<open>Parser\<close> (\<^verbatim>\<open>parser\<close>) and \<open>Interpreter\<close> (\<^verbatim>\<open>interpreter\<close>) return the
  value or the very message the source builds. \<open>Resolver\<close> (\<^verbatim>\<open>resolver/resolver\<close>) is the expansion
  of paths and the reading of files. \<open>Script_Print\<close> prints a script, as the reference for the
  round trip. \<open>Schedule\<close> is the abstract machine on sets of sessions that the validator's flag
  vectors refine. \<open>Interpreted\<close> has what is left to rely on after the validator.

  Planning. \<open>Numeric_Bytes\<close> and \<open>Payloads\<close> (\<^verbatim>\<open>packets/payload-structs.h\<close>, \<^verbatim>\<open>payload-manager\<close>) are the
  operations of a payload, the shared counters, and the buffers \<^verbatim>\<open>fill_payload\<close> makes, where a
  pointer carries the number of the allocation it points into. \<open>Execution_Plan\<close>
  (\<^verbatim>\<open>cli/execution-plan\<close>, \<^verbatim>\<open>orchestrator/action-descriptor.h\<close>) is the generation of a plan for both
  transports. \<open>Plan_Layout\<close> says what a SEND should put on the wire, as overwritten fields of the
  packet, and that the operations the plan cuts the packet into do it; \<open>Plan_Correct\<close> finds each
  SEND's payloads and offsets in the plan; \<open>Plan_Run\<close> fills them again and again; \<open>Plan_Defined\<close>
  shows that no index of the planning stage leaves its vector. \<open>Accepted_Sends\<close> is about the SENDs
  the validator lets through: what their acceptance gives of the plan's conditions, and what is
  planned for fields that are not listed in the order of their positions.

  Sessions. \<open>Message_Handlers\<close> (\<^verbatim>\<open>packets/\<close>) has both handlers as records of two functions on
  a handler state, under the locale \<open>message_handler\<close> that states what a session relies on: one
  callback for every message. \<open>WASM_Module\<close> is the constructor of the handler with a guest,
  \<open>Guest_Contract\<close> what that handler needs of a guest to get its answers (the locale
  \<open>bump_allocated\<close>), and \<open>Heartbeat\<close> and \<open>Echo_Guest\<close> are the two guests of \<^verbatim>\<open>sdk/wasm/\<close>.
  \<open>Metrics\<close> (\<^verbatim>\<open>metrics/\<close>) is the counters and histograms. \<open>Session_Core\<close> is what
  \<^verbatim>\<open>transports/tcp-session\<close> and \<^verbatim>\<open>udp-session\<close> share, \<open>TCP_Session\<close> and \<open>UDP_Session\<close> the rest: one
  function per handler, run by events, an operation in flight being an entry of \<open>ss_pending\<close>.
  A run (\<open>tcp_run\<close>, \<open>udp_run\<close>) is any sequence of the events that can happen, with other sessions
  moving the shared counters in between, on a plan whose payloads can all be filled from inside
  their packets (\<open>context_ok\<close>). The plan of an accepted script has this when its packets are below
  4 GiB and its SENDs list their fields in order (\<open>accepted_well_formed\<close>, \<open>planned_manager_ok\<close>); the
  first write of a payload that has not reads past the packet, so nothing is said after it. \<open>Session_Invariant\<close> has the invariant of a run,
  \<open>Session_Reads\<close> the read side and progress, \<open>Session_Bytes\<close> the bytes written.

  Orchestration. \<open>Session_Pool\<close>, \<open>Shard\<close> and \<open>Orchestrator\<close> (\<^verbatim>\<open>orchestrator/\<close>) are the pool of a shard's
  sessions, the shard's queue of work with its guard and its force-stop timer, and the dispatch
  loop, the division of the sessions, the rounds of metrics and the shutdown. \<open>Pool_Sessions\<close> puts a
  pool and its sessions together (\<open>pool_system\<close>, under the locale \<open>pooled_session\<close>). \<open>Dispatch\<close> has the
  specification of the dispatch loop and \<open>Calls\<close> the calls a plan means for each session.
  \<open>Orchestrator_Run\<close> is the running orchestrator: its thread takes one posted handler or one timer
  a step, each shard's thread one task, and the two post to each other (\<open>orc_step\<close>, and
  \<open>orchestrator_run\<close> for what they reach from the start). It has the invariants of the dispatch and
  of the rounds of metrics, \<open>Orchestrator_End\<close> those of the end of the run and the bound on the
  orchestrator's steps, \<open>Orchestrator_Work\<close> that every shard is served its part of the plan, and
  \<open>Orchestrator_Finish\<close> that every run can be finished (\<open>calm_step\<close>: the steps that need no failure,
  no stop from outside and no session).
  \<open>Script_Run\<close> joins this with the validator: which plans the orchestrator gets, and what their calls
  are in terms of the script. \<open>Program\<close> is the whole program at work, the orchestrator, its shards and
  every session of every shard in one state (\<open>program_step\<close>): its steps are steps of the
  orchestrator's run, and what happens to one session is a run of that session (under the locale
  \<open>running_session\<close>, for both transports).

  Console. \<open>Logger\<close> (\<^verbatim>\<open>logger/logger\<close>) is the log with its worker thread, one entry a step. \<open>Display\<close>,
  \<open>Histogram\<close> and \<open>Terminal\<close> (\<^verbatim>\<open>cli/numeric-strings.h\<close>, \<^verbatim>\<open>create-histogram.h\<close>,
  \<^verbatim>\<open>create-numeric-display.h\<close>) are the texts of the terminal interface, with the arithmetic of
  doubles done exactly. \<open>CLI\<close> (\<^verbatim>\<open>cli/cli\<close>, \<^verbatim>\<open>cli-parsing\<close>, \<^verbatim>\<open>main.cpp\<close>) goes from the options to the
  orchestrator; its effects are a list. \<open>CLI_Correct\<close> has what follows for the dry run, the
  question and the exit status.

  \<open>Prelude\<close> has what all share: words, the result type with \<open>bindE\<close>, \<open>guardE\<close> and \<open>foldE\<close>, and the
  string functions of C++. \<open>Sample_Script\<close> and \<open>Sample_File\<close> are a concrete script, its files and
  its plan, at which the theorems are applied, and \<open>Sample_Run\<close> is a run of the program on it. The properties are in \<open>Script_Properties\<close>,
  \<open>Plan_Properties\<close>, \<open>Session_Properties\<close>, \<open>Pool_Properties\<close>, \<open>Guest_Properties\<close>, \<open>Orchestration_Properties\<close> and
  \<open>Console_Properties\<close>; those that span the whole program are below.

  How the parts fit together. A file is read, tokenized, parsed, completed and verified
  (\<open>interpreted_scripts_plan_safely\<close>); the plan of the script has its actions in order
  (\<open>plan_actions_in_order\<close>) and for every copy of a SEND a payload that fills to the packet with
  the listed fields overwritten, if they are listed in the order of their positions, and else
  reaches past the packet (\<open>send_matches_script\<close>). The dispatch loop hands out the actions
  that are due (\<open>dispatch_hands_out_due_actions\<close>), each to the shards it concerns
  (\<open>shard_ranges_fair\<close>), provided the first is CREATE, which the validator does not quite ensure
  (\<open>action_before_create_is_undefined\<close>); a shard posts to each session exactly the calls that name it
  (\<open>sessions_get_the_plans_calls\<close>), which are those of the script's actions
  (\<open>script_actions_reach_sessions\<close>); a session that handles them writes the bytes the script says
  (\<open>session_writes_match_script\<close>), taking the copies of all SENDs in rotation. \<open>script_reaches_the_wire\<close> is the whole way from the script's file to
  what each session of the running program has written, and how much. Meanwhile one round of metrics is pulled at a time
  (\<open>metrics_rounds_exclude_each_other\<close>), until a shard has ended (\<open>ended_shard_ends_metrics\<close>). The
  shard ends when its pool is closed and its last session
  is over (\<open>pool_closes_after_its_sessions\<close>), but for a session that was
  started again while it was live (\<open>restart_of_live_session_never_closes\<close>), and the orchestrator
  when every shard has ended (\<open>orchestrator_outlives_its_shards\<close>). At any time a run can still be
  finished without help (\<open>orchestrator_can_finish\<close>).

  What is assumed, and where it stands in the model:

    \<^item> A handler of a session is one step, since the session's strand runs its handlers one at
      a time; an operation of the log is one step, since its mutex covers it; a shard's task is
      one step, since its thread runs its queue.

    \<^item> A task of a shard includes the callback it makes to the orchestrator, which only posts;
      an event of a session and the call it makes to its pool are one step too.

    \<^item> A timer that is cancelled before it expires does not run its handler, which would return
      at once. One of the orchestrator that has expired queues its handler, a shard's force-stop
      timer runs it in the same step. An exception of a shard's thread is
      a step that may come at any time.

    \<^item> Only the counters are shared between shards. Each is advanced by an atomic \<^verbatim>\<open>fetch_add\<close>, so
      between two steps of a session any counter may have moved on (\<open>counters_later\<close>); within
      one fill the model reads the counters of one payload together.

    \<^item> A socket completes an operation that is in flight, a read with the bytes it asked for.

    \<^item> A linear memory keeps its size when it is written (\<open>memory_law\<close>). A guest's call returns,
      gives an error (a trap is one), or throws; the source unwraps the result of a call, which
      aborts the process on an error before a \<^verbatim>\<open>catch\<close> is reached, so sessions are given a handler
      whose guest gives none (\<open>never_fails\<close>).

    \<^item> The construction of the orchestrator, its run and the terminal's loop are arguments of the
      command line, each of which may return, throw or do what is undefined (\<open>call_end\<close>); the
      start of the thread may throw. Their own behaviour is the other theories'.

    \<^item> The operating system, the name service, the compiler of modules, the allocator, the
      option parser, the terminal, the clocks and a guest are arguments of the definitions that
      use them. A hash map is an association list in any order.

    \<^item> What C++ leaves undefined (an index past the end, an over-long shift, a division by zero)
      is \<open>None\<close> or an error of its own, and the theorems say when it cannot happen.

  Recursion and fuel: parsing and lexing recurse on what is left to read. The writer
  \<^verbatim>\<open>do_write\<close> may not return, so it is a partial function, and \<open>do_write_returns_iff\<close> says when it
  does not. The dispatch loop takes as fuel the number of remaining actions and one more, which
  is enough because every turn but the last hands out an action; \<open>dispatch_hands_out_due_actions\<close>
  has that it returns. The log's worker needs at most four steps more than there are entries
  after the shutdown (\<open>log_drains_at_shutdown\<close>). After its last shard has ended the orchestrator's
  thread takes at most twice the actions left, three times the handlers posted and five more steps.

  Not modelled. The colours of the bars and the layout of the terminal interface are calls of
  the drawing library. The grammar of the command line's options is the option library's; its
  results are modelled. The event loops of the socket library are represented by the steps
  they allow. The offset between two metrics pulls, the locale of numbers and the start of
  the shards' threads are left out. The tests, the build and packaging files and the documents are
  not part of the model.
\<close>

section \<open>From the script to the plan\<close>

text \<open>C11: scripts the interpreter returns plan safely. Whatever the file, the environment and the
  uninitialised fields, when \<^verbatim>\<open>parse_script\<close> succeeds its script has been validated, its
  defaults are set, it has at least one shard and a handler the planning stage knows, and
  generating its plan never runs an index past a vector: it returns a plan or a message. The
  script creates its sessions once and first, unless it begins with an action on no session.\<close>

theorem interpreted_scripts_plan_safely:
  assumes "parse_script env opts hs bm uninit name = Inr d"
  shows "verify_script env opts d = Inr ()
     \<and> set_script_defaults env (ds_settings d) = ds_settings d \<and> st_shards (ds_settings d) \<noteq> 0
     \<and> make_factory env opts compiles (ds_settings d) \<noteq> Inr No_Factory
     \<and> generate_plan_common env opts ok count d factory host \<noteq> Inl Undefined_Behaviour
     \<and> (let acts = or_actions (ds_orchestrator d)
        in creates_once acts \<or> acts \<noteq> [] \<and> act_type (hd acts) \<noteq> CREATE \<and> rng_second (act_range (hd acts)) = 0)"
proof -
  obtain d' where d': "d = d'\<lparr>ds_settings := set_script_defaults env (ds_settings d')\<rparr>" "verify_script env opts d = Inr ()"
    using parse_script_Inr [OF assms(1)] by metis
  have "set_script_defaults env (ds_settings d) = ds_settings d"
    using verified_fields(1) [OF d'(2)] d'(1)
    by (simp add: set_script_defaults_def Let_def DEFAULT_PACKET_SAMPLE_RATE_def)
  then show ?thesis
    using d'(2) verified_fields(1) verified_handler plan_common_defined [OF interpreted_mods [OF assms(1)]]
      accepted_creates_once [OF d'(2)] unfolding Let_def by blast
qed

theorem interpreted_scripts_plan_safely_witness:
  "parse_script script_os sample_options 7 9 0 ''s.ldsh'' = Inr sample_script
   \<and> generate_plan_common script_os sample_options (\<lambda>_. True) 0 sample_script NOP_Factory (TCP_Hosts [])
       \<noteq> Inl Undefined_Behaviour"
  using interpreted_scripts_plan_safely [OF sample_parsed] sample_parsed by simp

text \<open>C3: from the script's file to the sessions. Take a script the interpreter returns that begins
  with CREATE, and a run of the orchestrator on its plan, with the plan's shards, however its
  threads interleave. When every action has been handed out and a shard has run its work, each
  of the shard's sessions has got exactly the calls that the script's actions on its global
  index ask for, in the script's order.\<close>

theorem script_actions_reach_sessions:
  assumes "parse_script env opts hs bm uninit name = Inr d"
    and "generate_plan_common env opts ok count d factory host = Inr plan"
  defines "acts \<equiv> or_actions (ds_orchestrator d)" and "K \<equiv> unat (oc_shard_count (pl_config plan))"
  assumes "act_type (hd acts) = CREATE" "orchestrator_run False (pl_actions plan) K (now, st)"
    and "orc_current st = length (pl_actions plan)" "k < K" "actions_in (sh_posted (orc_shards st ! k)) = []"
  defines "first \<equiv> cut (unat (rng_second (act_range (hd acts)))) K"
  shows "po_sessions (sh_pool (orc_shards st ! k)) =
     map (\<lambda>l. map script_call (filter (\<lambda>a. first k + l \<in> action_sessions a) (tl acts))) [0..<first (Suc k) - first k]"
  using parse_script_Inr [OF assms(1)] script_run_calls(1) [OF _ assms(2)] assms(5-9)
  unfolding acts_def K_def first_def by metis

theorem script_actions_reach_sessions_witness:
  "orchestrator_run False (pl_actions script_plan) 1 (12000000, one_served)
   \<and> po_sessions (sh_pool (orc_shards (one_served) ! 0)) = [[Call_Start, Call_Send 2]]"
proof -
  let ?st = one_served
  let ?acts = "or_actions (ds_orchestrator sample_script)"
  have run: "orchestrator_run False (pl_actions script_plan) 1 (12000000, ?st)"
    unfolding script_plan_parts(1) by (rule one_served_reached)
  have finished: "orc_current ?st = length (pl_actions script_plan)" "actions_in (sh_posted (orc_shards ?st ! 0)) = []"
    unfolding script_plan_parts(1) by code_simp+
  have calls: "map (\<lambda>l. map script_call (filter (\<lambda>a. cut 1 1 0 + l \<in> action_sessions a) (tl ?acts)))
      [0..<cut 1 1 (Suc 0) - cut 1 1 0] = [[Call_Start, Call_Send 2]]"
    by (simp add: sample_defs cut_def script_call_def action_sessions_def)
  have range: "unat (rng_second (act_range (hd ?acts))) = 1" by (simp add: sample_defs)
  have create: "act_type (hd ?acts) = CREATE" by (simp add: sample_actions)
  from script_actions_reach_sessions [OF sample_parsed script_plan_generated create,
      unfolded script_plan_parts(2) range, OF run finished(1) _ finished(2)]
  show ?thesis using run calls by simp
qed

section \<open>From the script to the wire\<close>

text \<open>The counts of a session once all actions have been handed out, run and handled.\<close>

lemma session_counts:
  assumes plan: "generate_plan_common env opts ok count d factory host = Inr plan" "verify_script env opts d = Inr ()"
    and run: "tcp_program False plan ops hs pg" "k < length hs" "l < length (po_sessions (sh_pool (shard_at k pg)))"
    and inv: "session_inv (pl_payloads plan) (tcp_starts evs) (tcp_sends evs) s"
  defines "acts \<equiv> or_actions (ds_orchestrator d)"
  defines "first \<equiv> cut (unat (rng_second (act_range (hd acts)))) (length hs)"
  defines "mine \<equiv> filter (\<lambda>a. first k + l \<in> action_sessions a) (tl acts)"
  assumes at_end: "act_type (hd acts) = CREATE" "orc_current (pg_orc pg) = length acts"
      "actions_in (sh_posted (shard_at k pg)) = []"
      "List.map_filter tcp_call_of evs = po_sessions (sh_pool (shard_at k pg)) ! l" "\<not> ss_flood s"
  shows "ss_writes_queued s + of_nat (length (filter is_payload (ss_log s)))
        = (\<Sum>a \<leftarrow> filter (\<lambda>a. act_type a = SEND) mine. ucast (act_count a))
      \<and> ss_disconnects s + (if ss_live s then 1 else 0) \<le> length (filter (\<lambda>a. act_type a = CONNECT) mine)"
proof -
  have K: "length hs = unat (oc_shard_count (pl_config plan))" using run(1) by (simp add: tcp_program_def)
  have "orchestrator_run False (pl_actions plan) (length hs) (pg_now pg, pg_orc pg)"
    using run(1) unfolding tcp_program_def Let_def by (blast intro: program_orchestrator)
  moreover have "length (pl_actions plan) = length acts"
    using list_all2_lengthD [OF plan_describes [OF plan(1)]] by (simp add: acts_def)
  ultimately have "po_sessions (sh_pool (shard_at k pg)) =
      map (\<lambda>l. map script_call (filter (\<lambda>a. first k + l \<in> action_sessions a) (tl acts))) [0..<first (Suc k) - first k]"
    and other: "\<forall>a \<in> set (tl acts). act_type a \<noteq> CREATE"
    using script_run_calls [OF plan(2,1), folded acts_def, folded K] at_end(1-3) run(2)
    unfolding shard_at_def first_def by metis+
  then have calls: "List.map_filter tcp_call_of evs = map script_call mine"
    using at_end(4) run(3) by (simp add: mine_def)
  have mine: "\<forall>a \<in> set mine. act_type a \<noteq> CREATE" using other by (auto simp: mine_def)
  have "tcp_sends evs = (\<Sum>a \<leftarrow> filter (\<lambda>a. act_type a = SEND) mine. ucast (act_count a))"
    by (simp add: tcp_sends_def tcp_type.sends_of_calls calls script_calls_of_actions [OF mine])
  moreover have "tcp_starts evs = length (filter (\<lambda>a. act_type a = CONNECT) mine)"
    by (simp only: tcp_starts_def tcp_type.starts_of_calls calls script_calls_of_actions [OF mine])
  ultimately show ?thesis
    using inv at_end(5) payload_indices_length [of "ss_log s"]
    by (auto simp: session_inv_def accounted_def requests_taken_def closed_once_def Let_def split: if_splits)
qed

text \<open>C2: from the script's file to the bytes on the wire. Take a script the interpreter returns
  whose packets are distinct files below 4 GiB and whose SENDs list their fields in the order of
  their positions without overlap (the validator does not see to it; C1 says what a SEND that
  does not is planned as), and the program that executes its plan over TCP, with the plan's
  shards, all its sessions and the counters they share, in any run. At any time, the \<open>i\<close>-th
  payload a session has written is the copy \<open>i\<close> falls on when the copies of all SENDs of the
  script are taken in rotation, whatever sessions those SENDs name, and its bytes are the file of
  that SEND's packet with exactly the listed fields overwritten, with counters that grow from one
  write of a copy to its next. So a SEND's sessions and copies settle how many payloads a session
  writes, not which. If the script begins with CREATE, every action has been handed out, the
  session's shard has run its work and the session, which does not flood, has handled the calls
  posted to it, then the payloads it has written and those it has still to write are together
  the counts of the script's SENDs that name its global index, modulo \<open>2 ^ 64\<close>, and it has
  disconnected at most as often as the script's CONNECTs name it.\<close>

theorem script_reaches_the_wire:
  assumes "parse_script env opts hs0 bm uninit name = Inr d"
    and "generate_plan_common env opts ok count d factory host = Inr plan"
    and "distinct_packets env opts d" "small_packets env opts d" "sends_listed_in_order d"
    and "tcp_program False plan ops hs pg" "k < length hs" "l < length (pg_sessions pg ! k)"
    and "pg_sessions pg ! k ! l = (evs, s)"
  defines "acts \<equiv> or_actions (ds_orchestrator d)" and "n \<equiv> length (pl_payloads plan)"
    and "ws \<equiv> filter is_payload (ss_log s)"
  defines "first \<equiv> cut (unat (rng_second (act_range (hd acts)))) (length hs)"
  defines "mine \<equiv> filter (\<lambda>a. first k + l \<in> action_sessions a) (tl acts)"
  shows "(\<exists>ns clk.
        (\<forall>i < length ws. \<exists>pre a post c packet.
          acts = pre @ a # post \<and> act_type a = SEND \<and> c < unat (act_count a)
          \<and> sent_packet env opts d a = Some packet \<and> i mod n = send_copies pre + c
          \<and> ws ! i = Payload_Write (i mod n)
              (Some (patched (clk i) 0 (counters_at (send_steps a) (ns i)) (send_fields a) packet)))
        \<and> (\<forall>i j. i < j \<longrightarrow> j < length ws \<longrightarrow> i mod n = j mod n \<longrightarrow> list_all2 (<) (ns i) (ns j)))
     \<and> (act_type (hd acts) = CREATE \<and> orc_current (pg_orc pg) = length acts
          \<and> actions_in (sh_posted (shard_at k pg)) = []
          \<and> List.map_filter tcp_call_of evs = po_sessions (sh_pool (shard_at k pg)) ! l \<and> \<not> ss_flood s \<longrightarrow>
          ss_writes_queued s + of_nat (length ws) = (\<Sum>a \<leftarrow> filter (\<lambda>a. act_type a = SEND) mine. ucast (act_count a))
          \<and> ss_disconnects s + (if ss_live s then 1 else 0) \<le> length (filter (\<lambda>a. act_type a = CONNECT) mine))"
proof -
  note wf = accepted_well_formed [OF assms(1-5)]
  have verified: "verify_script env opts d = Inr ()" using parse_script_Inr [OF assms(1)] by metis
  have manager: "manager_ok (new_payload_manager (pl_payloads plan) (pl_counter_steps plan))"
    by (rule planned_manager_ok [OF assms(2) wf])
  obtain w where w: "cx_manager (snd w) = new_payload_manager (pl_payloads plan) (pl_counter_steps plan)"
    and run: "tcp_run (oc_session_config (pl_config plan)) ops (pl_payloads plan) w evs (s, shard_context_at k pg)"
    and posted: "l < length (po_sessions (sh_pool (shard_at k pg)))"
    by (rule tcp_program_session [OF assms(6-9) manager])
  note written = tcp_run_written [OF run w planned_counters_used(1) [OF assms(2) wf]]
  have inv: "session_inv (pl_payloads plan) (tcp_starts evs) (tcp_sends evs) s" using tcp_run_inv [OF run] by simp
  have rotation: "in_rotation (length (pl_payloads plan)) s" using inv by (simp add: session_inv_def)
  note count = session_counts [OF assms(2) verified assms(6,7) posted inv, folded acts_def ws_def]
  have writes: "written_with (pl_payloads plan) (pl_counter_steps plan) (payload_writes s) (cx_manager (shard_context_at k pg))"
    using written by simp
  have sent: "sent_packet env opts d a = Some packet" if "well_formed_send env opts d a packet" for a packet
    using well_formed_sent_packet [OF assms(3) that] .
  obtain ns clk where bytes: "\<forall>i < length ws. \<exists>pre a post c packet.
        acts = pre @ a # post \<and> act_type a = SEND \<and> c < unat (act_count a)
        \<and> well_formed_send env opts d a packet \<and> i mod n = send_copies pre + c
        \<and> ws ! i = Payload_Write (i mod n)
            (Some (patched (clk i) 0 (counters_at (send_steps a) (ns i)) (send_fields a) packet))"
    and grow: "\<forall>i j. i < j \<longrightarrow> j < length ws \<longrightarrow> i mod n = j mod n \<longrightarrow> list_all2 (<) (ns i) (ns j)"
    using planned_writes [OF assms(2) wf writes rotation, folded acts_def n_def ws_def] by blast
  have "\<exists>pre a post c packet. acts = pre @ a # post \<and> act_type a = SEND \<and> c < unat (act_count a)
        \<and> sent_packet env opts d a = Some packet \<and> i mod n = send_copies pre + c
        \<and> ws ! i = Payload_Write (i mod n)
            (Some (patched (clk i) 0 (counters_at (send_steps a) (ns i)) (send_fields a) packet))" if "i < length ws" for i
    using bytes that sent by fast
  then show ?thesis using grow count by (intro conjI impI) (blast, simp_all add: mine_def first_def)
qed

theorem script_reaches_the_wire_witness:
  "\<exists>pg s clk ns. tcp_program False script_plan nop_handler [()] pg
     \<and> pg_sessions pg ! 0 ! 0 = ([Tcp_Start 0, Tcp_Send 2, Tcp_Connected 0 False], s)
     \<and> ss_writes_queued s + of_nat (length (ss_log s)) = 2
     \<and> ss_log s = [Payload_Write 0 (Some (patched clk 0 (counters_at [3] ns) (send_fields sample_send) sample_file))]"
proof -
  let ?acts = "or_actions (ds_orchestrator sample_script)"
  obtain pg s e where pg: "tcp_program False script_plan nop_handler [()] pg" "0 < length (pg_sessions pg ! 0)"
    "pg_sessions pg ! 0 ! 0 = ([Tcp_Start 0, Tcp_Send 2, Tcp_Connected 0 False], s)"
    and log: "ss_log s = [e]" "is_payload e" "\<not> ss_flood s"
    and at: "po_sessions (sh_pool (shard_at 0 pg)) = [[Call_Start, Call_Send 2]]" "sh_posted (shard_at 0 pg) = [Task_Stop]"
      "orc_current (pg_orc pg) = 3"
    by (rule script_program_runs)
  have one: "0 < length [()]" by simp
  note whole = script_reaches_the_wire [OF sample_parsed script_plan_generated script_files sample_listed pg(1) one pg(2,3)]
  have acts: "act_type (hd ?acts) = CREATE" "length ?acts = 3" by (simp_all add: sample_actions)
  have "ss_writes_queued s + of_nat (length (ss_log s)) = 2"
    using conjunct2 [OF whole] log at acts by (simp add: map_filter_simps sample_defs action_sessions_def cut_def)
  moreover obtain ns clk pre a post c packet where a: "?acts = pre @ a # post" "act_type a = SEND"
    "sent_packet script_os sample_options sample_script a = Some packet"
    "e = Payload_Write 0 (Some (patched (clk 0) 0 (counters_at (send_steps a) (ns (0::nat))) (send_fields a) packet))"
    using conjunct1 [OF whole] log by auto
  have "a = sample_send" by (rule sample_only_send [OF a(1,2)])
  then have "e = Payload_Write 0 (Some (patched (clk 0) 0 (counters_at [3] (ns 0)) (send_fields sample_send) sample_file))"
    using a(3,4) script_packet by auto
  ultimately show ?thesis using pg(1,3) log(1) by blast
qed

section \<open>Actions before CREATE\<close>

text \<open>C16: an action before CREATE is undefined behaviour. In any run of a plan that does not begin
  with CREATE no action is ever handed out, and when a dispatch runs with the first action due it
  reads the range of a shard from the empty vector of ranges. The validator does not exclude
  it: a script that begins with FLOOD 0:0 is accepted and planned, and reaches that dispatch.\<close>

theorem action_before_create_is_undefined:
  assumes "orchestrator_run early actions K (now, st)" "actions \<noteq> []" "ad_type (hd actions) \<noteq> CREATE" "0 < K"
  shows "orc_current st = 0
     \<and> (orc_posted st = Dispatch_Actions # ts \<and> target_time st (hd actions) \<le> now' \<longrightarrow> run_orc_next now' st = None)"
proof -
  obtain a as where acts: "actions = a # as" using assms(2) by (cases actions) auto
  show ?thesis
    using run_before_create [OF assms(1) [unfolded acts] _ assms(4)] assms(3) by (auto simp: acts before_create_def)
qed

theorem action_before_create_is_undefined_witness:
  "parse_script flood_os sample_options 7 9 0 ''s.ldsh'' = Inr flood_script
   \<and> generate_plan_common flood_os sample_options (\<lambda>_. True) 0 flood_script NOP_Factory (TCP_Hosts []) = Inr flood_plan
   \<and> orchestrator_run False (pl_actions flood_plan) 1 (0, flood_start) \<and> run_orc_next 0 flood_start = None"
proof -
  have plan: "generate_plan_common flood_os sample_options (\<lambda>_. True) 0 flood_script NOP_Factory (TCP_Hosts []) = Inr flood_plan"
    using flood_plan_isl by (simp add: flood_plan_def)
  have parts: "pl_actions flood_plan = make_flood 0 0 0 0 # make_create 0 1 0 # one_session" by code_simp
  have first: "pl_actions flood_plan \<noteq> []" "ad_type (hd (pl_actions flood_plan)) \<noteq> CREATE"
    unfolding parts by (simp_all add: make_flood_def)
  have new: "new_orchestrator (pl_actions flood_plan) 1 = Some (the (new_orchestrator (pl_actions flood_plan) 1))"
    unfolding parts by (simp add: new_orchestrator_def)
  then have run: "orchestrator_run False (pl_actions flood_plan) 1 (0, flood_start)"
    unfolding orchestrator_run_def flood_start_def by blast
  have "orc_posted flood_start = [Dispatch_Actions]" "target_time flood_start (hd (pl_actions flood_plan)) \<le> 0"
    unfolding flood_start_def parts
    by (simp_all add: new_orchestrator_def start_shards_def schedule_metrics_snapshot_def post_task_def target_time_def
        make_flood_def Let_def)
  then show ?thesis
    using action_before_create_is_undefined [OF run first, of "[]" 0] flood_parsed plan run by simp
qed

end
